(* ===== verification/Prelude.thy ===== *)
theory Prelude
  imports Main "HOL-Library.Word" "HOL-Library.AList" "HOL-Library.Sublist"
begin

text \<open>
  The prelude of the rps development: the names of the machine integers, errors as values,
  byte readers, the big-endian codecs of the Rust standard library
  (\<^verbatim>\<open>to_be_bytes\<close>, \<^verbatim>\<open>from_be_bytes\<close>, \<^verbatim>\<open>read_u16\<close>, \<^verbatim>\<open>read_u32\<close>), saturating arithmetic,
  the finite maps that stand for \<^verbatim>\<open>HashMap\<close> and \<^verbatim>\<open>DashMap\<close> values, and the two interfaces
  every component shares: an invariant of a transition system, and a wire codec.
  Nothing here is specific to one source file of the repository.
\<close>

unbundle bit_operations_syntax

named_theorems rps_simps \<open>equations that unfold the small operations of the model\<close>
named_theorems inv_intros \<open>operations that keep a component's invariant\<close>

type_synonym byte = "8 word"
type_synonym u16 = "16 word"
type_synonym u32 = "32 word"
type_synonym u64 = "64 word"

section \<open>Errors\<close>

text \<open>
  An \<^verbatim>\<open>io::Error\<close> has a kind and a message, an \<^verbatim>\<open>anyhow::Error\<close> made by \<^verbatim>\<open>bail!\<close>,
  \<^verbatim>\<open>ensure!\<close> or \<^verbatim>\<open>anyhow!\<close> is its message. A fallible function returns
  \<^typ>\<open>'e + 'a\<close> with the error on the left.
\<close>

datatype io_kind = UnexpectedEof | InvalidData | BrokenPipe | TimedOut | OtherIo

datatype error = IoError io_kind string | Bail string

fun err_string :: "error \<Rightarrow> string" where
  "err_string (IoError k m) = m"
| "err_string (Bail m) = m"

definition is_ok :: "'e + 'a \<Rightarrow> bool" where
  "is_ok r = (case r of Inl _ \<Rightarrow> False | Inr _ \<Rightarrow> True)"

lemma is_ok_simps [simp]: "is_ok (Inl e) = False" "is_ok (Inr x) = True"
  by (simp_all add: is_ok_def)

lemma is_ok_iff: "is_ok r \<longleftrightarrow> (\<exists>x. r = Inr x)"
  by (cases r) auto

section \<open>Byte readers\<close>

text \<open>
  A byte reader is the list of the bytes the peer still delivers before the stream ends.
  \<^verbatim>\<open>read_exact\<close> takes as many bytes as its buffer is long, and fails at the end of the
  stream.
\<close>

type_synonym bytes = "byte list"

definition eof_error :: error where
  "eof_error = IoError UnexpectedEof ''early eof''"

definition read_exact :: "nat \<Rightarrow> bytes \<Rightarrow> error + bytes \<times> bytes" where
  "read_exact n bs = (if length bs < n then Inl eof_error else Inr (take n bs, drop n bs))"

lemma read_exact_append [simp]: "length xs = n \<Longrightarrow> read_exact n (xs @ rest) = Inr (xs, rest)"
  by (simp add: read_exact_def)

lemma read_exact_Inr:
  "read_exact n bs = Inr (xs, rest) \<longleftrightarrow> bs = xs @ rest \<and> length xs = n"
  by (auto simp: read_exact_def)

lemma read_exact_Inl: "read_exact n bs = Inl e \<longleftrightarrow> length bs < n \<and> e = eof_error"
  by (auto simp: read_exact_def)

lemma read_exact_0 [simp]: "read_exact 0 bs = Inr ([], bs)"
  by (simp add: read_exact_def)

section \<open>Big-endian integers\<close>

definition u16_to_be :: "u16 \<Rightarrow> bytes" where
  "u16_to_be w = [ucast (drop_bit 8 w), ucast w]"

definition u16_from_be :: "byte \<Rightarrow> byte \<Rightarrow> u16" where
  "u16_from_be a b = push_bit 8 (ucast a) OR ucast b"

definition u32_to_be :: "u32 \<Rightarrow> bytes" where
  "u32_to_be w = [ucast (drop_bit 24 w), ucast (drop_bit 16 w), ucast (drop_bit 8 w), ucast w]"

definition u32_from_be :: "byte \<Rightarrow> byte \<Rightarrow> byte \<Rightarrow> byte \<Rightarrow> u32" where
  "u32_from_be a b c d =
     push_bit 24 (ucast a) OR push_bit 16 (ucast b) OR push_bit 8 (ucast c) OR ucast d"

definition u64_to_be :: "u64 \<Rightarrow> bytes" where
  "u64_to_be w = u32_to_be (ucast (drop_bit 32 w)) @ u32_to_be (ucast w)"

lemmas bit_op_iffs = bit_or_iff bit_push_bit_iff bit_unsigned_iff bit_drop_bit_eq o_def

lemma u16_from_to_be: "u16_from_be (ucast (drop_bit 8 w)) (ucast w) = w"
  unfolding u16_from_be_def
  by (rule bit_word_eqI, unfold bit_op_iffs) (auto dest: bit_imp_le_length)

lemma u16_to_from_be: "u16_to_be (u16_from_be a b) = [a, b]"
proof -
  have "(ucast (drop_bit 8 (u16_from_be a b)) :: byte) = a"
    unfolding u16_from_be_def
    by (rule bit_word_eqI, simp only: bit_op_iffs) (auto dest: bit_imp_le_length)
  moreover have "(ucast (u16_from_be a b) :: byte) = b"
    unfolding u16_from_be_def
    by (rule bit_word_eqI, simp only: bit_op_iffs) (auto dest: bit_imp_le_length)
  ultimately show ?thesis by (simp add: u16_to_be_def)
qed

lemma u32_from_to_be:
  "u32_from_be (ucast (drop_bit 24 w)) (ucast (drop_bit 16 w)) (ucast (drop_bit 8 w)) (ucast w) = w"
  unfolding u32_from_be_def
  apply (rule bit_word_eqI)
  subgoal for n
    by (unfold bit_op_iffs, cases "n < 8"; cases "n < 16"; cases "n < 24"; auto)
  done

lemma u32_to_from_be: "u32_to_be (u32_from_be a b c d) = [a, b, c, d]"
proof -
  have "(ucast (drop_bit 24 (u32_from_be a b c d)) :: byte) = a"
    "(ucast (drop_bit 16 (u32_from_be a b c d)) :: byte) = b"
    "(ucast (drop_bit 8 (u32_from_be a b c d)) :: byte) = c"
    "(ucast (u32_from_be a b c d) :: byte) = d"
    unfolding u32_from_be_def
    by (rule bit_word_eqI, simp only: bit_op_iffs, auto dest: bit_imp_le_length)+
  then show ?thesis by (simp add: u32_to_be_def)
qed

lemma length_u16_to_be [simp]: "length (u16_to_be w) = 2"
  by (simp add: u16_to_be_def)

lemma length_u32_to_be [simp]: "length (u32_to_be w) = 4"
  by (simp add: u32_to_be_def)

lemma length_u64_to_be [simp]: "length (u64_to_be w) = 8"
  by (simp add: u64_to_be_def)

text \<open>\<^verbatim>\<open>read_u8\<close>, \<^verbatim>\<open>read_u16\<close> and \<^verbatim>\<open>read_u32\<close> of tokio's reader extension.\<close>

definition read_u8 :: "bytes \<Rightarrow> error + byte \<times> bytes" where
  "read_u8 bs = (case bs of a # rest \<Rightarrow> Inr (a, rest) | _ \<Rightarrow> Inl eof_error)"

definition read_u16 :: "bytes \<Rightarrow> error + u16 \<times> bytes" where
  "read_u16 bs = (case bs of a # b # rest \<Rightarrow> Inr (u16_from_be a b, rest) | _ \<Rightarrow> Inl eof_error)"

definition read_u32 :: "bytes \<Rightarrow> error + u32 \<times> bytes" where
  "read_u32 bs = (case bs of a # b # c # d # rest \<Rightarrow> Inr (u32_from_be a b c d, rest)
                  | _ \<Rightarrow> Inl eof_error)"

lemma read_u8_Cons [simp]: "read_u8 (a # rest) = Inr (a, rest)"
  by (simp add: read_u8_def)

lemma read_u16_append [simp]: "read_u16 (u16_to_be w @ rest) = Inr (w, rest)"
  by (simp add: read_u16_def u16_to_be_def u16_from_to_be)

lemma read_u32_append [simp]: "read_u32 (u32_to_be w @ rest) = Inr (w, rest)"
  by (simp add: read_u32_def u32_to_be_def u32_from_to_be)

lemma read_u32_Inr: "read_u32 bs = Inr (n, rest) \<longleftrightarrow> bs = u32_to_be n @ rest"
proof
  assume "read_u32 bs = Inr (n, rest)"
  then show "bs = u32_to_be n @ rest"
    by (auto simp: read_u32_def u32_to_from_be split: list.splits)
qed simp

text \<open>A length below the width of the field survives the cast to \<open>u32\<close>.\<close>

lemma unat_of_nat_u32 [simp]: "n < 4294967296 \<Longrightarrow> unat (of_nat n :: u32) = n"
  by (simp add: unat_of_nat)

lemma unat_of_nat_u8 [simp]: "n < 256 \<Longrightarrow> unat (of_nat n :: byte) = n"
  by (simp add: unat_of_nat)

section \<open>Saturating arithmetic on unsigned 64-bit values\<close>

definition sat_add :: "u64 \<Rightarrow> u64 \<Rightarrow> u64" where
  "sat_add a b = (if a + b < a then - 1 else a + b)"

definition sat_sub :: "u64 \<Rightarrow> u64 \<Rightarrow> u64" where
  "sat_sub a b = (if a \<le> b then 0 else a - b)"

lemma unat_u64_less: "unat (a :: u64) < 18446744073709551616"
  using unsigned_less [of a, where 'a = nat] by simp

lemma unat_minus_one_u64: "unat (- 1 :: u64) = 18446744073709551615"
  by (simp add: unsigned_minus_1_eq_mask mask_eq_exp_minus_1)

lemma unat_sat_add: "unat (sat_add a b) = min (unat a + unat b) 18446744073709551615"
  using unat_u64_less [of a] unat_u64_less [of b]
  by (auto simp: sat_add_def word_less_nat_alt unat_plus_if' min_def unat_minus_one_u64 split: if_splits)

lemma unat_sat_sub: "unat (sat_sub a b) = unat a - unat b"
  by (auto simp: sat_sub_def word_le_nat_alt unat_sub)

lemma sat_add_ge: "a \<le> sat_add a b" "b \<le> sat_add a b"
  using unat_u64_less [of a] unat_u64_less [of b]
  by (auto simp: word_le_nat_alt unat_sat_add)

lemma sat_add_0 [simp]: "sat_add a 0 = a" "sat_add 0 a = a"
  by (simp_all add: sat_add_def)

section \<open>Finite maps with a size: association lists with distinct keys\<close>

text \<open>
  A \<^verbatim>\<open>HashMap\<close> or \<^verbatim>\<open>DashMap\<close> whose entries are counted or iterated is an association list
  with distinct keys; \<^const>\<open>AList.update\<close> inserts, \<^const>\<open>AList.delete\<close> removes and
  \<^const>\<open>map_of\<close> looks a key up. The iteration order is the list's.
\<close>

abbreviation keys :: "('k \<times> 'v) list \<Rightarrow> 'k list" where
  "keys al \<equiv> map fst al"

declare map_of_eq_Some_iff [simp del] Some_eq_map_of_iff [simp del]

lemma map_of_update [simp]: "map_of (AList.update k v al) = (map_of al)(k \<mapsto> v)"
  by (rule update_conv')

lemma map_of_delete [simp]: "map_of (AList.delete k al) = (map_of al)(k := None)"
  by (rule delete_conv')

lemma update_fresh: "map_of al k = None \<Longrightarrow> AList.update k v al = al @ [(k, v)]"
  by (induction al) (auto split: if_splits)

lemma distinct_keys_delete [simp]: "distinct (keys al) \<Longrightarrow> distinct (keys (AList.delete k al))"
  by (rule distinct_delete)

lemma distinct_keys_update [simp]: "distinct (keys al) \<Longrightarrow> distinct (keys (AList.update k v al))"
  by (rule distinct_update)

lemma delete_absent: "map_of al k = None \<Longrightarrow> AList.delete k al = al"
  by (induction al) (auto split: if_splits)

lemma count_delete:
  assumes "distinct (keys al)" and "map_of al k = Some v"
  shows "length (filter P (AList.delete k al)) + (if P (k, v) then 1 else 0) = length (filter P al)"
  using assms
proof (induction al)
  case (Cons p al)
  show ?case
  proof (cases "fst p = k")
    case True
    with Cons.prems have "map_of al k = None" "p = (k, v)"
      by (cases p, auto simp: map_of_eq_None_iff image_iff)+
    with True show ?thesis by (simp add: delete_absent)
  next
    case False
    with Cons show ?thesis by auto
  qed
qed simp

lemma snd_delete:
  assumes "distinct (keys al)" and "distinct (map snd al)" and "map_of al k = Some v"
  shows "set (map snd (AList.delete k al)) = set (map snd al) - {v}"
    and "distinct (map snd (AList.delete k al))"
proof -
  have inj: "inj_on snd (set al)" using assms(2) by (simp add: distinct_map)
  have kv: "(k, v) \<in> set al" using assms(3) by (rule map_of_SomeD)
  have "fst p = k \<longleftrightarrow> p = (k, v)" if "p \<in> set al" for p
    using that assms(1,3) by (metis fst_conv map_of_is_SomeI option.inject prod.collapse)
  then have "{p \<in> set al. fst p \<noteq> k} = set al - {(k, v)}" by blast
  then have "snd ` {p \<in> set al. fst p \<noteq> k} = snd ` set al - {v}"
    using inj kv by (simp add: inj_on_image_set_diff [of snd "set al"])
  then show "set (map snd (AList.delete k al)) = set (map snd al) - {v}"
    by (simp add: AList.delete_eq case_prod_beta' eq_commute [of k])
  show "distinct (map snd (AList.delete k al))"
    using assms(2) by (simp add: AList.delete_eq distinct_map inj_on_def)
qed

lemma keys_filter_Some:
  "distinct (keys al) \<Longrightarrow>
   map_of (filter P al) k = (case map_of al k of None \<Rightarrow> None | Some v \<Rightarrow> if P (k, v) then Some v else None)"
  by (induction al) (auto simp: map_of_eq_None_iff split: option.splits)

lemma distinct_keys_filter [simp]: "distinct (keys al) \<Longrightarrow> distinct (keys (filter P al))"
  by (induction al) auto

lemma nth_update_frame:
  assumes "\<And>x. f (g x) = f x"
  shows "f (xs[c := g (xs ! c)] ! i) = f (xs ! i)"
  by (cases "c < length xs"; cases "i = c") (simp_all add: assms list_update_beyond)

section \<open>Transition systems and their invariants\<close>

inductive reachable :: "('s \<Rightarrow> bool) \<Rightarrow> ('s \<Rightarrow> 's \<Rightarrow> bool) \<Rightarrow> 's \<Rightarrow> bool" for init step where
  reach_init: "init s \<Longrightarrow> reachable init step s"
| reach_step: "reachable init step s \<Longrightarrow> step s t \<Longrightarrow> reachable init step t"

locale invariant_system =
  fixes init :: "'s \<Rightarrow> bool" and step :: "'s \<Rightarrow> 's \<Rightarrow> bool" and inv :: "'s \<Rightarrow> bool"
  assumes inv_init: "init s \<Longrightarrow> inv s"
    and inv_step: "inv s \<Longrightarrow> step s t \<Longrightarrow> inv t"
begin

lemma reachable_inv: "reachable init step s \<Longrightarrow> inv s"
  by (induction rule: reachable.induct) (auto intro: inv_init inv_step)

lemma reachable_steps_inv: "inv s \<Longrightarrow> step\<^sup>*\<^sup>* s t \<Longrightarrow> inv t"
  by (rotate_tac, induction rule: rtranclp_induct) (auto intro: inv_step)

end

section \<open>Wire codecs\<close>

text \<open>
  A component that writes self-delimiting messages to a byte stream and reads them back:
  what is written is read back with the rest of the stream untouched, and every successful
  read consumes something.
\<close>

primrec enc_all :: "('a \<Rightarrow> error + bytes) \<Rightarrow> 'a list \<Rightarrow> error + bytes" where
  "enc_all enc [] = Inr []"
| "enc_all enc (x # xs) =
     (case enc x of Inl e \<Rightarrow> Inl e
      | Inr bs \<Rightarrow> (case enc_all enc xs of Inl e \<Rightarrow> Inl e | Inr bs' \<Rightarrow> Inr (bs @ bs')))"

primrec decodes :: "(bytes \<Rightarrow> error + 'a \<times> bytes) \<Rightarrow> 'a list \<Rightarrow> bytes \<Rightarrow> bytes \<Rightarrow> bool" where
  "decodes dec [] bs rest \<longleftrightarrow> bs = rest"
| "decodes dec (x # xs) bs rest \<longleftrightarrow> (\<exists>bs'. dec bs = Inr (x, bs') \<and> decodes dec xs bs' rest)"

locale wire_codec =
  fixes enc :: "'a \<Rightarrow> error + bytes" and dec :: "bytes \<Rightarrow> error + 'a \<times> bytes"
  assumes dec_enc: "enc x = Inr bs \<Longrightarrow> dec (bs @ rest) = Inr (x, rest)"
    and dec_consumes: "dec bs = Inr (x, rest) \<Longrightarrow> length rest < length bs"
begin

lemma enc_all_decodes: "enc_all enc xs = Inr bs \<Longrightarrow> decodes dec xs (bs @ rest) rest"
  by (induction xs arbitrary: bs) (auto split: sum.splits simp: dec_enc)

lemma enc_nonempty: "enc x = Inr bs \<Longrightarrow> bs \<noteq> []"
  using dec_enc [of x bs "[]"] dec_consumes by fastforce

lemma enc_prefix_free: "enc x = Inr bs \<Longrightarrow> enc y = Inr (bs @ more) \<Longrightarrow> x = y \<and> more = []"
  using dec_enc [of x bs more] dec_enc [of y "bs @ more" "[]"] by simp

lemma decodes_unique_rest: "decodes dec xs bs r \<Longrightarrow> decodes dec xs bs r' \<Longrightarrow> r = r'"
  by (induction xs arbitrary: bs) auto

end

end
