(* ===== verification/Rust_Str.thy ===== *)
theory Rust_Str
  imports Prelude
begin

text \<open>
  The string functions of the Rust standard library that rps uses. A \<^verbatim>\<open>String\<close> or
  \<^verbatim>\<open>&str\<close> is its UTF-8 bytes, kept as a \<^typ>\<open>string\<close> (a list of 8-bit characters), so
  \<^verbatim>\<open>len\<close> counts bytes as Rust does. \<^verbatim>\<open>from_utf8\<close> checks well-formedness,
  \<^verbatim>\<open>trim\<close> removes the Unicode white space of the standard library.
\<close>

section \<open>Bytes and characters\<close>

definition byte_of_char :: "char \<Rightarrow> byte" where
  "byte_of_char c = word_of_nat (of_char c)"

definition char_of_byte :: "byte \<Rightarrow> char" where
  "char_of_byte b = char_of (unat b)"

definition as_bytes :: "string \<Rightarrow> bytes" where
  "as_bytes s = map byte_of_char s"

lemma char_of_byte_of_char [simp]: "char_of_byte (byte_of_char c) = c"
proof -
  have "(of_char c :: nat) < 256" by (simp add: of_char_def)
  then show ?thesis by (simp add: char_of_byte_def byte_of_char_def)
qed

lemma unat_byte_less [simp]: "unat (b :: byte) < 256"
  using unsigned_less [of b, where 'a = nat] by simp

lemma byte_of_char_of_byte [simp]: "byte_of_char (char_of_byte b) = b"
  by (simp add: char_of_byte_def byte_of_char_def word_unat_eq_iff unat_of_nat)

lemma inj_byte_of_char: "byte_of_char a = byte_of_char b \<longleftrightarrow> a = b"
  by (metis char_of_byte_of_char)

lemma length_as_bytes [simp]: "length (as_bytes s) = length s"
  by (simp add: as_bytes_def)

lemma as_bytes_append [simp]: "as_bytes (a @ b) = as_bytes a @ as_bytes b"
  by (simp add: as_bytes_def)

lemma map_char_of_byte_as_bytes [simp]: "map char_of_byte (as_bytes s) = s"
  by (simp add: as_bytes_def comp_def)

lemma as_bytes_inj [simp]: "as_bytes a = as_bytes b \<longleftrightarrow> a = b"
  by (metis map_char_of_byte_as_bytes)

section \<open>UTF-8\<close>

text \<open>The well-formed byte sequences of the Unicode standard, table 3-7.\<close>

definition cont_byte :: "byte \<Rightarrow> bool" where
  "cont_byte b \<longleftrightarrow> 0x80 \<le> b \<and> b \<le> 0xBF"

fun utf8_valid :: "bytes \<Rightarrow> bool" where
  "utf8_valid [] = True"
| "utf8_valid (a # r) =
     (if a \<le> 0x7F then utf8_valid r
      else if 0xC2 \<le> a \<and> a \<le> 0xDF then
        (case r of b # r' \<Rightarrow> cont_byte b \<and> utf8_valid r' | _ \<Rightarrow> False)
      else if 0xE0 \<le> a \<and> a \<le> 0xEF then
        (case r of b # c # r' \<Rightarrow>
           (if a = 0xE0 then 0xA0 \<le> b \<and> b \<le> 0xBF
            else if a = 0xED then 0x80 \<le> b \<and> b \<le> 0x9F else cont_byte b) \<and>
           cont_byte c \<and> utf8_valid r'
         | _ \<Rightarrow> False)
      else if 0xF0 \<le> a \<and> a \<le> 0xF4 then
        (case r of b # c # d # r' \<Rightarrow>
           (if a = 0xF0 then 0x90 \<le> b \<and> b \<le> 0xBF
            else if a = 0xF4 then 0x80 \<le> b \<and> b \<le> 0x8F else cont_byte b) \<and>
           cont_byte c \<and> cont_byte d \<and> utf8_valid r'
         | _ \<Rightarrow> False)
      else False)"

definition ascii :: "string \<Rightarrow> bool" where
  "ascii s \<longleftrightarrow> (\<forall>c \<in> set s. byte_of_char c \<le> 0x7F)"

lemma utf8_valid_ascii: "\<forall>b \<in> set bs. b \<le> 0x7F \<Longrightarrow> utf8_valid bs"
  by (induction bs) auto

lemma utf8_valid_as_bytes_ascii: "ascii s \<Longrightarrow> utf8_valid (as_bytes s)"
  by (rule utf8_valid_ascii) (auto simp: ascii_def as_bytes_def)

definition utf8_error :: error where
  "utf8_error = Bail ''invalid utf-8 sequence''"

definition from_utf8 :: "bytes \<Rightarrow> error + string" where
  "from_utf8 bs = (if utf8_valid bs then Inr (map char_of_byte bs) else Inl utf8_error)"

lemma from_utf8_as_bytes: "utf8_valid (as_bytes s) \<Longrightarrow> from_utf8 (as_bytes s) = Inr s"
  by (simp add: from_utf8_def)

lemma from_utf8_Inr: "from_utf8 bs = Inr s \<longleftrightarrow> utf8_valid bs \<and> bs = as_bytes s"
  by (auto simp: from_utf8_def as_bytes_def comp_def)

section \<open>Prefixes, splitting and joining\<close>

definition str_strip_prefix :: "string \<Rightarrow> string \<Rightarrow> string option" where
  "str_strip_prefix p s = (if take (length p) s = p then Some (drop (length p) s) else None)"

lemma str_strip_prefix_append [simp]: "str_strip_prefix p (p @ s) = Some s"
  by (simp add: str_strip_prefix_def)

lemma str_strip_prefix_Some: "str_strip_prefix p s = Some r \<longleftrightarrow> s = p @ r"
  by (auto simp: str_strip_prefix_def) (metis append_take_drop_id)

lemma str_strip_prefix_None: "str_strip_prefix p s = None \<longleftrightarrow> \<not> prefix p s"
  by (metis not_Some_eq prefix_def str_strip_prefix_Some)

fun split_once :: "char \<Rightarrow> string \<Rightarrow> (string \<times> string) option" where
  "split_once c [] = None"
| "split_once c (x # xs) =
     (if x = c then Some ([], xs)
      else (case split_once c xs of None \<Rightarrow> None | Some (a, b) \<Rightarrow> Some (x # a, b)))"

lemma split_once_Some: "split_once c s = Some (a, b) \<longleftrightarrow> s = a @ c # b \<and> c \<notin> set a"
proof (induction s arbitrary: a)
  case (Cons x xs)
  show ?case
  proof (cases a)
    case Nil
    then show ?thesis by (auto split: option.splits)
  next
    case (Cons y ys)
    then show ?thesis using Cons.IH [of ys] by (auto split: option.splits)
  qed
qed simp

lemma split_once_None: "split_once c s = None \<longleftrightarrow> c \<notin> set s"
  by (induction s) (auto split: option.splits)

lemma split_once_append [simp]: "c \<notin> set a \<Longrightarrow> split_once c (a @ c # b) = Some (a, b)"
  by (simp add: split_once_Some)

text \<open>\<^verbatim>\<open>split(c)\<close> by a character: one segment more than there are separators.\<close>

fun split_ch :: "char \<Rightarrow> string \<Rightarrow> string list" where
  "split_ch c [] = [[]]"
| "split_ch c (x # xs) =
     (if x = c then [] # split_ch c xs
      else (case split_ch c xs of [] \<Rightarrow> [[x]] | y # ys \<Rightarrow> (x # y) # ys))"

lemma split_ch_nonempty [simp]: "split_ch c s \<noteq> []"
  by (induction s) (auto split: list.splits)

lemma split_ch_no_sep: "c \<notin> set s \<Longrightarrow> split_ch c s = [s]"
  by (induction s) auto

lemma split_ch_append: "c \<notin> set a \<Longrightarrow> split_ch c (a @ c # b) = a # split_ch c b"
  by (induction a) auto

text \<open>\<^verbatim>\<open>split("\\r\\n")\<close> and \<^verbatim>\<open>join("\\r\\n")\<close>.\<close>

abbreviation CR :: char where "CR \<equiv> CHR 0x0D"
abbreviation LF :: char where "LF \<equiv> CHR 0x0A"

definition crlf :: string where
  "crlf = [CR, LF]"

fun split_crlf :: "string \<Rightarrow> string list" where
  "split_crlf [] = [[]]"
| "split_crlf [x] = [[x]]"
| "split_crlf (x # y # ys) =
     (if x = CR \<and> y = LF then [] # split_crlf ys
      else (case split_crlf (y # ys) of [] \<Rightarrow> [[x]] | z # zs \<Rightarrow> (x # z) # zs))"

fun join :: "string \<Rightarrow> string list \<Rightarrow> string" where
  "join sep [] = []"
| "join sep [x] = x"
| "join sep (x # y # ys) = x @ sep @ join sep (y # ys)"

lemma split_crlf_nonempty [simp]: "split_crlf s \<noteq> []"
  by (induction s rule: split_crlf.induct) (auto split: list.splits)

lemma join_Cons: "join sep (x # ys) = (if ys = [] then x else x @ sep @ join sep ys)"
  by (cases ys) auto

lemma join_split_crlf: "join crlf (split_crlf s) = s"
proof (induction s rule: split_crlf.induct)
  case (3 x y ys)
  then show ?case
    by (auto simp: join_Cons crlf_def split: list.splits if_splits)
qed (auto simp: crlf_def)

text \<open>A string without the two-character separator is one segment.\<close>

definition no_crlf :: "string \<Rightarrow> bool" where
  "no_crlf s \<longleftrightarrow> \<not> sublist crlf s"

lemma split_crlf_segment_no_crlf: "x \<in> set (split_crlf s) \<Longrightarrow> no_crlf x"
proof (induction s arbitrary: x rule: split_crlf.induct)
  case (3 a b r)
  show ?case
  proof (cases "a = CR \<and> b = LF")
    case True
    with 3 show ?thesis by (auto simp: no_crlf_def crlf_def)
  next
    case False
    obtain z zs where z: "split_crlf (b # r) = z # zs" by (cases "split_crlf (b # r)") auto
    have hd: "z = [] \<or> hd z = b"
      using z by (cases r) (auto split: if_splits list.splits)
    have zz: "no_crlf z" using "3.IH"(2) [OF False] z by simp
    have "no_crlf (a # z)"
    proof -
      have "\<not> prefix crlf (a # z)" using False hd by (cases z) (auto simp: crlf_def)
      with zz show ?thesis by (simp add: no_crlf_def sublist_Cons_right)
    qed
    with False z "3.IH"(2) [OF False] "3.prems" show ?thesis by auto
  qed
qed (auto simp: no_crlf_def crlf_def sublist_Cons_right)

section \<open>Case folding, white space, lines\<close>

definition to_ascii_lowercase :: "char \<Rightarrow> char" where
  "to_ascii_lowercase c =
     (let b = byte_of_char c in if 0x41 \<le> b \<and> b \<le> 0x5A then char_of_byte (b + 0x20) else c)"

definition eq_ignore_ascii_case :: "string \<Rightarrow> string \<Rightarrow> bool" where
  "eq_ignore_ascii_case a b \<longleftrightarrow> map to_ascii_lowercase a = map to_ascii_lowercase b"

text \<open>
  \<^verbatim>\<open>char::is_whitespace\<close> on the UTF-8 encoding: one-byte, two-byte and three-byte forms.
\<close>

definition ws1 :: "char \<Rightarrow> bool" where
  "ws1 a \<longleftrightarrow> a \<in> {CHR 0x09, CHR 0x0A, CHR 0x0B, CHR 0x0C, CHR 0x0D, CHR 0x20}"

definition ws2 :: "char \<Rightarrow> char \<Rightarrow> bool" where
  "ws2 a b \<longleftrightarrow> a = CHR 0xC2 \<and> (b = CHR 0x85 \<or> b = CHR 0xA0)"

definition ws3 :: "char \<Rightarrow> char \<Rightarrow> char \<Rightarrow> bool" where
  "ws3 a b c \<longleftrightarrow>
     (a = CHR 0xE1 \<and> b = CHR 0x9A \<and> c = CHR 0x80) \<or>
     (a = CHR 0xE2 \<and> b = CHR 0x80 \<and>
        c \<in> {CHR 0x80, CHR 0x81, CHR 0x82, CHR 0x83, CHR 0x84, CHR 0x85, CHR 0x86, CHR 0x87,
              CHR 0x88, CHR 0x89, CHR 0x8A, CHR 0xA8, CHR 0xA9, CHR 0xAF}) \<or>
     (a = CHR 0xE2 \<and> b = CHR 0x81 \<and> c = CHR 0x9F) \<or>
     (a = CHR 0xE3 \<and> b = CHR 0x80 \<and> c = CHR 0x80)"

fun strip_ws ::
  "(char \<Rightarrow> char \<Rightarrow> bool) \<Rightarrow> (char \<Rightarrow> char \<Rightarrow> char \<Rightarrow> bool) \<Rightarrow> string \<Rightarrow> string" where
  "strip_ws w2 w3 [] = []"
| "strip_ws w2 w3 (a # r) =
     (if ws1 a then strip_ws w2 w3 r
      else (case r of
              b # r2 \<Rightarrow>
                if w2 a b then strip_ws w2 w3 r2
                else (case r2 of
                        c # r3 \<Rightarrow> if w3 a b c then strip_ws w2 w3 r3 else a # r
                      | [] \<Rightarrow> a # r)
            | [] \<Rightarrow> a # r))"

definition trim_start :: "string \<Rightarrow> string" where
  "trim_start s = strip_ws ws2 ws3 s"

definition trim_end :: "string \<Rightarrow> string" where
  "trim_end s = rev (strip_ws (\<lambda>a b. ws2 b a) (\<lambda>a b c. ws3 c b a) (rev s))"

definition trim :: "string \<Rightarrow> string" where
  "trim s = trim_end (trim_start s)"

lemma length_strip_ws: "length (strip_ws w2 w3 s) \<le> length s"
proof (induction w2 w3 s rule: strip_ws.induct)
  case (2 w2 w3 a r)
  consider "ws1 a" | "\<not> ws1 a" "r = []" | b where "\<not> ws1 a" "r = [b]"
    | b c r3 where "\<not> ws1 a" "r = b # c # r3"
    by (metis neq_Nil_conv)
  then show ?case by cases (use 2 in \<open>simp_all add: le_SucI\<close>)
qed simp

lemma length_trim: "length (trim s) \<le> length s"
  using length_strip_ws [of ws2 ws3 s]
    length_strip_ws [of "\<lambda>a b. ws2 b a" "\<lambda>a b c. ws3 c b a" "rev (strip_ws ws2 ws3 s)"]
  by (simp add: trim_def trim_end_def trim_start_def)

text \<open>Printable ASCII without white space is left alone by \<^const>\<open>trim\<close>.\<close>

definition graphic :: "char \<Rightarrow> bool" where
  "graphic c \<longleftrightarrow> 0x21 \<le> byte_of_char c \<and> byte_of_char c \<le> 0x7E"

lemma graphic_not_ws:
  assumes "graphic c"
  shows "\<not> ws1 c" "\<not> ws2 c d" "\<not> ws2 d c" "\<not> ws3 c d e" "\<not> ws3 e d c"
  using assms by (auto simp: graphic_def ws1_def ws2_def ws3_def byte_of_char_def)

lemma trim_graphic_ends:
  assumes "s = [] \<or> (graphic (hd s) \<and> graphic (last s))"
  shows "trim s = s"
proof (cases s rule: rev_cases)
  case Nil
  then show ?thesis by (simp add: trim_def trim_start_def trim_end_def)
next
  case (snoc xs x)
  obtain a r where ar: "s = a # r" using snoc by (metis append_is_Nil_conv neq_Nil_conv not_Cons_self2)
  have "strip_ws ws2 ws3 s = s"
    using assms ar by (auto simp: graphic_not_ws split: list.splits)
  moreover have "strip_ws (\<lambda>a b. ws2 b a) (\<lambda>a b c. ws3 c b a) (x # rev xs) = x # rev xs"
    using assms snoc by (auto simp: graphic_not_ws split: list.splits)
  ultimately show ?thesis using snoc by (simp add: trim_def trim_start_def trim_end_def)
qed

text \<open>\<^verbatim>\<open>str::lines\<close>: lines end at a line feed, one carriage return before it is dropped.\<close>

definition chomp_cr :: "string \<Rightarrow> string" where
  "chomp_cr s = (if s \<noteq> [] \<and> last s = CR then butlast s else s)"

definition str_lines :: "string \<Rightarrow> string list" where
  "str_lines s =
     (let segs = split_ch LF s
      in map chomp_cr (butlast segs) @ (if last segs = [] then [] else [last segs]))"

section \<open>Numbers\<close>

definition digit_char :: "nat \<Rightarrow> char" where
  "digit_char n = char_of (48 + n)"

fun dec_string :: "nat \<Rightarrow> string" where
  "dec_string n =
     (if n < 10 then [digit_char n] else dec_string (n div 10) @ [digit_char (n mod 10)])"

declare dec_string.simps [simp del]

definition str_contains :: "string \<Rightarrow> string \<Rightarrow> bool" where
  "str_contains s pat \<longleftrightarrow> sublist pat s"

lemma str_contains_infix: "str_contains (a @ pat @ b) pat"
  by (auto simp: str_contains_def)

end
