(* ===== verification/Frame.thy ===== *)
theory Frame
  imports Rust_Str
begin

text \<open>
  The mux frame format, \<^verbatim>\<open>crates/rps-mux/src/frame.rs\<close>: frame types and their codes, the
  nine-byte header (type, stream id, payload length), \<^verbatim>\<open>read_frame\<close> and
  \<^verbatim>\<open>write_frame\<close>. The lemmas give the round trip, the bound on every payload that is
  accepted, and every error branch; the interpretation \<open>frame_wire\<close> provides the
  frame codec to the session.
\<close>

definition HEADER_LEN :: nat where "HEADER_LEN = 9"

definition MAX_PAYLOAD_LEN :: nat where "MAX_PAYLOAD_LEN = 16 * 1024 * 1024"

datatype frame_type = Open | OpenAck | Data | Close | Ping | Pong | Error

fun frame_type_code :: "frame_type \<Rightarrow> byte" where
  "frame_type_code Open = 0x01"
| "frame_type_code OpenAck = 0x02"
| "frame_type_code Data = 0x03"
| "frame_type_code Close = 0x04"
| "frame_type_code Ping = 0x05"
| "frame_type_code Pong = 0x06"
| "frame_type_code Error = 0x07"

definition try_from :: "byte \<Rightarrow> error + frame_type" where
  "try_from value =
     (if value = 0x01 then Inr Open
      else if value = 0x02 then Inr OpenAck
      else if value = 0x03 then Inr Data
      else if value = 0x04 then Inr Close
      else if value = 0x05 then Inr Ping
      else if value = 0x06 then Inr Pong
      else if value = 0x07 then Inr Error
      else Inl (IoError InvalidData (''unknown frame type '' @ dec_string (unat value))))"

record frame =
  frame_type :: frame_type
  stream_id :: u32
  payload :: bytes

definition Frame_new :: "frame_type \<Rightarrow> u32 \<Rightarrow> bytes \<Rightarrow> frame" where
  "Frame_new ft sid p = \<lparr>frame_type = ft, stream_id = sid, payload = p\<rparr>"

definition payload_too_large :: error where
  "payload_too_large = IoError InvalidData ''mux payload too large''"

definition read_frame :: "bytes \<Rightarrow> error + frame \<times> bytes" where
  "read_frame reader =
     (case read_exact HEADER_LEN reader of
        Inl e \<Rightarrow> Inl e
      | Inr (header, reader1) \<Rightarrow>
          (case try_from (header ! 0) of
             Inl e \<Rightarrow> Inl e
           | Inr ft \<Rightarrow>
               let sid = u32_from_be (header ! 1) (header ! 2) (header ! 3) (header ! 4);
                   len = unat (u32_from_be (header ! 5) (header ! 6) (header ! 7) (header ! 8))
               in if len > MAX_PAYLOAD_LEN then Inl payload_too_large
                  else if len > 0 then
                    (case read_exact len reader1 of
                       Inl e \<Rightarrow> Inl e
                     | Inr (p, reader2) \<Rightarrow> Inr (Frame_new ft sid p, reader2))
                  else Inr (Frame_new ft sid [], reader1)))"

text \<open>The bytes \<^verbatim>\<open>write_frame\<close> hands to the writer, in order.\<close>

definition write_frame :: "frame \<Rightarrow> error + bytes" where
  "write_frame f =
     (if length (payload f) > MAX_PAYLOAD_LEN then Inl payload_too_large
      else
        let header = [frame_type_code (frame_type f)] @ u32_to_be (stream_id f)
                       @ u32_to_be (of_nat (length (payload f)))
        in Inr (header @ (if payload f \<noteq> [] then payload f else [])))"

section \<open>Frame types\<close>

lemma try_from_code: "try_from (frame_type_code ft) = Inr ft"
  by (cases ft) (simp_all add: try_from_def)

lemma try_from_Inr: "try_from b = Inr ft \<longleftrightarrow> b = frame_type_code ft"
  by (cases ft) (auto simp: try_from_def)

lemma try_from_Inl: "try_from b = Inl e \<Longrightarrow> b = 0 \<or> 7 < b"
proof -
  assume a: "try_from b = Inl e"
  have "b \<noteq> 1" "b \<noteq> 2" "b \<noteq> 3" "b \<noteq> 4" "b \<noteq> 5" "b \<noteq> 6" "b \<noteq> 7"
    using a by (auto simp: try_from_def)
  then have "unat b \<noteq> 1" "unat b \<noteq> 2" "unat b \<noteq> 3" "unat b \<noteq> 4" "unat b \<noteq> 5" "unat b \<noteq> 6" "unat b \<noteq> 7"
    by (simp_all add: word_unat_eq_iff)
  then show ?thesis by (simp add: word_less_nat_alt word_unat_eq_iff) arith
qed

section \<open>Reading what was written\<close>

lemma header_parts:
  assumes "w = u32_to_be a @ u32_to_be b"
  shows "u32_from_be (w ! 0) (w ! 1) (w ! 2) (w ! 3) = a"
    and "u32_from_be (w ! 4) (w ! 5) (w ! 6) (w ! 7) = b"
  using assms by (simp_all add: u32_to_be_def u32_from_to_be)

lemma read_write_frame:
  assumes "write_frame f = Inr bs"
  shows "read_frame (bs @ rest) = Inr (f, rest)"
proof -
  let ?n = "length (payload f)"
  let ?w = "u32_to_be (stream_id f) @ u32_to_be (of_nat ?n)"
  have le: "?n \<le> MAX_PAYLOAD_LEN" and bs: "bs = frame_type_code (frame_type f) # ?w @ payload f"
    using assms by (auto simp: write_frame_def split: if_splits)
  have len: "unat (of_nat ?n :: u32) = ?n"
    using le by (simp add: MAX_PAYLOAD_LEN_def)
  have hd: "read_exact HEADER_LEN (bs @ rest)
      = Inr (frame_type_code (frame_type f) # ?w, payload f @ rest)"
    by (simp add: bs read_exact_Inr HEADER_LEN_def)
  have f: "Frame_new (frame_type f) (stream_id f) (payload f) = f"
    by (simp add: Frame_new_def)
  show ?thesis
    unfolding read_frame_def hd
    using le f len header_parts [OF refl, of "stream_id f" "of_nat ?n"]
    by (cases "payload f = []") (simp_all add: try_from_code Let_def)
qed

lemma read_frame_Inr_cases:
  assumes "read_frame bs = Inr (f, rest)"
  obtains header where "length header = 9" "bs = header @ payload f @ rest"
    "try_from (header ! 0) = Inr (frame_type f)" "length (payload f) \<le> MAX_PAYLOAD_LEN"
    "unat (u32_from_be (header ! 5) (header ! 6) (header ! 7) (header ! 8)) = length (payload f)"
    "stream_id f = u32_from_be (header ! 1) (header ! 2) (header ! 3) (header ! 4)"
  using assms
  by (cases f) (auto simp: read_frame_def read_exact_Inr HEADER_LEN_def Let_def Frame_new_def
           split: sum.splits if_splits)

lemma read_frame_consumes: "read_frame bs = Inr (f, rest) \<Longrightarrow> length rest + 9 + length (payload f) = length bs"
  by (erule read_frame_Inr_cases) simp

lemma write_frame_Inr_iff:
  "is_ok (write_frame f) \<longleftrightarrow> length (payload f) \<le> MAX_PAYLOAD_LEN"
  by (simp add: write_frame_def Let_def)

lemma length_write_frame: "write_frame f = Inr bs \<Longrightarrow> length bs = 9 + length (payload f)"
  by (auto simp: write_frame_def Let_def split: if_splits)

interpretation frame_wire: wire_codec write_frame read_frame
proof
  show "\<And>x bs rest. write_frame x = Inr bs \<Longrightarrow> read_frame (bs @ rest) = Inr (x, rest)"
    by (rule read_write_frame)
  show "\<And>bs x rest. read_frame bs = Inr (x, rest) \<Longrightarrow> length rest < length bs"
    using read_frame_consumes by fastforce
qed

lemma header_bytes:
  assumes "length h = 9" and "h ! 0 = t"
  shows "t # u32_to_be (u32_from_be (h ! 1) (h ! 2) (h ! 3) (h ! 4))
           @ u32_to_be (u32_from_be (h ! 5) (h ! 6) (h ! 7) (h ! 8)) = h"
proof -
  obtain a b c d e f g i j where h: "h = [a, b, c, d, e, f, g, i, j]"
    using assms(1) by (auto simp: length_Suc_conv eval_nat_numeral)
  show ?thesis using assms(2) by (simp add: h u32_to_from_be)
qed

lemma write_read_frame:
  assumes "read_frame bs = Inr (f, rest)"
  shows "\<exists>enc. write_frame f = Inr enc \<and> bs = enc @ rest"
proof -
  from assms obtain h where h: "length h = 9" "try_from (h ! 0) = Inr (frame_type f)"
    and bs: "bs = h @ payload f @ rest" and le: "length (payload f) \<le> MAX_PAYLOAD_LEN"
    and len: "unat (u32_from_be (h ! 5) (h ! 6) (h ! 7) (h ! 8)) = length (payload f)"
    and sid: "stream_id f = u32_from_be (h ! 1) (h ! 2) (h ! 3) (h ! 4)"
    by (rule read_frame_Inr_cases)
  have n: "of_nat (length (payload f)) = u32_from_be (h ! 5) (h ! 6) (h ! 7) (h ! 8)"
    by (simp flip: len)
  have "write_frame f = Inr (h @ payload f)"
    using header_bytes [OF h(1), of "frame_type_code (frame_type f)"] h(2) le
    by (simp add: write_frame_def Let_def try_from_Inr n sid)
  with bs show ?thesis by simp
qed

section \<open>Properties\<close>

text \<open>
  C15: the frame codec is exact. \<open>read_frame\<close> returns a frame and the rest of the stream
  exactly when the stream starts with the bytes \<open>write_frame\<close> writes for that frame: it
  inverts the writer, accepts nothing the writer cannot have written, and never reads past
  the frame.
\<close>

theorem frame_codec_exact:
  "read_frame bs = Inr (f, rest) \<longleftrightarrow> (\<exists>enc. write_frame f = Inr enc \<and> bs = enc @ rest)"
  using read_write_frame write_read_frame by blast

text \<open>
  Every failure of \<open>read_frame\<close>: a stream that ends inside the header or inside the
  payload, an unknown frame type, or an announced payload above 16 MiB, which is refused
  before any of the payload is read.
\<close>

theorem read_frame_errors:
  "read_frame bs = Inl e \<longleftrightarrow>
     (length bs < 9 \<and> e = eof_error) \<or>
     (9 \<le> length bs \<and> try_from (bs ! 0) = Inl e) \<or>
     (9 \<le> length bs \<and> is_ok (try_from (bs ! 0)) \<and>
       (let n = unat (u32_from_be (bs ! 5) (bs ! 6) (bs ! 7) (bs ! 8))
        in (MAX_PAYLOAD_LEN < n \<and> e = payload_too_large) \<or>
           (n \<le> MAX_PAYLOAD_LEN \<and> length bs < 9 + n \<and> e = eof_error)))"
proof (cases "length bs < 9")
  case True
  then show ?thesis by (auto simp: read_frame_def read_exact_def HEADER_LEN_def)
next
  case False
  then have hd: "read_exact HEADER_LEN bs = Inr (take 9 bs, drop 9 bs)"
    by (simp add: read_exact_def HEADER_LEN_def)
  show ?thesis
    unfolding read_frame_def hd using False
    by (auto simp: Let_def read_exact_def split: sum.splits if_splits)
qed

end
