(* ===== verification/Mux_Session.thy ===== *)
theory Mux_Session
  imports Frame
begin

text \<open>
  The mux session, \<^verbatim>\<open>crates/rps-mux/src/session.rs\<close>. A \<^verbatim>\<open>Mux\<close> owns a map from stream
  ids to the senders of per-stream channels, a writer queue and a queue of incoming
  streams; a \<^verbatim>\<open>MuxStream\<close> holds the receiver of its channel. Channels are kept in an
  explicit store (the field \<open>chans\<close>, a channel is its index), because a sender in the
  map and a receiver in a stream alias the same channel, and because an \<open>Open\<close> frame
  that reuses an id replaces the sender of the old stream.

  One call of \<open>mux_reader_step\<close> is one iteration of the reader task (the bounded
  queues make it wait, they never drop), \<open>mux_writer_step\<close> one iteration of the writer
  task. The lemmas show the invariant of the tables, the order and isolation of the data
  that streams deliver, and which ids \<open>open_stream\<close> hands out.
\<close>

record chan =
  ch_queue :: "bytes list"   \<comment> \<open>sent and not yet received\<close>
  ch_tx :: bool              \<comment> \<open>the sender is alive\<close>
  ch_rx :: bool              \<comment> \<open>the receiver is alive\<close>

record mux_stream =
  ms_id :: u32
  inbound_rx :: nat

record mux =
  next_id :: u32
  streams :: "(u32 \<times> nat) list"
  chans :: "chan list"
  writer_rx :: "frame list"
  writer_open :: bool
  incoming_rx :: "mux_stream list"
  incoming_open :: bool
  reader_running :: bool

datatype 'a recv = Got 'a | Closed | Blocked

definition mux_new :: mux where
  "mux_new = \<lparr>next_id = 1, streams = [], chans = [], writer_rx = [], writer_open = True,
              incoming_rx = [], incoming_open = True, reader_running = True\<rparr>"

definition closed :: error where
  "closed = IoError BrokenPipe ''mux closed''"

section \<open>Channels\<close>

definition chan_new :: "mux \<Rightarrow> nat \<times> mux" where
  "chan_new m = (length (chans m),
     m\<lparr>chans := chans m @ [\<lparr>ch_queue = [], ch_tx = True, ch_rx = True\<rparr>]\<rparr>)"

definition chan_send :: "nat \<Rightarrow> bytes \<Rightarrow> mux \<Rightarrow> mux" where
  "chan_send c x m =
     (if ch_rx (chans m ! c)
      then m\<lparr>chans := (chans m)[c := (chans m ! c)\<lparr>ch_queue := ch_queue (chans m ! c) @ [x]\<rparr>]\<rparr>
      else m)"

definition drop_tx :: "nat \<Rightarrow> mux \<Rightarrow> mux" where
  "drop_tx c m = m\<lparr>chans := (chans m)[c := (chans m ! c)\<lparr>ch_tx := False\<rparr>]\<rparr>"

definition drop_rx :: "nat \<Rightarrow> mux \<Rightarrow> mux" where
  "drop_rx c m = m\<lparr>chans := (chans m)[c := (chans m ! c)\<lparr>ch_rx := False, ch_queue := []\<rparr>]\<rparr>"

text \<open>\<^verbatim>\<open>streams.insert\<close> drops the sender it replaces, \<^verbatim>\<open>streams.remove\<close> the one it removes.\<close>

definition streams_remove :: "u32 \<Rightarrow> mux \<Rightarrow> mux" where
  "streams_remove sid m =
     (case map_of (streams m) sid of
        None \<Rightarrow> m
      | Some c \<Rightarrow> (drop_tx c m)\<lparr>streams := AList.delete sid (streams m)\<rparr>)"

definition streams_insert :: "u32 \<Rightarrow> nat \<Rightarrow> mux \<Rightarrow> mux" where
  "streams_insert sid c m =
     (let m1 = streams_remove sid m in m1\<lparr>streams := (sid, c) # streams m1\<rparr>)"

section \<open>The handle: opening streams, sending, closing, receiving\<close>

definition writer_send :: "frame \<Rightarrow> mux \<Rightarrow> error + mux" where
  "writer_send f m =
     (if writer_open m then Inr (m\<lparr>writer_rx := writer_rx m @ [f]\<rparr>) else Inl closed)"

definition next_stream_id :: "mux \<Rightarrow> u32 \<times> mux" where
  "next_stream_id m = (next_id m, m\<lparr>next_id := next_id m + 2\<rparr>)"

definition open_stream :: "bytes \<Rightarrow> mux \<Rightarrow> (error + mux_stream) \<times> mux" where
  "open_stream p m =
     (let (sid, m1) = next_stream_id m;
          (c, m2) = chan_new m1;
          m3 = streams_insert sid c m2
      in case writer_send (Frame_new Open sid p) m3 of
           Inl e \<Rightarrow> (Inl e, drop_rx c (streams_remove sid m3))
         | Inr m4 \<Rightarrow> (Inr \<lparr>ms_id = sid, inbound_rx = c\<rparr>, m4))"

definition send_data :: "u32 \<Rightarrow> bytes \<Rightarrow> mux \<Rightarrow> error + mux" where
  "send_data sid d m = writer_send (Frame_new Data sid d) m"

definition close :: "u32 \<Rightarrow> mux \<Rightarrow> error + mux" where
  "close sid m = writer_send (Frame_new Close sid []) m"

definition recv_data :: "mux_stream \<Rightarrow> mux \<Rightarrow> bytes recv \<times> mux" where
  "recv_data s m =
     (let c = inbound_rx s; ch = chans m ! c
      in case ch_queue ch of
           x # xs \<Rightarrow> (Got x, m\<lparr>chans := (chans m)[c := ch\<lparr>ch_queue := xs\<rparr>]\<rparr>)
         | [] \<Rightarrow> (if ch_tx ch then Blocked else Closed, m))"

definition mux_accept :: "mux \<Rightarrow> mux_stream recv \<times> mux" where
  "mux_accept m =
     (case incoming_rx m of
        s # ss \<Rightarrow> (Got s, m\<lparr>incoming_rx := ss\<rparr>)
      | [] \<Rightarrow> (if reader_running m then Blocked else Closed, m))"

section \<open>The reader and the writer task\<close>

definition mux_reader_step :: "frame \<Rightarrow> mux \<Rightarrow> mux" where
  "mux_reader_step f m =
     (case frame_type f of
        Open \<Rightarrow>
          let (c, m1) = chan_new m;
              m2 = (if payload f \<noteq> [] then chan_send c (payload f) m1 else m1);
              m3 = streams_insert (stream_id f) c m2
          in if \<not> incoming_open m3 then drop_rx c (m3\<lparr>reader_running := False\<rparr>)
             else
               let m4 = m3\<lparr>incoming_rx := incoming_rx m3 @ [\<lparr>ms_id = stream_id f, inbound_rx = c\<rparr>]\<rparr>
               in (case writer_send (Frame_new OpenAck (stream_id f) []) m4 of
                     Inl _ \<Rightarrow> m4 | Inr m5 \<Rightarrow> m5)
      | OpenAck \<Rightarrow> m
      | Data \<Rightarrow>
          (case map_of (streams m) (stream_id f) of
             Some c \<Rightarrow> chan_send c (payload f) m | None \<Rightarrow> m)
      | Close \<Rightarrow> streams_remove (stream_id f) m
      | Error \<Rightarrow> streams_remove (stream_id f) m
      | Ping \<Rightarrow>
          (case writer_send (Frame_new Pong (stream_id f) (payload f)) m of
             Inl _ \<Rightarrow> m | Inr m1 \<Rightarrow> m1)
      | Pong \<Rightarrow> m)"

text \<open>The reader task on the bytes that arrive before the connection ends.\<close>

function mux_reader :: "bytes \<Rightarrow> mux \<Rightarrow> mux" where
  "mux_reader bs m =
     (if \<not> reader_running m then m
      else (case read_frame bs of
              Inl e \<Rightarrow> m\<lparr>reader_running := False\<rparr>
            | Inr (f, rest) \<Rightarrow> mux_reader rest (mux_reader_step f m)))"
  by pat_completeness auto
termination
  by (relation "measure (\<lambda>(bs, m). length bs)") (auto dest: frame_wire.dec_consumes)

declare mux_reader.simps [simp del]

text \<open>
  One iteration of the writer task: the frame it takes and the bytes it puts on the wire.
  \<open>io_ok\<close> says whether the transport takes the bytes. When the task stops it drops the
  receiver, and the frames still queued are lost.
\<close>

definition mux_writer_step :: "bool \<Rightarrow> mux \<Rightarrow> mux \<times> bytes" where
  "mux_writer_step io_ok m =
     (if \<not> writer_open m then (m, [])
      else case writer_rx m of
             [] \<Rightarrow> (m, [])
           | f # fs \<Rightarrow>
               (case write_frame f of
                  Inr bs \<Rightarrow> if io_ok then (m\<lparr>writer_rx := fs\<rparr>, bs)
                            else (m\<lparr>writer_open := False, writer_rx := []\<rparr>, [])
                | Inl e \<Rightarrow> (m\<lparr>writer_open := False, writer_rx := []\<rparr>, [])))"

text \<open>The writer task run while the transport works, until its queue is empty.\<close>

primrec mux_writer_run :: "nat \<Rightarrow> mux \<Rightarrow> mux \<times> bytes" where
  "mux_writer_run 0 m = (m, [])"
| "mux_writer_run (Suc n) m =
     (let (m1, bs) = mux_writer_step True m; (m2, bs') = mux_writer_run n m1 in (m2, bs @ bs'))"

section \<open>The invariant of the tables\<close>

text \<open>
  The channels with a live sender are exactly the ones the stream map holds, no two
  streams share one, and the next id is odd. \<open>mux_inv_x X\<close> is the same while the
  senders of the channels in \<open>X\<close> are held by the running code and not yet in the map.
\<close>

definition live_chans :: "mux \<Rightarrow> nat set" where
  "live_chans m = set (map snd (streams m))"

definition open_chans :: "mux \<Rightarrow> nat set" where
  "open_chans m = {c. c < length (chans m) \<and> ch_tx (chans m ! c)}"

definition mux_inv_x :: "nat set \<Rightarrow> mux \<Rightarrow> bool" where
  "mux_inv_x X m \<longleftrightarrow>
     distinct (keys (streams m)) \<and> distinct (map snd (streams m)) \<and>
     live_chans m \<inter> X = {} \<and> live_chans m \<union> X = open_chans m \<and> odd (next_id m)"

abbreviation mux_inv :: "mux \<Rightarrow> bool" where
  "mux_inv \<equiv> mux_inv_x {}"

lemma mux_inv_xD:
  assumes "mux_inv_x X m" and "map_of (streams m) sid = Some c"
  shows "c < length (chans m)" "ch_tx (chans m ! c)" "c \<notin> X"
proof -
  have "c \<in> live_chans m"
    using map_of_SomeD [OF assms(2)] by (force simp: live_chans_def)
  then have "c \<in> open_chans m" "c \<notin> X"
    using assms(1) unfolding mux_inv_x_def by blast+
  then show "c < length (chans m)" "ch_tx (chans m ! c)" "c \<notin> X"
    by (simp_all add: open_chans_def)
qed

lemma stream_chan_inj:
  assumes "mux_inv_x X m" and "map_of (streams m) a = Some c" and "map_of (streams m) b = Some c"
  shows "a = b"
proof -
  have "(a, c) \<in> set (streams m)" "(b, c) \<in> set (streams m)"
    using assms by (auto dest: map_of_SomeD)
  moreover have "inj_on snd (set (streams m))"
    using assms(1) by (simp add: mux_inv_x_def distinct_map)
  ultimately show ?thesis by (metis inj_onD prod.inject snd_conv)
qed

lemma live_chans_upd [simp]:
  "live_chans (m\<lparr>chans := cs\<rparr>) = live_chans m"
  "live_chans (m\<lparr>next_id := i\<rparr>) = live_chans m"
  "live_chans (m\<lparr>reader_running := b\<rparr>) = live_chans m"
  "live_chans (m\<lparr>incoming_rx := q\<rparr>) = live_chans m"
  "live_chans (m\<lparr>incoming_open := b\<rparr>) = live_chans m"
  "live_chans (m\<lparr>writer_open := b\<rparr>) = live_chans m"
  "live_chans (m\<lparr>writer_rx := fs\<rparr>) = live_chans m"
  by (simp_all add: live_chans_def)

lemma open_chans_upd [simp]:
  "open_chans (m\<lparr>streams := al\<rparr>) = open_chans m"
  "open_chans (m\<lparr>next_id := i\<rparr>) = open_chans m"
  "open_chans (m\<lparr>reader_running := b\<rparr>) = open_chans m"
  "open_chans (m\<lparr>incoming_rx := q\<rparr>) = open_chans m"
  "open_chans (m\<lparr>incoming_open := b\<rparr>) = open_chans m"
  "open_chans (m\<lparr>writer_open := b\<rparr>) = open_chans m"
  "open_chans (m\<lparr>writer_rx := fs\<rparr>) = open_chans m"
  by (simp_all add: open_chans_def)

lemma mux_inv_x_upd [simp]:
  "mux_inv_x X (m\<lparr>reader_running := b\<rparr>) = mux_inv_x X m"
  "mux_inv_x X (m\<lparr>incoming_rx := q\<rparr>) = mux_inv_x X m"
  "mux_inv_x X (m\<lparr>incoming_open := b\<rparr>) = mux_inv_x X m"
  "mux_inv_x X (m\<lparr>writer_open := b\<rparr>) = mux_inv_x X m"
  "mux_inv_x X (m\<lparr>writer_rx := fs\<rparr>) = mux_inv_x X m"
  by (simp_all add: mux_inv_x_def)

lemma ch_tx_frame [simp]:
  "ch_tx (cs[c := (cs ! c)\<lparr>ch_queue := q\<rparr>] ! i) = ch_tx (cs ! i)"
  "ch_tx (cs[c := (cs ! c)\<lparr>ch_rx := b, ch_queue := q\<rparr>] ! i) = ch_tx (cs ! i)"
  by (rule nth_update_frame, simp)+

lemma open_chans_frame [simp]:
  "open_chans (m\<lparr>chans := (chans m)[c := (chans m ! c)\<lparr>ch_queue := q\<rparr>]\<rparr>) = open_chans m"
  "open_chans (m\<lparr>chans := (chans m)[c := (chans m ! c)\<lparr>ch_rx := b, ch_queue := q\<rparr>]\<rparr>) = open_chans m"
  by (simp_all add: open_chans_def)

lemma inv_chan_new [inv_intros]:
  assumes "mux_inv m" and "chan_new m = (c, m1)"
  shows "mux_inv_x {c} m1"
proof -
  have m1: "m1 = m\<lparr>chans := chans m @ [\<lparr>ch_queue = [], ch_tx = True, ch_rx = True\<rparr>]\<rparr>" "c = length (chans m)"
    using assms(2) by (auto simp: chan_new_def)
  have "open_chans m1 = insert c (open_chans m)"
    unfolding m1 by (auto simp: open_chans_def nth_append less_Suc_eq)
  moreover have "c \<notin> open_chans m" by (simp add: m1 open_chans_def)
  ultimately show ?thesis
    using assms(1) by (auto simp: mux_inv_x_def m1)
qed

lemma inv_chan_send [inv_intros]: "mux_inv_x X m \<Longrightarrow> mux_inv_x X (chan_send c x m)"
  by (simp add: mux_inv_x_def chan_send_def)

lemma inv_drop_rx [inv_intros]: "mux_inv_x X m \<Longrightarrow> mux_inv_x X (drop_rx c m)"
  by (simp add: mux_inv_x_def drop_rx_def)

lemma inv_streams_remove [inv_intros]:
  assumes "mux_inv_x X m"
  shows "mux_inv_x X (streams_remove sid m)"
proof (cases "map_of (streams m) sid")
  case None
  then show ?thesis using assms by (simp add: streams_remove_def)
next
  case (Some c)
  let ?m = "streams_remove sid m"
  have m: "?m = m\<lparr>chans := (chans m)[c := (chans m ! c)\<lparr>ch_tx := False\<rparr>],
      streams := AList.delete sid (streams m)\<rparr>"
    using Some by (simp add: streams_remove_def drop_tx_def)
  have "live_chans ?m = live_chans m - {c}" "distinct (map snd (streams ?m))"
    using assms snd_delete [OF _ _ Some] by (simp_all add: mux_inv_x_def live_chans_def m)
  moreover have "open_chans ?m = open_chans m - {c}"
    unfolding m using mux_inv_xD(1) [OF assms Some]
    by (auto simp: open_chans_def nth_list_update)
  moreover have "c \<notin> X" "distinct (keys (streams ?m))" "next_id ?m = next_id m"
    using mux_inv_xD [OF assms Some] assms by (simp_all add: mux_inv_x_def m)
  ultimately show ?thesis
    using assms unfolding mux_inv_x_def by auto
qed

lemma streams_remove_map [simp]: "map_of (streams (streams_remove sid m)) = (map_of (streams m))(sid := None)"
  by (auto simp: streams_remove_def drop_tx_def fun_eq_iff split: option.splits)

lemma streams_insert_map [simp]:
  "map_of (streams (streams_insert sid c m)) = (map_of (streams m))(sid \<mapsto> c)"
  by (simp add: streams_insert_def Let_def)

lemma inv_streams_insert [inv_intros]:
  assumes "mux_inv_x {c} m"
  shows "mux_inv (streams_insert sid c m)"
proof -
  let ?m = "streams_remove sid m"
  have inv: "mux_inv_x {c} ?m" using assms by (rule inv_streams_remove)
  have "map_of (streams ?m) sid = None" by simp
  then have "sid \<notin> set (keys (streams ?m))" by (simp add: map_of_eq_None_iff del: streams_remove_map)
  moreover have "live_chans (?m\<lparr>streams := (sid, c) # streams ?m\<rparr>) = insert c (live_chans ?m)"
    by (simp add: live_chans_def)
  ultimately show ?thesis
    using inv by (auto simp: mux_inv_x_def streams_insert_def Let_def live_chans_def [of "streams_remove sid m"])
qed

lemma inv_writer_send [inv_intros]: "mux_inv_x X m \<Longrightarrow> writer_send f m = Inr m' \<Longrightarrow> mux_inv_x X m'"
  by (auto simp: writer_send_def split: if_splits)

lemma inv_next_stream_id [inv_intros]:
  "mux_inv_x X m \<Longrightarrow> next_stream_id m = (sid, m') \<Longrightarrow> mux_inv_x X m'"
  by (auto simp: mux_inv_x_def next_stream_id_def)

lemma inv_open_stream [inv_intros]:
  assumes "mux_inv m" and "open_stream p m = (r, m')"
  shows "mux_inv m'"
proof -
  obtain sid m1 where 1: "next_stream_id m = (sid, m1)" by (cases "next_stream_id m")
  obtain c m2 where 2: "chan_new m1 = (c, m2)" by (cases "chan_new m1")
  have "mux_inv m1" using assms(1) 1 by (rule inv_next_stream_id)
  then have "mux_inv_x {c} m2" using 2 by (rule inv_chan_new)
  then have "mux_inv (streams_insert sid c m2)" by (rule inv_streams_insert)
  then show ?thesis
    using assms(2) 1 2
    by (auto simp: open_stream_def Let_def writer_send_def inv_drop_rx inv_streams_remove split: if_splits)
qed

lemma inv_recv_data [inv_intros]: "mux_inv_x X m \<Longrightarrow> recv_data s m = (r, m') \<Longrightarrow> mux_inv_x X m'"
  by (auto simp: recv_data_def mux_inv_x_def Let_def split: list.splits if_splits)

lemma inv_mux_accept [inv_intros]: "mux_inv_x X m \<Longrightarrow> mux_accept m = (r, m') \<Longrightarrow> mux_inv_x X m'"
  by (auto simp: mux_accept_def split: list.splits if_splits)

lemma inv_mux_reader_step [inv_intros]:
  assumes "mux_inv m"
  shows "mux_inv (mux_reader_step f m)"
proof (cases "frame_type f")
  case Open
  obtain c m1 where 1: "chan_new m = (c, m1)" by (cases "chan_new m")
  have "mux_inv (streams_insert (stream_id f) c (if payload f \<noteq> [] then chan_send c (payload f) m1 else m1))"
    using inv_chan_new [OF assms 1] by (auto intro: inv_streams_insert inv_chan_send)
  then show ?thesis
    using Open 1 by (simp add: mux_reader_step_def Let_def writer_send_def inv_drop_rx)
qed (use assms in \<open>simp_all add: mux_reader_step_def writer_send_def inv_chan_send
       inv_streams_remove split: option.splits\<close>)

lemma inv_mux_writer_step [inv_intros]:
  "mux_inv_x X m \<Longrightarrow> mux_writer_step ok m = (m', bs) \<Longrightarrow> mux_inv_x X m'"
  by (auto simp: mux_writer_step_def split: if_splits list.splits sum.splits)

text \<open>Everything that can happen to a session.\<close>

inductive mux_step :: "mux \<Rightarrow> mux \<Rightarrow> bool" where
  st_open: "open_stream p m = (r, m') \<Longrightarrow> mux_step m m'"
| st_send: "send_data sid d m = Inr m' \<Longrightarrow> mux_step m m'"
| st_close: "close sid m = Inr m' \<Longrightarrow> mux_step m m'"
| st_recv: "recv_data s m = (r, m') \<Longrightarrow> mux_step m m'"
| st_accept: "mux_accept m = (r, m') \<Longrightarrow> mux_step m m'"
| st_frame: "reader_running m \<Longrightarrow> mux_step m (mux_reader_step f m)"
| st_eof: "mux_step m (m\<lparr>reader_running := False\<rparr>)"
| st_write: "mux_writer_step ok m = (m', bs) \<Longrightarrow> mux_step m m'"
| st_drop_stream: "mux_step m (drop_rx c m)"
| st_drop_mux: "mux_step m (m\<lparr>incoming_open := False, incoming_rx := []\<rparr>)"

interpretation mux_sys: invariant_system "\<lambda>m. m = mux_new" mux_step mux_inv
proof
  show "m = mux_new \<Longrightarrow> mux_inv m" for m
    by (simp add: mux_inv_x_def mux_new_def live_chans_def open_chans_def)
  show "mux_inv m \<Longrightarrow> mux_step m t \<Longrightarrow> mux_inv t" for m t
    by (erule mux_step.cases) (simp_all add: send_data_def close_def, (blast intro: inv_intros)+)
qed

section \<open>Delivery\<close>

text \<open>What a sequence of received frames carries for one stream, in order.\<close>

definition data_for :: "u32 \<Rightarrow> frame list \<Rightarrow> bytes list" where
  "data_for sid fs = map payload (filter (\<lambda>f. frame_type f = Data \<and> stream_id f = sid) fs)"

text \<open>A frame that neither ends nor replaces the stream.\<close>

definition keeps_stream :: "u32 \<Rightarrow> frame \<Rightarrow> bool" where
  "keeps_stream sid f \<longleftrightarrow> \<not> (frame_type f \<in> {Open, Close, Error} \<and> stream_id f = sid)"

text \<open>The stream \<open>sid\<close> is open on channel \<open>c\<close>, whose receiver is alive.\<close>

definition stream_on :: "u32 \<Rightarrow> nat \<Rightarrow> mux \<Rightarrow> bool" where
  "stream_on sid c m \<longleftrightarrow>
     mux_inv m \<and> map_of (streams m) sid = Some c \<and> ch_rx (chans m ! c) \<and> incoming_open m"

lemma chan_send_other [simp]: "c \<noteq> d \<Longrightarrow> chans (chan_send c x m) ! d = chans m ! d"
  by (simp add: chan_send_def)

lemma chan_send_fields [simp]:
  "streams (chan_send c x m) = streams m"
  "incoming_open (chan_send c x m) = incoming_open m"
  "reader_running (chan_send c x m) = reader_running m"
  "length (chans (chan_send c x m)) = length (chans m)"
  by (simp_all add: chan_send_def)

lemma streams_remove_fields [simp]:
  "incoming_open (streams_remove sid m) = incoming_open m"
  "reader_running (streams_remove sid m) = reader_running m"
  "length (chans (streams_remove sid m)) = length (chans m)"
  by (simp_all add: streams_remove_def drop_tx_def split: option.splits)

lemma streams_insert_fields [simp]:
  "incoming_open (streams_insert sid c m) = incoming_open m"
  "reader_running (streams_insert sid c m) = reader_running m"
  "writer_open (streams_insert sid c m) = writer_open m"
  "next_id (streams_insert sid c m) = next_id m"
  by (simp_all add: streams_insert_def streams_remove_def drop_tx_def Let_def split: option.splits)

text \<open>Removing another stream does not touch this one's channel.\<close>

lemma streams_remove_other:
  assumes "mux_inv_x X m" and "map_of (streams m) sid = Some c" and "sid' \<noteq> sid"
  shows "chans (streams_remove sid' m) ! c = chans m ! c"
proof (cases "map_of (streams m) sid'")
  case (Some d)
  then have "d \<noteq> c" using stream_chan_inj [OF assms(1)] assms(2,3) by blast
  with Some show ?thesis by (simp add: streams_remove_def drop_tx_def)
qed (simp add: streams_remove_def)

lemma reader_step_open_other:
  assumes "mux_inv m" and "map_of (streams m) sid = Some c" and "frame_type f = Open"
    and "stream_id f \<noteq> sid" and "incoming_open m"
  shows "map_of (streams (mux_reader_step f m)) sid = Some c"
    and "chans (mux_reader_step f m) ! c = chans m ! c"
    and "incoming_open (mux_reader_step f m)"
proof -
  obtain d m1 where 1: "chan_new m = (d, m1)" by (cases "chan_new m")
  have c: "c < length (chans m)" using mux_inv_xD [OF assms(1,2)] by simp
  have d: "d = length (chans m)" "streams m1 = streams m" "chans m1 ! c = chans m ! c"
    "incoming_open m1 = incoming_open m"
    using 1 c by (auto simp: chan_new_def nth_append)
  define m2 where "m2 = (if payload f \<noteq> [] then chan_send d (payload f) m1 else m1)"
  have inv2: "mux_inv_x {d} m2"
    using inv_chan_new [OF assms(1) 1] by (simp add: m2_def inv_chan_send)
  have m2: "map_of (streams m2) sid = Some c" "chans m2 ! c = chans m ! c" "incoming_open m2"
    using d c assms(2,5) by (auto simp: m2_def)
  have m3: "chans (streams_insert (stream_id f) d m2) ! c = chans m ! c"
    using streams_remove_other [OF inv2 m2(1) assms(4)] m2(2) by (simp add: streams_insert_def Let_def)
  have step: "mux_reader_step f m =
      (let m3 = streams_insert (stream_id f) d m2;
           m4 = m3\<lparr>incoming_rx := incoming_rx m3 @ [\<lparr>ms_id = stream_id f, inbound_rx = d\<rparr>]\<rparr>
       in if writer_open m4
          then m4\<lparr>writer_rx := writer_rx m4 @ [Frame_new OpenAck (stream_id f) []]\<rparr> else m4)"
    using assms(3) m2(3) 1 by (simp add: mux_reader_step_def Let_def writer_send_def flip: m2_def)
  show "map_of (streams (mux_reader_step f m)) sid = Some c"
    "chans (mux_reader_step f m) ! c = chans m ! c" "incoming_open (mux_reader_step f m)"
    unfolding step using m2 m3 assms(4) by (simp_all add: Let_def)
qed

lemma reader_step_stream:
  assumes "stream_on sid c m" and "keeps_stream sid f"
  shows "stream_on sid c (mux_reader_step f m) \<and>
         ch_queue (chans (mux_reader_step f m) ! c) = ch_queue (chans m ! c) @ data_for sid [f]"
proof -
  have on: "mux_inv m" "map_of (streams m) sid = Some c" "ch_rx (chans m ! c)" "incoming_open m"
    using assms(1) by (simp_all add: stream_on_def)
  have c: "c < length (chans m)" using mux_inv_xD [OF on(1,2)] by simp
  have inv: "mux_inv (mux_reader_step f m)" using on(1) by (rule inv_mux_reader_step)
  show ?thesis
  proof (cases "frame_type f")
    case Open
    then show ?thesis
      using reader_step_open_other [OF on(1,2) Open _ on(4)] assms(2) on inv
      by (simp add: stream_on_def keeps_stream_def data_for_def)
  next
    case Data
    show ?thesis
    proof (cases "stream_id f = sid")
      case True
      then show ?thesis
        using Data on c inv
        by (simp add: stream_on_def data_for_def mux_reader_step_def) (simp add: chan_send_def)
    next
      case False
      have "d \<noteq> c" if "map_of (streams m) (stream_id f) = Some d" for d
        using stream_chan_inj [OF on(1)] that on(2) False by blast
      then show ?thesis
        using Data on inv False
        by (auto simp: stream_on_def data_for_def mux_reader_step_def split: option.splits)
    qed
  next
    case Close
    then show ?thesis
      using streams_remove_other [OF on(1,2), of "stream_id f"] assms(2) on inv
      by (simp add: stream_on_def keeps_stream_def data_for_def mux_reader_step_def)
  next
    case Error
    then show ?thesis
      using streams_remove_other [OF on(1,2), of "stream_id f"] assms(2) on inv
      by (simp add: stream_on_def keeps_stream_def data_for_def mux_reader_step_def)
  qed (use on inv in \<open>simp_all add: stream_on_def data_for_def mux_reader_step_def writer_send_def\<close>)
qed

lemma data_for_Cons: "data_for sid (f # fs) = data_for sid [f] @ data_for sid fs"
  by (simp add: data_for_def)

lemma reader_steps_stream:
  assumes "stream_on sid c m" and "\<forall>f \<in> set fs. keeps_stream sid f"
  shows "stream_on sid c (foldl (\<lambda>m f. mux_reader_step f m) m fs) \<and>
         ch_queue (chans (foldl (\<lambda>m f. mux_reader_step f m) m fs) ! c)
           = ch_queue (chans m ! c) @ data_for sid fs"
  using assms
proof (induction fs arbitrary: m)
  case Nil
  then show ?case by (simp add: data_for_def)
next
  case (Cons f fs)
  have 1: "stream_on sid c (mux_reader_step f m)"
    "ch_queue (chans (mux_reader_step f m) ! c) = ch_queue (chans m ! c) @ data_for sid [f]"
    using reader_step_stream [OF Cons.prems(1)] Cons.prems(2) by auto
  show ?case
    using Cons.IH [OF 1(1)] Cons.prems(2) 1(2) data_for_Cons [of sid f fs] by simp
qed

lemma reader_step_running:
  "reader_running m \<Longrightarrow> incoming_open m \<Longrightarrow> reader_running (mux_reader_step f m) \<and> incoming_open (mux_reader_step f m)"
  by (cases "frame_type f")
     (auto simp: mux_reader_step_def writer_send_def Let_def chan_new_def split: option.splits)

lemma mux_reader_decodes:
  assumes "decodes read_frame fs bs rest" and "reader_running m" and "incoming_open m"
  shows "mux_reader bs m = mux_reader rest (foldl (\<lambda>m f. mux_reader_step f m) m fs)"
  using assms
proof (induction fs arbitrary: bs m)
  case (Cons f fs)
  then obtain bs' where "read_frame bs = Inr (f, bs')" "decodes read_frame fs bs' rest" by auto
  with Cons show ?case
    by (simp add: mux_reader.simps [of bs m] reader_step_running)
qed simp

lemma mux_reader_Nil: "mux_reader [] m = m\<lparr>reader_running := False\<rparr>"
  by (simp add: mux_reader.simps read_frame_def read_exact_def HEADER_LEN_def)

section \<open>From the sender to the receiver\<close>

text \<open>A sequence of \<^verbatim>\<open>send_data\<close> calls by any number of stream writers, in the order they run.\<close>

primrec send_all :: "(u32 \<times> bytes) list \<Rightarrow> mux \<Rightarrow> error + mux" where
  "send_all [] m = Inr m"
| "send_all (x # xs) m =
     (case send_data (fst x) (snd x) m of Inl e \<Rightarrow> Inl e | Inr m1 \<Rightarrow> send_all xs m1)"

abbreviation data_frames :: "(u32 \<times> bytes) list \<Rightarrow> frame list" where
  "data_frames xs \<equiv> map (\<lambda>(s, d). Frame_new Data s d) xs"

lemma send_all_queue:
  "writer_open m \<Longrightarrow> send_all xs m = Inr (m\<lparr>writer_rx := writer_rx m @ data_frames xs\<rparr>)"
  by (induction xs arbitrary: m) (auto simp: send_data_def writer_send_def)

lemma writer_run_all:
  assumes "writer_open m" and "writer_rx m = fs" and "\<forall>f \<in> set fs. length (payload f) \<le> MAX_PAYLOAD_LEN"
  shows "\<exists>bs. enc_all write_frame fs = Inr bs \<and> mux_writer_run (length fs) m = (m\<lparr>writer_rx := []\<rparr>, bs)"
  using assms
proof (induction fs arbitrary: m)
  case (Cons f fs)
  obtain b where b: "write_frame f = Inr b"
    using Cons.prems(3) write_frame_Inr_iff [of f] by (auto simp: is_ok_iff)
  have "\<exists>bs. enc_all write_frame fs = Inr bs \<and>
      mux_writer_run (length fs) (m\<lparr>writer_rx := fs\<rparr>) = (m\<lparr>writer_rx := []\<rparr>, bs)"
    using Cons.IH [of "m\<lparr>writer_rx := fs\<rparr>"] Cons.prems by simp
  then show ?case
    using b Cons.prems by (auto simp: mux_writer_step_def)
qed simp

lemma data_for_data_frames: "data_for sid (data_frames xs) = map snd (filter (\<lambda>(s, d). s = sid) xs)"
  by (induction xs) (auto simp: data_for_def Frame_new_def)

lemma keeps_data_frames: "f \<in> set (data_frames xs) \<Longrightarrow> keeps_stream sid f"
  by (auto simp: keeps_stream_def Frame_new_def)

lemma data_frames_payload:
  "\<forall>(s, d) \<in> set xs. length d \<le> n \<Longrightarrow> \<forall>f \<in> set (data_frames xs). length (payload f) \<le> n"
  by (auto simp: Frame_new_def)

section \<open>Stream ids\<close>

primrec open_many :: "bytes list \<Rightarrow> mux \<Rightarrow> (error + mux_stream) list \<times> mux" where
  "open_many [] m = ([], m)"
| "open_many (p # ps) m =
     (let (r, m1) = open_stream p m; (rs, m2) = open_many ps m1 in (r # rs, m2))"

lemma open_stream_ok:
  assumes "writer_open m"
  shows "\<exists>m'. open_stream p m = (Inr \<lparr>ms_id = next_id m, inbound_rx = length (chans m)\<rparr>, m') \<and>
           writer_open m' \<and> next_id m' = next_id m + 2"
  using assms
  by (simp add: open_stream_def Let_def next_stream_id_def chan_new_def writer_send_def)

lemma open_many_ids:
  assumes "writer_open m" and "i < length ps"
  shows "\<exists>s. fst (open_many ps m) ! i = Inr s \<and> ms_id s = next_id m + 2 * of_nat i"
  using assms
proof (induction ps arbitrary: m i)
  case (Cons p ps)
  obtain m' where m': "open_stream p m = (Inr \<lparr>ms_id = next_id m, inbound_rx = length (chans m)\<rparr>, m')"
    "writer_open m'" "next_id m' = next_id m + 2"
    using open_stream_ok [OF Cons.prems(1)] by blast
  show ?case
  proof (cases i)
    case 0
    then show ?thesis using m'(1) by (simp add: case_prod_beta)
  next
    case (Suc j)
    then show ?thesis
      using Cons.IH [OF m'(2), of j] Cons.prems(2) m' by (simp add: case_prod_beta algebra_simps)
  qed
qed simp

lemma double_u32_eq: "2 * of_nat i = (2 * of_nat j :: u32) \<longleftrightarrow> i mod 2 ^ 31 = j mod 2 ^ 31"
proof -
  have "unat (2 * of_nat k :: u32) = 2 * (k mod 2 ^ 31)" for k
  proof -
    have "unat (2 * of_nat k :: u32) = (2 * k) mod 4294967296"
      by (simp add: unat_word_ariths unat_of_nat mod_mult_right_eq)
    also have "\<dots> = 2 * (k mod 2147483648)" by (simp add: mult_mod_right)
    finally show ?thesis by simp
  qed
  then show ?thesis by (simp add: word_unat_eq_iff)
qed

section \<open>The end of a stream\<close>

primrec recv_many :: "nat \<Rightarrow> mux_stream \<Rightarrow> mux \<Rightarrow> bytes recv list \<times> mux" where
  "recv_many 0 s m = ([], m)"
| "recv_many (Suc n) s m =
     (let (r, m1) = recv_data s m; (rs, m2) = recv_many n s m1 in (r # rs, m2))"

lemma recv_many_drains:
  assumes "inbound_rx s < length (chans m)" and "ch_queue (chans m ! inbound_rx s) = xs"
    and "\<not> ch_tx (chans m ! inbound_rx s)"
  shows "fst (recv_many (length xs + n) s m) = map Got xs @ replicate n Closed"
  using assms
proof (induction xs arbitrary: m)
  case Nil
  then show ?case
    by (induction n) (auto simp: recv_data_def case_prod_beta)
next
  case (Cons x xs)
  let ?m = "m\<lparr>chans := (chans m)[inbound_rx s := (chans m ! inbound_rx s)\<lparr>ch_queue := xs\<rparr>]\<rparr>"
  have "fst (recv_many (length xs + n) s ?m) = map Got xs @ replicate n Closed"
    using Cons.prems by (intro Cons.IH) simp_all
  then show ?case
    using Cons.prems by (simp add: recv_data_def Let_def case_prod_beta)
qed

section \<open>Properties\<close>

text \<open>
  C10: end-to-end delivery over the mux. Any number of writers send on one session of peer
  \<open>a\<close>; its writer task puts the frames on the wire; the reader task of peer \<open>b\<close> runs
  on those bytes. Then every stream that \<open>b\<close> has open receives exactly the data sent on
  it, unchanged, in order and without a byte of any other stream, behind what its channel
  already held.
\<close>

theorem mux_delivers_in_order:
  assumes "writer_open a" and "writer_rx a = []"
    and "\<forall>(s, d) \<in> set xs. length d \<le> MAX_PAYLOAD_LEN"
    and "stream_on sid c b" and "reader_running b"
  shows "\<exists>a' wire. send_all xs a = Inr a' \<and> mux_writer_run (length xs) a' = (a, wire) \<and>
           ch_queue (chans (mux_reader wire b) ! c)
             = ch_queue (chans b ! c) @ map snd (filter (\<lambda>(s, d). s = sid) xs)"
proof -
  let ?a = "a\<lparr>writer_rx := data_frames xs\<rparr>"
  obtain wire where enc: "enc_all write_frame (data_frames xs) = Inr wire"
    and run: "mux_writer_run (length (data_frames xs)) ?a = (?a\<lparr>writer_rx := []\<rparr>, wire)"
    using writer_run_all [of ?a "data_frames xs"] data_frames_payload [OF assms(3)] assms(1) by auto
  have dec: "decodes read_frame (data_frames xs) wire []"
    using frame_wire.enc_all_decodes [OF enc, of "[]"] by simp
  have "ch_queue (chans (mux_reader wire b) ! c)
      = ch_queue (chans b ! c) @ data_for sid (data_frames xs)"
    using mux_reader_decodes [OF dec assms(5)] reader_steps_stream [OF assms(4)] assms(4)
    by (simp add: mux_reader_Nil stream_on_def keeps_data_frames)
  then show ?thesis
    using run send_all_queue [OF assms(1), of xs] assms(2)
    by (auto simp: data_for_data_frames intro!: exI [of _ ?a] exI [of _ wire])
qed

definition mux_example :: mux where
  "mux_example = mux_reader_step (Frame_new Open 1 [7]) mux_new"

theorem mux_delivers_in_order_witness:
  "stream_on 1 0 mux_example \<and>
   (\<exists>a' wire. send_all [(1, [10]), (3, [99]), (1, [11, 12])] mux_new = Inr a' \<and>
      mux_writer_run 3 a' = (mux_new, wire) \<and>
      ch_queue (chans (mux_reader wire mux_example) ! 0) = [[7], [10], [11, 12]])"
proof -
  have inv: "mux_inv mux_example"
    unfolding mux_example_def
    by (rule inv_mux_reader_step) (simp add: mux_inv_x_def mux_new_def live_chans_def open_chans_def)
  have ex: "stream_on 1 0 mux_example" "reader_running mux_example"
      "ch_queue (chans mux_example ! 0) = [[7]]"
    using inv
    by (simp_all add: stream_on_def mux_example_def mux_reader_step_def mux_new_def Frame_new_def
        chan_new_def chan_send_def streams_insert_def streams_remove_def writer_send_def Let_def)
  have a: "writer_open mux_new" "writer_rx mux_new = []" by (simp_all add: mux_new_def)
  have "\<exists>a' wire. send_all [(1, [10]), (3, [99]), (1, [11, 12])] mux_new = Inr a' \<and>
      mux_writer_run (length [(1 :: u32, [10 :: byte]), (3, [99]), (1, [11, 12])]) a' = (mux_new, wire) \<and>
      ch_queue (chans (mux_reader wire mux_example) ! 0) = ch_queue (chans mux_example ! 0) @
        map snd (filter (\<lambda>(s, d). s = 1) [(1 :: u32, [10 :: byte]), (3, [99]), (1, [11, 12])])"
    by (rule mux_delivers_in_order [OF a _ ex(1,2)]) (simp add: MAX_PAYLOAD_LEN_def)
  then show ?thesis using ex by (simp add: numeral_3_eq_3 eval_nat_numeral)
qed

text \<open>
  C39: the ids \<^verbatim>\<open>open_stream\<close> hands out. While the session is up, the \<open>i\<close>-th of any
  number of calls succeeds with the id \<open>next_id + 2 i\<close> on 32 bits; two calls get the
  same id exactly when they are a multiple of \<open>2 ^ 31\<close> calls apart, so ids are unique
  for the first \<open>2 ^ 31\<close> streams and are then handed out again.
\<close>

theorem open_stream_ids:
  assumes "writer_open m" and "i < length ps" and "j < length ps"
  shows "\<exists>s t. fst (open_many ps m) ! i = Inr s \<and> fst (open_many ps m) ! j = Inr t \<and>
           ms_id s = next_id m + 2 * of_nat i \<and>
           (ms_id s = ms_id t \<longleftrightarrow> i mod 2 ^ 31 = j mod 2 ^ 31)"
proof -
  obtain s t where "fst (open_many ps m) ! i = Inr s" "ms_id s = next_id m + 2 * of_nat i"
    "fst (open_many ps m) ! j = Inr t" "ms_id t = next_id m + 2 * of_nat j"
    using open_many_ids [OF assms(1,2)] open_many_ids [OF assms(1,3)] by blast
  then show ?thesis using double_u32_eq [of i j] by auto
qed

theorem open_stream_ids_witness:
  "\<exists>s t. fst (open_many [[], [], []] mux_new) ! 0 = Inr s \<and> fst (open_many [[], [], []] mux_new) ! 2 = Inr t \<and>
     ms_id s = 1 \<and> ms_id s \<noteq> ms_id t"
  using open_stream_ids [of mux_new 0 "[[], [], []]" 2] by (auto simp: mux_new_def)



text \<open>
  A received \<open>Close\<close> or \<open>Error\<close> frame ends the stream after its data. The
  receiver first gets everything that was queued, in order, and then only
  \<open>Closed\<close>; \<open>Data\<close> frames that arrive later for the id are dropped.
\<close>

theorem close_ends_after_data:
  assumes "stream_on sid c m" and "ft = Close \<or> ft = Error"
  shows "fst (recv_many (length (ch_queue (chans m ! c)) + n) \<lparr>ms_id = sid, inbound_rx = c\<rparr>
               (mux_reader_step (Frame_new ft sid p) m))
           = map Got (ch_queue (chans m ! c)) @ replicate n Closed \<and>
         mux_reader_step (Frame_new Data sid d) (mux_reader_step (Frame_new ft sid p) m)
           = mux_reader_step (Frame_new ft sid p) m"
proof -
  let ?m = "mux_reader_step (Frame_new ft sid p) m"
  have on: "mux_inv m" "map_of (streams m) sid = Some c" using assms(1) by (simp_all add: stream_on_def)
  have c: "c < length (chans m)" using mux_inv_xD [OF on] by simp
  have m: "?m = streams_remove sid m"
    using assms(2) by (elim disjE) (simp_all add: mux_reader_step_def Frame_new_def)
  have "c < length (chans ?m)" "ch_queue (chans ?m ! c) = ch_queue (chans m ! c)" "\<not> ch_tx (chans ?m ! c)"
    using c on(2) by (simp_all add: m) (simp_all add: streams_remove_def drop_tx_def)
  then have "fst (recv_many (length (ch_queue (chans m ! c)) + n) \<lparr>ms_id = sid, inbound_rx = c\<rparr> ?m)
      = map Got (ch_queue (chans m ! c)) @ replicate n Closed"
    using recv_many_drains [of "\<lparr>ms_id = sid, inbound_rx = c\<rparr>" ?m] by simp
  moreover have "mux_reader_step (Frame_new Data sid d) ?m = ?m"
    unfolding m by (simp add: mux_reader_step_def Frame_new_def)
  ultimately show ?thesis by blast
qed

theorem close_ends_after_data_witness:
  "fst (recv_many 2 \<lparr>ms_id = 1, inbound_rx = 0\<rparr> (mux_reader_step (Frame_new Close 1 []) mux_example))
     = [Got [7], Closed]"
proof -
  have inv: "mux_inv mux_example"
    unfolding mux_example_def
    by (rule inv_mux_reader_step) (simp add: mux_inv_x_def mux_new_def live_chans_def open_chans_def)
  have ex: "stream_on 1 0 mux_example" "ch_queue (chans mux_example ! 0) = [[7]]"
    using inv
    by (simp_all add: stream_on_def mux_example_def mux_reader_step_def mux_new_def Frame_new_def
        chan_new_def chan_send_def streams_insert_def streams_remove_def writer_send_def Let_def)
  show ?thesis
    using close_ends_after_data [OF ex(1), of Close 1 "[]"] ex(2) by (simp add: numeral_2_eq_2)
qed

end
