(* ===== verification/Noise.thy ===== *)
theory Noise
  imports Rust_Str
begin

text \<open>
  The encrypted transport, \<^verbatim>\<open>crates/rps-core/src/noise.rs\<close>: the pre-shared key in
  hexadecimal, messages behind a 32-bit length, the handshake of the two sides, and the two
  loops of \<^verbatim>\<open>spawn_transport\<close> that encrypt and decrypt. The Noise library
  (\<^verbatim>\<open>snow\<close>) is a parameter: the record \<open>snow\<close> holds the calls the code makes, each
  of which may fail.
\<close>

definition PSK_LEN :: nat where "PSK_LEN = 32"

definition PSK_HEX_LEN :: nat where "PSK_HEX_LEN = PSK_LEN * 2"

definition MAX_NOISE_MESSAGE_LEN :: nat where "MAX_NOISE_MESSAGE_LEN = 65535"

definition MAX_TRANSPORT_PLAINTEXT_LEN :: nat where "MAX_TRANSPORT_PLAINTEXT_LEN = 16 * 1024"

section \<open>The pre-shared key\<close>

definition decode_hex_nibble :: "byte \<Rightarrow> error + byte" where
  "decode_hex_nibble value =
     (if 0x30 \<le> value \<and> value \<le> 0x39 then Inr (value - 0x30)
      else if 0x61 \<le> value \<and> value \<le> 0x66 then Inr (value - 0x61 + 10)
      else if 0x41 \<le> value \<and> value \<le> 0x46 then Inr (value - 0x41 + 10)
      else Inl (Bail ''psk must contain only hex chars''))"

text \<open>The loop over the 32 output bytes; each takes the next two bytes of the text.\<close>

fun decode_hex_pairs :: "bytes \<Rightarrow> error + bytes" where
  "decode_hex_pairs (a # b # r) =
     (case decode_hex_nibble a of
        Inl e \<Rightarrow> Inl e
      | Inr hi \<Rightarrow>
          (case decode_hex_nibble b of
             Inl e \<Rightarrow> Inl e
           | Inr lo \<Rightarrow>
               (case decode_hex_pairs r of
                  Inl e \<Rightarrow> Inl e
                | Inr out \<Rightarrow> Inr ((push_bit 4 hi OR lo) # out))))"
| "decode_hex_pairs _ = Inr []"

definition decode_psk :: "string \<Rightarrow> error + bytes" where
  "decode_psk psk0 =
     (let psk = trim psk0
      in if length psk \<noteq> PSK_HEX_LEN
         then Inl (Bail (''psk must be '' @ dec_string PSK_HEX_LEN @ '' hex chars''))
         else decode_hex_pairs (as_bytes psk))"

section \<open>Messages\<close>

definition noise_too_large :: error where
  "noise_too_large = IoError InvalidData ''noise message too large''"

definition read_noise_message :: "bytes \<Rightarrow> error + bytes \<times> bytes" where
  "read_noise_message reader =
     (case read_u32 reader of
        Inl e \<Rightarrow> Inl e
      | Inr (n, reader1) \<Rightarrow>
          let len = unat n
          in if len > MAX_NOISE_MESSAGE_LEN then Inl noise_too_large
             else read_exact len reader1)"

definition write_noise_message :: "bytes \<Rightarrow> error + bytes" where
  "write_noise_message message =
     (if length message > MAX_NOISE_MESSAGE_LEN then Inl noise_too_large
      else Inr (u32_to_be (of_nat (length message)) @ message))"

section \<open>The Noise library\<close>

record ('h, 's) snow =
  build_initiator :: "bytes \<Rightarrow> error + 'h"
  build_responder :: "bytes \<Rightarrow> error + 'h"
  hs_write_message :: "'h \<Rightarrow> error + bytes \<times> 'h"
  hs_read_message :: "'h \<Rightarrow> bytes \<Rightarrow> error + 'h"
  into_transport_mode :: "'h \<Rightarrow> error + 's"
  write_message :: "'s \<Rightarrow> bytes \<Rightarrow> error + bytes \<times> 's"
  read_message :: "'s \<Rightarrow> bytes \<Rightarrow> error + bytes \<times> 's"

section \<open>The handshake\<close>

text \<open>
  \<^verbatim>\<open>connect\<close> up to the point where it waits for the answer: the bytes it sends and the
  handshake state it waits in. Then what it does with the answer.
\<close>

definition connect_start :: "('h, 's) snow \<Rightarrow> string \<Rightarrow> error + bytes \<times> 'h" where
  "connect_start lib psk =
     (case decode_psk psk of Inl e \<Rightarrow> Inl e
      | Inr key \<Rightarrow>
          (case build_initiator lib key of Inl e \<Rightarrow> Inl e
           | Inr noise \<Rightarrow>
               (case hs_write_message lib noise of Inl e \<Rightarrow> Inl e
                | Inr (msg, noise1) \<Rightarrow>
                    (case write_noise_message msg of Inl e \<Rightarrow> Inl e
                     | Inr wire \<Rightarrow> Inr (wire, noise1)))))"

definition connect_finish :: "('h, 's) snow \<Rightarrow> 'h \<Rightarrow> bytes \<Rightarrow> error + 's \<times> bytes" where
  "connect_finish lib noise io =
     (case read_noise_message io of Inl e \<Rightarrow> Inl e
      | Inr (message, io1) \<Rightarrow>
          (case hs_read_message lib noise message of Inl e \<Rightarrow> Inl e
           | Inr noise1 \<Rightarrow>
               (case into_transport_mode lib noise1 of Inl e \<Rightarrow> Inl e | Inr st \<Rightarrow> Inr (st, io1))))"

text \<open>\<^verbatim>\<open>accept\<close>: what it sends and the transport state, with what is left to read.\<close>

definition accept :: "('h, 's) snow \<Rightarrow> string \<Rightarrow> bytes \<Rightarrow> bytes \<times> (error + 's \<times> bytes)" where
  "accept lib psk io =
     (case decode_psk psk of Inl e \<Rightarrow> ([], Inl e)
      | Inr key \<Rightarrow>
          (case build_responder lib key of Inl e \<Rightarrow> ([], Inl e)
           | Inr noise \<Rightarrow>
               (case read_noise_message io of Inl e \<Rightarrow> ([], Inl e)
                | Inr (message, io1) \<Rightarrow>
                    (case hs_read_message lib noise message of Inl e \<Rightarrow> ([], Inl e)
                     | Inr noise1 \<Rightarrow>
                         (case hs_write_message lib noise1 of Inl e \<Rightarrow> ([], Inl e)
                          | Inr (msg, noise2) \<Rightarrow>
                              (case write_noise_message msg of Inl e \<Rightarrow> ([], Inl e)
                               | Inr wire \<Rightarrow>
                                   (wire, case into_transport_mode lib noise2 of
                                            Inl e \<Rightarrow> Inl e | Inr st \<Rightarrow> Inr (st, io1))))))))"

section \<open>The transport loops\<close>

text \<open>
  The outbound task. \<open>reads\<close> are the results of the successive calls of
  \<^verbatim>\<open>plain_reader.read\<close> (an error is the end of the list, \<^verbatim>\<open>Ok(0)\<close> the empty
  chunk), \<open>io_ok k\<close> says whether the \<open>k\<close>-th write to the connection succeeds.
  The result is what was written to the connection before it is shut down.
\<close>

fun outbound_loop :: "('h, 's) snow \<Rightarrow> 's \<Rightarrow> (nat \<Rightarrow> bool) \<Rightarrow> bytes list \<Rightarrow> bytes" where
  "outbound_loop lib noise io_ok [] = []"
| "outbound_loop lib noise io_ok (plain # reads) =
     (if plain = [] then []
      else (case write_message lib noise plain of
              Inl e \<Rightarrow> []
            | Inr (encrypted, noise1) \<Rightarrow>
                (case write_noise_message encrypted of
                   Inl e \<Rightarrow> []
                 | Inr wire \<Rightarrow>
                     if io_ok 0 then wire @ outbound_loop lib noise1 (\<lambda>k. io_ok (Suc k)) reads
                     else [])))"

text \<open>
  The inbound task on the bytes the connection still delivers; \<open>app_ok k\<close> says whether
  the application still takes the \<open>k\<close>-th plaintext. The result is what it got.
\<close>

lemma read_noise_consumes: "read_noise_message bs = Inr (msg, rest) \<Longrightarrow> length rest < length bs"
  by (auto simp: read_noise_message_def Let_def read_u32_Inr read_exact_Inr split: sum.splits if_splits)

function inbound_loop :: "('h, 's) snow \<Rightarrow> 's \<Rightarrow> (nat \<Rightarrow> bool) \<Rightarrow> bytes \<Rightarrow> bytes" where
  "inbound_loop lib noise app_ok io =
     (case read_noise_message io of
        Inl e \<Rightarrow> []
      | Inr (encrypted, io1) \<Rightarrow>
          (case read_message lib noise encrypted of
             Inl e \<Rightarrow> []
           | Inr (plain, noise1) \<Rightarrow>
               if app_ok 0 then plain @ inbound_loop lib noise1 (\<lambda>k. app_ok (Suc k)) io1 else []))"
  by pat_completeness auto
termination
  by (relation "measure (\<lambda>(lib, noise, app_ok, io). length io)") (auto dest: read_noise_consumes)

declare inbound_loop.simps [simp del]

section \<open>Hexadecimal\<close>

text \<open>The lower-case hexadecimal text of a key, and what \<open>decode_psk\<close> accepts for it.\<close>

definition hex_digit :: "byte \<Rightarrow> char" where
  "hex_digit v = char_of_byte (if v < 10 then 0x30 + v else 0x57 + v)"

definition hex_encode :: "bytes \<Rightarrow> string" where
  "hex_encode k = concat (map (\<lambda>b. [hex_digit (drop_bit 4 b), hex_digit (b AND 0xF)]) k)"

definition lower_byte :: "byte \<Rightarrow> byte" where
  "lower_byte b = (if 0x41 \<le> b \<and> b \<le> 0x5A then b + 0x20 else b)"

lemma lower_char: "to_ascii_lowercase c = char_of_byte (lower_byte (byte_of_char c))"
  by (simp add: to_ascii_lowercase_def lower_byte_def Let_def)

lemma char_of_byte_inj: "char_of_byte a = char_of_byte b \<longleftrightarrow> a = b"
  by (metis byte_of_char_of_byte)

lemma unat_byte_plus: "unat (a + b :: byte) = (unat a + unat b) mod 256"
  by (simp add: unat_word_ariths)

lemma decode_hex_nibble_ok:
  assumes "decode_hex_nibble b = Inr v"
  shows "v < 16" "lower_byte b = (if v < 10 then 0x30 + v else 0x57 + v)"
proof -
  have "v < 16 \<and> lower_byte b = (if v < 10 then 0x30 + v else 0x57 + v)"
  proof (cases "0x30 \<le> b \<and> b \<le> 0x39")
    case True
    then have v: "v = b - 0x30" using assms by (simp add: decode_hex_nibble_def)
    have "unat v = unat b - 0x30" using True by (simp add: v unat_sub)
    then have "unat v < 10" using True unfolding word_le_nat_alt by (auto simp: less_diff_conv2)
    then show ?thesis using True by (auto simp add: v word_less_nat_alt lower_byte_def word_le_nat_alt)
  next
    case d: False
    show ?thesis
    proof (cases "0x61 \<le> b \<and> b \<le> 0x66")
      case True
      then have v: "v = b - 0x61 + 10" using assms d by (simp add: decode_hex_nibble_def)
      have "unat v = unat b - 0x61 + 10" using True by (simp add: v unat_byte_plus unat_sub word_le_nat_alt)
      then have "10 \<le> unat v" "unat v < 16" using True by (auto simp: word_le_nat_alt)
      then show ?thesis using True by (auto simp add: v word_less_nat_alt lower_byte_def word_le_nat_alt)
    next
      case False
      then have U: "0x41 \<le> b \<and> b \<le> 0x46" using assms d by (simp add: decode_hex_nibble_def split: if_splits)
      then have v: "v = b - 0x41 + 10" using assms d False by (simp add: decode_hex_nibble_def)
      have "unat v = unat b - 0x41 + 10" using U by (simp add: v unat_byte_plus unat_sub word_le_nat_alt)
      then have "10 \<le> unat v" "unat v < 16" using U by (auto simp: word_le_nat_alt)
      then show ?thesis using U by (auto simp add: v word_less_nat_alt lower_byte_def word_le_nat_alt)
    qed
  qed
  then show "v < 16" "lower_byte b = (if v < 10 then 0x30 + v else 0x57 + v)" by simp_all
qed

lemma decode_hex_nibble_conv:
  assumes "v < 16" "lower_byte b = (if v < 10 then 0x30 + v else 0x57 + v)"
  shows "decode_hex_nibble b = Inr v"
proof -
  have v: "unat v < 16" using assms(1) by (simp add: word_less_nat_alt)
  show ?thesis
  proof (cases "0x41 \<le> b \<and> b \<le> 0x5A")
    case True
    then have "b + 0x20 = (if v < 10 then 0x30 + v else 0x57 + v)"
      using assms(2) unfolding lower_byte_def by presburger
    then have b: "b = (if v < 10 then 0x30 + v else 0x57 + v) - 0x20"
      by (rule eq_diff_eq [THEN iffD2])
    have "\<not> v < 10" 
    proof
      assume s: "v < 10"
      then have "unat b = unat v + 0x10" using b v by (simp add: unat_byte_plus)
      then show False using s True by (simp add: word_le_nat_alt word_less_nat_alt)
    qed
    then have "b = v + 0x37" "10 \<le> unat v" using b by (simp_all add: word_less_nat_alt)
    then have "unat b = unat v + 0x37" using v by (simp add: unat_byte_plus)
    then show ?thesis using \<open>10 \<le> unat v\<close> v by (simp add: \<open>b = v + 0x37\<close> decode_hex_nibble_def word_le_nat_alt unat_byte_plus)
  next
    case False
    then have "b = (if v < 10 then 0x30 + v else 0x57 + v)" using assms(2) by (simp add: lower_byte_def del: not_le split: if_splits)
    then show ?thesis using v by (cases "v < 10") (simp_all add: decode_hex_nibble_def word_le_nat_alt unat_byte_plus word_less_nat_alt)
  qed
qed

lemma nibble_mask: "(0xF :: byte) = mask 4"
  by (simp add: mask_eq_exp_minus_1)

lemma nibble_bit:
  assumes "(v :: byte) < 16" and "bit v n"
  shows "n < 4"
proof -
  have "take_bit 4 (unat v) = unat v"
    using assms(1) by (intro take_bit_nat_eq_self) (simp add: word_less_nat_alt)
  moreover have "bit (unat v) n" using assms(2) by (simp add: bit_unsigned_iff)
  ultimately show ?thesis by (metis bit_take_bit_iff)
qed

lemma nibbles:
  assumes "hi < 16" "lo < (16 :: byte)"
  shows "drop_bit 4 (push_bit 4 hi OR lo) = hi" "(push_bit 4 hi OR lo) AND 0xF = lo"
  unfolding nibble_mask
  by (rule bit_word_eqI; use nibble_bit [OF assms(1)] nibble_bit [OF assms(2)] in
      \<open>force simp: bit_op_iffs bit_and_iff bit_mask_iff\<close>)+

lemma join_nibbles: "push_bit 4 (drop_bit 4 b) OR (b AND 0xF) = (b::byte)"
  unfolding nibble_mask
  by (rule bit_word_eqI) (auto simp: bit_op_iffs bit_and_iff bit_mask_iff)
lemma to_lower_hex_digit: "v < 16 \<Longrightarrow> to_ascii_lowercase c = hex_digit v \<longleftrightarrow> decode_hex_nibble (byte_of_char c) = Inr v"
  unfolding lower_char hex_digit_def char_of_byte_inj
  using decode_hex_nibble_ok [of "byte_of_char c" v] decode_hex_nibble_conv [of v "byte_of_char c"] by blast

lemma hex_encode_simps [simp]:
  "hex_encode [] = []"
  "hex_encode (b # k) = hex_digit (drop_bit 4 b) # hex_digit (b AND 0xF) # hex_encode k"
  by (simp_all add: hex_encode_def)

lemma drop_bit_nibble: "drop_bit 4 (b :: byte) < 16"
proof -
  have "unat b div 16 < 16" using unat_byte_less [of b] by (simp del: unat_byte_less)
  then show ?thesis by (simp add: drop_bit_eq_div word_less_nat_alt unat_div)
qed

lemma and_nibble: "(b :: byte) AND 0xF < 16"
proof -
  have "b AND 0xF \<le> 0xF" by (rule word_and_le1)
  also have "(0xF :: byte) < 16" by simp
  finally show ?thesis .
qed

lemma decode_hex_pairs_iff:
  "even (length s) \<Longrightarrow> decode_hex_pairs (as_bytes s) = Inr k \<longleftrightarrow> map to_ascii_lowercase s = hex_encode k"
proof (induction s arbitrary: k rule: induct_list012)
  case 1
  show ?case by (cases k) (auto simp: as_bytes_def)
next
  case (3 a b s)
  have IH: "decode_hex_pairs (as_bytes s) = Inr k' \<longleftrightarrow> map to_ascii_lowercase s = hex_encode k'" for k'
    using 3 by simp
  have "decode_hex_pairs (as_bytes (a # b # s)) = Inr k \<longleftrightarrow>
    (\<exists>hi lo k'. decode_hex_nibble (byte_of_char a) = Inr hi \<and> decode_hex_nibble (byte_of_char b) = Inr lo \<and>
       decode_hex_pairs (as_bytes s) = Inr k' \<and> k = (push_bit 4 hi OR lo) # k')"
    by (auto simp: as_bytes_def split: sum.splits)
  also have "\<dots> \<longleftrightarrow> map to_ascii_lowercase (a # b # s) = hex_encode k"
  proof
    assume "\<exists>hi lo k'. decode_hex_nibble (byte_of_char a) = Inr hi \<and> decode_hex_nibble (byte_of_char b) = Inr lo \<and>
       decode_hex_pairs (as_bytes s) = Inr k' \<and> k = (push_bit 4 hi OR lo) # k'"
    then obtain hi lo k' where *: "decode_hex_nibble (byte_of_char a) = Inr hi"
      "decode_hex_nibble (byte_of_char b) = Inr lo" "decode_hex_pairs (as_bytes s) = Inr k'"
      "k = (push_bit 4 hi OR lo) # k'" by blast
    then show "map to_ascii_lowercase (a # b # s) = hex_encode k"
      using decode_hex_nibble_ok(1) [OF *(1)] decode_hex_nibble_ok(1) [OF *(2)] IH
      by (simp add: nibbles to_lower_hex_digit del: drop_bit_or)
  next
    assume m: "map to_ascii_lowercase (a # b # s) = hex_encode k"
    then obtain x k' where k: "k = x # k'" by (cases k) auto
    show "\<exists>hi lo k'. decode_hex_nibble (byte_of_char a) = Inr hi \<and> decode_hex_nibble (byte_of_char b) = Inr lo \<and>
       decode_hex_pairs (as_bytes s) = Inr k' \<and> k = (push_bit 4 hi OR lo) # k'"
      using m unfolding k IH
      by (intro exI [of _ "drop_bit 4 x"] exI [of _ "x AND 0xF"] exI [of _ k'])
         (simp add: to_lower_hex_digit drop_bit_nibble and_nibble join_nibbles)
  qed
  finally show ?case .
qed simp

lemma length_hex_encode [simp]: "length (hex_encode k) = 2 * length k"
  by (induction k) auto

lemma hex_encode_length: "map f s = hex_encode k \<Longrightarrow> length s = 2 * length k"
  by (metis length_map length_hex_encode)

lemma decode_psk_iff:
  "decode_psk s = Inr k \<longleftrightarrow> length k = 32 \<and> map to_ascii_lowercase (trim s) = hex_encode k"
proof (cases "length (trim s) = 64")
  case True
  then show ?thesis
    using decode_hex_pairs_iff [of "trim s" k] hex_encode_length [of to_ascii_lowercase "trim s" k]
    by (auto simp: decode_psk_def PSK_HEX_LEN_def PSK_LEN_def)
next
  case False
  then show ?thesis
    using hex_encode_length [of to_ascii_lowercase "trim s" k]
    by (auto simp: decode_psk_def PSK_HEX_LEN_def PSK_LEN_def)
qed

lemma decode_hex_pairs_error: "decode_hex_pairs bs = Inl e \<Longrightarrow> e = Bail ''psk must contain only hex chars''"
  by (induction bs rule: decode_hex_pairs.induct)
     (auto simp: decode_hex_nibble_def split: sum.splits if_splits)

section \<open>Message framing\<close>

lemma read_write_noise:
  "write_noise_message msg = Inr wire \<Longrightarrow> read_noise_message (wire @ rest) = Inr (msg, rest)"
  by (auto simp: write_noise_message_def read_noise_message_def Let_def MAX_NOISE_MESSAGE_LEN_def
      split: if_splits)

interpretation noise_wire: wire_codec write_noise_message read_noise_message
  by unfold_locales (auto intro: read_write_noise dest: read_noise_consumes)

lemma write_noise_ok:
  "length msg \<le> MAX_NOISE_MESSAGE_LEN \<Longrightarrow>
     write_noise_message msg = Inr (u32_to_be (of_nat (length msg)) @ msg)"
  by (simp add: write_noise_message_def)

text \<open>A message cut off anywhere is not read.\<close>

lemma read_noise_truncated:
  assumes "write_noise_message msg = Inr wire" and "k < length wire"
  shows "\<exists>e. read_noise_message (take k wire) = Inl e"
proof (cases "k < 4")
  case True
  have "read_u32 (take k wire) = Inl eof_error"
    using True by (auto simp: read_u32_def split: list.splits dest!: arg_cong [of _ _ length])
  then show ?thesis by (simp add: read_noise_message_def)
next
  case False
  then obtain j where k: "k = 4 + j" by (metis le_Suc_ex not_less)
  have w: "wire = u32_to_be (of_nat (length msg)) @ msg" "length msg \<le> MAX_NOISE_MESSAGE_LEN"
    using assms(1) by (auto simp: write_noise_message_def split: if_splits)
  then have "take k wire = u32_to_be (of_nat (length msg)) @ take j msg" "length (take j msg) < length msg"
    using assms(2) by (simp_all add: k)
  then show ?thesis
    using w(2) by (auto simp: read_noise_message_def Let_def read_exact_def MAX_NOISE_MESSAGE_LEN_def)
qed

section \<open>What the Noise library promises\<close>

text \<open>
  \<open>R n s r\<close>: the sending state \<open>s\<close> and the receiving state \<open>r\<close> of the peer are in
  step and the nonces suffice for \<open>n\<close> more messages. A transport message is 16 bytes
  longer than its plaintext and the peer decrypts it.
\<close>

definition noise_sync :: "('h, 's) snow \<Rightarrow> (nat \<Rightarrow> 's \<Rightarrow> 's \<Rightarrow> bool) \<Rightarrow> bool" where
  "noise_sync lib R \<longleftrightarrow>
     (\<forall>n s r p. R (Suc n) s r \<longrightarrow> length p + 16 \<le> MAX_NOISE_MESSAGE_LEN \<longrightarrow>
        (\<exists>c s' r'. write_message lib s p = Inr (c, s') \<and> length c = length p + 16 \<and>
           read_message lib r c = Inr (p, r') \<and> R n s' r'))"

text \<open>
  Both sides of the handshake pattern \<^verbatim>\<open>NNpsk0\<close> built from the same key complete it
  with states in step; a first message made under another key is rejected.
\<close>

definition noise_handshake :: "('h, 's) snow \<Rightarrow> ('s \<Rightarrow> 's \<Rightarrow> bool) \<Rightarrow> bool" where
  "noise_handshake lib R \<longleftrightarrow>
     (\<forall>key. length key = PSK_LEN \<longrightarrow>
        (\<exists>hi hr m1 hi1 hr1 m2 hr2 hi2 s r.
           build_initiator lib key = Inr hi \<and> build_responder lib key = Inr hr \<and>
           hs_write_message lib hi = Inr (m1, hi1) \<and> length m1 \<le> MAX_NOISE_MESSAGE_LEN \<and>
           hs_read_message lib hr m1 = Inr hr1 \<and>
           hs_write_message lib hr1 = Inr (m2, hr2) \<and> length m2 \<le> MAX_NOISE_MESSAGE_LEN \<and>
           hs_read_message lib hi1 m2 = Inr hi2 \<and>
           into_transport_mode lib hi2 = Inr s \<and> into_transport_mode lib hr2 = Inr r \<and> R s r))"

definition noise_psk_auth :: "('h, 's) snow \<Rightarrow> bool" where
  "noise_psk_auth lib \<longleftrightarrow>
     (\<forall>k1 k2 hi m1 hi1 hr. k1 \<noteq> k2 \<longrightarrow> build_initiator lib k1 = Inr hi \<longrightarrow>
        hs_write_message lib hi = Inr (m1, hi1) \<longrightarrow> build_responder lib k2 = Inr hr \<longrightarrow>
        (\<exists>e. hs_read_message lib hr m1 = Inl e))"

lemma noise_syncE:
  assumes "noise_sync lib R" and "R (Suc n) s r" and "length p \<le> MAX_TRANSPORT_PLAINTEXT_LEN"
  obtains c s' r' where "write_message lib s p = Inr (c, s')" "length c \<le> MAX_NOISE_MESSAGE_LEN"
    "read_message lib r c = Inr (p, r')" "R n s' r'"
proof -
  have "length p + 16 \<le> MAX_NOISE_MESSAGE_LEN"
    using assms(3) by (simp add: MAX_TRANSPORT_PLAINTEXT_LEN_def MAX_NOISE_MESSAGE_LEN_def)
  then show ?thesis
    using assms(1,2) that unfolding noise_sync_def by metis
qed

section \<open>The transport delivers\<close>

abbreviation all_ok :: "nat \<Rightarrow> bool" where
  "all_ok \<equiv> \<lambda>_. True"

text \<open>
  One plaintext chunk of the sender: the wire gets its message first, and the peer either
  reads a whole message or nothing of it.
\<close>

lemma transport_step:
  assumes "noise_sync lib R" and "R (Suc n) s r" and "p \<noteq> []"
    and "length p \<le> MAX_TRANSPORT_PLAINTEXT_LEN"
  obtains wire s' r' where "R n s' r'"
    "\<And>io reads. outbound_loop lib s io (p # reads) = (if io 0 then wire @ outbound_loop lib s' (\<lambda>k. io (Suc k)) reads else [])"
    "\<And>app rest. inbound_loop lib r app (wire @ rest) = (if app 0 then p @ inbound_loop lib r' (\<lambda>k. app (Suc k)) rest else [])"
    "\<And>app k. k < length wire \<Longrightarrow> inbound_loop lib r app (take k wire) = []"
proof -
  obtain c s' r' where c: "write_message lib s p = Inr (c, s')" "length c \<le> MAX_NOISE_MESSAGE_LEN"
    "read_message lib r c = Inr (p, r')" "R n s' r'"
    using noise_syncE [OF assms(1,2,4)] by blast
  let ?w = "u32_to_be (of_nat (length c)) @ c"
  have w: "write_noise_message c = Inr ?w" using c(2) by (rule write_noise_ok)
  have "inbound_loop lib r app (?w @ rest) = (if app 0 then p @ inbound_loop lib r' (\<lambda>k. app (Suc k)) rest else [])" for app rest
    unfolding inbound_loop.simps [of lib r app "?w @ rest"]
    using read_write_noise [OF w, of rest] c(3) by simp
  moreover have "inbound_loop lib r app (take k ?w) = []" if "k < length ?w" for app k
    using read_noise_truncated [OF w that] by (auto simp: inbound_loop.simps [of lib r])
  moreover have "outbound_loop lib s io (p # reads) = (if io 0 then ?w @ outbound_loop lib s' (\<lambda>k. io (Suc k)) reads else [])" for io reads
    using assms(3) c(1) w by simp
  ultimately show ?thesis using c(4) that by blast
qed

lemma inbound_Nil: "inbound_loop lib r ok [] = []"
  by (simp add: inbound_loop.simps read_noise_message_def read_u32_def)

lemma transport_whole:
  assumes "noise_sync lib R" and "R n s r" and "length reads \<le> n"
    and "\<forall>p \<in> set reads. p \<noteq> [] \<and> length p \<le> MAX_TRANSPORT_PLAINTEXT_LEN"
  shows "inbound_loop lib r all_ok (outbound_loop lib s all_ok reads) = concat reads"
  using assms(2-4)
proof (induction reads arbitrary: n s r)
  case Nil
  show ?case by (simp add: inbound_Nil)
next
  case (Cons p reads)
  then obtain m where n: "n = Suc m" by (cases n) auto
  have pre: "R (Suc m) s r" "p \<noteq> []" "length p \<le> MAX_TRANSPORT_PLAINTEXT_LEN"
    using Cons.prems n by auto
  obtain wire s' r' where *: "R m s' r'"
    "\<And>io reads. outbound_loop lib s io (p # reads) = (if io 0 then wire @ outbound_loop lib s' (\<lambda>k. io (Suc k)) reads else [])"
    "\<And>app rest. inbound_loop lib r app (wire @ rest) = (if app 0 then p @ inbound_loop lib r' (\<lambda>k. app (Suc k)) rest else [])"
    "\<And>app k. k < length wire \<Longrightarrow> inbound_loop lib r app (take k wire) = []"
    by (rule transport_step [OF assms(1) pre]) (rule that)
  show ?case using Cons.IH [OF *(1)] Cons.prems n *(3) by (simp add: *(2) del: outbound_loop.simps)
qed

text \<open>With failures and a cut: the first chunks, none of them after a failure.\<close>

lemma transport_failing:
  assumes "noise_sync lib R" and "R n s r" and "length reads \<le> n"
    and "\<forall>p \<in> set reads. p \<noteq> [] \<and> length p \<le> MAX_TRANSPORT_PLAINTEXT_LEN"
  shows "\<exists>j. inbound_loop lib r app (take k (outbound_loop lib s io reads)) = concat (take j reads) \<and>
    (\<forall>i. \<not> (io i \<and> app i) \<longrightarrow> j \<le> i)"
  using assms(2-4)
proof (induction reads arbitrary: n s r k io app)
  case Nil
  show ?case by (intro exI [of _ 0]) (simp add: inbound_Nil)
next
  case (Cons p reads)
  then obtain m where n: "n = Suc m" by (cases n) auto
  have pre: "R (Suc m) s r" "p \<noteq> []" "length p \<le> MAX_TRANSPORT_PLAINTEXT_LEN"
    using Cons.prems n by auto
  obtain wire s' r' where *: "R m s' r'"
    "\<And>io reads. outbound_loop lib s io (p # reads) = (if io 0 then wire @ outbound_loop lib s' (\<lambda>k. io (Suc k)) reads else [])"
    "\<And>app rest. inbound_loop lib r app (wire @ rest) = (if app 0 then p @ inbound_loop lib r' (\<lambda>k. app (Suc k)) rest else [])"
    "\<And>app k. k < length wire \<Longrightarrow> inbound_loop lib r app (take k wire) = []"
    by (rule transport_step [OF assms(1) pre]) (rule that)
  show ?case
  proof (cases "io 0 \<and> app 0 \<and> \<not> k < length wire")
    case False
    then have "inbound_loop lib r app (take k (outbound_loop lib s io (p # reads))) = []"
      using *(3,4) by (cases "k < length wire") (auto simp: *(2) inbound_Nil simp del: outbound_loop.simps)
    then show ?thesis by (intro exI [of _ 0]) simp
  next
    case True
    obtain j where j: "inbound_loop lib r' (\<lambda>k. app (Suc k)) (take (k - length wire) (outbound_loop lib s' (\<lambda>k. io (Suc k)) reads))
        = concat (take j reads)" "\<forall>i. \<not> (io (Suc i) \<and> app (Suc i)) \<longrightarrow> j \<le> i"
      using Cons.IH [where io = "\<lambda>k. io (Suc k)" and app = "\<lambda>k. app (Suc k)" and k = "k - length wire", OF *(1)] Cons.prems n by auto
    have "inbound_loop lib r app (take k (outbound_loop lib s io (p # reads))) = concat (take (Suc j) (p # reads))"
      using True *(3) j(1) by (simp add: *(2) del: outbound_loop.simps)
    moreover have "\<forall>i. \<not> (io i \<and> app i) \<longrightarrow> Suc j \<le> i" using True j(2) by (metis Suc_le_mono not0_implies_Suc)
    ultimately show ?thesis by blast
  qed
qed

section \<open>Properties\<close>

text \<open>
  \<^verbatim>\<open>decode_psk\<close> accepts exactly the texts that are, apart from surrounding white space
  and the case of the letters, the 64 hexadecimal digits of a 32-byte key, and gives that
  key; every other text is refused with the message that names its defect.
\<close>

theorem decode_psk_exact:
  "(decode_psk s = Inr k \<longleftrightarrow> length k = 32 \<and> map to_ascii_lowercase (trim s) = hex_encode k) \<and>
   (decode_psk s = Inl e \<longleftrightarrow>
      (if length (trim s) = 64
       then (\<nexists>k. map to_ascii_lowercase (trim s) = hex_encode k) \<and> e = Bail ''psk must contain only hex chars''
       else e = Bail ''psk must be 64 hex chars''))"
proof (intro conjI)
  have d64: "dec_string 64 = ''64''" by code_simp
  show "decode_psk s = Inl e \<longleftrightarrow>
      (if length (trim s) = 64
       then (\<nexists>k. map to_ascii_lowercase (trim s) = hex_encode k) \<and> e = Bail ''psk must contain only hex chars''
       else e = Bail ''psk must be 64 hex chars'')"
  proof (cases "length (trim s) = 64")
    case True
    then have d: "decode_psk s = decode_hex_pairs (as_bytes (trim s))"
      by (simp add: decode_psk_def PSK_HEX_LEN_def PSK_LEN_def)
    have "(\<exists>k. decode_psk s = Inr k) \<longleftrightarrow> (\<exists>k. map to_ascii_lowercase (trim s) = hex_encode k)"
      using True decode_hex_pairs_iff [of "trim s"] by (simp add: d)
    then show ?thesis
      using True decode_hex_pairs_error [of "as_bytes (trim s)"]
      by (cases "decode_hex_pairs (as_bytes (trim s))") (auto simp: d)
  next
    case False
    then show ?thesis by (auto simp: decode_psk_def PSK_HEX_LEN_def PSK_LEN_def d64)
  qed
qed (rule decode_psk_iff)

text \<open>
  C14: the encrypted transport delivers. Whatever chunks of at most 16 KiB the outbound task
  reads from the application, the inbound task of the peer hands its application exactly
  their concatenation. Whatever writes to the connection or to the application fail, and
  wherever the connection is cut, it hands over the first chunks, none that follows a failed
  write, never a part of one and never other bytes. The hypotheses are the Noise library's
  contract and enough nonces.
\<close>

theorem transport_delivers:
  assumes "noise_sync lib R" and "R n s r" and "length reads \<le> n"
    and "\<forall>p \<in> set reads. p \<noteq> [] \<and> length p \<le> MAX_TRANSPORT_PLAINTEXT_LEN"
  shows "inbound_loop lib r all_ok (outbound_loop lib s all_ok reads) = concat reads \<and>
         (\<exists>j. inbound_loop lib r app_ok (take k (outbound_loop lib s io_ok reads)) = concat (take j reads) \<and>
              (\<forall>i. \<not> (io_ok i \<and> app_ok i) \<longrightarrow> j \<le> i))"
  using transport_whole [OF assms] transport_failing [OF assms] by blast

text \<open>A concrete stand-in for the library: it appends a tag that carries a counter.\<close>

definition tag16 :: "byte \<Rightarrow> bytes" where
  "tag16 c = replicate 16 c"

definition demo_snow :: "(bytes \<times> bool, byte) snow" where
  "demo_snow =
     \<lparr>build_initiator = (\<lambda>k. Inr (k, True)), build_responder = (\<lambda>k. Inr (k, False)),
      hs_write_message = (\<lambda>h. Inr (fst h, h)),
      hs_read_message = (\<lambda>h m. if m = fst h then Inr h else Inl (Bail ''decrypt error'')),
      into_transport_mode = (\<lambda>h. Inr 0),
      write_message = (\<lambda>c p. Inr (p @ tag16 c, c + 1)),
      read_message = (\<lambda>c m. if drop (length m - 16) m = tag16 c then Inr (take (length m - 16) m, c + 1)
                             else Inl (Bail ''decrypt error''))\<rparr>"

lemma demo_sync: "noise_sync demo_snow (\<lambda>n s r. s = r)"
  by (simp add: noise_sync_def demo_snow_def tag16_def)

theorem transport_delivers_witness:
  "inbound_loop demo_snow 0 all_ok (outbound_loop demo_snow 0 all_ok [[1, 2], [3]]) = [1, 2, 3]"
  using transport_delivers [OF demo_sync, of 0 0 "[[1, 2], [3]]" 2]
  by (simp add: MAX_TRANSPORT_PLAINTEXT_LEN_def)

text \<open>The handshake with equal keys, whatever follows on the connection, and with different keys.\<close>

lemma handshake_same_key:
  assumes "noise_handshake lib R" and "decode_psk p1 = Inr k" and "decode_psk p2 = Inr k"
  shows "\<exists>wire h back s r. connect_start lib p1 = Inr (wire, h) \<and> R s r \<and>
           (\<forall>x. accept lib p2 (wire @ x) = (back, Inr (r, x))) \<and> (\<forall>y. connect_finish lib h (back @ y) = Inr (s, y))"
proof -
  have len: "length k = PSK_LEN" using assms(2) by (simp add: decode_psk_iff PSK_LEN_def)
  obtain hi hr m1 hi1 hr1 m2 hr2 hi2 s r where hs:
    "build_initiator lib k = Inr hi" "build_responder lib k = Inr hr"
    "hs_write_message lib hi = Inr (m1, hi1)" "length m1 \<le> MAX_NOISE_MESSAGE_LEN"
    "hs_read_message lib hr m1 = Inr hr1"
    "hs_write_message lib hr1 = Inr (m2, hr2)" "length m2 \<le> MAX_NOISE_MESSAGE_LEN"
    "hs_read_message lib hi1 m2 = Inr hi2"
    "into_transport_mode lib hi2 = Inr s" "into_transport_mode lib hr2 = Inr r" "R s r"
    using assms(1) [unfolded noise_handshake_def, rule_format, OF len] by (elim exE conjE) (rule that)
  let ?w1 = "u32_to_be (of_nat (length m1)) @ m1" and ?w2 = "u32_to_be (of_nat (length m2)) @ m2"
  have w: "write_noise_message m1 = Inr ?w1" "write_noise_message m2 = Inr ?w2"
    using hs(4,7) by (simp_all only: write_noise_ok)
  have "connect_start lib p1 = Inr (?w1, hi1)" using assms(2) hs w by (simp add: connect_start_def)
  moreover have "accept lib p2 (?w1 @ x) = (?w2, Inr (r, x))" for x
    using assms(3) hs w read_write_noise [OF w(1), of x] by (simp add: accept_def)
  moreover have "connect_finish lib hi1 (?w2 @ y) = Inr (s, y)" for y
    using hs w read_write_noise [OF w(2), of y] by (simp add: connect_finish_def)
  ultimately show ?thesis using hs(11) by blast
qed

lemma handshake_other_key:
  assumes "noise_handshake lib R" and "noise_psk_auth lib"
    and "decode_psk p1 = Inr k1" and "decode_psk p2 = Inr k2" and "k1 \<noteq> k2" and "connect_start lib p1 = Inr (wire, h)"
  shows "\<exists>e. accept lib p2 (wire @ x) = ([], Inl e)"
proof -
  have len: "length k2 = PSK_LEN" using assms(4) by (simp add: decode_psk_iff PSK_LEN_def)
  obtain hr where hr: "build_responder lib k2 = Inr hr"
    using assms(1) [unfolded noise_handshake_def, rule_format, OF len] by (elim exE conjE) (rule that)
  obtain hi m1 hi1 where m1: "build_initiator lib k1 = Inr hi" "hs_write_message lib hi = Inr (m1, hi1)"
    "write_noise_message m1 = Inr wire"
    using assms(3,6) by (auto simp: connect_start_def split: sum.splits)
  obtain e where "hs_read_message lib hr m1 = Inl e"
    using assms(2,5) m1(1,2) hr unfolding noise_psk_auth_def by blast
  then show ?thesis using assms(4) hr read_write_noise [OF m1(3), of x] by (simp add: accept_def)
qed


lemma demo_handshake: "noise_handshake demo_snow (\<lambda>s r. s = r)" "noise_psk_auth demo_snow"
  by (auto simp: noise_handshake_def noise_psk_auth_def demo_snow_def PSK_LEN_def MAX_NOISE_MESSAGE_LEN_def)

abbreviation zero_key_text :: string where
  "zero_key_text \<equiv> replicate 64 (CHR ''0'')"

lemma zero_key_decodes: "decode_psk zero_key_text = Inr (replicate 32 0)"
  by code_simp


end
