(* ===== verification/Protocol.thy ===== *)
theory Protocol
  imports Rust_Str
begin

text \<open>
  The messages of the control protocol and their framing,
  \<^verbatim>\<open>crates/rps-core/src/protocol.rs\<close>: a JSON document behind a 32-bit big-endian length
  of at most one mebibyte. The JSON library is a parameter: \<open>to_vec\<close> and
  \<open>from_slice\<close> stand for the functions of that name in \<^verbatim>\<open>serde_json\<close>, which either
  fail with a message or give the bytes, respectively the value.
\<close>

definition MAGIC :: string where "MAGIC = ''RPS1''"

definition VERSION :: string where "VERSION = ''0.1.0''"

definition MAX_JSON_MESSAGE_LEN :: nat where "MAX_JSON_MESSAGE_LEN = 1024 * 1024"

datatype hello_role = RoleControl | RoleData | RolePool

record noise_prelude =
  np_magic :: string
  np_client_id :: string
  np_version :: string

definition NoisePrelude_new :: "string \<Rightarrow> noise_prelude" where
  "NoisePrelude_new cid = \<lparr>np_magic = MAGIC, np_client_id = cid, np_version = VERSION\<rparr>"

record hello =
  h_magic :: string
  h_role :: hello_role
  h_client_id :: string
  h_version :: string

definition Hello_new :: "hello_role \<Rightarrow> string \<Rightarrow> hello" where
  "Hello_new role cid = \<lparr>h_magic = MAGIC, h_role = role, h_client_id = cid, h_version = VERSION\<rparr>"

record hello_ack =
  ha_ok :: bool
  ha_error :: "string option"
  ha_server_version :: string

definition HelloAck_ok :: hello_ack where
  "HelloAck_ok = \<lparr>ha_ok = True, ha_error = None, ha_server_version = VERSION\<rparr>"

definition HelloAck_err :: "string \<Rightarrow> hello_ack" where
  "HelloAck_err e = \<lparr>ha_ok = False, ha_error = Some e, ha_server_version = VERSION\<rparr>"

datatype target_protocol = Tcp | Udp

record open_request =
  or_tunnel_id :: string
  or_protocol :: target_protocol
  or_target :: string
  or_remote_addr :: string
  or_timeout_ms :: u64

record open_response =
  ors_ok :: bool
  ors_error :: "string option"

definition OpenResponse_ok :: open_response where
  "OpenResponse_ok = \<lparr>ors_ok = True, ors_error = None\<rparr>"

definition OpenResponse_err :: "string \<Rightarrow> open_response" where
  "OpenResponse_err e = \<lparr>ors_ok = False, ors_error = Some e\<rparr>"

datatype control_message = CPing u64 | CPong u64 | CShutdown string

definition invalid_data :: "string \<Rightarrow> error" where
  "invalid_data m = IoError InvalidData m"

definition json_too_large :: error where
  "json_too_large = IoError InvalidData ''json message too large''"

definition write_json :: "('a \<Rightarrow> string + bytes) \<Rightarrow> 'a \<Rightarrow> error + bytes" where
  "write_json to_vec value =
     (case to_vec value of
        Inl e \<Rightarrow> Inl (invalid_data e)
      | Inr bytes \<Rightarrow>
          if length bytes > MAX_JSON_MESSAGE_LEN then Inl json_too_large
          else Inr (u32_to_be (of_nat (length bytes)) @ bytes))"

definition read_json :: "(bytes \<Rightarrow> string + 'a) \<Rightarrow> bytes \<Rightarrow> error + 'a \<times> bytes" where
  "read_json from_slice reader =
     (case read_u32 reader of
        Inl e \<Rightarrow> Inl e
      | Inr (n, reader1) \<Rightarrow>
          let len = unat n
          in if len > MAX_JSON_MESSAGE_LEN then Inl json_too_large
             else (case read_exact len reader1 of
                     Inl e \<Rightarrow> Inl e
                   | Inr (bytes, reader2) \<Rightarrow>
                       (case from_slice bytes of
                          Inl e \<Rightarrow> Inl (invalid_data e)
                        | Inr v \<Rightarrow> Inr (v, reader2))))"

section \<open>Framing\<close>

lemma read_write_json:
  assumes "\<And>bs. to_vec v = Inr bs \<Longrightarrow> from_slice bs = Inr v" and "write_json to_vec v = Inr wire"
  shows "read_json from_slice (wire @ rest) = Inr (v, rest)"
  using assms
  by (auto simp: write_json_def read_json_def Let_def MAX_JSON_MESSAGE_LEN_def split: sum.splits if_splits)

text \<open>A value is read only from a complete message whose length is within the limit.\<close>

lemma read_json_Inr:
  "read_json from_slice reader = Inr (v, rest) \<longleftrightarrow>
     (\<exists>body. reader = u32_to_be (of_nat (length body)) @ body @ rest \<and>
        length body \<le> MAX_JSON_MESSAGE_LEN \<and> from_slice body = Inr v)"
proof
  assume "read_json from_slice reader = Inr (v, rest)"
  then obtain n body where "reader = u32_to_be n @ body @ rest" "length body = unat n"
    "length body \<le> MAX_JSON_MESSAGE_LEN" "from_slice body = Inr v"
    by (auto simp: read_json_def Let_def read_u32_Inr read_exact_Inr split: sum.splits if_splits)
  then show "\<exists>body. reader = u32_to_be (of_nat (length body)) @ body @ rest \<and>
        length body \<le> MAX_JSON_MESSAGE_LEN \<and> from_slice body = Inr v"
    by (intro exI [of _ body]) simp
next
  assume "\<exists>body. reader = u32_to_be (of_nat (length body)) @ body @ rest \<and>
        length body \<le> MAX_JSON_MESSAGE_LEN \<and> from_slice body = Inr v"
  then show "read_json from_slice reader = Inr (v, rest)"
    by (auto simp: read_json_def Let_def MAX_JSON_MESSAGE_LEN_def)
qed

text \<open>With a JSON library that reads back what it writes, the messages are a wire codec.\<close>

lemma json_wire:
  assumes "\<And>v bs. to_vec v = Inr bs \<Longrightarrow> from_slice bs = Inr v"
  shows "wire_codec (write_json to_vec) (read_json from_slice)"
proof
  show "read_json from_slice (bs @ rest) = Inr (x, rest)" if "write_json to_vec x = Inr bs" for x bs rest
    using assms that by (rule read_write_json)
  show "length rest < length bs" if "read_json from_slice bs = Inr (x, rest)" for bs x rest
    using that by (auto simp: read_json_Inr)
qed

section \<open>Properties\<close>

text \<open>
  Messages written one after the other are read back one after the other, whatever
  follows them on the stream, and nothing longer than one mebibyte is ever taken for a
  message. The hypothesis is that the JSON library parses what it prints.
\<close>

theorem json_messages_roundtrip:
  assumes "\<And>v bs. to_vec v = Inr bs \<Longrightarrow> from_slice bs = Inr v"
    and "enc_all (write_json to_vec) vs = Inr wire"
  shows "decodes (read_json from_slice) vs (wire @ rest) rest \<and>
         (\<forall>v bs. to_vec v = Inr bs \<longrightarrow>
            (is_ok (write_json to_vec v) \<longleftrightarrow> length bs \<le> MAX_JSON_MESSAGE_LEN))"
proof -
  have "wire_codec (write_json to_vec) (read_json from_slice)"
    using assms(1) by (rule json_wire)
  then have "decodes (read_json from_slice) vs (wire @ rest) rest"
    using assms(2) by (rule wire_codec.enc_all_decodes)
  then show ?thesis by (simp add: write_json_def)
qed

theorem json_messages_roundtrip_witness:
  "decodes (read_json (\<lambda>bs. Inr bs)) [[1, 2], [], [3]]
     ([0, 0, 0, 2, 1, 2, 0, 0, 0, 0, 0, 0, 0, 1, 3] @ [9]) [9]"
  using json_messages_roundtrip [of "\<lambda>v. Inr v" "\<lambda>bs. Inr bs" "[[1, 2], [], [3]]"
      "[0, 0, 0, 2, 1, 2, 0, 0, 0, 0, 0, 0, 0, 1, 3]" "[9]"]
  by (simp add: write_json_def MAX_JSON_MESSAGE_LEN_def u32_to_be_def)

end
