(* ===== verification/Table.thy ===== *)
theory Table
  imports Rust_Str "HOL-Library.List_Lexorder" "HOL-Library.Char_ord" "HOL-Library.Product_Lexorder"
begin

text \<open>
  SQL tables. A table is the list of its rows in the order of insertion. The operations are
  the statements the controller's database layer uses: select by a condition, insert, insert
  or ignore, insert with \<^verbatim>\<open>on conflict do update\<close>, update and delete by a condition. A
  unique constraint is that a projection of the rows is distinct. Integers of a column are
  signed 64-bit; a sum that leaves that range becomes a floating point value, which the
  driver does not decode as an integer.
\<close>

declare map_of_eq_Some_iff [simp del] Some_eq_map_of_iff [simp del]

section \<open>Rows by condition\<close>

definition select_one :: "('r \<Rightarrow> bool) \<Rightarrow> 'r list \<Rightarrow> 'r option" where
  "select_one P rows = find P rows"

definition update_rows :: "('r \<Rightarrow> bool) \<Rightarrow> ('r \<Rightarrow> 'r) \<Rightarrow> 'r list \<Rightarrow> 'r list" where
  "update_rows P f rows = map (\<lambda>r. if P r then f r else r) rows"

definition delete_rows :: "('r \<Rightarrow> bool) \<Rightarrow> 'r list \<Rightarrow> 'r list" where
  "delete_rows P rows = filter (\<lambda>r. \<not> P r) rows"

definition count_rows :: "('r \<Rightarrow> bool) \<Rightarrow> 'r list \<Rightarrow> nat" where
  "count_rows P rows = length (filter P rows)"

definition exists_row :: "('r \<Rightarrow> bool) \<Rightarrow> 'r list \<Rightarrow> bool" where
  "exists_row P rows = list_ex P rows"

definition upsert_row :: "('r \<Rightarrow> 'k) \<Rightarrow> 'r \<Rightarrow> ('r \<Rightarrow> 'r) \<Rightarrow> 'r list \<Rightarrow> 'r list" where
  "upsert_row k new upd rows =
     (if exists_row (\<lambda>r. k r = k new) rows
      then update_rows (\<lambda>r. k r = k new) upd rows else rows @ [new])"

text \<open>A projection of the rows without repetitions: a unique constraint.\<close>

abbreviation unique :: "('r \<Rightarrow> 'k) \<Rightarrow> 'r list \<Rightarrow> bool" where
  "unique k rows \<equiv> distinct (map k rows)"

lemma exists_row_iff [simp]: "exists_row P rows \<longleftrightarrow> (\<exists>r \<in> set rows. P r)"
  by (simp add: exists_row_def list_ex_iff)

lemma select_one_None: "select_one P rows = None \<longleftrightarrow> (\<forall>r \<in> set rows. \<not> P r)"
  by (auto simp: select_one_def find_None_iff)

lemma select_one_SomeD: "select_one P rows = Some r \<Longrightarrow> r \<in> set rows \<and> P r"
  by (auto simp: select_one_def find_Some_iff)

lemma select_one_ex: "(\<exists>r. select_one P rows = Some r) \<longleftrightarrow> (\<exists>r \<in> set rows. P r)"
  using select_one_None [of P rows] by (cases "select_one P rows") auto

lemma unique_same: "unique k rows \<Longrightarrow> x \<in> set rows \<Longrightarrow> y \<in> set rows \<Longrightarrow> k x = k y \<Longrightarrow> x = y"
  by (metis distinct_map inj_onD)

text \<open>A select that fixes a unique column finds the row or nothing.\<close>

lemma select_one_unique:
  assumes "unique k rows" and "\<And>r. P r \<Longrightarrow> k r = x"
  shows "select_one P rows = Some r \<longleftrightarrow> r \<in> set rows \<and> P r"
proof
  assume r: "r \<in> set rows \<and> P r"
  then obtain r' where r': "select_one P rows = Some r'" using select_one_ex [of P rows] by blast
  then have "r' \<in> set rows" "k r' = k r" using r assms(2) select_one_SomeD by metis+
  then have "r' = r" using assms(1) r by (metis distinct_map inj_onD)
  then show "select_one P rows = Some r" using r' by simp
qed (rule select_one_SomeD)

lemma select_one_snoc_new:
  "\<forall>r \<in> set rows. \<not> P r \<Longrightarrow> select_one P (rows @ [new]) = (if P new then Some new else None)"
  by (induction rows) (auto simp: select_one_def)

lemma select_snoc_other: "\<not> P new \<Longrightarrow> select_one P (rows @ [new]) = select_one P rows"
  by (induction rows) (auto simp: select_one_def)

lemma set_update_rows: "r \<in> set (update_rows P f rows) \<longleftrightarrow>
    (\<exists>x \<in> set rows. r = (if P x then f x else x))"
  by (auto simp: update_rows_def)

lemma update_rows_Cons: "update_rows P f (r # rows) = (if P r then f r else r) # update_rows P f rows"
  by (simp add: update_rows_def)

lemma unique_update [simp]:
  assumes "\<And>r. k (f r) = k r"
  shows "unique k (update_rows P f rows) = unique k rows"
proof -
  have "map k (update_rows P f rows) = map k rows"
    using assms by (simp add: update_rows_def)
  then show ?thesis by simp
qed

lemma map_update_rows: "(\<And>r. k (f r) = k r) \<Longrightarrow> map k (update_rows P f rows) = map k rows"
  by (simp add: update_rows_def)

lemma unique_delete [simp]: "unique k rows \<Longrightarrow> unique k (delete_rows P rows)"
  by (simp add: delete_rows_def distinct_map_filter)

lemma unique_snoc [simp]: "unique k (rows @ [r]) \<longleftrightarrow> unique k rows \<and> (\<forall>x \<in> set rows. k x \<noteq> k r)"
  by (force simp: image_iff)

lemma unique_upsert [simp]:
  "unique k rows \<Longrightarrow> (\<And>r. k (upd r) = k r) \<Longrightarrow> unique k (upsert_row k new upd rows)"
  by (auto simp: upsert_row_def)

lemma set_upsert:
  "r \<in> set (upsert_row k new upd rows) \<Longrightarrow>
     r = new \<or> (\<exists>x \<in> set rows. r = x \<or> r = upd x)"
  by (auto simp: upsert_row_def set_update_rows split: if_splits)

lemma set_delete_rows [simp]: "r \<in> set (delete_rows P rows) \<longleftrightarrow> r \<in> set rows \<and> \<not> P r"
  by (auto simp: delete_rows_def)

lemma count_rows_0 [simp]: "count_rows P rows = 0 \<longleftrightarrow> (\<forall>r \<in> set rows. \<not> P r)"
  by (auto simp: count_rows_def filter_empty_conv)

lemma count_rows_pos: "0 < count_rows P rows \<longleftrightarrow> (\<exists>r \<in> set rows. P r)"
  by (simp add: neq0_conv [symmetric] del: neq0_conv)

lemma count_delete_rows [simp]: "count_rows P (delete_rows P rows) = 0"
  by simp

text \<open>An update whose effect does not depend on the condition it selects by.\<close>

lemma select_update:
  assumes "\<And>r. P (f r) \<longleftrightarrow> P r"
  shows "select_one P (update_rows Q f rows) =
           map_option (\<lambda>r. if Q r then f r else r) (select_one P rows)"
  using assms by (induction rows) (auto simp: select_one_def update_rows_def)

lemma update_rows_none: "\<forall>r \<in> set rows. \<not> P r \<Longrightarrow> update_rows P f rows = rows"
  by (simp add: update_rows_def map_idI)

section \<open>Integer columns\<close>

abbreviation I64_MAX :: int where "I64_MAX \<equiv> 9223372036854775807"

datatype sql_num = SqlInt int | SqlReal

definition sql_add :: "sql_num \<Rightarrow> int \<Rightarrow> sql_num" where
  "sql_add a b =
     (case a of
        SqlInt x \<Rightarrow> if - I64_MAX - 1 \<le> x + b \<and> x + b \<le> I64_MAX then SqlInt (x + b) else SqlReal
      | SqlReal \<Rightarrow> SqlReal)"

definition get_i64 :: "sql_num \<Rightarrow> error + int" where
  "get_i64 a = (case a of SqlInt x \<Rightarrow> Inr x | SqlReal \<Rightarrow> Inl (Bail ''mismatched types''))"

text \<open>A counter column holds a non-negative 64-bit integer, or has overflowed.\<close>

definition count_ok :: "sql_num \<Rightarrow> bool" where
  "count_ok a = (case a of SqlInt x \<Rightarrow> 0 \<le> x \<and> x \<le> I64_MAX | SqlReal \<Rightarrow> True)"

lemma count_ok_add [simp]: "count_ok a \<Longrightarrow> 0 \<le> b \<Longrightarrow> count_ok (sql_add a b)"
  by (auto simp: count_ok_def sql_add_def split: sql_num.splits)

lemma sql_add_int: "0 \<le> x \<Longrightarrow> 0 \<le> b \<Longrightarrow> x + b \<le> I64_MAX \<Longrightarrow> sql_add (SqlInt x) b = SqlInt (x + b)"
  by (simp add: sql_add_def)

section \<open>Conversions\<close>

definition bool_to_i64 :: "bool \<Rightarrow> int" where
  "bool_to_i64 value = (if value then 1 else 0)"

definition i64_to_bool :: "int \<Rightarrow> bool" where
  "i64_to_bool value = (value \<noteq> 0)"

definition u64_to_i64 :: "u64 \<Rightarrow> int" where
  "u64_to_i64 value = min (uint value) I64_MAX"

definition i64_to_u64 :: "int \<Rightarrow> u64" where
  "i64_to_u64 value = of_int (max value 0)"

lemma bool_i64_roundtrip [simp]: "i64_to_bool (bool_to_i64 b) = b"
  by (simp add: bool_to_i64_def i64_to_bool_def)

lemma bool_to_i64_eq_1 [simp]: "bool_to_i64 b = 1 \<longleftrightarrow> b"
  by (simp add: bool_to_i64_def)

lemma u64_to_i64_range [simp]: "0 \<le> u64_to_i64 v" "u64_to_i64 v \<le> I64_MAX"
  by (simp_all add: u64_to_i64_def)

text \<open>A value above the signed range is stored and read back as the largest signed value.\<close>

lemma u64_i64_roundtrip: "uint (i64_to_u64 (u64_to_i64 v)) = min (uint v) I64_MAX"
  by (simp add: i64_to_u64_def u64_to_i64_def max_def min_def unsigned_of_int take_bit_eq_mod)

lemma u64_i64_small: "uint v \<le> I64_MAX \<Longrightarrow> i64_to_u64 (u64_to_i64 v) = v"
  using u64_i64_roundtrip [of v] by (simp add: word_uint_eq_iff)

lemma unat_i64_to_u64: "0 \<le> x \<Longrightarrow> x \<le> I64_MAX \<Longrightarrow> unat (i64_to_u64 x) = nat x"
  by (simp add: i64_to_u64_def unsigned_of_int take_bit_eq_mod nat_mod_distrib)

end
