(* ===== verification/Config.thy ===== *)
theory Config
  imports Rust_Str
begin

text \<open>
  The configuration files, \<^verbatim>\<open>crates/rps-core/src/config.rs\<close>. A parsed TOML document is a
  record in which a key that may be left out is an option (the \<open>raw\<close> records); the
  functions \<open>fill\<close> apply the \<^verbatim>\<open>serde(default)\<close> attributes and give the records the
  controller and the agent work with. Reading the file and parsing TOML are parameters of
  \<open>load_controller_config\<close> and \<open>load_agent_config\<close>.
\<close>

section \<open>Defaults\<close>

definition default_true :: bool where "default_true = True"

definition default_admin_username :: string where "default_admin_username = ''admin''"

definition default_admin_password :: string where "default_admin_password = ''change-me''"

definition default_session_ttl_secs :: u64 where "default_session_ttl_secs = 24 * 60 * 60"

definition default_reconnect_interval :: u64 where "default_reconnect_interval = 5"

definition default_web_addr :: string where "default_web_addr = ''0.0.0.0:8080''"

definition default_web_dir :: string where "default_web_dir = ''web/dist''"

definition default_database_path :: string where "default_database_path = ''data/rps.db''"

section \<open>The configuration\<close>

record web_auth_config =
  wa_enabled :: bool
  wa_username :: string
  wa_password :: string
  wa_totp_secret :: "string option"
  wa_session_ttl_secs :: u64

definition WebAuthConfig_default :: web_auth_config where
  "WebAuthConfig_default =
     \<lparr>wa_enabled = True, wa_username = default_admin_username, wa_password = default_admin_password,
      wa_totp_secret = None, wa_session_ttl_secs = default_session_ttl_secs\<rparr>"

record proxy_listen_config =
  pl_listen :: string
  pl_client_id :: string
  pl_public_udp_addr :: "string option"
  pl_enabled :: bool

record server_config =
  bridge_addr :: string
  web_addr :: string
  web_dir :: string
  database_path :: string
  web_auth :: web_auth_config
  http_proxy :: "proxy_listen_config option"
  socks5 :: "proxy_listen_config option"

record client_config =
  cc_id :: string
  cc_psk :: string
  cc_enabled :: bool
  cc_remark :: "string option"
  cc_max_connections :: "u32 option"
  cc_compress :: bool
  cc_encrypt :: bool

datatype tunnel_mode = TcpMode | UdpMode

record tunnel_config =
  tc_id :: string
  tc_client_id :: string
  tc_mode :: tunnel_mode
  tc_listen :: string
  tc_target :: "string option"
  tc_enabled :: bool

record controller_config =
  server :: server_config
  clients_cfg :: "client_config list"
  tunnels_cfg :: "tunnel_config list"

record agent_config =
  server_addr :: string
  ac_client_id :: string
  ac_psk :: string
  reconnect_interval_secs :: u64

section \<open>Documents with optional keys\<close>

record raw_web_auth =
  rw_enabled :: "bool option"
  rw_username :: "string option"
  rw_password :: "string option"
  rw_totp_secret :: "string option"
  rw_session_ttl_secs :: "u64 option"

record raw_proxy_listen =
  rp_listen :: string
  rp_client_id :: string
  rp_public_udp_addr :: "string option"
  rp_enabled :: "bool option"

record raw_server =
  rs_bridge_addr :: string
  rs_web_addr :: "string option"
  rs_web_dir :: "string option"
  rs_database_path :: "string option"
  rs_web_auth :: "raw_web_auth option"
  rs_http_proxy :: "raw_proxy_listen option"
  rs_socks5 :: "raw_proxy_listen option"

record raw_client =
  rc_id :: string
  rc_psk :: string
  rc_enabled :: "bool option"
  rc_remark :: "string option"
  rc_max_connections :: "u32 option"
  rc_compress :: "bool option"
  rc_encrypt :: "bool option"

record raw_tunnel =
  rt_id :: string
  rt_client_id :: string
  rt_mode :: tunnel_mode
  rt_listen :: string
  rt_target :: "string option"
  rt_enabled :: "bool option"

record raw_controller =
  rctl_server :: raw_server
  rctl_clients :: "raw_client list option"
  rctl_tunnels :: "raw_tunnel list option"

record raw_agent =
  ra_server_addr :: string
  ra_client_id :: string
  ra_psk :: string
  ra_reconnect_interval_secs :: "u64 option"

definition or_default :: "'a \<Rightarrow> 'a option \<Rightarrow> 'a" where
  "or_default d x = (case x of None \<Rightarrow> d | Some v \<Rightarrow> v)"

definition fill_web_auth :: "raw_web_auth \<Rightarrow> web_auth_config" where
  "fill_web_auth r =
     \<lparr>wa_enabled = or_default default_true (rw_enabled r),
      wa_username = or_default default_admin_username (rw_username r),
      wa_password = or_default default_admin_password (rw_password r),
      wa_totp_secret = rw_totp_secret r,
      wa_session_ttl_secs = or_default default_session_ttl_secs (rw_session_ttl_secs r)\<rparr>"

definition fill_proxy_listen :: "raw_proxy_listen \<Rightarrow> proxy_listen_config" where
  "fill_proxy_listen r =
     \<lparr>pl_listen = rp_listen r, pl_client_id = rp_client_id r,
      pl_public_udp_addr = rp_public_udp_addr r,
      pl_enabled = or_default default_true (rp_enabled r)\<rparr>"

definition fill_server :: "raw_server \<Rightarrow> server_config" where
  "fill_server r =
     \<lparr>bridge_addr = rs_bridge_addr r,
      web_addr = or_default default_web_addr (rs_web_addr r),
      web_dir = or_default default_web_dir (rs_web_dir r),
      database_path = or_default default_database_path (rs_database_path r),
      web_auth = (case rs_web_auth r of None \<Rightarrow> WebAuthConfig_default | Some w \<Rightarrow> fill_web_auth w),
      http_proxy = map_option fill_proxy_listen (rs_http_proxy r),
      socks5 = map_option fill_proxy_listen (rs_socks5 r)\<rparr>"

definition fill_client :: "raw_client \<Rightarrow> client_config" where
  "fill_client r =
     \<lparr>cc_id = rc_id r, cc_psk = rc_psk r, cc_enabled = or_default default_true (rc_enabled r),
      cc_remark = rc_remark r, cc_max_connections = rc_max_connections r,
      cc_compress = or_default False (rc_compress r), cc_encrypt = or_default False (rc_encrypt r)\<rparr>"

definition fill_tunnel :: "raw_tunnel \<Rightarrow> tunnel_config" where
  "fill_tunnel r =
     \<lparr>tc_id = rt_id r, tc_client_id = rt_client_id r, tc_mode = rt_mode r, tc_listen = rt_listen r,
      tc_target = rt_target r, tc_enabled = or_default default_true (rt_enabled r)\<rparr>"

definition fill_controller :: "raw_controller \<Rightarrow> controller_config" where
  "fill_controller r =
     \<lparr>server = fill_server (rctl_server r),
      clients_cfg = map fill_client (or_default [] (rctl_clients r)),
      tunnels_cfg = map fill_tunnel (or_default [] (rctl_tunnels r))\<rparr>"

definition fill_agent :: "raw_agent \<Rightarrow> agent_config" where
  "fill_agent r =
     \<lparr>server_addr = ra_server_addr r, ac_client_id = ra_client_id r, ac_psk = ra_psk r,
      reconnect_interval_secs = or_default default_reconnect_interval (ra_reconnect_interval_secs r)\<rparr>"

section \<open>Loading\<close>

definition load_controller_config ::
  "(string \<Rightarrow> error + string) \<Rightarrow> (string \<Rightarrow> error + raw_controller) \<Rightarrow> string \<Rightarrow> error + controller_config" where
  "load_controller_config read_to_string from_str path =
     (case read_to_string path of
        Inl e \<Rightarrow> Inl (Bail (''failed to read controller config '' @ path))
      | Inr content \<Rightarrow>
          (case from_str content of
             Inl e \<Rightarrow> Inl (Bail (''failed to parse controller config '' @ path))
           | Inr raw \<Rightarrow> Inr (fill_controller raw)))"

definition load_agent_config ::
  "(string \<Rightarrow> error + string) \<Rightarrow> (string \<Rightarrow> error + raw_agent) \<Rightarrow> string \<Rightarrow> error + agent_config" where
  "load_agent_config read_to_string from_str path =
     (case read_to_string path of
        Inl e \<Rightarrow> Inl (Bail (''failed to read agent config '' @ path))
      | Inr content \<Rightarrow>
          (case from_str content of
             Inl e \<Rightarrow> Inl (Bail (''failed to parse agent config '' @ path))
           | Inr raw \<Rightarrow> Inr (fill_agent raw)))"

section \<open>Lemmas\<close>

text \<open>
  A missing \<^verbatim>\<open>web_auth\<close> table and an empty one give the same configuration: the
  hand-written \<^verbatim>\<open>Default\<close> instance agrees with the per-field defaults.
\<close>

lemma web_auth_defaults_agree:
  "fill_web_auth \<lparr>rw_enabled = None, rw_username = None, rw_password = None,
     rw_totp_secret = None, rw_session_ttl_secs = None\<rparr> = WebAuthConfig_default"
  by (simp add: fill_web_auth_def WebAuthConfig_default_def or_default_def default_true_def)

end
