(* ===== verification/Db.thy ===== *)
theory Db
  imports Table Config Protocol
begin

text \<open>
  The database layer, \<^verbatim>\<open>crates/rps-controller/src/db.rs\<close>: the nine tables as the fields
  of the record \<open>database\<close>, the conversion of rows, and one definition per method of
  \<^verbatim>\<open>Database\<close>. Every statement is translated to the table operation it performs,
  unique constraints included. \<open>q i\<close> says whether SQLite carries out the \<open>i\<close>-th
  statement of a call (it fails on a locked or damaged file, then the tables are unchanged);
  the clock \<open>now\<close> and fresh UUIDs are arguments. A method returns its result and the
  database after it, because an earlier statement stays in force when a later one fails.
\<close>

type_synonym stmts = "nat \<Rightarrow> bool"

definition db_error :: error where "db_error = Bail ''database error''"

definition constraint_error :: error where "constraint_error = Bail ''UNIQUE constraint failed''"

section \<open>Tables\<close>

record client_row =
  c_id :: string
  c_psk :: string
  c_enabled :: int
  c_remark :: "string option"
  c_max_connections :: "int option"
  c_compress :: int
  c_encrypt :: int
  c_created_at :: int
  c_updated_at :: int

record tunnel_row =
  t_id :: string
  t_client_id :: string
  t_mode :: string
  t_listen :: string
  t_target :: "string option"
  t_enabled :: int
  t_expires_at :: "int option"
  t_traffic_limit_bytes :: "int option"
  t_rx_bytes :: sql_num
  t_tx_bytes :: sql_num
  t_disabled_reason :: "string option"
  t_created_at :: int
  t_updated_at :: int

record listener_row =
  l_kind :: string
  l_listen :: string
  l_client_id :: string
  l_enabled :: int
  l_created_at :: int
  l_updated_at :: int

record account_row =
  a_id :: string
  a_kind :: string
  a_client_id :: string
  a_username :: string
  a_password :: string
  a_enabled :: int
  a_remark :: "string option"
  a_expires_at :: "int option"
  a_traffic_limit_bytes :: "int option"
  a_rx_bytes :: sql_num
  a_tx_bytes :: sql_num
  a_disabled_reason :: "string option"
  a_created_at :: int
  a_updated_at :: int

record online_row =
  o_client_id :: string
  o_online :: int
  o_control_connected_at :: "int option"
  o_data_connected_at :: "int option"
  o_last_seen :: "int option"

record session_row =
  s_id :: string
  s_client_id :: string
  s_role :: string
  s_remote_addr :: string
  s_connected_at :: int
  s_disconnected_at :: "int option"

record stream_row =
  st_id :: string
  st_client_id :: string
  st_tunnel_id :: string
  st_protocol :: string
  st_target :: string
  st_remote_addr :: string
  st_rx_bytes :: sql_num
  st_tx_bytes :: sql_num
  st_opened_at :: int
  st_closed_at :: "int option"

record counter_row =
  k_scope :: string
  k_key :: string
  k_rx_bytes :: sql_num
  k_tx_bytes :: sql_num
  k_updated_at :: int

record snapshot_row =
  u_id :: string
  u_scope :: string
  u_key :: string
  u_rx_bytes :: int
  u_tx_bytes :: int
  u_captured_at :: int

record database =
  clients :: "client_row list"
  tunnels :: "tunnel_row list"
  proxy_listeners :: "listener_row list"
  proxy_accounts :: "account_row list"
  client_online :: "online_row list"
  agent_sessions :: "session_row list"
  stream_sessions :: "stream_row list"
  traffic_counters :: "counter_row list"
  usage_snapshots :: "snapshot_row list"

definition empty_database :: database where
  "empty_database =
     \<lparr>clients = [], tunnels = [], proxy_listeners = [], proxy_accounts = [], client_online = [],
      agent_sessions = [], stream_sessions = [], traffic_counters = [], usage_snapshots = []\<rparr>"

section \<open>The records of the interface\<close>

text \<open>
  \<^verbatim>\<open>UpdateClient\<close>, \<^verbatim>\<open>NewClient\<close> and \<^verbatim>\<open>DbClient\<close> share their fields; the last
  two add the id. The same holds for tunnels and proxy accounts, where the \<^verbatim>\<open>Db\<close>
  record also has the usage and the reason it was disabled.
\<close>

record client_fields =
  cl_psk :: string
  cl_enabled :: bool
  cl_remark :: "string option"
  cl_max_connections :: "u32 option"
  cl_compress :: bool
  cl_encrypt :: bool

record db_client = client_fields +
  cl_id :: string

type_synonym new_client = db_client

record tunnel_fields =
  tn_client_id :: string
  tn_mode :: tunnel_mode
  tn_listen :: string
  tn_target :: "string option"
  tn_enabled :: bool
  tn_expires_at :: "int option"
  tn_traffic_limit_bytes :: "u64 option"

record new_tunnel = tunnel_fields +
  tn_id :: string

record db_tunnel = new_tunnel +
  tn_rx_bytes :: u64
  tn_tx_bytes :: u64
  tn_disabled_reason :: "string option"

record account_fields =
  pa_kind :: string
  pa_client_id :: string
  pa_username :: string
  pa_password :: string
  pa_enabled :: bool
  pa_remark :: "string option"
  pa_expires_at :: "int option"
  pa_traffic_limit_bytes :: "u64 option"

record new_proxy_account = account_fields +
  pa_id :: string

record db_proxy_account = new_proxy_account +
  pa_rx_bytes :: u64
  pa_tx_bytes :: u64
  pa_disabled_reason :: "string option"

record traffic_counter =
  rx_bytes :: u64
  tx_bytes :: u64

definition TrafficCounter_default :: traffic_counter where
  "TrafficCounter_default = \<lparr>rx_bytes = 0, tx_bytes = 0\<rparr>"

section \<open>Conversions\<close>

definition validate_proxy_kind :: "string \<Rightarrow> error + unit" where
  "validate_proxy_kind kind =
     (if kind = ''http'' \<or> kind = ''socks5'' then Inr ()
      else Inl (Bail (''invalid proxy account kind '' @ kind)))"

fun tunnel_mode_to_str :: "tunnel_mode \<Rightarrow> string" where
  "tunnel_mode_to_str TcpMode = ''tcp''"
| "tunnel_mode_to_str UdpMode = ''udp''"

fun target_protocol_to_str :: "target_protocol \<Rightarrow> string" where
  "target_protocol_to_str Tcp = ''tcp''"
| "target_protocol_to_str Udp = ''udp''"

definition str_to_tunnel_mode :: "string \<Rightarrow> error + tunnel_mode" where
  "str_to_tunnel_mode mode =
     (if mode = ''tcp'' then Inr TcpMode
      else if mode = ''udp'' then Inr UdpMode
      else Inl (Bail (''invalid tunnel mode '' @ mode)))"

definition proxy_account_id_from_route :: "string \<Rightarrow> string option" where
  "proxy_account_id_from_route route_id =
     (case str_strip_prefix ''http-proxy:'' route_id of
        Some r \<Rightarrow> Some r
      | None \<Rightarrow>
          (case str_strip_prefix ''socks5:'' route_id of
             Some r \<Rightarrow> Some r
           | None \<Rightarrow> str_strip_prefix ''socks5-udp:'' route_id))"

definition row_to_client :: "client_row \<Rightarrow> error + db_client" where
  "row_to_client row =
     Inr \<lparr>cl_psk = c_psk row, cl_enabled = i64_to_bool (c_enabled row), cl_remark = c_remark row,
          cl_max_connections = map_option (\<lambda>v. of_int (max v 0)) (c_max_connections row),
          cl_compress = i64_to_bool (c_compress row), cl_encrypt = i64_to_bool (c_encrypt row),
          cl_id = c_id row\<rparr>"

definition row_to_tunnel :: "tunnel_row \<Rightarrow> error + db_tunnel" where
  "row_to_tunnel row =
     (case get_i64 (t_rx_bytes row) of Inl e \<Rightarrow> Inl e
      | Inr rx \<Rightarrow>
          (case get_i64 (t_tx_bytes row) of Inl e \<Rightarrow> Inl e
           | Inr tx \<Rightarrow>
               (case str_to_tunnel_mode (t_mode row) of Inl e \<Rightarrow> Inl e
                | Inr mode \<Rightarrow>
                    Inr \<lparr>tn_client_id = t_client_id row, tn_mode = mode, tn_listen = t_listen row,
                         tn_target = t_target row, tn_enabled = i64_to_bool (t_enabled row),
                         tn_expires_at = t_expires_at row,
                         tn_traffic_limit_bytes = map_option i64_to_u64 (t_traffic_limit_bytes row),
                         tn_id = t_id row,
                         tn_rx_bytes = i64_to_u64 rx, tn_tx_bytes = i64_to_u64 tx,
                         tn_disabled_reason = t_disabled_reason row\<rparr>)))"

definition row_to_proxy :: "listener_row \<Rightarrow> error + proxy_listen_config" where
  "row_to_proxy row =
     Inr \<lparr>pl_listen = l_listen row, pl_client_id = l_client_id row, pl_public_udp_addr = None,
          pl_enabled = i64_to_bool (l_enabled row)\<rparr>"

definition row_to_proxy_account :: "account_row \<Rightarrow> error + db_proxy_account" where
  "row_to_proxy_account row =
     (case get_i64 (a_rx_bytes row) of Inl e \<Rightarrow> Inl e
      | Inr rx \<Rightarrow>
          (case get_i64 (a_tx_bytes row) of Inl e \<Rightarrow> Inl e
           | Inr tx \<Rightarrow>
               Inr \<lparr>pa_kind = a_kind row, pa_client_id = a_client_id row, pa_username = a_username row,
                    pa_password = a_password row, pa_enabled = i64_to_bool (a_enabled row),
                    pa_remark = a_remark row, pa_expires_at = a_expires_at row,
                    pa_traffic_limit_bytes = map_option i64_to_u64 (a_traffic_limit_bytes row),
                    pa_id = a_id row,
                    pa_rx_bytes = i64_to_u64 rx, pa_tx_bytes = i64_to_u64 tx,
                    pa_disabled_reason = a_disabled_reason row\<rparr>))"

text \<open>\<^verbatim>\<open>row.map(f).transpose()\<close> and \<^verbatim>\<open>rows.into_iter().map(f).collect()\<close>.\<close>

definition transpose :: "('r \<Rightarrow> error + 'a) \<Rightarrow> 'r option \<Rightarrow> error + 'a option" where
  "transpose f row =
     (case row of None \<Rightarrow> Inr None
      | Some r \<Rightarrow> (case f r of Inl e \<Rightarrow> Inl e | Inr x \<Rightarrow> Inr (Some x)))"

primrec collect :: "('r \<Rightarrow> error + 'a) \<Rightarrow> 'r list \<Rightarrow> error + 'a list" where
  "collect f [] = Inr []"
| "collect f (r # rs) =
     (case f r of Inl e \<Rightarrow> Inl e
      | Inr x \<Rightarrow> (case collect f rs of Inl e \<Rightarrow> Inl e | Inr xs \<Rightarrow> Inr (x # xs)))"

section \<open>Clients\<close>

definition client_row_of :: "new_client \<Rightarrow> int \<Rightarrow> client_row" where
  "client_row_of input now =
     \<lparr>c_id = cl_id input, c_psk = cl_psk input, c_enabled = bool_to_i64 (cl_enabled input),
      c_remark = cl_remark input, c_max_connections = map_option uint (cl_max_connections input),
      c_compress = bool_to_i64 (cl_compress input), c_encrypt = bool_to_i64 (cl_encrypt input),
      c_created_at = now, c_updated_at = now\<rparr>"

definition get_client :: "stmts \<Rightarrow> string \<Rightarrow> database \<Rightarrow> error + db_client option" where
  "get_client q cid db =
     (if \<not> q 0 then Inl db_error
      else transpose row_to_client (select_one (\<lambda>r. c_id r = cid) (clients db)))"

definition create_client :: "stmts \<Rightarrow> int \<Rightarrow> new_client \<Rightarrow> database \<Rightarrow> (error + db_client) \<times> database" where
  "create_client q now input db =
     (if \<not> q 0 then (Inl db_error, db)
      else if exists_row (\<lambda>r. c_id r = cl_id input \<or> c_psk r = cl_psk input) (clients db)
      then (Inl constraint_error, db)
      else
        let db1 = db\<lparr>clients := clients db @ [client_row_of input now]\<rparr>
        in (case get_client (\<lambda>i. q (Suc i)) (cl_id input) db1 of
              Inl e \<Rightarrow> Inl e
            | Inr None \<Rightarrow> Inl (Bail (''client '' @ cl_id input @ '' was not inserted''))
            | Inr (Some c) \<Rightarrow> Inr c, db1))"

definition set_client :: "'a client_fields_scheme \<Rightarrow> int \<Rightarrow> client_row \<Rightarrow> client_row" where
  "set_client input now r =
     r\<lparr>c_psk := cl_psk input, c_enabled := bool_to_i64 (cl_enabled input), c_remark := cl_remark input,
       c_max_connections := map_option uint (cl_max_connections input),
       c_compress := bool_to_i64 (cl_compress input), c_encrypt := bool_to_i64 (cl_encrypt input),
       c_updated_at := now\<rparr>"

definition psk_taken :: "string \<Rightarrow> string \<Rightarrow> client_row list \<Rightarrow> bool" where
  "psk_taken cid psk rows = exists_row (\<lambda>r. c_psk r = psk \<and> c_id r \<noteq> cid) rows"

definition update_client ::
  "stmts \<Rightarrow> int \<Rightarrow> string \<Rightarrow> client_fields \<Rightarrow> database \<Rightarrow> (error + db_client option) \<times> database" where
  "update_client q now cid input db =
     (if \<not> q 0 then (Inl db_error, db)
      else if \<not> exists_row (\<lambda>r. c_id r = cid) (clients db) then (Inr None, db)
      else if psk_taken cid (cl_psk input) (clients db) then (Inl constraint_error, db)
      else
        let db1 = db\<lparr>clients := update_rows (\<lambda>r. c_id r = cid) (set_client input now) (clients db)\<rparr>
        in (get_client (\<lambda>i. q (Suc i)) cid db1, db1))"

definition find_enabled_client_by_id :: "stmts \<Rightarrow> string \<Rightarrow> database \<Rightarrow> error + db_client option" where
  "find_enabled_client_by_id q cid db =
     (if \<not> q 0 then Inl db_error
      else transpose row_to_client (select_one (\<lambda>r. c_enabled r = 1 \<and> c_id r = cid) (clients db)))"

definition list_clients :: "stmts \<Rightarrow> database \<Rightarrow> error + db_client list" where
  "list_clients q db =
     (if \<not> q 0 then Inl db_error
      else collect row_to_client (sort_key (\<lambda>r. (c_created_at r, c_id r)) (clients db)))"

definition count_clients :: "stmts \<Rightarrow> database \<Rightarrow> error + nat" where
  "count_clients q db = (if \<not> q 0 then Inl db_error else Inr (count_rows (\<lambda>r. True) (clients db)))"

definition client_reference_count :: "stmts \<Rightarrow> string \<Rightarrow> database \<Rightarrow> error + nat" where
  "client_reference_count q cid db =
     (if \<not> (q 0 \<and> q 1 \<and> q 2) then Inl db_error
      else Inr (count_rows (\<lambda>r. t_client_id r = cid) (tunnels db)
              + count_rows (\<lambda>r. l_client_id r = cid) (proxy_listeners db)
              + count_rows (\<lambda>r. a_client_id r = cid) (proxy_accounts db)))"

definition delete_client :: "stmts \<Rightarrow> string \<Rightarrow> database \<Rightarrow> (error + bool) \<times> database" where
  "delete_client q cid db =
     (if \<not> q 0 then (Inl db_error, db)
      else (Inr (count_rows (\<lambda>r. c_id r = cid) (clients db) > 0),
            db\<lparr>clients := delete_rows (\<lambda>r. c_id r = cid) (clients db)\<rparr>))"

section \<open>Tunnels\<close>

definition list_tunnels :: "stmts \<Rightarrow> database \<Rightarrow> error + db_tunnel list" where
  "list_tunnels q db =
     (if \<not> q 0 then Inl db_error
      else collect row_to_tunnel (sort_key (\<lambda>r. (t_created_at r, t_id r)) (tunnels db)))"

definition get_tunnel :: "stmts \<Rightarrow> string \<Rightarrow> database \<Rightarrow> error + db_tunnel option" where
  "get_tunnel q tid db =
     (if \<not> q 0 then Inl db_error
      else transpose row_to_tunnel (select_one (\<lambda>r. t_id r = tid) (tunnels db)))"

definition tunnel_row_of :: "'a new_tunnel_scheme \<Rightarrow> int \<Rightarrow> tunnel_row" where
  "tunnel_row_of input now =
     \<lparr>t_id = tn_id input, t_client_id = tn_client_id input, t_mode = tunnel_mode_to_str (tn_mode input),
      t_listen = tn_listen input, t_target = tn_target input, t_enabled = bool_to_i64 (tn_enabled input),
      t_expires_at = tn_expires_at input,
      t_traffic_limit_bytes = map_option u64_to_i64 (tn_traffic_limit_bytes input),
      t_rx_bytes = SqlInt 0, t_tx_bytes = SqlInt 0, t_disabled_reason = None,
      t_created_at = now, t_updated_at = now\<rparr>"

definition create_tunnel :: "stmts \<Rightarrow> int \<Rightarrow> new_tunnel \<Rightarrow> database \<Rightarrow> (error + db_tunnel) \<times> database" where
  "create_tunnel q now input db =
     (if \<not> q 0 then (Inl db_error, db)
      else if exists_row (\<lambda>r. t_id r = tn_id input) (tunnels db) then (Inl constraint_error, db)
      else
        let db1 = db\<lparr>tunnels := tunnels db @ [tunnel_row_of input now]\<rparr>
        in (if \<not> q 1 then Inl db_error
            else (case select_one (\<lambda>r. t_id r = tn_id input) (tunnels db1) of
                    None \<Rightarrow> Inl (Bail ''no rows returned'')
                  | Some row \<Rightarrow> row_to_tunnel row), db1))"

definition delete_tunnel :: "stmts \<Rightarrow> string \<Rightarrow> database \<Rightarrow> (error + bool) \<times> database" where
  "delete_tunnel q tid db =
     (if \<not> q 0 then (Inl db_error, db)
      else (Inr (count_rows (\<lambda>r. t_id r = tid) (tunnels db) > 0),
            db\<lparr>tunnels := delete_rows (\<lambda>r. t_id r = tid) (tunnels db)\<rparr>))"

definition set_tunnel :: "'a tunnel_fields_scheme \<Rightarrow> int \<Rightarrow> tunnel_row \<Rightarrow> tunnel_row" where
  "set_tunnel input now r =
     r\<lparr>t_client_id := tn_client_id input, t_mode := tunnel_mode_to_str (tn_mode input),
       t_listen := tn_listen input, t_target := tn_target input, t_enabled := bool_to_i64 (tn_enabled input),
       t_expires_at := tn_expires_at input,
       t_traffic_limit_bytes := map_option u64_to_i64 (tn_traffic_limit_bytes input),
       t_disabled_reason := (if tn_enabled input then None else Some ''manual''),
       t_updated_at := now\<rparr>"

definition update_tunnel ::
  "stmts \<Rightarrow> int \<Rightarrow> string \<Rightarrow> tunnel_fields \<Rightarrow> database \<Rightarrow> (error + db_tunnel option) \<times> database" where
  "update_tunnel q now tid input db =
     (if \<not> q 0 then (Inl db_error, db)
      else if \<not> exists_row (\<lambda>r. t_id r = tid) (tunnels db) then (Inr None, db)
      else
        let db1 = db\<lparr>tunnels := update_rows (\<lambda>r. t_id r = tid) (set_tunnel input now) (tunnels db)\<rparr>
        in (get_tunnel (\<lambda>i. q (Suc i)) tid db1, db1))"

definition disable_tunnel :: "stmts \<Rightarrow> int \<Rightarrow> string \<Rightarrow> string \<Rightarrow> database \<Rightarrow> (error + unit) \<times> database" where
  "disable_tunnel q now tid reason db =
     (if \<not> q 0 then (Inl db_error, db)
      else (Inr (), db\<lparr>tunnels := update_rows (\<lambda>r. t_id r = tid)
             (\<lambda>r. r\<lparr>t_enabled := 0, t_disabled_reason := Some reason, t_updated_at := now\<rparr>) (tunnels db)\<rparr>))"

definition count_enabled_tunnels :: "stmts \<Rightarrow> database \<Rightarrow> error + nat" where
  "count_enabled_tunnels q db =
     (if \<not> q 0 then Inl db_error else Inr (count_rows (\<lambda>r. t_enabled r = 1) (tunnels db)))"

section \<open>Proxy listeners and accounts\<close>

definition get_proxy :: "stmts \<Rightarrow> string \<Rightarrow> database \<Rightarrow> error + proxy_listen_config option" where
  "get_proxy q kind db =
     (if \<not> q 0 then Inl db_error
      else transpose row_to_proxy (select_one (\<lambda>r. l_kind r = kind) (proxy_listeners db)))"

definition get_proxy_account :: "stmts \<Rightarrow> string \<Rightarrow> database \<Rightarrow> error + db_proxy_account option" where
  "get_proxy_account q aid db =
     (if \<not> q 0 then Inl db_error
      else transpose row_to_proxy_account (select_one (\<lambda>r. a_id r = aid) (proxy_accounts db)))"

definition account_row_of :: "'a new_proxy_account_scheme \<Rightarrow> int \<Rightarrow> account_row" where
  "account_row_of input now =
     \<lparr>a_id = pa_id input, a_kind = pa_kind input, a_client_id = pa_client_id input,
      a_username = pa_username input, a_password = pa_password input,
      a_enabled = bool_to_i64 (pa_enabled input), a_remark = pa_remark input,
      a_expires_at = pa_expires_at input,
      a_traffic_limit_bytes = map_option u64_to_i64 (pa_traffic_limit_bytes input),
      a_rx_bytes = SqlInt 0, a_tx_bytes = SqlInt 0, a_disabled_reason = None,
      a_created_at = now, a_updated_at = now\<rparr>"

definition create_proxy_account ::
  "stmts \<Rightarrow> int \<Rightarrow> new_proxy_account \<Rightarrow> database \<Rightarrow> (error + db_proxy_account) \<times> database" where
  "create_proxy_account q now input db =
     (case validate_proxy_kind (pa_kind input) of
        Inl e \<Rightarrow> (Inl e, db)
      | Inr _ \<Rightarrow>
          if \<not> q 0 then (Inl db_error, db)
          else if exists_row (\<lambda>r. a_id r = pa_id input \<or>
                    (a_kind r, a_username r) = (pa_kind input, pa_username input)) (proxy_accounts db)
          then (Inl constraint_error, db)
          else
            let db1 = db\<lparr>proxy_accounts := proxy_accounts db @ [account_row_of input now]\<rparr>
            in (case get_proxy_account (\<lambda>i. q (Suc i)) (pa_id input) db1 of
                  Inl e \<Rightarrow> Inl e
                | Inr None \<Rightarrow> Inl (Bail (''proxy account '' @ pa_id input @ '' was not inserted''))
                | Inr (Some a) \<Rightarrow> Inr a, db1))"

definition delete_proxy_account :: "stmts \<Rightarrow> string \<Rightarrow> database \<Rightarrow> (error + bool) \<times> database" where
  "delete_proxy_account q aid db =
     (if \<not> q 0 then (Inl db_error, db)
      else (Inr (count_rows (\<lambda>r. a_id r = aid) (proxy_accounts db) > 0),
            db\<lparr>proxy_accounts := delete_rows (\<lambda>r. a_id r = aid) (proxy_accounts db)\<rparr>))"

definition set_account :: "'a account_fields_scheme \<Rightarrow> int \<Rightarrow> account_row \<Rightarrow> account_row" where
  "set_account input now r =
     r\<lparr>a_kind := pa_kind input, a_client_id := pa_client_id input, a_username := pa_username input,
       a_password := pa_password input, a_enabled := bool_to_i64 (pa_enabled input),
       a_remark := pa_remark input, a_expires_at := pa_expires_at input,
       a_traffic_limit_bytes := map_option u64_to_i64 (pa_traffic_limit_bytes input),
       a_disabled_reason := (if pa_enabled input then None else Some ''manual''),
       a_updated_at := now\<rparr>"

definition name_taken :: "string \<Rightarrow> string \<Rightarrow> string \<Rightarrow> account_row list \<Rightarrow> bool" where
  "name_taken aid kind username rows =
     exists_row (\<lambda>r. (a_kind r, a_username r) = (kind, username) \<and> a_id r \<noteq> aid) rows"

definition update_proxy_account ::
  "stmts \<Rightarrow> int \<Rightarrow> string \<Rightarrow> account_fields \<Rightarrow> database
     \<Rightarrow> (error + db_proxy_account option) \<times> database" where
  "update_proxy_account q now aid input db =
     (case validate_proxy_kind (pa_kind input) of
        Inl e \<Rightarrow> (Inl e, db)
      | Inr _ \<Rightarrow>
          if \<not> q 0 then (Inl db_error, db)
          else if \<not> exists_row (\<lambda>r. a_id r = aid) (proxy_accounts db) then (Inr None, db)
          else if name_taken aid (pa_kind input) (pa_username input) (proxy_accounts db)
          then (Inl constraint_error, db)
          else
            let db1 = db\<lparr>proxy_accounts :=
                  update_rows (\<lambda>r. a_id r = aid) (set_account input now) (proxy_accounts db)\<rparr>
            in (get_proxy_account (\<lambda>i. q (Suc i)) aid db1, db1))"

definition disable_proxy_account ::
  "stmts \<Rightarrow> int \<Rightarrow> string \<Rightarrow> string \<Rightarrow> database \<Rightarrow> (error + unit) \<times> database" where
  "disable_proxy_account q now aid reason db =
     (if \<not> q 0 then (Inl db_error, db)
      else (Inr (), db\<lparr>proxy_accounts := update_rows (\<lambda>r. a_id r = aid)
             (\<lambda>r. r\<lparr>a_enabled := 0, a_disabled_reason := Some reason, a_updated_at := now\<rparr>)
             (proxy_accounts db)\<rparr>))"

definition list_proxy_accounts ::
  "stmts \<Rightarrow> string option \<Rightarrow> database \<Rightarrow> error + db_proxy_account list" where
  "list_proxy_accounts q kind db =
     (case kind of
        Some k \<Rightarrow>
          (case validate_proxy_kind k of
             Inl e \<Rightarrow> Inl e
           | Inr _ \<Rightarrow>
               if \<not> q 0 then Inl db_error
               else collect row_to_proxy_account
                      (sort_key (\<lambda>r. (a_created_at r, a_id r))
                         (filter (\<lambda>r. a_kind r = k) (proxy_accounts db))))
      | None \<Rightarrow>
          if \<not> q 0 then Inl db_error
          else collect row_to_proxy_account
                 (sort_key (\<lambda>r. (a_kind r, a_created_at r, a_id r)) (proxy_accounts db)))"

definition has_enabled_proxy_accounts :: "stmts \<Rightarrow> string \<Rightarrow> database \<Rightarrow> error + bool" where
  "has_enabled_proxy_accounts q kind db =
     (case validate_proxy_kind kind of
        Inl e \<Rightarrow> Inl e
      | Inr _ \<Rightarrow>
          if \<not> q 0 then Inl db_error
          else Inr (count_rows (\<lambda>r. a_kind r = kind \<and> a_enabled r = 1) (proxy_accounts db) > 0))"

definition find_enabled_proxy_account ::
  "stmts \<Rightarrow> string \<Rightarrow> string \<Rightarrow> string \<Rightarrow> database \<Rightarrow> error + db_proxy_account option" where
  "find_enabled_proxy_account q kind username password db =
     (case validate_proxy_kind kind of
        Inl e \<Rightarrow> Inl e
      | Inr _ \<Rightarrow>
          if \<not> q 0 then Inl db_error
          else transpose row_to_proxy_account
                 (select_one (\<lambda>r. a_kind r = kind \<and> a_username r = username \<and>
                      a_password r = password \<and> a_enabled r = 1) (proxy_accounts db)))"

section \<open>Agents and streams\<close>

definition record_agent_connected ::
  "stmts \<Rightarrow> int \<Rightarrow> string \<Rightarrow> string \<Rightarrow> string \<Rightarrow> string \<Rightarrow> database \<Rightarrow> (error + string) \<times> database" where
  "record_agent_connected q now session_id cid role remote_addr db =
     (if \<not> q 0 then (Inl db_error, db)
      else if exists_row (\<lambda>r. s_id r = session_id) (agent_sessions db) then (Inl constraint_error, db)
      else
        let db1 = db\<lparr>agent_sessions := agent_sessions db @
               [\<lparr>s_id = session_id, s_client_id = cid, s_role = role, s_remote_addr = remote_addr,
                 s_connected_at = now, s_disconnected_at = None\<rparr>]\<rparr>;
            new = \<lparr>o_client_id = cid, o_online = 1,
                   o_control_connected_at = (if role = ''data'' then None else Some now),
                   o_data_connected_at = (if role = ''data'' then Some now else None),
                   o_last_seen = Some now\<rparr>;
            upd = (\<lambda>r. if role = ''data''
                       then r\<lparr>o_online := 1, o_data_connected_at := Some now, o_last_seen := Some now\<rparr>
                       else r\<lparr>o_online := 1, o_control_connected_at := Some now, o_last_seen := Some now\<rparr>)
        in if \<not> q 1 then (Inl db_error, db1)
           else (Inr session_id, db1\<lparr>client_online := upsert_row o_client_id new upd (client_online db1)\<rparr>))"

definition record_agent_disconnected ::
  "stmts \<Rightarrow> int \<Rightarrow> string \<Rightarrow> string \<Rightarrow> database \<Rightarrow> (error + unit) \<times> database" where
  "record_agent_disconnected q now session_id cid db =
     (if \<not> q 0 then (Inl db_error, db)
      else
        let db1 = db\<lparr>agent_sessions := update_rows (\<lambda>r. s_id r = session_id)
                     (\<lambda>r. r\<lparr>s_disconnected_at := Some now\<rparr>) (agent_sessions db)\<rparr>;
            new = \<lparr>o_client_id = cid, o_online = 0, o_control_connected_at = None,
                   o_data_connected_at = None, o_last_seen = Some now\<rparr>
        in if \<not> q 1 then (Inl db_error, db1)
           else (Inr (), db1\<lparr>client_online := upsert_row o_client_id new
                   (\<lambda>r. r\<lparr>o_online := 0, o_last_seen := Some now\<rparr>) (client_online db1)\<rparr>))"

definition record_stream_open ::
  "stmts \<Rightarrow> int \<Rightarrow> string \<Rightarrow> string \<Rightarrow> string \<Rightarrow> target_protocol \<Rightarrow> string \<Rightarrow> string \<Rightarrow> database
     \<Rightarrow> (error + string) \<times> database" where
  "record_stream_open q now sid cid tid protocol tgt remote_addr db =
     (if \<not> q 0 then (Inl db_error, db)
      else if exists_row (\<lambda>r. st_id r = sid) (stream_sessions db) then (Inl constraint_error, db)
      else (Inr sid, db\<lparr>stream_sessions := stream_sessions db @
              [\<lparr>st_id = sid, st_client_id = cid, st_tunnel_id = tid,
                st_protocol = target_protocol_to_str protocol, st_target = tgt,
                st_remote_addr = remote_addr, st_rx_bytes = SqlInt 0, st_tx_bytes = SqlInt 0,
                st_opened_at = now, st_closed_at = None\<rparr>]\<rparr>))"

section \<open>Traffic\<close>

definition add_traffic_counter ::
  "bool \<Rightarrow> int \<Rightarrow> string \<Rightarrow> string \<Rightarrow> u64 \<Rightarrow> u64 \<Rightarrow> database \<Rightarrow> (error + unit) \<times> database" where
  "add_traffic_counter ok now scope key rx tx db =
     (if \<not> ok then (Inl db_error, db)
      else (Inr (), db\<lparr>traffic_counters := upsert_row (\<lambda>r. (k_scope r, k_key r))
              \<lparr>k_scope = scope, k_key = key, k_rx_bytes = SqlInt (u64_to_i64 rx),
               k_tx_bytes = SqlInt (u64_to_i64 tx), k_updated_at = now\<rparr>
              (\<lambda>r. r\<lparr>k_rx_bytes := sql_add (k_rx_bytes r) (u64_to_i64 rx),
                     k_tx_bytes := sql_add (k_tx_bytes r) (u64_to_i64 tx), k_updated_at := now\<rparr>)
              (traffic_counters db)\<rparr>))"

definition add_resource_traffic ::
  "bool \<Rightarrow> int \<Rightarrow> string \<Rightarrow> u64 \<Rightarrow> u64 \<Rightarrow> database \<Rightarrow> (error + unit) \<times> database" where
  "add_resource_traffic ok now route_id rx tx db =
     (if \<not> ok then (Inl db_error, db)
      else
        (case proxy_account_id_from_route route_id of
           Some aid \<Rightarrow>
             (Inr (), db\<lparr>proxy_accounts := update_rows (\<lambda>r. a_id r = aid)
                (\<lambda>r. r\<lparr>a_rx_bytes := sql_add (a_rx_bytes r) (u64_to_i64 rx),
                       a_tx_bytes := sql_add (a_tx_bytes r) (u64_to_i64 tx), a_updated_at := now\<rparr>)
                (proxy_accounts db)\<rparr>)
         | None \<Rightarrow>
             (Inr (), db\<lparr>tunnels := update_rows (\<lambda>r. t_id r = route_id)
                (\<lambda>r. r\<lparr>t_rx_bytes := sql_add (t_rx_bytes r) (u64_to_i64 rx),
                       t_tx_bytes := sql_add (t_tx_bytes r) (u64_to_i64 tx), t_updated_at := now\<rparr>)
                (tunnels db)\<rparr>)))"

definition add_traffic ::
  "stmts \<Rightarrow> int \<Rightarrow> string \<Rightarrow> string \<Rightarrow> u64 \<Rightarrow> u64 \<Rightarrow> database \<Rightarrow> (error + unit) \<times> database" where
  "add_traffic q now cid tid rx tx db =
     (case add_traffic_counter (q 0) now ''global'' ''all'' rx tx db of
        (Inl e, db1) \<Rightarrow> (Inl e, db1)
      | (Inr _, db1) \<Rightarrow>
          (case add_traffic_counter (q 1) now ''client'' cid rx tx db1 of
             (Inl e, db2) \<Rightarrow> (Inl e, db2)
           | (Inr _, db2) \<Rightarrow>
               (case add_traffic_counter (q 2) now ''tunnel'' tid rx tx db2 of
                  (Inl e, db3) \<Rightarrow> (Inl e, db3)
                | (Inr _, db3) \<Rightarrow> add_resource_traffic (q 3) now tid rx tx db3)))"

definition get_traffic_counter :: "stmts \<Rightarrow> string \<Rightarrow> string \<Rightarrow> database \<Rightarrow> error + traffic_counter" where
  "get_traffic_counter q scope key db =
     (if \<not> q 0 then Inl db_error
      else (case select_one (\<lambda>r. (k_scope r, k_key r) = (scope, key)) (traffic_counters db) of
              None \<Rightarrow> Inr TrafficCounter_default
            | Some row \<Rightarrow>
                (case get_i64 (k_rx_bytes row) of Inl e \<Rightarrow> Inl e
                 | Inr rx \<Rightarrow>
                     (case get_i64 (k_tx_bytes row) of Inl e \<Rightarrow> Inl e
                      | Inr tx \<Rightarrow> Inr \<lparr>rx_bytes = i64_to_u64 rx, tx_bytes = i64_to_u64 tx\<rparr>))))"

text \<open>
  The loop of \<^verbatim>\<open>capture_usage_snapshot\<close> over the fetched rows; \<open>ids\<close> are the fresh
  UUIDs and \<open>q\<close> the statements that are left.
\<close>

fun snapshot_loop ::
  "stmts \<Rightarrow> int \<Rightarrow> (nat \<Rightarrow> string) \<Rightarrow> counter_row list \<Rightarrow> database \<Rightarrow> (error + unit) \<times> database" where
  "snapshot_loop q now ids [] db = (Inr (), db)"
| "snapshot_loop q now ids (row # rows) db =
     (case get_i64 (k_rx_bytes row) of Inl e \<Rightarrow> (Inl e, db)
      | Inr rx \<Rightarrow>
          (case get_i64 (k_tx_bytes row) of Inl e \<Rightarrow> (Inl e, db)
           | Inr tx \<Rightarrow>
               if \<not> q 0 then (Inl db_error, db)
               else if exists_row (\<lambda>r. u_id r = ids 0) (usage_snapshots db) then (Inl constraint_error, db)
               else snapshot_loop (\<lambda>i. q (Suc i)) now (\<lambda>i. ids (Suc i)) rows
                      (db\<lparr>usage_snapshots := usage_snapshots db @
                         [\<lparr>u_id = ids 0, u_scope = k_scope row, u_key = k_key row,
                           u_rx_bytes = rx, u_tx_bytes = tx, u_captured_at = now\<rparr>]\<rparr>)))"

definition capture_usage_snapshot ::
  "stmts \<Rightarrow> int \<Rightarrow> (nat \<Rightarrow> string) \<Rightarrow> database \<Rightarrow> (error + nat) \<times> database" where
  "capture_usage_snapshot q now ids db =
     (if \<not> q 0 then (Inl db_error, db)
      else let rows = traffic_counters db
           in (case snapshot_loop (\<lambda>i. q (Suc i)) now ids rows db of
                 (Inl e, db1) \<Rightarrow> (Inl e, db1)
               | (Inr _, db1) \<Rightarrow> (Inr (length rows), db1)))"

section \<open>Seeding from the configuration and the legacy migration\<close>

definition insert_config_client :: "bool \<Rightarrow> int \<Rightarrow> client_config \<Rightarrow> database \<Rightarrow> (error + unit) \<times> database" where
  "insert_config_client ok now client db =
     (let input = \<lparr>cl_psk = cc_psk client, cl_enabled = cc_enabled client, cl_remark = cc_remark client,
                   cl_max_connections = cc_max_connections client, cl_compress = cc_compress client,
                   cl_encrypt = cc_encrypt client, cl_id = cc_id client\<rparr>
      in if \<not> ok then (Inl db_error, db)
         else if psk_taken (cc_id client) (cc_psk client) (clients db) then (Inl constraint_error, db)
         else (Inr (), db\<lparr>clients := upsert_row c_id (client_row_of input now) (set_client input now)
                                      (clients db)\<rparr>))"

definition insert_config_tunnel :: "bool \<Rightarrow> int \<Rightarrow> tunnel_config \<Rightarrow> database \<Rightarrow> (error + unit) \<times> database" where
  "insert_config_tunnel ok now tunnel db =
     (let input = \<lparr>tn_client_id = tc_client_id tunnel, tn_mode = tc_mode tunnel, tn_listen = tc_listen tunnel,
                   tn_target = tc_target tunnel, tn_enabled = tc_enabled tunnel, tn_expires_at = None,
                   tn_traffic_limit_bytes = None, tn_id = tc_id tunnel\<rparr>
      in if \<not> ok then (Inl db_error, db)
         else if exists_row (\<lambda>r. t_id r = tc_id tunnel) (tunnels db) then (Inr (), db)
         else (Inr (), db\<lparr>tunnels := tunnels db @ [tunnel_row_of input now]\<rparr>))"

definition insert_config_proxy ::
  "bool \<Rightarrow> int \<Rightarrow> string \<Rightarrow> proxy_listen_config \<Rightarrow> database \<Rightarrow> (error + unit) \<times> database" where
  "insert_config_proxy ok now kind proxy db =
     (if \<not> ok then (Inl db_error, db)
      else if exists_row (\<lambda>r. l_kind r = kind) (proxy_listeners db) then (Inr (), db)
      else (Inr (), db\<lparr>proxy_listeners := proxy_listeners db @
              [\<lparr>l_kind = kind, l_listen = pl_listen proxy, l_client_id = pl_client_id proxy,
                l_enabled = bool_to_i64 (pl_enabled proxy), l_created_at = now, l_updated_at = now\<rparr>]\<rparr>))"

text \<open>Statements in sequence; the first error ends the sequence.\<close>

fun run_seq :: "(bool \<Rightarrow> database \<Rightarrow> (error + unit) \<times> database) list \<Rightarrow> stmts \<Rightarrow> database
    \<Rightarrow> (error + unit) \<times> database" where
  "run_seq [] q db = (Inr (), db)"
| "run_seq (f # fs) q db =
     (case f (q 0) db of
        (Inl e, db1) \<Rightarrow> (Inl e, db1)
      | (Inr _, db1) \<Rightarrow> run_seq fs (\<lambda>i. q (Suc i)) db1)"

definition seed_from_config :: "stmts \<Rightarrow> int \<Rightarrow> controller_config \<Rightarrow> database \<Rightarrow> (error + unit) \<times> database" where
  "seed_from_config q now config db =
     run_seq
       (map (\<lambda>c ok. insert_config_client ok now c) (clients_cfg config)
        @ map (\<lambda>t ok. insert_config_tunnel ok now t) (tunnels_cfg config)
        @ (case http_proxy (server config) of None \<Rightarrow> []
           | Some p \<Rightarrow> [\<lambda>ok. insert_config_proxy ok now ''http'' p])
        @ (case socks5 (server config) of None \<Rightarrow> []
           | Some p \<Rightarrow> [\<lambda>ok. insert_config_proxy ok now ''socks5'' p])) q db"

text \<open>
  \<^verbatim>\<open>migrate_clients_psk\<close> on a legacy table with a \<^verbatim>\<open>vkey\<close> column: the rows that have
  a key are copied in order, and a row whose id or key is already there is ignored.
\<close>

record legacy_client = client_row +
  lc_psk :: "string option"
  lc_vkey :: "string option"

definition legacy_key :: "legacy_client \<Rightarrow> string option" where
  "legacy_key r = (case lc_psk r of Some p \<Rightarrow> if p \<noteq> '''' then Some p else lc_vkey r | None \<Rightarrow> lc_vkey r)"

definition insert_or_ignore_client :: "client_row \<Rightarrow> client_row list \<Rightarrow> client_row list" where
  "insert_or_ignore_client new rows =
     (if exists_row (\<lambda>r. c_id r = c_id new \<or> c_psk r = c_psk new) rows then rows else rows @ [new])"

fun migrate_clients_psk :: "legacy_client list \<Rightarrow> client_row list \<Rightarrow> client_row list" where
  "migrate_clients_psk [] rows = rows"
| "migrate_clients_psk (r # rs) rows =
     migrate_clients_psk rs
       (case legacy_key r of
          Some key \<Rightarrow>
            if key \<noteq> '''' then insert_or_ignore_client (client_row.truncate (r\<lparr>c_psk := key\<rparr>)) rows
            else rows
        | None \<Rightarrow> rows)"

end
