(* ===== verification/Db_Inv.thy ===== *)
theory Db_Inv
  imports Db
begin

text \<open>
  The invariant of the database and that every method of \<^verbatim>\<open>Database\<close> keeps it: the
  unique constraints of the schema, and values that the row conversions accept. The
  interpretation \<open>db_sys\<close> makes it an invariant of every sequence of calls, whatever
  statements fail. The lemmas that follow give what each select finds.
\<close>

definition flag_ok :: "int \<Rightarrow> bool" where "flag_ok v \<longleftrightarrow> v = 0 \<or> v = 1"

definition limit_ok :: "int option \<Rightarrow> bool" where
  "limit_ok l = (case l of None \<Rightarrow> True | Some v \<Rightarrow> 0 \<le> v \<and> v \<le> I64_MAX)"

definition client_ok :: "client_row \<Rightarrow> bool" where
  "client_ok r \<longleftrightarrow> flag_ok (c_enabled r)"

definition tunnel_ok :: "tunnel_row \<Rightarrow> bool" where
  "tunnel_ok r \<longleftrightarrow> flag_ok (t_enabled r) \<and> (t_mode r = ''tcp'' \<or> t_mode r = ''udp'') \<and>
     limit_ok (t_traffic_limit_bytes r) \<and> count_ok (t_rx_bytes r) \<and> count_ok (t_tx_bytes r)"

definition account_ok :: "account_row \<Rightarrow> bool" where
  "account_ok r \<longleftrightarrow> flag_ok (a_enabled r) \<and> (a_kind r = ''http'' \<or> a_kind r = ''socks5'') \<and>
     limit_ok (a_traffic_limit_bytes r) \<and> count_ok (a_rx_bytes r) \<and> count_ok (a_tx_bytes r)"

definition counter_ok :: "counter_row \<Rightarrow> bool" where
  "counter_ok r \<longleftrightarrow> count_ok (k_rx_bytes r) \<and> count_ok (k_tx_bytes r)"

abbreviation account_name :: "account_row \<Rightarrow> string \<times> string" where
  "account_name r \<equiv> (a_kind r, a_username r)"

abbreviation counter_key :: "counter_row \<Rightarrow> string \<times> string" where
  "counter_key r \<equiv> (k_scope r, k_key r)"

definition clients_inv :: "client_row list \<Rightarrow> bool" where
  "clients_inv rows \<longleftrightarrow> unique c_id rows \<and> unique c_psk rows \<and> (\<forall>r \<in> set rows. client_ok r)"

definition tunnels_inv :: "tunnel_row list \<Rightarrow> bool" where
  "tunnels_inv rows \<longleftrightarrow> unique t_id rows \<and> (\<forall>r \<in> set rows. tunnel_ok r)"

definition listeners_inv :: "listener_row list \<Rightarrow> bool" where
  "listeners_inv rows \<longleftrightarrow> unique l_kind rows"

definition accounts_inv :: "account_row list \<Rightarrow> bool" where
  "accounts_inv rows \<longleftrightarrow> unique a_id rows \<and> unique account_name rows \<and> (\<forall>r \<in> set rows. account_ok r)"

definition counters_inv :: "counter_row list \<Rightarrow> bool" where
  "counters_inv rows \<longleftrightarrow> unique counter_key rows \<and> (\<forall>r \<in> set rows. counter_ok r)"

definition log_inv :: "database \<Rightarrow> bool" where
  "log_inv db \<longleftrightarrow> unique o_client_id (client_online db) \<and> unique s_id (agent_sessions db) \<and>
     unique st_id (stream_sessions db) \<and> unique u_id (usage_snapshots db)"

definition db_inv :: "database \<Rightarrow> bool" where
  "db_inv db \<longleftrightarrow> clients_inv (clients db) \<and> tunnels_inv (tunnels db) \<and>
     listeners_inv (proxy_listeners db) \<and> accounts_inv (proxy_accounts db) \<and>
     counters_inv (traffic_counters db) \<and> log_inv db"

lemma flag_ok_simps [simp]: "flag_ok (bool_to_i64 b)" "flag_ok 0" "flag_ok 1"
  by (simp_all add: flag_ok_def bool_to_i64_def)

lemma limit_ok_simps [simp]: "limit_ok None" "limit_ok (map_option u64_to_i64 l)"
  by (cases l; simp add: limit_ok_def)+

lemma count_ok_SqlInt [simp]: "count_ok (SqlInt x) \<longleftrightarrow> 0 \<le> x \<and> x \<le> I64_MAX"
  by (simp add: count_ok_def)

lemma mode_str [simp]: "tunnel_mode_to_str m = ''tcp'' \<or> tunnel_mode_to_str m = ''udp''"
  by (cases m) simp_all

lemma log_inv_upd [simp]:
  "log_inv (db\<lparr>clients := x1\<rparr>) = log_inv db" "log_inv (db\<lparr>tunnels := x2\<rparr>) = log_inv db"
  "log_inv (db\<lparr>proxy_listeners := x3\<rparr>) = log_inv db" "log_inv (db\<lparr>proxy_accounts := x4\<rparr>) = log_inv db"
  "log_inv (db\<lparr>traffic_counters := x5\<rparr>) = log_inv db"
  by (simp_all add: log_inv_def)

lemma db_inv_upd:
  "db_inv db \<Longrightarrow> clients_inv x1 \<Longrightarrow> db_inv (db\<lparr>clients := x1\<rparr>)"
  "db_inv db \<Longrightarrow> tunnels_inv x2 \<Longrightarrow> db_inv (db\<lparr>tunnels := x2\<rparr>)"
  "db_inv db \<Longrightarrow> listeners_inv x3 \<Longrightarrow> db_inv (db\<lparr>proxy_listeners := x3\<rparr>)"
  "db_inv db \<Longrightarrow> accounts_inv x4 \<Longrightarrow> db_inv (db\<lparr>proxy_accounts := x4\<rparr>)"
  "db_inv db \<Longrightarrow> counters_inv x5 \<Longrightarrow> db_inv (db\<lparr>traffic_counters := x5\<rparr>)"
  by (simp_all add: db_inv_def)

section \<open>Updates of one row\<close>

text \<open>
  An update of the row with one id keeps another column unique if no other row has the new
  value.
\<close>

lemma unique_update_one:
  assumes "unique k rows" and "unique g rows"
    and "\<And>r. k (f r) = k r" and "\<And>r. g (f r) = v" and "\<forall>r \<in> set rows. g r = v \<longrightarrow> k r = x"
  shows "unique g (update_rows (\<lambda>r. k r = x) f rows)"
  using assms(1,2,5)
proof (induction rows)
  case (Cons r rows)
  have other: "update_rows (\<lambda>r. k r = x) f rows = rows" if "k r = x"
    using that Cons.prems(1) by (intro update_rows_none) (auto simp: image_iff)
  show ?case
  proof (cases "k r = x")
    case True
    then have "v \<notin> g ` set rows" using Cons.prems(1,3) by (force simp: image_iff)
    then show ?thesis
      using True other Cons.prems(2) assms(4) by (simp add: update_rows_Cons)
  next
    case False
    then have "g r \<noteq> v" using Cons.prems(3) by simp
    then have "g r \<notin> g ` set (update_rows (\<lambda>r. k r = x) f rows)"
      using Cons.prems(2) assms(4) by (auto simp: set_update_rows image_iff split: if_splits)
    then show ?thesis using False Cons by (simp add: update_rows_Cons)
  qed
qed (simp add: update_rows_def)

lemma all_update_rows:
  "\<forall>r \<in> set rows. P r \<Longrightarrow> (\<And>r. P r \<Longrightarrow> P (f r)) \<Longrightarrow> \<forall>r \<in> set (update_rows Q f rows). P r"
  by (auto simp: set_update_rows)

section \<open>Every method keeps the invariant\<close>

lemma row_of_ok [simp]:
  "client_ok (client_row_of c now)" "tunnel_ok (tunnel_row_of t now)"
  "a_kind (account_row_of a now) = pa_kind a"
  by (simp_all add: client_ok_def client_row_of_def tunnel_ok_def tunnel_row_of_def account_row_of_def)

lemma set_ok [simp]:
  "client_ok (set_client c now r)" "c_id (set_client c now r) = c_id r"
  "c_psk (set_client c now r) = cl_psk c"
  "t_id (set_tunnel t now u) = t_id u" "tunnel_ok u \<Longrightarrow> tunnel_ok (set_tunnel t now u)"
  "a_id (set_account a now s) = a_id s"
  "account_name (set_account a now s) = (pa_kind a, pa_username a)"
  by (simp_all add: client_ok_def set_client_def set_tunnel_def tunnel_ok_def set_account_def)

lemma validate_proxy_kind_Inr: "validate_proxy_kind k = Inr u \<longleftrightarrow> k = ''http'' \<or> k = ''socks5''"
  by (auto simp: validate_proxy_kind_def)

lemma inv_create_client [inv_intros]: "db_inv db \<Longrightarrow> db_inv (snd (create_client q now input db))"
  by (auto simp: create_client_def Let_def clients_inv_def db_inv_def client_row_of_def client_ok_def)

lemma inv_update_client [inv_intros]:
  assumes "db_inv db"
  shows "db_inv (snd (update_client q now cid input db))"
proof -
  let ?rows = "update_rows (\<lambda>r. c_id r = cid) (set_client input now) (clients db)"
  have inv: "unique c_id (clients db)" "unique c_psk (clients db)" "\<forall>r \<in> set (clients db). client_ok r"
    using assms by (simp_all add: db_inv_def clients_inv_def)
  have "clients_inv ?rows" if "\<not> psk_taken cid (cl_psk input) (clients db)"
  proof -
    have "unique c_psk ?rows"
      using that inv by (intro unique_update_one [where v = "cl_psk input"]) (auto simp: psk_taken_def)
    then show ?thesis
      using inv all_update_rows [of "clients db" client_ok "set_client input now"]
      by (simp add: clients_inv_def)
  qed
  then show ?thesis
    using assms by (simp add: update_client_def Let_def db_inv_upd)
qed

lemma inv_delete_client [inv_intros]: "db_inv db \<Longrightarrow> db_inv (snd (delete_client q cid db))"
  by (auto simp: delete_client_def intro!: db_inv_upd) (auto simp: db_inv_def clients_inv_def)

lemma inv_create_tunnel [inv_intros]: "db_inv db \<Longrightarrow> db_inv (snd (create_tunnel q now input db))"
  by (auto simp: create_tunnel_def Let_def tunnels_inv_def db_inv_def tunnel_row_of_def tunnel_ok_def)

lemma inv_delete_tunnel [inv_intros]: "db_inv db \<Longrightarrow> db_inv (snd (delete_tunnel q tid db))"
  by (auto simp: delete_tunnel_def intro!: db_inv_upd) (auto simp: db_inv_def tunnels_inv_def)

lemma inv_tunnels_update:
  "db_inv db \<Longrightarrow> (\<And>r. t_id (f r) = t_id r) \<Longrightarrow> (\<And>r. tunnel_ok r \<Longrightarrow> tunnel_ok (f r)) \<Longrightarrow>
     db_inv (db\<lparr>tunnels := update_rows P f (tunnels db)\<rparr>)"
  by (rule db_inv_upd) (auto simp: db_inv_def tunnels_inv_def set_update_rows)

lemma inv_accounts_update:
  "db_inv db \<Longrightarrow> (\<And>r. a_id (f r) = a_id r) \<Longrightarrow> (\<And>r. account_name (f r) = account_name r) \<Longrightarrow>
     (\<And>r. account_ok r \<Longrightarrow> account_ok (f r)) \<Longrightarrow>
     db_inv (db\<lparr>proxy_accounts := update_rows P f (proxy_accounts db)\<rparr>)"
  by (rule db_inv_upd) (auto simp: db_inv_def accounts_inv_def set_update_rows)

lemma inv_update_tunnel [inv_intros]: "db_inv db \<Longrightarrow> db_inv (snd (update_tunnel q now tid input db))"
  by (simp add: update_tunnel_def Let_def inv_tunnels_update)

lemma inv_disable_tunnel [inv_intros]: "db_inv db \<Longrightarrow> db_inv (snd (disable_tunnel q now tid reason db))"
  by (auto simp: disable_tunnel_def tunnel_ok_def intro!: inv_tunnels_update)

lemma inv_create_proxy_account [inv_intros]:
  "db_inv db \<Longrightarrow> db_inv (snd (create_proxy_account q now input db))"
proof -
  assume inv: "db_inv db"
  have ok: "account_ok (account_row_of input now)" if "validate_proxy_kind (pa_kind input) = Inr ()"
    using that by (simp add: account_ok_def account_row_of_def validate_proxy_kind_Inr)
  have "accounts_inv (proxy_accounts db @ [account_row_of input now])"
    if "validate_proxy_kind (pa_kind input) = Inr ()"
      and "\<not> exists_row (\<lambda>r. a_id r = pa_id input \<or>
             account_name r = (pa_kind input, pa_username input)) (proxy_accounts db)"
    using inv ok [OF that(1)] that(2) unfolding db_inv_def accounts_inv_def unique_snoc
    by (simp add: account_row_of_def)
  then show ?thesis
    using inv by (auto simp: create_proxy_account_def Let_def db_inv_upd split: sum.splits)
qed

lemma inv_delete_proxy_account [inv_intros]: "db_inv db \<Longrightarrow> db_inv (snd (delete_proxy_account q aid db))"
  by (auto simp: delete_proxy_account_def intro!: db_inv_upd) (auto simp: db_inv_def accounts_inv_def)

lemma inv_update_proxy_account [inv_intros]:
  assumes "db_inv db"
  shows "db_inv (snd (update_proxy_account q now aid input db))"
proof -
  let ?rows = "update_rows (\<lambda>r. a_id r = aid) (set_account input now) (proxy_accounts db)"
  have inv: "unique a_id (proxy_accounts db)" "unique account_name (proxy_accounts db)"
    "\<forall>r \<in> set (proxy_accounts db). account_ok r"
    using assms by (simp_all add: db_inv_def accounts_inv_def)
  have "accounts_inv ?rows"
    if "validate_proxy_kind (pa_kind input) = Inr ()"
      and "\<not> name_taken aid (pa_kind input) (pa_username input) (proxy_accounts db)"
  proof -
    have "unique account_name ?rows"
      using that(2) inv
      by (intro unique_update_one [where v = "(pa_kind input, pa_username input)"]) (auto simp: name_taken_def)
    moreover have "account_ok r \<Longrightarrow> account_ok (set_account input now r)" for r
      using that(1) by (auto simp: account_ok_def set_account_def validate_proxy_kind_Inr)
    ultimately show ?thesis
      using inv all_update_rows [of "proxy_accounts db" account_ok "set_account input now"]
      by (simp add: accounts_inv_def)
  qed
  then show ?thesis
    using assms by (auto simp: update_proxy_account_def Let_def db_inv_upd split: sum.splits)
qed

lemma inv_disable_proxy_account [inv_intros]:
  "db_inv db \<Longrightarrow> db_inv (snd (disable_proxy_account q now aid reason db))"
  by (auto simp: disable_proxy_account_def account_ok_def intro!: inv_accounts_update)

lemma inv_record_agent_connected [inv_intros]:
  "db_inv db \<Longrightarrow> db_inv (snd (record_agent_connected q now s cid role addr db))"
  by (auto simp: record_agent_connected_def Let_def db_inv_def log_inv_def)

lemma inv_record_agent_disconnected [inv_intros]:
  "db_inv db \<Longrightarrow> db_inv (snd (record_agent_disconnected q now s cid db))"
  by (auto simp: record_agent_disconnected_def Let_def db_inv_def log_inv_def)

lemma inv_record_stream_open [inv_intros]:
  "db_inv db \<Longrightarrow> db_inv (snd (record_stream_open q now s cid tid p tgt addr db))"
  by (auto simp: record_stream_open_def db_inv_def log_inv_def)

lemma inv_add_traffic_counter [inv_intros]:
  "db_inv db \<Longrightarrow> db_inv (snd (add_traffic_counter ok now scope key rx tx db))"
  by (auto simp: add_traffic_counter_def counter_ok_def counters_inv_def db_inv_def
      dest!: set_upsert)

lemma inv_add_resource_traffic [inv_intros]:
  "db_inv db \<Longrightarrow> db_inv (snd (add_resource_traffic ok now route rx tx db))"
  by (auto simp: add_resource_traffic_def account_ok_def tunnel_ok_def split: option.splits
      intro!: inv_accounts_update inv_tunnels_update)

lemma inv_add_traffic [inv_intros]: "db_inv db \<Longrightarrow> db_inv (snd (add_traffic q now cid tid rx tx db))"
  unfolding add_traffic_def
  by (auto split: prod.splits sum.splits intro: inv_add_resource_traffic)
     (metis inv_add_traffic_counter snd_conv inv_add_resource_traffic)+

lemma inv_snapshot_loop: "db_inv db \<Longrightarrow> db_inv (snd (snapshot_loop q now ids rows db))"
proof (induction q now ids rows db rule: snapshot_loop.induct)
  case (2 q now ids row rows db)
  have "db_inv (db\<lparr>usage_snapshots := usage_snapshots db @ [r]\<rparr>)"
    if "\<forall>x \<in> set (usage_snapshots db). u_id x \<noteq> u_id r" for r
    using 2(2) that unfolding db_inv_def log_inv_def by (auto simp: image_iff)
  then show ?case using 2 by (auto split: sum.splits)
qed simp

lemma inv_capture_usage_snapshot [inv_intros]:
  "db_inv db \<Longrightarrow> db_inv (snd (capture_usage_snapshot q now ids db))"
  using inv_snapshot_loop [of db "\<lambda>i. q (Suc i)" now ids "traffic_counters db"]
  by (auto simp: capture_usage_snapshot_def Let_def split: prod.splits sum.splits)

section \<open>Opening the database\<close>

lemma inv_upsert_client:
  assumes "clients_inv rows" and "\<not> psk_taken (cl_id c) (cl_psk c) rows"
  shows "clients_inv (upsert_row c_id (client_row_of c now) (set_client c now) rows)"
proof (cases "\<exists>r \<in> set rows. c_id r = cl_id c")
  case True
  have "unique c_psk (update_rows (\<lambda>r. c_id r = cl_id c) (set_client c now) rows)"
    using assms by (intro unique_update_one [where v = "cl_psk c"]) (auto simp: psk_taken_def clients_inv_def)
  then show ?thesis
    using True assms(1) all_update_rows [of rows client_ok "set_client c now"]
    by (simp add: upsert_row_def clients_inv_def client_row_of_def)
next
  case False
  then show ?thesis
    using assms unfolding clients_inv_def psk_taken_def upsert_row_def unique_snoc
    by (auto simp: client_row_of_def client_ok_def)
qed

lemma inv_insert_config [inv_intros]:
  "db_inv db \<Longrightarrow> db_inv (snd (insert_config_client ok now c db))"
  "db_inv db \<Longrightarrow> db_inv (snd (insert_config_tunnel ok now t db))"
  "db_inv db \<Longrightarrow> db_inv (snd (insert_config_proxy ok now kind p db))"
proof -
  assume inv: "db_inv db"
  then show "db_inv (snd (insert_config_client ok now c db))"
    by (auto simp: insert_config_client_def Let_def db_inv_def intro!: inv_upsert_client)
  show "db_inv (snd (insert_config_tunnel ok now t db))"
    using inv by (auto simp: insert_config_tunnel_def Let_def tunnels_inv_def db_inv_def tunnel_row_of_def tunnel_ok_def)
  show "db_inv (snd (insert_config_proxy ok now kind p db))"
    using inv by (auto simp: insert_config_proxy_def listeners_inv_def db_inv_def)
qed

lemma inv_run_seq:
  assumes "\<And>f ok db. f \<in> set fs \<Longrightarrow> db_inv db \<Longrightarrow> db_inv (snd (f ok db))" and "db_inv db"
  shows "db_inv (snd (run_seq fs q db))"
  using assms
proof (induction fs q db rule: run_seq.induct)
  case (2 f fs q db)
  obtain r db1 where f: "f (q 0) db = (r, db1)" by fastforce
  have "db_inv db1" using 2(2) [of f db "q 0"] 2(3) f by simp
  then show ?case using 2(1,2) f by (cases r) auto
qed simp

lemma inv_seed_from_config [inv_intros]: "db_inv db \<Longrightarrow> db_inv (snd (seed_from_config q now config db))"
  unfolding seed_from_config_def
  by (rule inv_run_seq) (auto intro: inv_insert_config split: option.splits)

text \<open>What \<^verbatim>\<open>open\<close> finds in the clients table: nothing, or legacy rows to migrate.\<close>

definition migrated_database :: "legacy_client list \<Rightarrow> database" where
  "migrated_database rows = empty_database\<lparr>clients := migrate_clients_psk rows []\<rparr>"

lemma truncate_client [simp]:
  "c_id (client_row.truncate r) = c_id r" "c_psk (client_row.truncate r) = c_psk r"
  "c_enabled (client_row.truncate r) = c_enabled r"
  by (simp_all add: client_row.truncate_def)

lemma inv_migrate:
  "clients_inv rows \<Longrightarrow> \<forall>r \<in> set rs. flag_ok (c_enabled r) \<Longrightarrow> clients_inv (migrate_clients_psk rs rows)"
proof (induction rs rows rule: migrate_clients_psk.induct)
  case (2 r rs rows)
  have "clients_inv (insert_or_ignore_client (client_row.truncate (r\<lparr>c_psk := key\<rparr>)) rows)" for key
    using 2(2,3) by (auto simp: insert_or_ignore_client_def clients_inv_def client_ok_def)
  then show ?case using 2 by (auto split: option.splits)
qed simp

section \<open>Sequences of calls\<close>

inductive db_step :: "database \<Rightarrow> database \<Rightarrow> bool" where
  ds_seed: "db_step db (snd (seed_from_config q now config db))"
| ds_create_client: "db_step db (snd (create_client q now c db))"
| ds_update_client: "db_step db (snd (update_client q now cid uc db))"
| ds_delete_client: "db_step db (snd (delete_client q cid db))"
| ds_create_tunnel: "db_step db (snd (create_tunnel q now t db))"
| ds_update_tunnel: "db_step db (snd (update_tunnel q now tid ut db))"
| ds_delete_tunnel: "db_step db (snd (delete_tunnel q tid db))"
| ds_disable_tunnel: "db_step db (snd (disable_tunnel q now tid reason db))"
| ds_create_account: "db_step db (snd (create_proxy_account q now a db))"
| ds_update_account: "db_step db (snd (update_proxy_account q now aid ua db))"
| ds_delete_account: "db_step db (snd (delete_proxy_account q aid db))"
| ds_disable_account: "db_step db (snd (disable_proxy_account q now aid reason db))"
| ds_agent_connected: "db_step db (snd (record_agent_connected q now s cid role addr db))"
| ds_agent_disconnected: "db_step db (snd (record_agent_disconnected q now s cid db))"
| ds_stream_open: "db_step db (snd (record_stream_open q now s cid tid proto tgt addr db))"
| ds_add_traffic: "db_step db (snd (add_traffic q now cid tid rx tx db))"
| ds_snapshot: "db_step db (snd (capture_usage_snapshot q now ids db))"

definition db_init :: "database \<Rightarrow> bool" where
  "db_init db \<longleftrightarrow> (\<exists>rows. (\<forall>r \<in> set rows. flag_ok (c_enabled r)) \<and> db = migrated_database rows)"

lemma db_inv_step: "db_step db db' \<Longrightarrow> db_inv db \<Longrightarrow> db_inv db'"
  by (induction rule: db_step.induct)
     (rule inv_seed_from_config inv_create_client inv_update_client inv_delete_client inv_create_tunnel
        inv_update_tunnel inv_delete_tunnel inv_disable_tunnel inv_create_proxy_account
        inv_update_proxy_account inv_delete_proxy_account inv_disable_proxy_account
        inv_record_agent_connected inv_record_agent_disconnected inv_record_stream_open
        inv_add_traffic inv_capture_usage_snapshot; assumption)+

lemma db_inv_empty [simp]: "db_inv empty_database"
  by (simp add: db_inv_def empty_database_def clients_inv_def tunnels_inv_def listeners_inv_def
      accounts_inv_def counters_inv_def log_inv_def)

lemma db_inv_init: "db_init db \<Longrightarrow> db_inv db"
  using inv_migrate [of "[]"] db_inv_upd(1) [OF db_inv_empty]
  by (auto simp: db_init_def migrated_database_def clients_inv_def)

interpretation db_sys: invariant_system db_init db_step db_inv
  by unfold_locales (auto intro: db_inv_init db_inv_step)

section \<open>Selects\<close>

lemma row_to_tunnel_of: "row_to_tunnel (tunnel_row_of t now) =
   Inr \<lparr>tn_client_id = tn_client_id t, tn_mode = tn_mode t, tn_listen = tn_listen t,
        tn_target = tn_target t, tn_enabled = tn_enabled t, tn_expires_at = tn_expires_at t,
        tn_traffic_limit_bytes = map_option (\<lambda>v. i64_to_u64 (u64_to_i64 v)) (tn_traffic_limit_bytes t),
        tn_id = tn_id t, tn_rx_bytes = 0, tn_tx_bytes = 0, tn_disabled_reason = None\<rparr>"
proof -
  have "str_to_tunnel_mode (tunnel_mode_to_str m) = Inr m" for m
    by (cases m) (simp_all add: str_to_tunnel_mode_def)
  then show ?thesis
    by (simp add: row_to_tunnel_def tunnel_row_of_def get_i64_def i64_to_u64_def option.map_comp comp_def)
qed

text \<open>A row that satisfies the invariant is read back unless a counter has overflowed.\<close>

lemma row_to_tunnel_total:
  assumes "tunnel_ok r" and "t_rx_bytes r = SqlInt rx" and "t_tx_bytes r = SqlInt tx"
  shows "\<exists>t. row_to_tunnel r = Inr t \<and> tn_id t = t_id r \<and> unat (tn_rx_bytes t) = nat rx \<and>
           unat (tn_tx_bytes t) = nat tx \<and> tn_enabled t = (t_enabled r = 1)"
  using assms
  by (auto simp: row_to_tunnel_def get_i64_def tunnel_ok_def str_to_tunnel_mode_def
      unat_i64_to_u64 i64_to_bool_def flag_ok_def)

lemma row_to_account_total:
  assumes "account_ok r" and "a_rx_bytes r = SqlInt rx" and "a_tx_bytes r = SqlInt tx"
  shows "\<exists>a. row_to_proxy_account r = Inr a \<and> pa_id a = a_id r \<and> pa_kind a = a_kind r \<and>
           pa_client_id a = a_client_id r \<and> pa_username a = a_username r \<and> pa_password a = a_password r \<and>
           unat (pa_rx_bytes a) = nat rx \<and> unat (pa_tx_bytes a) = nat tx \<and>
           pa_enabled a = (a_enabled r = 1)"
  using assms
  by (auto simp: row_to_proxy_account_def get_i64_def account_ok_def unat_i64_to_u64
      i64_to_bool_def flag_ok_def)

lemma transpose_Some: "transpose f row = Inr (Some x) \<longleftrightarrow> (\<exists>r. row = Some r \<and> f r = Inr x)"
  by (auto simp: transpose_def split: option.splits sum.splits)

lemma transpose_None: "transpose f row = Inr None \<longleftrightarrow> row = None"
  by (auto simp: transpose_def split: option.splits sum.splits)

end
