(* ===== verification/Db_Traffic.thy ===== *)
theory Db_Traffic
  imports Db_Inv
begin

text \<open>
  The traffic accounting of the database layer: what the counters, tunnels and accounts hold
  after any sequence of \<^verbatim>\<open>add_traffic\<close> calls, and the properties of the database
  layer.
\<close>

section \<open>Counters\<close>

text \<open>The value of a counter; a counter without a row counts as zero.\<close>

definition cnt_rx :: "string \<Rightarrow> string \<Rightarrow> database \<Rightarrow> sql_num" where
  "cnt_rx scope key db =
     (case select_one (\<lambda>r. counter_key r = (scope, key)) (traffic_counters db) of
        None \<Rightarrow> SqlInt 0 | Some r \<Rightarrow> k_rx_bytes r)"

definition cnt_tx :: "string \<Rightarrow> string \<Rightarrow> database \<Rightarrow> sql_num" where
  "cnt_tx scope key db =
     (case select_one (\<lambda>r. counter_key r = (scope, key)) (traffic_counters db) of
        None \<Rightarrow> SqlInt 0 | Some r \<Rightarrow> k_tx_bytes r)"

definition tun_rx :: "string \<Rightarrow> database \<Rightarrow> sql_num option" where
  "tun_rx tid db = map_option t_rx_bytes (select_one (\<lambda>r. t_id r = tid) (tunnels db))"

definition tun_tx :: "string \<Rightarrow> database \<Rightarrow> sql_num option" where
  "tun_tx tid db = map_option t_tx_bytes (select_one (\<lambda>r. t_id r = tid) (tunnels db))"

definition acc_rx :: "string \<Rightarrow> database \<Rightarrow> sql_num option" where
  "acc_rx aid db = map_option a_rx_bytes (select_one (\<lambda>r. a_id r = aid) (proxy_accounts db))"

definition acc_tx :: "string \<Rightarrow> database \<Rightarrow> sql_num option" where
  "acc_tx aid db = map_option a_tx_bytes (select_one (\<lambda>r. a_id r = aid) (proxy_accounts db))"

lemma sql_add_zero: "sql_add (SqlInt 0) (u64_to_i64 v) = SqlInt (u64_to_i64 v)"
  using u64_to_i64_range(1) [of v] order_trans [of "- I64_MAX - 1" 0 "u64_to_i64 v"]
  by (simp add: sql_add_def)

lemma select_upsert:
  assumes "\<And>r. k (upd r) = k r"
  shows "select_one (\<lambda>r. k r = x) (upsert_row k new upd rows) =
           (if k new = x
            then (case select_one (\<lambda>r. k r = x) rows of None \<Rightarrow> Some new | Some r \<Rightarrow> Some (upd r))
            else select_one (\<lambda>r. k r = x) rows)"
proof (cases "\<exists>r \<in> set rows. k r = k new")
  case True
  have u: "select_one (\<lambda>r. k r = x) (upsert_row k new upd rows)
      = map_option (\<lambda>r. if k r = k new then upd r else r) (select_one (\<lambda>r. k r = x) rows)"
    using True by (simp add: upsert_row_def select_update assms)
  show ?thesis
  proof (cases "select_one (\<lambda>r. k r = x) rows")
    case None
    then have "k new \<noteq> x" using True by (auto simp: select_one_None)
    then show ?thesis by (simp add: u None)
  next
    case (Some r)
    then have "k r = x" using select_one_SomeD by fastforce
    then show ?thesis by (simp add: u Some)
  qed
next
  case False
  then have u: "upsert_row k new upd rows = rows @ [new]" by (simp add: upsert_row_def)
  show ?thesis
  proof (cases "k new = x")
    case True
    with False have n: "\<forall>r \<in> set rows. \<not> k r = x" by auto
    then have "select_one (\<lambda>r. k r = x) rows = None" by (simp add: select_one_None)
    then show ?thesis using True select_one_snoc_new [OF n, of new] by (simp add: u)
  qed (simp add: u select_snoc_other)
qed

lemma cnt_add_counter:
  assumes "add_traffic_counter True now scope key rx tx db = (r, db1)"
  shows "cnt_rx s k db1 = (if (s, k) = (scope, key) then sql_add (cnt_rx s k db) (u64_to_i64 rx) else cnt_rx s k db)"
    and "cnt_tx s k db1 = (if (s, k) = (scope, key) then sql_add (cnt_tx s k db) (u64_to_i64 tx) else cnt_tx s k db)"
    and "tunnels db1 = tunnels db" and "proxy_accounts db1 = proxy_accounts db" and "r = Inr ()"
proof -
  let ?sel = "\<lambda>d. select_one (\<lambda>r. counter_key r = (s, k)) (traffic_counters d)"
  let ?upd = "\<lambda>r. r\<lparr>k_rx_bytes := sql_add (k_rx_bytes r) (u64_to_i64 rx),
                     k_tx_bytes := sql_add (k_tx_bytes r) (u64_to_i64 tx), k_updated_at := now\<rparr>"
  let ?new = "\<lparr>k_scope = scope, k_key = key, k_rx_bytes = SqlInt (u64_to_i64 rx),
               k_tx_bytes = SqlInt (u64_to_i64 tx), k_updated_at = now\<rparr>"
  have d: "db1 = db\<lparr>traffic_counters := upsert_row counter_key ?new ?upd (traffic_counters db)\<rparr>" "r = Inr ()"
    using assms by (simp_all add: add_traffic_counter_def)
  have tc: "traffic_counters db1 = upsert_row counter_key ?new ?upd (traffic_counters db)" by (simp add: d)
  have "?sel db1 = (if counter_key ?new = (s, k) then (case ?sel db of None \<Rightarrow> Some ?new | Some r \<Rightarrow> Some (?upd r)) else ?sel db)"
    unfolding tc by (rule select_upsert) simp
  then show "cnt_rx s k db1 = (if (s, k) = (scope, key) then sql_add (cnt_rx s k db) (u64_to_i64 rx) else cnt_rx s k db)"
    and "cnt_tx s k db1 = (if (s, k) = (scope, key) then sql_add (cnt_tx s k db) (u64_to_i64 tx) else cnt_tx s k db)"
    unfolding cnt_rx_def cnt_tx_def by (cases "?sel db"; auto simp: sql_add_zero)+
  show "tunnels db1 = tunnels db" "proxy_accounts db1 = proxy_accounts db" "r = Inr ()"
    by (simp_all add: d)
qed

definition route_tunnel :: "string \<Rightarrow> string \<Rightarrow> bool" where
  "route_tunnel route tid \<longleftrightarrow> route = tid \<and> proxy_account_id_from_route route = None"

definition route_account :: "string \<Rightarrow> string \<Rightarrow> bool" where
  "route_account route aid \<longleftrightarrow> proxy_account_id_from_route route = Some aid"

lemma select_update_key:
  assumes "\<And>r. k (f r) = k r" and "\<And>r. g (f r) = h (g r)"
  shows "map_option g (select_one (\<lambda>r. k r = x) (update_rows (\<lambda>r. k r = y) f rows)) =
           map_option (\<lambda>v. if y = x then h v else v) (map_option g (select_one (\<lambda>r. k r = x) rows))"
proof -
  have "select_one (\<lambda>r. k r = x) (update_rows (\<lambda>r. k r = y) f rows)
      = map_option (\<lambda>r. if k r = y then f r else r) (select_one (\<lambda>r. k r = x) rows)"
    by (rule select_update) (simp add: assms)
  then show ?thesis
    by (cases "select_one (\<lambda>r. k r = x) rows") (auto dest: select_one_SomeD simp: assms(2))
qed

lemma usage_add_resource:
  assumes "add_resource_traffic True now route rx tx db = (r, db1)"
  shows "tun_rx t db1 = map_option (\<lambda>v. if route_tunnel route t then sql_add v (u64_to_i64 rx) else v) (tun_rx t db)"
    and "tun_tx t db1 = map_option (\<lambda>v. if route_tunnel route t then sql_add v (u64_to_i64 tx) else v) (tun_tx t db)"
    and "acc_rx a db1 = map_option (\<lambda>v. if route_account route a then sql_add v (u64_to_i64 rx) else v) (acc_rx a db)"
    and "acc_tx a db1 = map_option (\<lambda>v. if route_account route a then sql_add v (u64_to_i64 tx) else v) (acc_tx a db)"
    and "traffic_counters db1 = traffic_counters db" and "r = Inr ()"
proof -
  let ?ft = "\<lambda>r. r\<lparr>t_rx_bytes := sql_add (t_rx_bytes r) (u64_to_i64 rx),
                    t_tx_bytes := sql_add (t_tx_bytes r) (u64_to_i64 tx), t_updated_at := now\<rparr>"
  let ?fa = "\<lambda>r. r\<lparr>a_rx_bytes := sql_add (a_rx_bytes r) (u64_to_i64 rx),
                    a_tx_bytes := sql_add (a_tx_bytes r) (u64_to_i64 tx), a_updated_at := now\<rparr>"
  have tun: "map_option t_rx_bytes (select_one (\<lambda>r. t_id r = t) (update_rows (\<lambda>r. t_id r = route) ?ft (tunnels db)))
      = map_option (\<lambda>v. if route = t then sql_add v (u64_to_i64 rx) else v) (tun_rx t db)"
    "map_option t_tx_bytes (select_one (\<lambda>r. t_id r = t) (update_rows (\<lambda>r. t_id r = route) ?ft (tunnels db)))
      = map_option (\<lambda>v. if route = t then sql_add v (u64_to_i64 tx) else v) (tun_tx t db)"
    unfolding tun_rx_def tun_tx_def by (rule select_update_key; simp)+
  have acc: "map_option a_rx_bytes (select_one (\<lambda>r. a_id r = a) (update_rows (\<lambda>r. a_id r = b) ?fa (proxy_accounts db)))
      = map_option (\<lambda>v. if b = a then sql_add v (u64_to_i64 rx) else v) (acc_rx a db)"
    "map_option a_tx_bytes (select_one (\<lambda>r. a_id r = a) (update_rows (\<lambda>r. a_id r = b) ?fa (proxy_accounts db)))
      = map_option (\<lambda>v. if b = a then sql_add v (u64_to_i64 tx) else v) (acc_tx a db)" for b
    unfolding acc_rx_def acc_tx_def by (rule select_update_key; simp)+
  note defs = add_resource_traffic_def route_tunnel_def route_account_def tun_rx_def tun_tx_def acc_rx_def acc_tx_def
  show "tun_rx t db1 = map_option (\<lambda>v. if route_tunnel route t then sql_add v (u64_to_i64 rx) else v) (tun_rx t db)"
    and "tun_tx t db1 = map_option (\<lambda>v. if route_tunnel route t then sql_add v (u64_to_i64 tx) else v) (tun_tx t db)"
    and "acc_rx a db1 = map_option (\<lambda>v. if route_account route a then sql_add v (u64_to_i64 rx) else v) (acc_rx a db)"
    and "acc_tx a db1 = map_option (\<lambda>v. if route_account route a then sql_add v (u64_to_i64 tx) else v) (acc_tx a db)"
    and "traffic_counters db1 = traffic_counters db" and "r = Inr ()"
    using assms tun acc
    by (cases "proxy_account_id_from_route route"; force simp: defs option.map_ident)+
qed

section \<open>Sequences of events\<close>

record traffic_event =
  ev_client :: string
  ev_route :: string
  ev_rx :: u64
  ev_tx :: u64

text \<open>The counters an event is added to.\<close>

definition counts_for :: "string \<Rightarrow> string \<Rightarrow> traffic_event \<Rightarrow> bool" where
  "counts_for scope key e \<longleftrightarrow>
     (scope, key) \<in> {(''global'', ''all''), (''client'', ev_client e), (''tunnel'', ev_route e)}"

definition add_event :: "int \<Rightarrow> traffic_event \<Rightarrow> database \<Rightarrow> database" where
  "add_event now e db = snd (add_traffic (\<lambda>_. True) now (ev_client e) (ev_route e) (ev_rx e) (ev_tx e) db)"

definition add_events :: "int \<Rightarrow> traffic_event list \<Rightarrow> database \<Rightarrow> database" where
  "add_events now es db = fold (add_event now) es db"

lemma add_event_effect:
  "cnt_rx s k (add_event now e db) = (if counts_for s k e then sql_add (cnt_rx s k db) (u64_to_i64 (ev_rx e)) else cnt_rx s k db)"
  "cnt_tx s k (add_event now e db) = (if counts_for s k e then sql_add (cnt_tx s k db) (u64_to_i64 (ev_tx e)) else cnt_tx s k db)"
  "tun_rx t (add_event now e db) = map_option (\<lambda>v. if route_tunnel (ev_route e) t then sql_add v (u64_to_i64 (ev_rx e)) else v) (tun_rx t db)"
  "tun_tx t (add_event now e db) = map_option (\<lambda>v. if route_tunnel (ev_route e) t then sql_add v (u64_to_i64 (ev_tx e)) else v) (tun_tx t db)"
  "acc_rx a (add_event now e db) = map_option (\<lambda>v. if route_account (ev_route e) a then sql_add v (u64_to_i64 (ev_rx e)) else v) (acc_rx a db)"
  "acc_tx a (add_event now e db) = map_option (\<lambda>v. if route_account (ev_route e) a then sql_add v (u64_to_i64 (ev_tx e)) else v) (acc_tx a db)"
proof -
  obtain r1 d1 where 1: "add_traffic_counter True now ''global'' ''all'' (ev_rx e) (ev_tx e) db = (r1, d1)" by fastforce
  obtain r2 d2 where 2: "add_traffic_counter True now ''client'' (ev_client e) (ev_rx e) (ev_tx e) d1 = (r2, d2)" by fastforce
  obtain r3 d3 where 3: "add_traffic_counter True now ''tunnel'' (ev_route e) (ev_rx e) (ev_tx e) d2 = (r3, d3)" by fastforce
  obtain r4 d4 where 4: "add_resource_traffic True now (ev_route e) (ev_rx e) (ev_tx e) d3 = (r4, d4)" by fastforce
  have d: "add_event now e db = d4"
    using 1 2 3 4 cnt_add_counter [OF 1] cnt_add_counter [OF 2] cnt_add_counter [OF 3]
    by (simp add: add_event_def add_traffic_def)
  have same: "tun_rx t d3 = tun_rx t db" "tun_tx t d3 = tun_tx t db" "acc_rx a d3 = acc_rx a db" "acc_tx a d3 = acc_tx a db"
    using cnt_add_counter [OF 1] cnt_add_counter [OF 2] cnt_add_counter [OF 3]
    by (simp_all add: tun_rx_def tun_tx_def acc_rx_def acc_tx_def)
  show "tun_rx t (add_event now e db) = map_option (\<lambda>v. if route_tunnel (ev_route e) t then sql_add v (u64_to_i64 (ev_rx e)) else v) (tun_rx t db)"
    "tun_tx t (add_event now e db) = map_option (\<lambda>v. if route_tunnel (ev_route e) t then sql_add v (u64_to_i64 (ev_tx e)) else v) (tun_tx t db)"
    "acc_rx a (add_event now e db) = map_option (\<lambda>v. if route_account (ev_route e) a then sql_add v (u64_to_i64 (ev_rx e)) else v) (acc_rx a db)"
    "acc_tx a (add_event now e db) = map_option (\<lambda>v. if route_account (ev_route e) a then sql_add v (u64_to_i64 (ev_tx e)) else v) (acc_tx a db)"
    using usage_add_resource [OF 4] by (simp_all add: d same)
  have scopes: "counts_for s k e \<longleftrightarrow> (s, k) = (''global'', ''all'') \<or> (s, k) = (''client'', ev_client e) \<or>
      (s, k) = (''tunnel'', ev_route e)"
    by (simp add: counts_for_def)
  have one: "(if c then sql_add (if b then sql_add (if a then sql_add v n else v) n else if a then sql_add v n else v) n
      else if b then sql_add (if a then sql_add v n else v) n else if a then sql_add v n else v)
      = (if a \<or> b \<or> c then sql_add v n else v)" if "\<not> (a \<and> b)" "\<not> (a \<and> c)" "\<not> (b \<and> c)" for a b c v n
    using that by simp
  have excl: "\<not> ((s, k) = (''global'', ''all'') \<and> (s, k) = (''client'', ev_client e))"
    "\<not> ((s, k) = (''global'', ''all'') \<and> (s, k) = (''tunnel'', ev_route e))"
    "\<not> ((s, k) = (''client'', ev_client e) \<and> (s, k) = (''tunnel'', ev_route e))"
    by auto
  have "cnt_rx s k d4 = cnt_rx s k d3" "cnt_tx s k d4 = cnt_tx s k d3"
    using usage_add_resource(5) [OF 4] by (simp_all add: cnt_rx_def cnt_tx_def)
  then show "cnt_rx s k (add_event now e db) = (if counts_for s k e then sql_add (cnt_rx s k db) (u64_to_i64 (ev_rx e)) else cnt_rx s k db)"
    "cnt_tx s k (add_event now e db) = (if counts_for s k e then sql_add (cnt_tx s k db) (u64_to_i64 (ev_tx e)) else cnt_tx s k db)"
    unfolding d scopes one [OF excl, symmetric]
    by (simp_all only: cnt_add_counter(1,2) [OF 1] cnt_add_counter(1,2) [OF 2] cnt_add_counter(1,2) [OF 3])
qed

text \<open>
  A column to which the matching events are added, one after the other, holds the exact sum
  as long as the sum fits in a signed 64-bit integer.
\<close>

definition total :: "(traffic_event \<Rightarrow> bool) \<Rightarrow> (traffic_event \<Rightarrow> u64) \<Rightarrow> traffic_event list \<Rightarrow> int" where
  "total P f es = (\<Sum>e \<leftarrow> filter P es. uint (f e))"

lemma total_nonneg: "0 \<le> total P f es"
  by (induction es) (auto simp: total_def)

lemma column_sum:
  assumes step: "\<And>e db. col (add_event now e db) = (if P e then sql_add (col db) (u64_to_i64 (f e)) else col db)"
    and "col db = SqlInt x" and "0 \<le> x" and "x + total P f es \<le> I64_MAX"
  shows "col (add_events now es db) = SqlInt (x + total P f es)"
  using assms(2-4)
proof (induction es arbitrary: db x)
  case (Cons e es)
  have t: "total P f (e # es) = (if P e then uint (f e) else 0) + total P f es" by (simp add: total_def)
  have c: "col (add_event now e db) = SqlInt (x + (if P e then uint (f e) else 0))"
  proof (cases "P e")
    case True
    then have "x + uint (f e) \<le> I64_MAX"
      using Cons.prems(3) total_nonneg [of P f es] by (simp add: t)
    then show ?thesis
      using Cons.prems(1,2) True by (simp add: step u64_to_i64_def sql_add_int)
  qed (use Cons.prems(1) in \<open>simp add: step\<close>)
  show ?case
    using Cons.IH [OF c] Cons.prems t by (simp add: add_events_def add.assoc)
qed (simp add: add_events_def total_def)

lemma option_column_sum:
  assumes step: "\<And>e db. col (add_event now e db) =
        map_option (\<lambda>v. if P e then sql_add v (u64_to_i64 (f e)) else v) (col db)"
    and "col db = Some (SqlInt x)" and "0 \<le> x" and "x + total P f es \<le> I64_MAX"
  shows "col (add_events now es db) = Some (SqlInt (x + total P f es))"
  using assms(2-4)
proof (induction es arbitrary: db x)
  case (Cons e es)
  have t: "total P f (e # es) = (if P e then uint (f e) else 0) + total P f es" by (simp add: total_def)
  have c: "col (add_event now e db) = Some (SqlInt (x + (if P e then uint (f e) else 0)))"
  proof (cases "P e")
    case True
    then have "x + uint (f e) \<le> I64_MAX"
      using Cons.prems(3) total_nonneg [of P f es] by (simp add: t)
    then show ?thesis
      using Cons.prems(1,2) True by (simp add: step u64_to_i64_def sql_add_int)
  qed (use Cons.prems(1) in \<open>simp add: step\<close>)
  show ?case
    using Cons.IH [OF c] Cons.prems t by (simp add: add_events_def add.assoc)
qed (simp add: add_events_def total_def)

lemma get_counter_cnt:
  "cnt_rx s k db = SqlInt x \<Longrightarrow> cnt_tx s k db = SqlInt y \<Longrightarrow>
     get_traffic_counter (\<lambda>_. True) s k db = Inr \<lparr>rx_bytes = i64_to_u64 x, tx_bytes = i64_to_u64 y\<rparr>"
  by (cases "select_one (\<lambda>r. counter_key r = (s, k)) (traffic_counters db)")
     (simp_all add: get_traffic_counter_def cnt_rx_def cnt_tx_def get_i64_def TrafficCounter_default_def
        i64_to_u64_def)


section \<open>Properties\<close>

text \<open>
  C26: in every database that opening and any sequence of calls can produce, whichever
  statements fail, ids, pre-shared keys, account names, listener kinds, counters and sessions
  are unique, and every tunnel and account row has a mode and a kind that the row conversions
  accept.
\<close>

theorem db_constraints_hold:
  assumes "reachable db_init db_step db"
  shows "unique c_id (clients db) \<and> unique c_psk (clients db) \<and> unique t_id (tunnels db) \<and>
         unique l_kind (proxy_listeners db) \<and> unique a_id (proxy_accounts db) \<and>
         unique account_name (proxy_accounts db) \<and> unique counter_key (traffic_counters db) \<and>
         unique s_id (agent_sessions db) \<and> unique o_client_id (client_online db) \<and>
         list_all (\<lambda>r. is_ok (str_to_tunnel_mode (t_mode r))) (tunnels db) \<and>
         list_all (\<lambda>r. is_ok (validate_proxy_kind (a_kind r))) (proxy_accounts db)"
proof -
  have "db_inv db" using assms by (rule db_sys.reachable_inv)
  then show ?thesis
    by (auto simp: db_inv_def clients_inv_def tunnels_inv_def listeners_inv_def accounts_inv_def
        counters_inv_def log_inv_def list_all_iff tunnel_ok_def account_ok_def str_to_tunnel_mode_def
        validate_proxy_kind_def)
qed

definition demo_client :: new_client where
  "demo_client = \<lparr>cl_psk = ''k'', cl_enabled = True, cl_remark = None, cl_max_connections = None,
                  cl_compress = False, cl_encrypt = False, cl_id = ''c1''\<rparr>"

theorem db_constraints_hold_witness:
  "clients (snd (create_client (\<lambda>_. True) 5 demo_client empty_database)) = [client_row_of demo_client 5] \<and>
   unique c_psk (clients (snd (create_client (\<lambda>_. True) 5 demo_client empty_database)))"
proof -
  have "db_init empty_database"
    unfolding db_init_def by (rule exI [of _ "[]"]) (simp add: migrated_database_def empty_database_def)
  then have "reachable db_init db_step (snd (create_client (\<lambda>_. True) 5 demo_client empty_database))"
    by (rule reach_step [OF reach_init]) (rule ds_create_client)
  then show ?thesis
    using db_constraints_hold by (simp add: create_client_def empty_database_def Let_def)
qed

lemma select_account_login:
  assumes "db_inv db"
  shows "select_one (\<lambda>r. a_kind r = kind \<and> a_username r = u \<and> a_password r = p \<and> a_enabled r = 1)
           (proxy_accounts db) = Some r \<longleftrightarrow>
         r \<in> set (proxy_accounts db) \<and> a_kind r = kind \<and> a_username r = u \<and> a_password r = p \<and> a_enabled r = 1"
proof -
  have "unique account_name (proxy_accounts db)" using assms by (simp add: db_inv_def accounts_inv_def)
  then show ?thesis by (rule select_one_unique [where x = "(kind, u)"]) auto
qed

text \<open>
  C27: authentication of proxy users. While the usage of an account fits a signed 64-bit
  integer, \<^verbatim>\<open>find_enabled_proxy_account\<close> finds an account exactly for a kind, name and
  password that an enabled row has, and gives that row's client; and once the account is
  disabled, no password is accepted for its name.
\<close>

theorem proxy_login_exact:
  assumes "db_inv db" and "r \<in> set (proxy_accounts db)"
    and "a_rx_bytes r = SqlInt rx" and "a_tx_bytes r = SqlInt tx"
  shows "((\<exists>a. find_enabled_proxy_account (\<lambda>_. True) (a_kind r) (a_username r) p db = Inr (Some a) \<and>
             pa_id a = a_id r \<and> pa_client_id a = a_client_id r) \<longleftrightarrow> p = a_password r \<and> a_enabled r = 1) \<and>
         find_enabled_proxy_account (\<lambda>_. True) (a_kind r) (a_username r) p
           (snd (disable_proxy_account (\<lambda>_. True) now (a_id r) reason db)) = Inr None"
proof
  have ok: "account_ok r" "validate_proxy_kind (a_kind r) = Inr ()"
    using assms(1,2) by (auto simp: db_inv_def accounts_inv_def account_ok_def validate_proxy_kind_def)
  obtain a where a: "row_to_proxy_account r = Inr a" "pa_id a = a_id r" "pa_client_id a = a_client_id r"
    using row_to_account_total [OF ok(1) assms(3,4)] by blast
  let ?P = "\<lambda>x. a_kind x = a_kind r \<and> a_username x = a_username r \<and> a_password x = p \<and> a_enabled x = 1"
  have find: "find_enabled_proxy_account (\<lambda>_. True) (a_kind r) (a_username r) p d =
      transpose row_to_proxy_account (select_one ?P (proxy_accounts d))" for d
    by (simp add: find_enabled_proxy_account_def ok(2))
  have same: "x = r" if "x \<in> set (proxy_accounts db)" "account_name x = account_name r" for x
    by (rule unique_same [of account_name "proxy_accounts db"])
       (use assms(1,2) that in \<open>simp_all add: db_inv_def accounts_inv_def\<close>)
  have sel: "select_one ?P (proxy_accounts db) = (if p = a_password r \<and> a_enabled r = 1 then Some r else None)"
  proof (cases "p = a_password r \<and> a_enabled r = 1")
    case True
    then show ?thesis using select_account_login [OF assms(1), of "a_kind r" "a_username r" p r] assms(2) by simp
  next
    case False
    then have "\<forall>x \<in> set (proxy_accounts db). \<not> ?P x" using same by blast
    then show ?thesis unfolding if_not_P [OF False] by (simp only: select_one_None)
  qed
  show "(\<exists>a. find_enabled_proxy_account (\<lambda>_. True) (a_kind r) (a_username r) p db = Inr (Some a) \<and>
             pa_id a = a_id r \<and> pa_client_id a = a_client_id r) \<longleftrightarrow> p = a_password r \<and> a_enabled r = 1"
    unfolding find sel by (cases "p = a_password r \<and> a_enabled r = 1") (simp_all add: transpose_def a)
  let ?off = "\<lambda>x. x\<lparr>a_enabled := 0, a_disabled_reason := Some reason, a_updated_at := now\<rparr>"
  have "\<not> ?P (if a_id y = a_id r then ?off y else y)" if "y \<in> set (proxy_accounts db)" for y
    using same [OF that] by (cases "a_id y = a_id r") auto
  then have "select_one ?P (proxy_accounts (snd (disable_proxy_account (\<lambda>_. True) now (a_id r) reason db))) = None"
    unfolding select_one_None by (auto simp: disable_proxy_account_def set_update_rows)
  then show "find_enabled_proxy_account (\<lambda>_. True) (a_kind r) (a_username r) p
           (snd (disable_proxy_account (\<lambda>_. True) now (a_id r) reason db)) = Inr None"
    unfolding find by (simp add: transpose_def)
qed

definition demo_account :: new_proxy_account where
  "demo_account = \<lparr>pa_kind = ''http'', pa_client_id = ''c1'', pa_username = ''u'', pa_password = ''p'',
                   pa_enabled = True, pa_remark = None, pa_expires_at = None,
                   pa_traffic_limit_bytes = None, pa_id = ''a1''\<rparr>"

definition demo_db :: database where
  "demo_db = snd (create_proxy_account (\<lambda>_. True) 0 demo_account empty_database)"

lemma demo_db_accounts: "proxy_accounts demo_db = [account_row_of demo_account 0]"
  by (simp add: demo_db_def create_proxy_account_def demo_account_def validate_proxy_kind_def
      empty_database_def Let_def)

theorem proxy_login_exact_witness:
  "(\<exists>a. find_enabled_proxy_account (\<lambda>_. True) ''http'' ''u'' ''p'' demo_db = Inr (Some a) \<and>
      pa_id a = ''a1'' \<and> pa_client_id a = ''c1'') \<and>
   find_enabled_proxy_account (\<lambda>_. True) ''http'' ''u'' ''p''
     (snd (disable_proxy_account (\<lambda>_. True) 9 ''a1'' ''expired'' demo_db)) = Inr None"
proof -
  have inv: "db_inv demo_db" unfolding demo_db_def by (rule inv_create_proxy_account) simp
  show ?thesis
    using proxy_login_exact [OF inv, of "account_row_of demo_account 0" 0 0 "''p''" 9 "''expired''"]
    by (simp add: demo_db_accounts account_row_of_def demo_account_def bool_to_i64_def)
qed


definition demo_tunnel :: new_tunnel where
  "demo_tunnel = \<lparr>tn_client_id = ''c1'', tn_mode = TcpMode, tn_listen = ''0.0.0.0:80'', tn_target = Some ''h:1'',
                  tn_enabled = True, tn_expires_at = None, tn_traffic_limit_bytes = None, tn_id = ''t1''\<rparr>"

definition demo_db2 :: database where
  "demo_db2 = snd (create_tunnel (\<lambda>_. True) 0 demo_tunnel demo_db)"

lemma demo_db2_rows:
  "tunnels demo_db2 = [tunnel_row_of demo_tunnel 0]" "proxy_accounts demo_db2 = [account_row_of demo_account 0]"
  "traffic_counters demo_db2 = []"
  by (simp_all add: demo_db2_def demo_db_def create_tunnel_def create_proxy_account_def demo_account_def
      demo_tunnel_def validate_proxy_kind_def empty_database_def Let_def)


text \<open>
  Tunnels are stored faithfully. Creating a tunnel with a fresh id returns it with no
  usage, \<^verbatim>\<open>get_tunnel\<close> then returns the same record, and every other tunnel reads as
  before; a limit above the signed 64-bit range is stored as the largest signed value. With
  an id that exists the call fails and the database is unchanged. After
  deleting it the lookup is empty.
\<close>

theorem tunnel_create_read:
  "let (r, db') = create_tunnel (\<lambda>_. True) now t db
   in (if exists_row (\<lambda>x. t_id x = tn_id t) (tunnels db)
       then r = Inl constraint_error \<and> db' = db
       else \<exists>d. r = Inr d \<and> get_tunnel (\<lambda>_. True) (tn_id t) db' = Inr (Some d) \<and>
              new_tunnel.truncate d = t\<lparr>tn_traffic_limit_bytes :=
                  map_option (\<lambda>v. i64_to_u64 (u64_to_i64 v)) (tn_traffic_limit_bytes t)\<rparr> \<and>
              tn_rx_bytes d = 0 \<and> tn_tx_bytes d = 0 \<and>
              get_tunnel (\<lambda>_. True) (tn_id t) (snd (delete_tunnel (\<lambda>_. True) (tn_id t) db')) = Inr None) \<and>
      (if tid = tn_id t then True
       else get_tunnel (\<lambda>_. True) tid db' = get_tunnel (\<lambda>_. True) tid db)"
proof (cases "\<exists>x \<in> set (tunnels db). t_id x = tn_id t")
  case True
  then show ?thesis by (simp add: create_tunnel_def)
next
  case False
  let ?db = "db\<lparr>tunnels := tunnels db @ [tunnel_row_of t now]\<rparr>"
  have new: "select_one (\<lambda>r. t_id r = tn_id t) (tunnels db @ [tunnel_row_of t now]) = Some (tunnel_row_of t now)"
    using False by (subst select_one_snoc_new) (simp_all add: tunnel_row_of_def)
  have old: "select_one (\<lambda>r. t_id r = tid) (tunnels db @ [tunnel_row_of t now]) = select_one (\<lambda>r. t_id r = tid) (tunnels db)"
    if "tid \<noteq> tn_id t"
    using that by (intro select_snoc_other) (simp add: tunnel_row_of_def)
  have gone: "select_one (\<lambda>r. t_id r = tn_id t) (delete_rows (\<lambda>r. t_id r = tn_id t) rows) = None" for rows
    by (simp add: select_one_None)
  show ?thesis
    using False new old
    by (simp add: create_tunnel_def Let_def row_to_tunnel_of get_tunnel_def transpose_def
        delete_tunnel_def gone new_tunnel.truncate_def)
qed

definition usable_key :: "legacy_client \<Rightarrow> bool" where
  "usable_key r = (case legacy_key r of None \<Rightarrow> False | Some k \<Rightarrow> k \<noteq> '''')"

definition migrated_row :: "legacy_client \<Rightarrow> client_row" where
  "migrated_row r = client_row.truncate (r\<lparr>c_psk := the (legacy_key r)\<rparr>)"

lemma migrate_append:
  assumes "unique c_id (rows @ map migrated_row (filter usable_key rs))"
    and "unique c_psk (rows @ map migrated_row (filter usable_key rs))"
  shows "migrate_clients_psk rs rows = rows @ map migrated_row (filter usable_key rs)"
  using assms
proof (induction rs arbitrary: rows)
  case (Cons r rs)
  show ?case
  proof (cases "usable_key r")
    case True
    then obtain key where key: "legacy_key r = Some key" "key \<noteq> ''''"
      by (auto simp: usable_key_def split: option.splits)
    have "c_id (migrated_row r) \<notin> c_id ` set rows" "c_psk (migrated_row r) \<notin> c_psk ` set rows"
      using Cons.prems True by simp_all
    then have "\<not> (c_id x = c_id (migrated_row r) \<or> c_psk x = c_psk (migrated_row r))" if "x \<in> set rows" for x
      using that by (metis imageI)
    then have "insert_or_ignore_client (migrated_row r) rows = rows @ [migrated_row r]"
      by (simp add: insert_or_ignore_client_def)
    then show ?thesis
      using Cons.IH [of "rows @ [migrated_row r]"] Cons.prems True key by (simp add: migrated_row_def)
  next
    case False
    then show ?thesis using Cons by (auto simp: usable_key_def split: option.splits)
  qed
qed simp

text \<open>
  the legacy migration. When the ids are unique, as the primary key demands, and the keys
  of the rows that have one differ, \<^verbatim>\<open>migrate_clients_psk\<close> keeps exactly the clients with
  a non-empty key, in order, and gives each its key: the new one if it is set, otherwise the
  old one.
\<close>

theorem legacy_migration_keeps_clients:
  assumes "unique c_id rs" and "unique legacy_key (filter usable_key rs)"
  shows "migrate_clients_psk rs [] = map migrated_row (filter usable_key rs)"
proof -
  have "unique c_id (map migrated_row (filter usable_key rs))"
    using assms(1) by (simp add: comp_def migrated_row_def distinct_map_filter)
  moreover have "unique c_psk (map migrated_row (filter usable_key rs))"
  proof -
    have "map Some (map c_psk (map migrated_row (filter usable_key rs))) = map legacy_key (filter usable_key rs)"
      by (auto simp: migrated_row_def usable_key_def split: option.splits)
    then show ?thesis using assms(2) by (metis distinct_map)
  qed
  ultimately show ?thesis
    using migrate_append [of "[]" rs] by simp
qed

definition demo_legacy :: "string \<Rightarrow> string option \<Rightarrow> string option \<Rightarrow> legacy_client" where
  "demo_legacy i p v = \<lparr>c_id = i, c_psk = '''', c_enabled = 1, c_remark = None, c_max_connections = None,
     c_compress = 0, c_encrypt = 0, c_created_at = 0, c_updated_at = 0, lc_psk = p, lc_vkey = v\<rparr>"

theorem legacy_migration_keeps_clients_witness:
  "map (\<lambda>r. (c_id r, c_psk r))
     (migrate_clients_psk [demo_legacy ''a'' (Some ''p'') (Some ''v''), demo_legacy ''b'' (Some '''') (Some ''w''),
        demo_legacy ''c'' None None] []) = [(''a'', ''p''), (''b'', ''w'')]"
  by (subst legacy_migration_keeps_clients)
     (simp_all add: demo_legacy_def usable_key_def legacy_key_def migrated_row_def)
end
