(* ===== verification/Policy.thy ===== *)
theory Policy
  imports Db_Traffic
begin

text \<open>
  The policy enforcer, \<^verbatim>\<open>crates/rps-controller/src/policy.rs\<close>: per tunnel and per proxy
  account an expiry time, a traffic limit, the bytes used and whether it was revoked; and the
  bounded queue of revocations. The counter is an \<^verbatim>\<open>AtomicU64\<close>, so \<^verbatim>\<open>fetch_add\<close>
  wraps around; the sum that is compared with the limit saturates. Calls are atomic: each
  holds the map's entry while it works on it. \<open>now\<close> is the clock.
\<close>

definition REVOKE_QUEUE_CAPACITY :: nat where "REVOKE_QUEUE_CAPACITY = 4096"

datatype resource_kind = RTunnel | RProxyAccount

record resource_key =
  rk_kind :: resource_kind
  rk_id :: string

datatype revoke_reason = Expired | TrafficExhausted

fun reason_as_str :: "revoke_reason \<Rightarrow> string" where
  "reason_as_str Expired = ''expired''"
| "reason_as_str TrafficExhausted = ''traffic_exhausted''"

record policy_state =
  ps_expires_at :: "int option"
  ps_traffic_limit_bytes :: "u64 option"
  ps_used_bytes :: u64
  ps_revoked :: bool

record revoke_event =
  rv_key :: resource_key
  rv_reason :: revoke_reason

record enforcer =
  policies :: "(resource_key \<times> policy_state) list"
  revoke_rx :: "revoke_event list"

definition PolicyEnforcer_channel :: enforcer where
  "PolicyEnforcer_channel = \<lparr>policies = [], revoke_rx = []\<rparr>"

definition tunnel_key :: "string \<Rightarrow> resource_key" where
  "tunnel_key i = \<lparr>rk_kind = RTunnel, rk_id = i\<rparr>"

definition proxy_account_key :: "string \<Rightarrow> resource_key" where
  "proxy_account_key i = \<lparr>rk_kind = RProxyAccount, rk_id = i\<rparr>"

definition resource_key_from_route :: "string \<Rightarrow> resource_key option" where
  "resource_key_from_route route_id =
     (case (case str_strip_prefix ''http-proxy:'' route_id of
              Some r \<Rightarrow> Some r
            | None \<Rightarrow>
                (case str_strip_prefix ''socks5:'' route_id of
                   Some r \<Rightarrow> Some r
                 | None \<Rightarrow> str_strip_prefix ''socks5-udp:'' route_id)) of
        Some aid \<Rightarrow> Some (proxy_account_key aid)
      | None \<Rightarrow> Some (tunnel_key route_id))"

definition register_policy ::
  "resource_key \<Rightarrow> int option \<Rightarrow> u64 option \<Rightarrow> u64 \<Rightarrow> enforcer \<Rightarrow> enforcer" where
  "register_policy key expires_at limit used e =
     e\<lparr>policies := AList.update key
         \<lparr>ps_expires_at = expires_at, ps_traffic_limit_bytes = limit, ps_used_bytes = used,
          ps_revoked = False\<rparr> (policies e)\<rparr>"

definition remove_policy :: "resource_key \<Rightarrow> enforcer \<Rightarrow> enforcer" where
  "remove_policy key e = e\<lparr>policies := AList.delete key (policies e)\<rparr>"

text \<open>
  \<^verbatim>\<open>revoke_once\<close> on the policy the caller holds: the first call marks it and queues the
  event, and a full queue drops the event.
\<close>

definition revoke_once :: "resource_key \<Rightarrow> policy_state \<Rightarrow> revoke_reason \<Rightarrow> enforcer \<Rightarrow> enforcer" where
  "revoke_once key policy reason e =
     (if ps_revoked policy then e
      else
        let e1 = e\<lparr>policies := AList.update key (policy\<lparr>ps_revoked := True\<rparr>) (policies e)\<rparr>
        in if length (revoke_rx e1) < REVOKE_QUEUE_CAPACITY
           then e1\<lparr>revoke_rx := revoke_rx e1 @ [\<lparr>rv_key = key, rv_reason = reason\<rparr>]\<rparr>
           else e1)"

definition allowed :: "int \<Rightarrow> resource_key \<Rightarrow> enforcer \<Rightarrow> bool \<times> enforcer" where
  "allowed now key e =
     (case map_of (policies e) key of
        None \<Rightarrow> (True, e)
      | Some policy \<Rightarrow>
          if ps_revoked policy then (False, e)
          else if (case ps_expires_at policy of None \<Rightarrow> False | Some t \<Rightarrow> now \<ge> t)
          then (False, revoke_once key policy Expired e)
          else if (case ps_traffic_limit_bytes policy of None \<Rightarrow> False | Some l \<Rightarrow> ps_used_bytes policy \<ge> l)
          then (False, revoke_once key policy TrafficExhausted e)
          else (True, e))"

definition record_route_usage :: "string \<Rightarrow> u64 \<Rightarrow> u64 \<Rightarrow> enforcer \<Rightarrow> enforcer" where
  "record_route_usage route_id rx tx e =
     (case resource_key_from_route route_id of
        None \<Rightarrow> e
      | Some key \<Rightarrow>
          (case map_of (policies e) key of
             None \<Rightarrow> e
           | Some policy \<Rightarrow>
               let delta = sat_add rx tx
               in if delta = 0 then e
                  else
                    let used = sat_add (ps_used_bytes policy) delta;
                        policy1 = policy\<lparr>ps_used_bytes := ps_used_bytes policy + delta\<rparr>;
                        e1 = e\<lparr>policies := AList.update key policy1 (policies e)\<rparr>
                    in (case ps_traffic_limit_bytes policy1 of
                          None \<Rightarrow> e1
                        | Some limit \<Rightarrow>
                            if used \<ge> limit then revoke_once key policy1 TrafficExhausted e1 else e1)))"

text \<open>\<^verbatim>\<open>expired_keys\<close>: the loop over the entries of the map.\<close>

fun expired_loop ::
  "int \<Rightarrow> (resource_key \<times> policy_state) list \<Rightarrow> enforcer \<Rightarrow> (resource_key \<times> revoke_reason) list \<times> enforcer" where
  "expired_loop now [] e = ([], e)"
| "expired_loop now ((key, policy) # entries) e =
     (if (case ps_expires_at policy of None \<Rightarrow> False | Some t \<Rightarrow> now \<ge> t \<and> \<not> ps_revoked policy)
      then let (ks, e1) = expired_loop now entries (revoke_once key policy Expired e)
           in ((key, Expired) # ks, e1)
      else expired_loop now entries e)"

definition expired_keys :: "int \<Rightarrow> enforcer \<Rightarrow> (resource_key \<times> revoke_reason) list \<times> enforcer" where
  "expired_keys now e = expired_loop now (policies e) e"

definition register_tunnel_policy :: "db_tunnel \<Rightarrow> enforcer \<Rightarrow> enforcer" where
  "register_tunnel_policy t =
     register_policy (tunnel_key (tn_id t)) (tn_expires_at t) (tn_traffic_limit_bytes t)
       (sat_add (tn_rx_bytes t) (tn_tx_bytes t))"

definition register_account_policy :: "db_proxy_account \<Rightarrow> enforcer \<Rightarrow> enforcer" where
  "register_account_policy a =
     register_policy (proxy_account_key (pa_id a)) (pa_expires_at a) (pa_traffic_limit_bytes a)
       (sat_add (pa_rx_bytes a) (pa_tx_bytes a))"

definition load_from_db :: "stmts \<Rightarrow> database \<Rightarrow> enforcer \<Rightarrow> (error + unit) \<times> enforcer" where
  "load_from_db q db e =
     (case list_tunnels q db of
        Inl err \<Rightarrow> (Inl err, e)
      | Inr ts \<Rightarrow>
          let e1 = fold register_tunnel_policy ts e
          in (case list_proxy_accounts (\<lambda>i. q (Suc i)) None db of
                Inl err \<Rightarrow> (Inl err, e1)
              | Inr as \<Rightarrow> (Inr (), fold register_account_policy as e1)))"

section \<open>What the operations do to one policy\<close>

lemma policies_revoke_once:
  "map_of (policies (revoke_once key policy reason e)) k =
     (if k = key \<and> \<not> ps_revoked policy then Some (policy\<lparr>ps_revoked := True\<rparr>) else map_of (policies e) k)"
  by (simp add: revoke_once_def Let_def)

lemma policies_allowed_other:
  "k \<noteq> key \<Longrightarrow> map_of (policies (snd (allowed now key e))) k = map_of (policies e) k"
  by (simp add: allowed_def policies_revoke_once split: option.split)

lemma policies_usage_other:
  "resource_key_from_route route \<noteq> Some k \<Longrightarrow>
     map_of (policies (record_route_usage route rx tx e)) k = map_of (policies e) k"
  by (auto simp: record_route_usage_def Let_def policies_revoke_once split: option.split)

text \<open>The scan marks exactly the entries that have expired.\<close>

definition mark_expired :: "int \<Rightarrow> policy_state \<Rightarrow> policy_state" where
  "mark_expired now p =
     (if (case ps_expires_at p of None \<Rightarrow> False | Some t \<Rightarrow> now \<ge> t) then p\<lparr>ps_revoked := True\<rparr> else p)"

lemma policies_expired_loop:
  assumes "distinct (keys entries)" and "\<forall>(k, p) \<in> set entries. map_of (policies e) k = Some p"
  shows "map_of (policies (snd (expired_loop now entries e))) k =
           (if k \<in> set (keys entries) then map_option (mark_expired now) (map_of (policies e) k)
            else map_of (policies e) k)"
  using assms
proof (induction now entries e rule: expired_loop.induct)
  case (2 now key policy entries e)
  let ?exp = "case ps_expires_at policy of None \<Rightarrow> False | Some t \<Rightarrow> now \<ge> t \<and> \<not> ps_revoked policy"
  let ?e1 = "if ?exp then revoke_once key policy Expired e else e"
  have key: "map_of (policies e) key = Some policy" using 2(4) by simp
  have e1: "map_of (policies ?e1) k' = (if k' = key then Some (mark_expired now policy) else map_of (policies e) k')" for k'
    using key by (auto simp: policies_revoke_once mark_expired_def split: option.splits)
  have "\<forall>(k', p) \<in> set entries. map_of (policies ?e1) k' = Some p"
    using 2(3,4) unfolding e1 by (force simp: image_iff)
  then have IH: "map_of (policies (snd (expired_loop now entries ?e1))) k =
      (if k \<in> set (keys entries) then map_option (mark_expired now) (map_of (policies ?e1) k)
       else map_of (policies ?e1) k)"
    using 2(1,2,3) by (cases ?exp) simp_all
  have "snd (expired_loop now ((key, policy) # entries) e) = snd (expired_loop now entries ?e1)"
    by (simp add: case_prod_beta Let_def)
  moreover have "key \<notin> set (keys entries)" using 2(3) by simp
  ultimately show ?case using IH e1 key by auto
qed simp

lemma policies_expired_keys:
  assumes "distinct (keys (policies e))"
  shows "map_of (policies (snd (expired_keys now e))) k = map_option (mark_expired now) (map_of (policies e) k)"
proof -
  have "map_of (policies (snd (expired_keys now e))) k =
      (if k \<in> set (keys (policies e)) then map_option (mark_expired now) (map_of (policies e) k)
       else map_of (policies e) k)"
    unfolding expired_keys_def using assms by (intro policies_expired_loop) auto
  moreover have "map_of (policies e) k = None" if "k \<notin> set (keys (policies e))"
    using that by (simp add: map_of_eq_None_iff)
  ultimately show ?thesis by (cases "k \<in> set (keys (policies e))") simp_all
qed

lemma distinct_revoke_once [simp]:
  "distinct (keys (policies e)) \<Longrightarrow> distinct (keys (policies (revoke_once key p r e)))"
  by (simp add: revoke_once_def Let_def distinct_keys_update)

lemma distinct_usage: "distinct (keys (policies e)) \<Longrightarrow> distinct (keys (policies (record_route_usage route rx tx e)))"
  by (simp add: record_route_usage_def Let_def distinct_keys_update split: option.split)

lemma distinct_allowed: "distinct (keys (policies e)) \<Longrightarrow> distinct (keys (policies (snd (allowed now key e))))"
  by (simp add: allowed_def split: option.split)

lemma distinct_expired_loop:
  "distinct (keys (policies e)) \<Longrightarrow> distinct (keys (policies (snd (expired_loop now entries e))))"
  by (induction now entries e rule: expired_loop.induct) (auto simp: case_prod_beta Let_def)

section \<open>Sequences of calls\<close>

datatype policy_op =
    UseRoute string u64 u64
  | Check int resource_key
  | Scan int
  | Register resource_key "int option" "u64 option" u64
  | Remove resource_key
  | TakeEvent

fun policy_run :: "policy_op \<Rightarrow> enforcer \<Rightarrow> enforcer" where
  "policy_run (UseRoute route rx tx) e = record_route_usage route rx tx e"
| "policy_run (Check now key) e = snd (allowed now key e)"
| "policy_run (Scan now) e = snd (expired_keys now e)"
| "policy_run (Register key t l u) e = register_policy key t l u e"
| "policy_run (Remove key) e = remove_policy key e"
| "policy_run TakeEvent e = e\<lparr>revoke_rx := tl (revoke_rx e)\<rparr>"

text \<open>The bytes an operation uses up of a resource, and whether it notices that it has expired.\<close>

fun op_usage :: "resource_key \<Rightarrow> policy_op \<Rightarrow> nat" where
  "op_usage key (UseRoute route rx tx) =
     (if resource_key_from_route route = Some key then unat rx + unat tx else 0)"
| "op_usage key _ = 0"

fun op_hits :: "resource_key \<Rightarrow> int option \<Rightarrow> policy_op \<Rightarrow> bool" where
  "op_hits key exp (Check now k) = (k = key \<and> (case exp of None \<Rightarrow> False | Some t \<Rightarrow> t \<le> now))"
| "op_hits key exp (Scan now) = (case exp of None \<Rightarrow> False | Some t \<Rightarrow> t \<le> now)"
| "op_hits key exp _ = False"

fun op_touches :: "resource_key \<Rightarrow> policy_op \<Rightarrow> bool" where
  "op_touches key (Register k t l u) = (k = key)"
| "op_touches key (Remove k) = (k = key)"
| "op_touches key _ = False"

definition over_limit :: "u64 option \<Rightarrow> nat \<Rightarrow> bool" where
  "over_limit limit used = (case limit of None \<Rightarrow> False | Some l \<Rightarrow> unat l \<le> used)"

text \<open>
  The state of one policy after \<open>used\<close> bytes, \<open>hit\<close> telling whether an expiry was
  noticed: as long as it is not revoked the counter is the exact number of bytes.
\<close>

definition policy_at :: "resource_key \<Rightarrow> int option \<Rightarrow> u64 option \<Rightarrow> nat \<Rightarrow> bool \<Rightarrow> enforcer \<Rightarrow> bool" where
  "policy_at key exp limit used hit e \<longleftrightarrow>
     distinct (keys (policies e)) \<and>
     (\<exists>p. map_of (policies e) key = Some p \<and> ps_expires_at p = exp \<and> ps_traffic_limit_bytes p = limit \<and>
        (hit \<longrightarrow> ps_revoked p) \<and> (ps_revoked p \<longrightarrow> hit \<or> over_limit limit used) \<and>
        (\<not> ps_revoked p \<longrightarrow> limit \<noteq> None \<longrightarrow> unat (ps_used_bytes p) = used))"

lemma policy_at_register:
  "distinct (keys (policies e)) \<Longrightarrow>
     policy_at key exp limit (unat used) False (register_policy key exp limit used e)"
  by (simp add: policy_at_def register_policy_def distinct_keys_update)

lemma over_limit_mono: "over_limit l u \<Longrightarrow> u \<le> v \<Longrightarrow> over_limit l v"
  by (auto simp: over_limit_def split: option.splits)

text \<open>The counter on 64 bits: it is exact below the limit, and the limit is never missed.\<close>

lemma usage_below:
  assumes "sat_add u (sat_add rx tx) < l"
  shows "unat (u + sat_add rx tx) = unat u + unat rx + unat tx"
proof -
  have "min (unat u + min (unat rx + unat tx) 18446744073709551615) 18446744073709551615 < unat l"
    using assms by (simp add: word_less_nat_alt unat_sat_add)
  then have "unat u + unat rx + unat tx < unat l" using unat_u64_less [of l] by linarith
  then have "unat (sat_add rx tx) = unat rx + unat tx" "unat u + unat (sat_add rx tx) < 18446744073709551616"
    using unat_u64_less [of l] by (simp_all add: unat_sat_add)
  then show ?thesis by (simp add: unat_word_ariths)
qed

lemma usage_reached:
  assumes "l \<le> sat_add u (sat_add rx tx)"
  shows "unat l \<le> unat u + unat rx + unat tx"
  using assms by (auto simp: word_le_nat_alt unat_sat_add min_def split: if_splits)

lemma sat_add_eq_0: "sat_add rx tx = 0 \<Longrightarrow> unat rx + unat tx = 0"
  using unat_sat_add [of rx tx] by (auto simp: min_def split: if_splits)

lemma policy_atI:
  "distinct (keys (policies e)) \<Longrightarrow> map_of (policies e) key = Some p \<Longrightarrow> ps_expires_at p = exp \<Longrightarrow>
     ps_traffic_limit_bytes p = limit \<Longrightarrow> (hit \<longrightarrow> ps_revoked p) \<Longrightarrow>
     (ps_revoked p \<longrightarrow> hit \<or> over_limit limit used) \<Longrightarrow>
     (\<not> ps_revoked p \<longrightarrow> limit \<noteq> None \<longrightarrow> unat (ps_used_bytes p) = used) \<Longrightarrow>
     policy_at key exp limit used hit e"
  by (auto simp: policy_at_def)

lemma policy_atE:
  assumes "policy_at key exp limit used hit e"
  obtains p where "distinct (keys (policies e))" "map_of (policies e) key = Some p" "ps_expires_at p = exp"
    "ps_traffic_limit_bytes p = limit" "hit \<longrightarrow> ps_revoked p"
    "ps_revoked p \<longrightarrow> hit \<or> over_limit limit used"
    "\<not> ps_revoked p \<longrightarrow> limit \<noteq> None \<longrightarrow> unat (ps_used_bytes p) = used"
  using assms unfolding policy_at_def by blast

lemma policy_at_frame:
  "policy_at key exp limit used hit e \<Longrightarrow> distinct (keys (policies e')) \<Longrightarrow>
     map_of (policies e') key = map_of (policies e) key \<Longrightarrow> policy_at key exp limit used hit e'"
  by (metis (no_types, lifting) policy_at_def)

lemma policy_at_use:
  assumes "policy_at key exp limit used hit e"
  shows "policy_at key exp limit (used + op_usage key (UseRoute route rx tx)) hit (record_route_usage route rx tx e)"
proof (cases "resource_key_from_route route = Some key")
  case False
  have "distinct (keys (policies e))" using assms by (simp add: policy_at_def)
  then show ?thesis
    using policy_at_frame [OF assms distinct_usage policies_usage_other [OF False]] False by simp
next
  case True
  obtain p where d: "distinct (keys (policies e))" and p: "map_of (policies e) key = Some p"
    "ps_expires_at p = exp" "ps_traffic_limit_bytes p = limit" "hit \<longrightarrow> ps_revoked p"
    "ps_revoked p \<longrightarrow> hit \<or> over_limit limit used"
    "\<not> ps_revoked p \<longrightarrow> limit \<noteq> None \<longrightarrow> unat (ps_used_bytes p) = used"
    using assms by (rule policy_atE)
  let ?n = "unat rx + unat tx" and ?delta = "sat_add rx tx"
  let ?p1 = "p\<lparr>ps_used_bytes := ps_used_bytes p + ?delta\<rparr>"
  have mono: "over_limit limit used \<Longrightarrow> over_limit limit (used + ?n)"
    using over_limit_mono [of limit used "used + ?n"] by simp
  show ?thesis
  proof (cases "?delta = 0")
    case z: True
    then have "record_route_usage route rx tx e = e" using True p(1) by (simp add: record_route_usage_def)
    then show ?thesis using assms sat_add_eq_0 [OF z] True by simp
  next
    case nz: False
    let ?stop = "case limit of None \<Rightarrow> False | Some l \<Rightarrow> l \<le> sat_add (ps_used_bytes p) ?delta"
    have over: "over_limit limit (used + ?n)" if ?stop "\<not> ps_revoked p"
      using that p(6) usage_reached [of _ "ps_used_bytes p" rx tx]
      by (auto simp: over_limit_def add.assoc split: option.splits)
    have exact: "unat (ps_used_bytes p + ?delta) = used + ?n" if "\<not> ?stop" "\<not> ps_revoked p" "limit \<noteq> None"
      using that p(6) usage_below [of "ps_used_bytes p" rx tx]
      by (auto simp: not_le add.assoc split: option.splits)
    have "map_of (policies (record_route_usage route rx tx e)) key
        = Some (if ?stop then ?p1\<lparr>ps_revoked := True\<rparr> else ?p1)"
      using True p(1,3) nz
      by (cases "ps_revoked p") (auto simp: record_route_usage_def Let_def policies_revoke_once split: option.splits)
    then show ?thesis
      by (rule policy_atI [OF distinct_usage [OF d]])
         (use True p(2-6) over exact mono in \<open>auto split: if_splits\<close>)
  qed
qed

lemma policy_at_check:
  assumes "policy_at key exp limit used hit e"
  shows "policy_at key exp limit used (hit \<or> op_hits key exp (Check now k)) (snd (allowed now k e))"
    and "fst (allowed now key e) \<longleftrightarrow>
           \<not> (hit \<or> op_hits key exp (Check now key)) \<and> \<not> over_limit limit used"
proof -
  obtain p where d: "distinct (keys (policies e))" and p: "map_of (policies e) key = Some p"
    "ps_expires_at p = exp" "ps_traffic_limit_bytes p = limit" "hit \<longrightarrow> ps_revoked p"
    "ps_revoked p \<longrightarrow> hit \<or> over_limit limit used"
    "\<not> ps_revoked p \<longrightarrow> limit \<noteq> None \<longrightarrow> unat (ps_used_bytes p) = used"
    using assms by (rule policy_atE)
  have over: "over_limit limit used \<longleftrightarrow> (case limit of None \<Rightarrow> False | Some l \<Rightarrow> l \<le> ps_used_bytes p)"
    if "\<not> ps_revoked p"
    using that p(6) by (auto simp: over_limit_def word_le_nat_alt split: option.splits)
  have exp: "op_hits key exp (Check now key) \<longleftrightarrow> (case ps_expires_at p of None \<Rightarrow> False | Some t \<Rightarrow> now \<ge> t)"
    by (simp add: p(2))
  show "fst (allowed now key e) \<longleftrightarrow> \<not> (hit \<or> op_hits key exp (Check now key)) \<and> \<not> over_limit limit used"
    using p over unfolding exp by (cases "ps_revoked p") (auto simp: allowed_def)
  show "policy_at key exp limit used (hit \<or> op_hits key exp (Check now k)) (snd (allowed now k e))"
  proof (cases "k = key")
    case False
    then show ?thesis
      using policy_at_frame [OF assms distinct_allowed [OF d] policies_allowed_other] by simp
  next
    case True
    have "map_of (policies (snd (allowed now key e))) key =
        Some (if ps_revoked p \<or> op_hits key exp (Check now key) \<or> over_limit limit used
              then p\<lparr>ps_revoked := True\<rparr> else p)"
      using p(1,3) over unfolding exp
      by (cases "ps_revoked p") (auto simp: allowed_def policies_revoke_once)
    then show ?thesis
      unfolding True
      by (rule policy_atI [OF distinct_allowed [OF d]])
         (use p(2-6) in \<open>auto split: if_splits simp del: op_hits.simps\<close>)
  qed
qed

lemma policy_at_scan:
  assumes "policy_at key exp limit used hit e"
  shows "policy_at key exp limit used (hit \<or> op_hits key exp (Scan now)) (snd (expired_keys now e))"
proof -
  obtain p where d: "distinct (keys (policies e))" and p: "map_of (policies e) key = Some p"
    "ps_expires_at p = exp" "ps_traffic_limit_bytes p = limit" "hit \<longrightarrow> ps_revoked p"
    "ps_revoked p \<longrightarrow> hit \<or> over_limit limit used"
    "\<not> ps_revoked p \<longrightarrow> limit \<noteq> None \<longrightarrow> unat (ps_used_bytes p) = used"
    using assms by (rule policy_atE)
  have d': "distinct (keys (policies (snd (expired_keys now e))))"
    using d by (simp add: expired_keys_def distinct_expired_loop)
  have "map_of (policies (snd (expired_keys now e))) key = Some (mark_expired now p)"
    by (simp add: policies_expired_keys [OF d] p(1))
  from policy_atI [OF d' this] show ?thesis
    using p by (auto simp: mark_expired_def split: if_splits)
qed

lemma policy_at_run:
  assumes "policy_at key exp limit used hit e" and "\<not> op_touches key op"
  shows "policy_at key exp limit (used + op_usage key op) (hit \<or> op_hits key exp op) (policy_run op e)"
proof (cases op)
  case (UseRoute route rx tx)
  then show ?thesis using policy_at_use [OF assms(1)] by simp
next
  case (Check now k)
  then show ?thesis using policy_at_check(1) [OF assms(1)] by simp
next
  case (Scan now)
  then show ?thesis using policy_at_scan [OF assms(1)] by simp
qed (use assms in \<open>auto simp: policy_at_def register_policy_def remove_policy_def distinct_keys_update distinct_keys_delete\<close>)

lemma policy_at_fold:
  assumes "policy_at key exp limit used hit e" and "\<forall>op \<in> set ops. \<not> op_touches key op"
  shows "policy_at key exp limit (used + (\<Sum>op \<leftarrow> ops. op_usage key op)) (hit \<or> (\<exists>op \<in> set ops. op_hits key exp op))
           (fold policy_run ops e)"
  using assms
proof (induction ops arbitrary: used hit e)
  case (Cons op ops)
  have "policy_at key exp limit (used + op_usage key op) (hit \<or> op_hits key exp op) (policy_run op e)"
    using Cons.prems by (intro policy_at_run) simp_all
  from Cons.IH [OF this] Cons.prems(2) show ?case by (simp add: add.assoc disj_assoc)
qed simp

section \<open>No revocation is lost\<close>

text \<open>
  \<open>taken\<close> are the events the policy task has received so far. With at most as many
  resources as the queue has places, the resources that are revoked are exactly those with an
  event, taken or still queued, and no resource has two.
\<close>

abbreviation event_keys :: "revoke_event list \<Rightarrow> enforcer \<Rightarrow> resource_key list" where
  "event_keys taken e \<equiv> map rv_key (taken @ revoke_rx e)"

definition revoked_keys :: "enforcer \<Rightarrow> resource_key set" where
  "revoked_keys e = {k. \<exists>p. map_of (policies e) k = Some p \<and> ps_revoked p}"

definition announced :: "revoke_event list \<Rightarrow> enforcer \<Rightarrow> bool" where
  "announced taken e \<longleftrightarrow> distinct (keys (policies e)) \<and> length (policies e) \<le> REVOKE_QUEUE_CAPACITY \<and>
     distinct (event_keys taken e) \<and> set (event_keys taken e) = revoked_keys e"

lemma length_update_present: "map_of al k = Some v \<Longrightarrow> length (AList.update k w al) = length al"
  by (induction al) (auto split: if_splits)

lemma announced_upd:
  assumes "announced taken e" and "map_of (policies e) key = Some p" and "ps_revoked p1 = ps_revoked p"
  shows "announced taken (e\<lparr>policies := AList.update key p1 (policies e)\<rparr>)"
  using assms length_update_present [OF assms(2)]
  by (auto simp: announced_def revoked_keys_def distinct_keys_update)

lemma queue_room:
  assumes "announced taken e" and "map_of (policies e) key = Some p" and "\<not> ps_revoked p"
  shows "length (revoke_rx e) < REVOKE_QUEUE_CAPACITY"
proof -
  have d: "distinct (event_keys taken e)" "set (event_keys taken e) = revoked_keys e"
    and len: "length (policies e) \<le> REVOKE_QUEUE_CAPACITY"
    using assms(1) by (auto simp: announced_def)
  have "set (event_keys taken e) \<subseteq> set (keys (policies e)) - {key}"
    unfolding d(2) revoked_keys_def using assms(2,3) by (force dest: map_of_SomeD)
  then have "card (set (event_keys taken e)) \<le> card (set (keys (policies e)) - {key})"
    by (intro card_mono) auto
  also have "\<dots> < card (set (keys (policies e)))"
    using map_of_SomeD [OF assms(2)] by (intro card_Diff1_less) force+
  also have "\<dots> \<le> length (policies e)" using card_length [of "keys (policies e)"] by simp
  finally have "length (event_keys taken e) < length (policies e)"
    using distinct_card [OF d(1)] by simp
  then show ?thesis using len by simp
qed

lemma announced_revoke_once:
  assumes "announced taken e" and "map_of (policies e) key = Some p"
  shows "announced taken (revoke_once key p reason e)"
proof (cases "ps_revoked p")
  case True
  then show ?thesis using assms(1) by (simp add: revoke_once_def)
next
  case False
  let ?e = "e\<lparr>policies := AList.update key (p\<lparr>ps_revoked := True\<rparr>) (policies e),
              revoke_rx := revoke_rx e @ [\<lparr>rv_key = key, rv_reason = reason\<rparr>]\<rparr>"
  have e: "revoke_once key p reason e = ?e"
    using False queue_room [OF assms False] by (simp add: revoke_once_def Let_def)
  have "key \<notin> revoked_keys e" "revoked_keys ?e = insert key (revoked_keys e)"
    using assms(2) False by (auto simp: revoked_keys_def)
  moreover have "distinct (event_keys taken e)" "set (event_keys taken e) = revoked_keys e"
    using assms(1) by (auto simp: announced_def)
  ultimately have "distinct (event_keys taken ?e)" "set (event_keys taken ?e) = revoked_keys ?e"
    by (auto simp: image_iff)
  then show ?thesis
    unfolding e using assms(1) length_update_present [OF assms(2)]
    by (simp add: announced_def distinct_keys_update)
qed

lemma announced_use: "announced taken e \<Longrightarrow> announced taken (record_route_usage route rx tx e)"
proof -
  assume a: "announced taken e"
  have "announced taken (revoke_once key p1 r (e\<lparr>policies := AList.update key p1 (policies e)\<rparr>))"
    if "map_of (policies e) key = Some p" "ps_revoked p1 = ps_revoked p" for key p p1 r
    using announced_upd [OF a that] by (rule announced_revoke_once) simp
  then show ?thesis
    using a announced_upd [OF a] by (auto simp: record_route_usage_def Let_def split: option.split)
qed

lemma announced_allowed: "announced taken e \<Longrightarrow> announced taken (snd (allowed now key e))"
  by (auto simp: allowed_def announced_revoke_once split: option.split)

lemma announced_expired_loop:
  assumes "announced taken e" and "distinct (keys entries)"
    and "\<forall>(k, p) \<in> set entries. map_of (policies e) k = Some p"
  shows "announced taken (snd (expired_loop now entries e))"
  using assms
proof (induction now entries e rule: expired_loop.induct)
  case (2 now key policy entries e)
  let ?e1 = "revoke_once key policy Expired e"
  have key: "map_of (policies e) key = Some policy" using 2(5) by simp
  have "\<forall>(k, p) \<in> set entries. map_of (policies ?e1) k = Some p"
    using 2(4,5) by (force simp: policies_revoke_once)
  then show ?case
    using 2 announced_revoke_once [OF 2(3) key] by (auto simp: case_prod_beta Let_def)
qed simp

text \<open>The task that receives events, beside the calls that make them.\<close>

fun policy_task :: "policy_op \<Rightarrow> revoke_event list \<times> enforcer \<Rightarrow> revoke_event list \<times> enforcer" where
  "policy_task op (taken, e) =
     (if op = TakeEvent then (taken @ take 1 (revoke_rx e), policy_run op e) else (taken, policy_run op e))"

fun op_configures :: "policy_op \<Rightarrow> bool" where
  "op_configures (Register k t l u) = True"
| "op_configures (Remove k) = True"
| "op_configures _ = False"

lemma announced_task:
  assumes "announced taken e" and "\<not> op_configures op"
  shows "case policy_task op (taken, e) of (taken', e') \<Rightarrow> announced taken' e'"
proof (cases op)
  case (Scan now)
  have "announced taken (snd (expired_keys now e))"
    unfolding expired_keys_def
    by (rule announced_expired_loop) (use assms in \<open>auto simp: announced_def\<close>)
  then show ?thesis using Scan by simp
next
  case TakeEvent
  then show ?thesis
    using assms(1) by (cases "revoke_rx e") (simp_all add: announced_def revoked_keys_def)
qed (use assms announced_use announced_allowed in auto)

lemma announced_tasks:
  "announced taken e \<Longrightarrow> list_all (\<lambda>op. \<not> op_configures op) ops \<Longrightarrow>
     case fold policy_task ops (taken, e) of (taken', e') \<Rightarrow> announced taken' e'"
proof (induction ops arbitrary: taken e)
  case (Cons op ops)
  obtain t e1 where *: "policy_task op (taken, e) = (t, e1)" by fastforce
  have "announced t e1" using announced_task [OF Cons.prems(1), of op] Cons.prems(2) * by simp
  then show ?case using Cons.IH Cons.prems(2) * by simp
qed simp

section \<open>Properties\<close>

text \<open>
  C8: limits are enforced exactly. A resource is registered with an expiry time, a limit and
  the bytes already used; then any calls follow, on any resources, that do not register it
  anew or remove it. A check lets it through exactly if the bytes used so far, as a true sum
  that never wraps around, are below the limit, and no check or scan so far, this one
  included, came at or after the expiry time.
\<close>

theorem policy_enforced_exactly:
  assumes "distinct (keys (policies e))" and "list_all (\<lambda>op. \<not> op_touches key op) ops"
  shows "fst (allowed now key (fold policy_run ops (register_policy key exp limit used e))) \<longleftrightarrow>
           \<not> over_limit limit (unat used + (\<Sum>op \<leftarrow> ops. op_usage key op)) \<and>
           \<not> list_ex (op_hits key exp) (ops @ [Check now key])"
proof -
  have "policy_at key exp limit (unat used + (\<Sum>op \<leftarrow> ops. op_usage key op)) (\<exists>op \<in> set ops. op_hits key exp op)
      (fold policy_run ops (register_policy key exp limit used e))"
    using policy_at_fold [OF policy_at_register [OF assms(1)]] assms(2) by (simp add: list_all_iff)
  from policy_at_check(2) [OF this] show ?thesis
    by (auto simp: list_ex_iff simp del: op_hits.simps)
qed

theorem policy_enforced_exactly_witness:
  "fst (allowed 50 (tunnel_key ''t'')
     (fold policy_run [UseRoute ''t'' 60 30, UseRoute ''socks5:t'' 500 500, Scan 10]
        (register_policy (tunnel_key ''t'') (Some 100) (Some 100) 5 PolicyEnforcer_channel))) \<and>
   \<not> fst (allowed 50 (tunnel_key ''t'')
     (fold policy_run [UseRoute ''t'' 60 30, UseRoute ''t'' 5 0, UseRoute ''t'' (- 1) (- 1)]
        (register_policy (tunnel_key ''t'') (Some 100) (Some 100) 5 PolicyEnforcer_channel)))"
proof -
  have e: "distinct (keys (policies PolicyEnforcer_channel))" by (simp add: PolicyEnforcer_channel_def)
  have k: "resource_key_from_route ''t'' = Some (tunnel_key ''t'')"
    "resource_key_from_route ''socks5:t'' \<noteq> Some (tunnel_key ''t'')"
    by (simp_all add: resource_key_from_route_def str_strip_prefix_def tunnel_key_def proxy_account_key_def)
  have m: "unat (- 1 :: u64) = 18446744073709551615" by (rule unat_minus_one_u64)
  show ?thesis
    using policy_enforced_exactly [OF e, of "tunnel_key ''t''" "[UseRoute ''t'' 60 30, UseRoute ''socks5:t'' 500 500, Scan 10]"
        50 "Some 100" "Some 100" 5]
      policy_enforced_exactly [OF e, of "tunnel_key ''t''" "[UseRoute ''t'' 60 30, UseRoute ''t'' 5 0, UseRoute ''t'' (- 1) (- 1)]"
        50 "Some 100" "Some 100" 5]
    by (simp add: k m over_limit_def)
qed



text \<open>
  With a full queue the event of a revocation is dropped, and because the resource then
  counts as revoked it is never announced again: the tunnel task is not stopped and the row
  stays enabled.
\<close>

lemma full_queue_drops_revocation:
  assumes "map_of (policies e) key = Some p" and "\<not> ps_revoked p"
    and "length (revoke_rx e) = REVOKE_QUEUE_CAPACITY"
  shows "revoke_rx (revoke_once key p reason e) = revoke_rx e \<and> key \<in> revoked_keys (revoke_once key p reason e)"
  using assms by (auto simp: revoke_once_def Let_def revoked_keys_def)

end
