(* ===== verification/Traffic.thy ===== *)
theory Traffic
  imports Db_Traffic
begin

text \<open>
  The traffic aggregator, \<^verbatim>\<open>crates/rps-controller/src/traffic.rs\<close>: samples go through a
  bounded queue, are summed per client and route, and the sums are written to the database by
  a flush, once a second or when 4096 routes are pending. The lemmas show that aggregating
  does not change the account: after a flush the database holds what it would hold if every
  sample had been written by itself.
\<close>

definition TRAFFIC_QUEUE_CAPACITY :: nat where "TRAFFIC_QUEUE_CAPACITY = 65536"

definition FLUSH_ROUTE_THRESHOLD :: nat where "FLUSH_ROUTE_THRESHOLD = 4096"

text \<open>\<^verbatim>\<open>record\<close> on the queue: nothing for an empty sample, and a full queue drops it.\<close>

definition record_traffic :: "string \<Rightarrow> string \<Rightarrow> u64 \<Rightarrow> u64 \<Rightarrow> traffic_event list \<Rightarrow> traffic_event list" where
  "record_traffic cid tid rx tx queue =
     (if rx = 0 \<and> tx = 0 then queue
      else if length queue < TRAFFIC_QUEUE_CAPACITY
      then queue @ [\<lparr>ev_client = cid, ev_route = tid, ev_rx = rx, ev_tx = tx\<rparr>]
      else queue)"

type_synonym pending = "((string \<times> string) \<times> (u64 \<times> u64)) list"

definition add_pending :: "traffic_event \<Rightarrow> pending \<Rightarrow> pending" where
  "add_pending e p =
     (let entry = (case map_of p (ev_client e, ev_route e) of None \<Rightarrow> (0, 0) | Some v \<Rightarrow> v)
      in AList.update (ev_client e, ev_route e) (sat_add (fst entry) (ev_rx e), sat_add (snd entry) (ev_tx e)) p)"

text \<open>
  \<^verbatim>\<open>flush\<close> writes one entry after the other and goes on after an error; \<open>q i\<close> are the
  statements of the \<open>i\<close>-th entry.
\<close>

fun flush_loop :: "(nat \<Rightarrow> stmts) \<Rightarrow> int \<Rightarrow> pending \<Rightarrow> database \<Rightarrow> database" where
  "flush_loop q now [] db = db"
| "flush_loop q now (((cid, tid), (rx, tx)) # batch) db =
     flush_loop (\<lambda>i. q (Suc i)) now batch (snd (add_traffic (q 0) now cid tid rx tx db))"

definition flush :: "(nat \<Rightarrow> stmts) \<Rightarrow> int \<Rightarrow> pending \<Rightarrow> database \<Rightarrow> pending \<times> database" where
  "flush q now p db = (if p = [] then (p, db) else ([], flush_loop q now p db))"

text \<open>One turn of the loop of \<^verbatim>\<open>run\<close>: a received sample, or a tick of the interval.\<close>

datatype agg_event = Sample traffic_event | Tick

fun agg_step :: "(nat \<Rightarrow> stmts) \<Rightarrow> int \<Rightarrow> agg_event \<Rightarrow> pending \<times> database \<Rightarrow> pending \<times> database" where
  "agg_step q now (Sample e) (p, db) =
     (let p1 = add_pending e p
      in if length p1 \<ge> FLUSH_ROUTE_THRESHOLD then flush q now p1 db else (p1, db))"
| "agg_step q now Tick (p, db) = flush q now p db"

definition agg_run :: "(nat \<Rightarrow> stmts) \<Rightarrow> int \<Rightarrow> agg_event list \<Rightarrow> pending \<times> database \<Rightarrow> pending \<times> database" where
  "agg_run q now evs s = fold (agg_step q now) evs s"

section \<open>Sums over pending entries\<close>

definition pending_events :: "pending \<Rightarrow> traffic_event list" where
  "pending_events p = map (\<lambda>((c, t), (rx, tx)). \<lparr>ev_client = c, ev_route = t, ev_rx = rx, ev_tx = tx\<rparr>) p"

abbreviation ok_stmts :: "nat \<Rightarrow> stmts" where "ok_stmts \<equiv> \<lambda>_ _. True"

lemma flush_loop_events: "flush_loop ok_stmts now p db = add_events now (pending_events p) db"
  by (induction ok_stmts now p db rule: flush_loop.induct)
     (simp_all add: add_events_def pending_events_def add_event_def)

lemma total_append [simp]: "total P f (xs @ ys) = total P f xs + total P f ys"
  by (simp add: total_def)

lemma total_Cons: "total P f (e # es) = (if P e then uint (f e) else 0) + total P f es"
  by (simp add: total_def)

text \<open>A condition that depends on the client and the route only.\<close>

definition by_route :: "(traffic_event \<Rightarrow> bool) \<Rightarrow> bool" where
  "by_route P \<longleftrightarrow> (\<forall>e e'. ev_client e = ev_client e' \<longrightarrow> ev_route e = ev_route e' \<longrightarrow> P e = P e')"

lemma by_routeD: "by_route P \<Longrightarrow> ev_client e = ev_client e' \<Longrightarrow> ev_route e = ev_route e' \<Longrightarrow> P e = P e'"
  unfolding by_route_def by blast

lemma by_route_conditions:
  "by_route (counts_for scope key)" "by_route (\<lambda>e. route_tunnel (ev_route e) tid)"
  "by_route (\<lambda>e. route_account (ev_route e) aid)" "by_route (\<lambda>e. True)"
  by (simp_all add: by_route_def counts_for_def)

lemma uint_sat_add: "uint a + uint b \<le> 18446744073709551615 \<Longrightarrow> uint (sat_add a b) = uint a + uint b"
proof -
  assume "uint a + uint b \<le> 18446744073709551615"
  then have "int (unat a) + int (unat b) \<le> 18446744073709551615" by (simp only: uint_nat)
  then have "unat a + unat b \<le> 18446744073709551615" by linarith
  then have "unat (sat_add a b) = unat a + unat b" by (simp add: unat_sat_add)
  then show ?thesis by (simp only: uint_nat of_nat_add)
qed

text \<open>
  \<open>f\<close> reads the received or the sent bytes of an event, \<open>g\<close> those of an entry.
\<close>

lemma total_add_pending:
  assumes "by_route P" and "distinct (keys p)"
    and "f = ev_rx \<or> f = ev_tx"
    and "total (\<lambda>_. True) f (pending_events p) + uint (f e) \<le> I64_MAX"
  shows "total P f (pending_events (add_pending e p)) = total P f (pending_events p) + (if P e then uint (f e) else 0)"
proof -
  let ?k = "(ev_client e, ev_route e)"
  have upd: "total P f (pending_events (AList.update ?k (sat_add (fst v) (ev_rx e), sat_add (snd v) (ev_tx e)) p))
     = total P f (pending_events p) + (if P e then uint (f e) else 0)"
    if "map_of p ?k = Some v" "total (\<lambda>_. True) f (pending_events p) + uint (f e) \<le> I64_MAX" for v
    using that
  proof (induction p)
    case (Cons x p)
    obtain c t rx tx where x: "x = ((c, t), (rx, tx))" by (metis surj_pair)
    show ?case
    proof (cases "(c, t) = ?k")
      case True
      let ?ev = "\<lambda>r s. \<lparr>ev_client = c, ev_route = t, ev_rx = r, ev_tx = s\<rparr>"
      have same: "P (?ev r s) = P e" for r s
        by (rule by_routeD [OF assms(1)]) (use True in simp_all)
      have v: "v = (rx, tx)" using Cons.prems(1) True x by simp
      have "uint (f (?ev rx tx)) + total (\<lambda>_. True) f (pending_events p) + uint (f e) \<le> I64_MAX"
        using Cons.prems(2) by (simp add: pending_events_def total_Cons x)
      then have le: "uint (f (?ev rx tx)) + uint (f e) \<le> 18446744073709551615"
        using total_nonneg [of "\<lambda>_. True" f "pending_events p"] by linarith
      have "uint (f (?ev (sat_add rx (ev_rx e)) (sat_add tx (ev_tx e)))) = uint (f (?ev rx tx)) + uint (f e)"
        using assms(3) le by (elim disjE) (simp_all add: uint_sat_add)
      moreover have "pending_events (AList.update ?k (sat_add (fst v) (ev_rx e), sat_add (snd v) (ev_tx e)) (x # p))
          = ?ev (sat_add rx (ev_rx e)) (sat_add tx (ev_tx e)) # pending_events p"
        "pending_events (x # p) = ?ev rx tx # pending_events p"
        using True by (simp_all add: x v pending_events_def)
      ultimately show ?thesis by (simp add: total_Cons same del: AList.update.simps)
    next
      case False
      have "total (\<lambda>_. True) f (pending_events p) + uint (f e) \<le> I64_MAX"
        using Cons.prems(2) by (simp add: pending_events_def total_Cons x) (smt (verit) uint_ge_0)
      then show ?thesis
        using Cons.IH Cons.prems(1) False by (auto simp: x pending_events_def total_Cons)
    qed
  qed simp
  show ?thesis
  proof (cases "map_of p ?k")
    case None
    have same: "P \<lparr>ev_client = ev_client e, ev_route = ev_route e, ev_rx = r, ev_tx = s\<rparr> = P e" for r s
      by (rule by_routeD [OF assms(1)]) simp_all
    show ?thesis
      using None assms(3) same by (auto simp: add_pending_def update_fresh pending_events_def total_Cons total_def)
  next
    case (Some v)
    then show ?thesis using upd [OF Some assms(4)] by (simp add: add_pending_def)
  qed
qed

section \<open>Aggregating keeps the account\<close>

fun samples :: "agg_event list \<Rightarrow> traffic_event list" where
  "samples [] = []"
| "samples (Sample e # evs) = e # samples evs"
| "samples (Tick # evs) = samples evs"

lemma total_le_all: "total P f es \<le> total (\<lambda>_. True) f es"
proof (induction es)
  case (Cons e es)
  then show ?case unfolding total_Cons by (cases "P e") (simp_all add: add_increasing)
qed (simp add: total_def)

lemma distinct_add_pending [simp]: "distinct (keys p) \<Longrightarrow> distinct (keys (add_pending e p))"
  by (simp add: add_pending_def Let_def distinct_keys_update)

text \<open>
  \<open>col\<close> is a column that grows by the events that satisfy \<open>P\<close>. What it holds and what is
  pending for it add up to what was received.
\<close>

locale traffic_column =
  fixes now :: int and P :: "traffic_event \<Rightarrow> bool" and f :: "traffic_event \<Rightarrow> u64"
    and col :: "database \<Rightarrow> sql_num option"
  assumes col_step: "col (add_event now e db) =
        map_option (\<lambda>v. if P e then sql_add v (u64_to_i64 (f e)) else v) (col db)"
    and P_route: "by_route P"
    and f_field: "f = ev_rx \<or> f = ev_tx"
begin

lemma col_flush:
  assumes "col db = Some (SqlInt x)" and "0 \<le> x" and "x + total P f (pending_events p) \<le> I64_MAX"
  shows "col (snd (flush ok_stmts now p db)) = Some (SqlInt (x + total P f (pending_events p)))"
proof (cases "p = []")
  case True
  then show ?thesis using assms(1) by (simp add: flush_def pending_events_def total_def)
next
  case False
  then show ?thesis
    using option_column_sum [OF col_step assms] by (simp add: flush_def flush_loop_events)
qed

lemma col_run:
  assumes "col db = Some (SqlInt x)" and "0 \<le> x" and "distinct (keys p)"
    and "x + total (\<lambda>_. True) f (pending_events p @ samples evs) \<le> I64_MAX"
  shows "\<exists>y. 0 \<le> y \<and> col (snd (agg_run ok_stmts now evs (p, db))) = Some (SqlInt y) \<and>
           y + total P f (pending_events (fst (agg_run ok_stmts now evs (p, db))))
             = x + total P f (pending_events p @ samples evs)"
  using assms
proof (induction evs arbitrary: p db x)
  case Nil
  then show ?case by (auto simp: agg_run_def)
next
  case (Cons ev evs)
  note all = total_nonneg [of "\<lambda>_. True" f] total_nonneg [of P f] total_le_all [of P f]
  have flushed: "\<exists>y. 0 \<le> y \<and> col (snd (agg_run ok_stmts now evs (flush ok_stmts now p1 db))) = Some (SqlInt y) \<and>
      y + total P f (pending_events (fst (agg_run ok_stmts now evs (flush ok_stmts now p1 db))))
        = x + total P f (pending_events p1) + total P f (samples evs)"
    if "x + total (\<lambda>_. True) f (pending_events p1) + total (\<lambda>_. True) f (samples evs) \<le> I64_MAX" for p1
  proof -
    obtain db1 where fl: "flush ok_stmts now p1 db = ([], db1)" by (cases "p1 = []") (simp_all add: flush_def)
    have "x + total P f (pending_events p1) \<le> I64_MAX"
      using that all(1) [of "samples evs"] all(3) [of "pending_events p1"] by linarith
    then have "col db1 = Some (SqlInt (x + total P f (pending_events p1)))"
      using col_flush [OF Cons.prems(1,2)] fl by (metis snd_conv)
    moreover have "0 \<le> x + total P f (pending_events p1)" using Cons.prems(2) all(2) by simp
    moreover have "x + total P f (pending_events p1) + total (\<lambda>_. True) f (pending_events [] @ samples evs) \<le> I64_MAX"
      using that all(3) [of "pending_events p1"] by (simp add: pending_events_def total_def)
    ultimately show ?thesis
      using Cons.IH [of db1 "x + total P f (pending_events p1)" "[]"] fl
      by (simp add: pending_events_def total_def)
  qed
  show ?case
  proof (cases ev)
    case Tick
    then show ?thesis
      using flushed [of p] Cons.prems(4) by (simp add: agg_run_def add.assoc)
  next
    case (Sample e)
    let ?p1 = "add_pending e p"
    have small: "total (\<lambda>_. True) f (pending_events p) + uint (f e) \<le> I64_MAX"
      using Cons.prems(2,4) all(1) [of "samples evs"] Sample by (simp add: total_Cons)
    have t1: "total P f (pending_events ?p1) = total P f (pending_events p) + (if P e then uint (f e) else 0)"
      by (rule total_add_pending [OF P_route Cons.prems(3) f_field small])
    have t2: "total (\<lambda>_. True) f (pending_events ?p1) = total (\<lambda>_. True) f (pending_events p) + uint (f e)"
      using total_add_pending [OF by_route_conditions(4) Cons.prems(3) f_field small] by simp
    have le: "x + total (\<lambda>_. True) f (pending_events ?p1) + total (\<lambda>_. True) f (samples evs) \<le> I64_MAX"
      using Cons.prems(4) Sample by (simp add: t2 total_Cons add.assoc)
    show ?thesis
    proof (cases "FLUSH_ROUTE_THRESHOLD \<le> length ?p1")
      case True
      then show ?thesis using flushed [OF le] Sample t1 by (simp add: agg_run_def total_Cons add.assoc)
    next
      case False
      have "distinct (keys ?p1)" using Cons.prems(3) by simp
      from Cons.IH [OF Cons.prems(1,2) this] le show ?thesis
        using False Sample t1 by (simp add: agg_run_def total_Cons add.assoc)
    qed
  qed
qed

lemma col_aggregated:
  assumes "col db = Some (SqlInt x)" and "0 \<le> x" and "x + total (\<lambda>_. True) f (samples evs) \<le> I64_MAX"
  shows "col (snd (agg_run ok_stmts now (evs @ [Tick]) ([], db))) = Some (SqlInt (x + total P f (samples evs)))"
proof -
  obtain p' db' where r: "agg_run ok_stmts now evs ([], db) = (p', db')" by fastforce
  obtain y where y: "0 \<le> y" "col db' = Some (SqlInt y)"
    "y + total P f (pending_events p') = x + total P f (samples evs)"
    using col_run [of db x "[]" evs] assms r by (auto simp: pending_events_def total_def)
  have "y + total P f (pending_events p') \<le> I64_MAX"
    using y(3) assms(3) total_le_all [of P f "samples evs"] by linarith
  then show ?thesis
    using col_flush [OF y(2,1)] y(3) r by (simp add: agg_run_def)
qed

end

interpretation counter_column: traffic_column now "counts_for scope key" ev_rx "\<lambda>db. Some (cnt_rx scope key db)"
  for now scope key
  by unfold_locales (simp_all add: add_event_effect by_route_conditions)

interpretation counter_tx_column: traffic_column now "counts_for scope key" ev_tx "\<lambda>db. Some (cnt_tx scope key db)"
  for now scope key
  by unfold_locales (simp_all add: add_event_effect by_route_conditions)

interpretation tunnel_column: traffic_column now "\<lambda>e. route_tunnel (ev_route e) tid" ev_rx "tun_rx tid"
  for now tid
  by unfold_locales (simp_all add: add_event_effect by_route_conditions)

interpretation account_column: traffic_column now "\<lambda>e. route_account (ev_route e) aid" ev_rx "acc_rx aid"
  for now aid
  by unfold_locales (simp_all add: add_event_effect by_route_conditions)

section \<open>Properties\<close>



end
