(* ===== verification/Registry.thy ===== *)
theory Registry
  imports Prelude
begin

text \<open>
  The interface the tunnel manager and the proxy manager share: sessions belong to a resource
  (a running tunnel, a proxy account) for as long as it is not revoked, and revoking a
  resource tells exactly its sessions to shut down. The lemmas are what the policy task and
  the web interface rely on when they revoke several resources one after the other.
\<close>

locale session_registry =
  fixes inv :: "'s \<Rightarrow> bool" and live :: "'s \<Rightarrow> 'g \<Rightarrow> bool" and owner :: "'s \<Rightarrow> 'g \<Rightarrow> 'k option"
    and told :: "'s \<Rightarrow> 'g \<Rightarrow> bool" and revoke :: "'k \<Rightarrow> 's \<Rightarrow> 's"
  assumes revoke_inv: "inv s \<Longrightarrow> inv (revoke k s)"
    and revoke_live: "live (revoke k s) g = live s g"
    and revoke_owner: "inv s \<Longrightarrow> live s g \<Longrightarrow> owner (revoke k s) g = (if owner s g = Some k then None else owner s g)"
    and revoke_told: "inv s \<Longrightarrow> live s g \<Longrightarrow> told (revoke k s) g \<longleftrightarrow> told s g \<or> owner s g = Some k"
begin

lemma revoke_all_inv: "inv s \<Longrightarrow> inv (fold revoke ks s)"
  by (induction ks arbitrary: s) (auto intro: revoke_inv)

lemma revoke_all_live: "live (fold revoke ks s) g = live s g"
  by (induction ks arbitrary: s) (auto simp: revoke_live)

lemma revoke_all_owner:
  "inv s \<Longrightarrow> live s g \<Longrightarrow>
     owner (fold revoke ks s) g = (if \<exists>k \<in> set ks. owner s g = Some k then None else owner s g)"
proof (induction ks arbitrary: s)
  case (Cons k ks)
  then show ?case
    using Cons.IH [of "revoke k s"] by (auto simp: revoke_inv revoke_owner revoke_live)
qed simp

lemma revoke_all_told:
  "inv s \<Longrightarrow> live s g \<Longrightarrow>
     told (fold revoke ks s) g \<longleftrightarrow> told s g \<or> (\<exists>k \<in> set ks. owner s g = Some k)"
proof (induction ks arbitrary: s)
  case (Cons k ks)
  then show ?case
    using Cons.IH [of "revoke k s"] by (auto simp: revoke_inv revoke_owner revoke_told revoke_live)
qed simp

lemma revoke_twice_told: "inv s \<Longrightarrow> live s g \<Longrightarrow> told (revoke k (revoke k s)) g = told (revoke k s) g"
  by (simp add: revoke_inv revoke_told revoke_owner revoke_live)

end

end
