(* ===== verification/Proxy_Manager.thy ===== *)
theory Proxy_Manager
  imports Registry
begin

text \<open>
  The proxy manager, \<^verbatim>\<open>crates/rps-controller/src/proxy_manager.rs\<close>: the sessions of
  authenticated proxy users by a fresh id, each with its account and the sender of a watch
  channel. A watch channel is an index into the store \<open>pm_watches\<close>, because the sender in
  the map and the receiver in the guard share it. The guards that exist are part of the
  state, so that dropping one is a step.
\<close>

record proxy_guard =
  pg_id :: "string option"
  pg_shutdown :: nat

record proxy_manager =
  pm_sessions :: "(string \<times> (string \<times> nat)) list"
  pm_watches :: "bool list"
  pm_guards :: "proxy_guard list"

definition ProxyManager_new :: proxy_manager where
  "ProxyManager_new = \<lparr>pm_sessions = [], pm_watches = [], pm_guards = []\<rparr>"

definition register_proxy :: "string \<Rightarrow> string option \<Rightarrow> proxy_manager \<Rightarrow> proxy_guard \<times> proxy_manager" where
  "register_proxy uuid account_id m =
     (let w = length (pm_watches m);
          m1 = m\<lparr>pm_watches := pm_watches m @ [False]\<rparr>;
          g = \<lparr>pg_id = map_option (\<lambda>_. uuid) account_id, pg_shutdown = w\<rparr>;
          m2 = (case account_id of
                  None \<Rightarrow> m1
                | Some a \<Rightarrow> m1\<lparr>pm_sessions := AList.update uuid (a, w) (pm_sessions m1)\<rparr>)
      in (g, m2\<lparr>pm_guards := pm_guards m2 @ [g]\<rparr>))"

text \<open>\<^verbatim>\<open>revoke_account\<close>: the ids are collected first, then removed and told one by one.\<close>

fun revoke_sessions :: "string list \<Rightarrow> proxy_manager \<Rightarrow> proxy_manager" where
  "revoke_sessions [] m = m"
| "revoke_sessions (i # ids) m =
     revoke_sessions ids
       (case map_of (pm_sessions m) i of
          None \<Rightarrow> m
        | Some (a, w) \<Rightarrow> m\<lparr>pm_sessions := AList.delete i (pm_sessions m),
                           pm_watches := (pm_watches m)[w := True]\<rparr>)"

definition account_sessions :: "string \<Rightarrow> proxy_manager \<Rightarrow> string list" where
  "account_sessions account_id m = map fst (filter (\<lambda>(i, a, w). a = account_id) (pm_sessions m))"

definition revoke_account :: "string \<Rightarrow> proxy_manager \<Rightarrow> nat \<times> proxy_manager" where
  "revoke_account account_id m =
     (let ids = account_sessions account_id m in (length ids, revoke_sessions ids m))"

definition proxy_active_count :: "string \<Rightarrow> proxy_manager \<Rightarrow> nat" where
  "proxy_active_count account_id m = length (filter (\<lambda>(i, a, w). a = account_id) (pm_sessions m))"

definition drop_proxy_guard :: "proxy_guard \<Rightarrow> proxy_manager \<Rightarrow> proxy_manager" where
  "drop_proxy_guard g m =
     (let m1 = (case pg_id g of None \<Rightarrow> m | Some i \<Rightarrow> m\<lparr>pm_sessions := AList.delete i (pm_sessions m)\<rparr>)
      in m1\<lparr>pm_guards := remove1 g (pm_guards m1)\<rparr>)"

section \<open>The invariant\<close>

text \<open>
  Ids and watch channels of the guards are distinct, and every entry of the map belongs to a
  guard and has not been told to shut down.
\<close>

definition fresh_id :: "string \<Rightarrow> proxy_manager \<Rightarrow> bool" where
  "fresh_id i m \<longleftrightarrow> (\<forall>g \<in> set (pm_guards m). pg_id g \<noteq> Some i)"

definition pm_inv :: "proxy_manager \<Rightarrow> bool" where
  "pm_inv m \<longleftrightarrow>
     distinct (keys (pm_sessions m)) \<and> distinct (map pg_shutdown (pm_guards m)) \<and>
     (\<forall>g \<in> set (pm_guards m). \<forall>h \<in> set (pm_guards m). pg_id g \<noteq> None \<longrightarrow> pg_id g = pg_id h \<longrightarrow> g = h) \<and>
     (\<forall>g \<in> set (pm_guards m). pg_shutdown g < length (pm_watches m)) \<and>
     (\<forall>i a w. map_of (pm_sessions m) i = Some (a, w) \<longrightarrow>
        \<lparr>pg_id = Some i, pg_shutdown = w\<rparr> \<in> set (pm_guards m) \<and> \<not> pm_watches m ! w)"

definition pm_live :: "proxy_manager \<Rightarrow> proxy_guard \<Rightarrow> bool" where
  "pm_live m g \<longleftrightarrow> g \<in> set (pm_guards m)"

definition pm_owner :: "proxy_manager \<Rightarrow> proxy_guard \<Rightarrow> string option" where
  "pm_owner m g =
     (case pg_id g of None \<Rightarrow> None | Some i \<Rightarrow> map_option fst (map_of (pm_sessions m) i))"

definition pm_told :: "proxy_manager \<Rightarrow> proxy_guard \<Rightarrow> bool" where
  "pm_told m g = pm_watches m ! pg_shutdown g"

lemma pm_invD:
  assumes "pm_inv m" and "map_of (pm_sessions m) i = Some (a, w)"
  shows "\<lparr>pg_id = Some i, pg_shutdown = w\<rparr> \<in> set (pm_guards m)" "\<not> pm_watches m ! w" "w < length (pm_watches m)"
proof -
  show g: "\<lparr>pg_id = Some i, pg_shutdown = w\<rparr> \<in> set (pm_guards m)" and "\<not> pm_watches m ! w"
    using assms unfolding pm_inv_def by auto
  have "\<forall>g \<in> set (pm_guards m). pg_shutdown g < length (pm_watches m)"
    using assms(1) by (simp add: pm_inv_def)
  from bspec [OF this g] show "w < length (pm_watches m)" by simp
qed

lemma pm_invI:
  assumes "distinct (keys (pm_sessions m))" and "distinct (map pg_shutdown (pm_guards m))"
    and "\<And>g h i. g \<in> set (pm_guards m) \<Longrightarrow> h \<in> set (pm_guards m) \<Longrightarrow> pg_id g = Some i \<Longrightarrow> pg_id h = Some i \<Longrightarrow> g = h"
    and "\<And>g. g \<in> set (pm_guards m) \<Longrightarrow> pg_shutdown g < length (pm_watches m)"
    and "\<And>i a w. map_of (pm_sessions m) i = Some (a, w) \<Longrightarrow>
           \<lparr>pg_id = Some i, pg_shutdown = w\<rparr> \<in> set (pm_guards m) \<and> \<not> pm_watches m ! w"
  shows "pm_inv m"
  using assms unfolding pm_inv_def by (metis option.exhaust)

lemma pm_guard_same_id:
  assumes "pm_inv m" and "g \<in> set (pm_guards m)" and "h \<in> set (pm_guards m)" and "pg_id g = Some i" and "pg_id h = Some i"
  shows "g = h"
  using assms unfolding pm_inv_def by (metis option.distinct(1))

lemma pm_guard_same:
  assumes "pm_inv m" and "g \<in> set (pm_guards m)" and "h \<in> set (pm_guards m)" and "pg_shutdown g = pg_shutdown h"
  shows "g = h"
  using assms unfolding pm_inv_def distinct_map by (auto dest: inj_onD)

text \<open>One session of the loop.\<close>

lemma revoke_one:
  assumes "pm_inv m" and "map_of (pm_sessions m) i = Some (a, w)"
  defines "m1 \<equiv> m\<lparr>pm_sessions := AList.delete i (pm_sessions m), pm_watches := (pm_watches m)[w := True]\<rparr>"
  shows "pm_inv m1" and "g \<in> set (pm_guards m) \<Longrightarrow> pm_told m1 g \<longleftrightarrow> pm_told m g \<or> pg_id g = Some i"
proof -
  note D = pm_invD [OF assms(1,2)]
  have other: "w' \<noteq> w" if "map_of (pm_sessions m) j = Some (b, w')" "j \<noteq> i" for j b w'
    using pm_guard_same [OF assms(1) pm_invD(1) [OF assms(1) that(1)] D(1)] that(2) by auto
  have "\<not> (pm_watches m)[w := True] ! w'" if "map_of (pm_sessions m) j = Some (b, w')" "j \<noteq> i" for j b w'
    using other [OF that] pm_invD(2) [OF assms(1) that(1)] by simp
  then show "pm_inv m1"
    using assms(1) unfolding pm_inv_def m1_def by (auto simp: distinct_keys_delete)
  show "pm_told m1 g \<longleftrightarrow> pm_told m g \<or> pg_id g = Some i" if g: "g \<in> set (pm_guards m)"
  proof (cases "pg_shutdown g = w")
    case True
    then have "g = \<lparr>pg_id = Some i, pg_shutdown = w\<rparr>" using pm_guard_same [OF assms(1) g D(1)] by simp
    then show ?thesis using D(3) by (simp add: pm_told_def m1_def)
  next
    case False
    have "pg_id g \<noteq> Some i"
      using pm_guard_same_id [OF assms(1) g D(1)] False by auto
    then show ?thesis using False by (simp add: pm_told_def m1_def)
  qed
qed

lemma revoke_sessions_spec:
  assumes "pm_inv m" and "distinct ids" and "\<forall>i \<in> set ids. map_of (pm_sessions m) i \<noteq> None"
  shows "pm_inv (revoke_sessions ids m) \<and> pm_guards (revoke_sessions ids m) = pm_guards m \<and>
    (\<forall>j. map_of (pm_sessions (revoke_sessions ids m)) j = (if j \<in> set ids then None else map_of (pm_sessions m) j)) \<and>
    (\<forall>g \<in> set (pm_guards m).
       pm_told (revoke_sessions ids m) g \<longleftrightarrow> pm_told m g \<or> (\<exists>i \<in> set ids. pg_id g = Some i))"
  using assms
proof (induction ids arbitrary: m)
  case (Cons i ids)
  obtain a w where i: "map_of (pm_sessions m) i = Some (a, w)" using Cons.prems(3) by force
  let ?m = "m\<lparr>pm_sessions := AList.delete i (pm_sessions m), pm_watches := (pm_watches m)[w := True]\<rparr>"
  note one = revoke_one [OF Cons.prems(1) i]
  have "distinct ids" "\<forall>j \<in> set ids. map_of (pm_sessions ?m) j \<noteq> None" using Cons.prems(2,3) by auto
  from Cons.IH [OF one(1) this] show ?case
    using one(2) i Cons.prems(2) by auto
qed simp

lemma account_sessions_iff:
  assumes "distinct (keys (pm_sessions m))"
  shows "i \<in> set (account_sessions a m) \<longleftrightarrow> (\<exists>w. map_of (pm_sessions m) i = Some (a, w))"
  using assms by (force simp: account_sessions_def map_of_eq_Some_iff)

lemma revoke_account_spec:
  assumes "pm_inv m"
  shows "pm_inv (snd (revoke_account a m))" "pm_guards (snd (revoke_account a m)) = pm_guards m"
    "map_of (pm_sessions (snd (revoke_account a m))) j =
       (case map_of (pm_sessions m) j of None \<Rightarrow> None | Some (b, w) \<Rightarrow> if b = a then None else Some (b, w))"
    "g \<in> set (pm_guards m) \<Longrightarrow> pm_told (snd (revoke_account a m)) g \<longleftrightarrow> pm_told m g \<or> pm_owner m g = Some a"
proof -
  have d: "distinct (keys (pm_sessions m))" using assms by (simp add: pm_inv_def)
  let ?ids = "account_sessions a m"
  have ids: "distinct ?ids" "\<forall>i \<in> set ?ids. map_of (pm_sessions m) i \<noteq> None"
    using d account_sessions_iff [OF d] by (auto simp: account_sessions_def distinct_map_filter)
  have spec: "pm_inv (revoke_sessions ?ids m) \<and> pm_guards (revoke_sessions ?ids m) = pm_guards m \<and>
    (\<forall>j. map_of (pm_sessions (revoke_sessions ?ids m)) j = (if j \<in> set ?ids then None else map_of (pm_sessions m) j)) \<and>
    (\<forall>g \<in> set (pm_guards m).
       pm_told (revoke_sessions ?ids m) g \<longleftrightarrow> pm_told m g \<or> (\<exists>i \<in> set ?ids. pg_id g = Some i))"
    using assms ids by (rule revoke_sessions_spec)
  have r: "snd (revoke_account a m) = revoke_sessions ?ids m" by (simp add: revoke_account_def Let_def)
  show "pm_inv (snd (revoke_account a m))" "pm_guards (snd (revoke_account a m)) = pm_guards m"
    using spec by (simp_all add: r)
  show "map_of (pm_sessions (snd (revoke_account a m))) j =
       (case map_of (pm_sessions m) j of None \<Rightarrow> None | Some (b, w) \<Rightarrow> if b = a then None else Some (b, w))"
    using spec account_sessions_iff [OF d] by (auto simp: r split: option.split)
  show "pm_told (snd (revoke_account a m)) g \<longleftrightarrow> pm_told m g \<or> pm_owner m g = Some a" if "g \<in> set (pm_guards m)"
    using spec that account_sessions_iff [OF d] by (auto simp: r pm_owner_def split: option.split)
qed

interpretation proxy_registry: session_registry pm_inv pm_live pm_owner pm_told "\<lambda>a m. snd (revoke_account a m)"
proof
  fix m :: proxy_manager and a g
  show "pm_live (snd (revoke_account a m)) g = pm_live m g"
  proof -
    have "pm_guards (revoke_sessions ids m) = pm_guards m" for ids
      by (induction ids m rule: revoke_sessions.induct) (auto split: option.split prod.split)
    then show ?thesis by (simp add: pm_live_def revoke_account_def Let_def)
  qed
  assume inv: "pm_inv m"
  show "pm_inv (snd (revoke_account a m))" using inv by (rule revoke_account_spec)
  assume g: "pm_live m g"
  show "pm_owner (snd (revoke_account a m)) g = (if pm_owner m g = Some a then None else pm_owner m g)"
    using revoke_account_spec(3) [OF inv] by (auto simp: pm_owner_def split: option.split)
  show "pm_told (snd (revoke_account a m)) g \<longleftrightarrow> pm_told m g \<or> pm_owner m g = Some a"
    using revoke_account_spec(4) [OF inv] g by (simp add: pm_live_def)
qed

section \<open>Steps\<close>

text \<open>
  The calls that change the manager. A session id is a fresh UUID: no guard that exists has
  it.
\<close>

inductive pm_step :: "proxy_manager \<Rightarrow> proxy_manager \<Rightarrow> bool" where
  ps_register: "fresh_id uuid m \<Longrightarrow> pm_step m (snd (register_proxy uuid acc m))"
| ps_revoke: "pm_step m (snd (revoke_account a m))"
| ps_drop: "g \<in> set (pm_guards m) \<Longrightarrow> pm_step m (drop_proxy_guard g m)"

lemma inv_register_proxy:
  assumes "pm_inv m" and "fresh_id uuid m"
  shows "pm_inv (snd (register_proxy uuid acc m))"
proof -
  have w: "\<forall>g \<in> set (pm_guards m). pg_shutdown g < length (pm_watches m)" using assms(1) by (simp add: pm_inv_def)
  then have fresh: "length (pm_watches m) \<notin> pg_shutdown ` set (pm_guards m)" by auto
  have old: "\<lparr>pg_id = Some i, pg_shutdown = v\<rparr> \<in> set (pm_guards m) \<and> \<not> (pm_watches m @ [False]) ! v"
    if "map_of (pm_sessions m) i = Some (a, v)" for i a v
    using pm_invD [OF assms(1) that] by (simp add: nth_append)
  show ?thesis
  proof (cases acc)
    case None
    then show ?thesis
      using assms(1) w fresh old unfolding pm_inv_def by (auto simp: register_proxy_def Let_def less_SucI)
  next
    case (Some a)
    have ids: "\<forall>g \<in> set (pm_guards m). pg_id g \<noteq> Some uuid" using assms(2) by (simp add: fresh_id_def)
    show ?thesis
      using assms(1) w fresh ids old Some unfolding pm_inv_def
      by (auto simp: register_proxy_def Let_def less_SucI distinct_keys_update split: if_splits)
  qed
qed

lemma inv_drop_proxy_guard:
  assumes "pm_inv m" and "g \<in> set (pm_guards m)"
  shows "pm_inv (drop_proxy_guard g m)"
proof -
  have sub: "set (remove1 g (pm_guards m)) \<subseteq> set (pm_guards m)" by (rule set_remove1_subset)
  have d: "distinct (map pg_shutdown (remove1 g (pm_guards m)))"
    using assms(1) by (auto simp: pm_inv_def distinct_map intro: inj_on_diff)
  have keep: "\<lparr>pg_id = Some i, pg_shutdown = w\<rparr> \<in> set (remove1 g (pm_guards m))"
    if "map_of (pm_sessions m) i = Some (a, w)" "pg_id g \<noteq> Some i" for i a w
  proof -
    have "\<lparr>pg_id = Some i, pg_shutdown = w\<rparr> \<noteq> g" using that(2) by auto
    then show ?thesis using pm_invD(1) [OF assms(1) that(1)] by (simp add: in_set_remove1)
  qed
  let ?m = "drop_proxy_guard g m"
  have m: "pm_guards ?m = remove1 g (pm_guards m)" "pm_watches ?m = pm_watches m"
    "map_of (pm_sessions ?m) i = (if pg_id g = Some i then None else map_of (pm_sessions m) i)" for i
    by (simp_all add: drop_proxy_guard_def Let_def split: option.split)
  show ?thesis
  proof (rule pm_invI)
    show "distinct (keys (pm_sessions ?m))"
      using assms(1) by (simp add: drop_proxy_guard_def Let_def pm_inv_def distinct_keys_delete split: option.split)
    show "distinct (map pg_shutdown (pm_guards ?m))" using d by (simp add: m)
    show "x = y" if "x \<in> set (pm_guards ?m)" "y \<in> set (pm_guards ?m)" "pg_id x = Some i" "pg_id y = Some i" for x y i
      using pm_guard_same_id [OF assms(1), of x y i] that sub by (auto simp: m)
    show "pg_shutdown x < length (pm_watches ?m)" if "x \<in> set (pm_guards ?m)" for x
      using assms(1) that sub by (auto simp: m pm_inv_def)
    show "\<lparr>pg_id = Some i, pg_shutdown = w\<rparr> \<in> set (pm_guards ?m) \<and> \<not> pm_watches ?m ! w"
      if "map_of (pm_sessions ?m) i = Some (a, w)" for i a w
      using keep that pm_invD(2) [OF assms(1)] by (auto simp: m split: if_splits)
  qed
qed

interpretation pm_sys: invariant_system "\<lambda>m. m = ProxyManager_new" pm_step pm_inv
proof
  show "pm_inv m" if "m = ProxyManager_new" for m
    using that by (simp add: pm_inv_def ProxyManager_new_def)
  show "pm_inv m'" if "pm_inv m" "pm_step m m'" for m m'
    using that(2,1) by cases (auto intro: inv_register_proxy inv_drop_proxy_guard revoke_account_spec(1))
qed

section \<open>Properties\<close>

text \<open>
  C34: revoking a proxy account ends exactly its sessions. In any state the manager can reach,
  \<^verbatim>\<open>revoke_account\<close> returns the number of the account's sessions and tells precisely
  those to shut down; afterwards the account has none, the sessions of every other account
  are as before, and revoking it again finds nothing.
\<close>

theorem revoke_account_exact:
  assumes "reachable (\<lambda>m. m = ProxyManager_new) pm_step m" and "g \<in> set (pm_guards m)"
  shows "fst (revoke_account a m) = proxy_active_count a m \<and>
         (pm_told (snd (revoke_account a m)) g \<longleftrightarrow> pm_told m g \<or> pm_owner m g = Some a) \<and>
         proxy_active_count a (snd (revoke_account a m)) = 0 \<and>
         (if b = a then True else pm_owner (snd (revoke_account a m)) g = Some b \<longleftrightarrow> pm_owner m g = Some b) \<and>
         fst (revoke_account a (snd (revoke_account a m))) = 0"
proof -
  have inv: "pm_inv m" using assms(1) by (rule pm_sys.reachable_inv)
  let ?m = "snd (revoke_account a m)"
  have "distinct (keys (pm_sessions ?m))" using revoke_account_spec(1) [OF inv] by (simp add: pm_inv_def)
  then have "i \<notin> set (account_sessions a ?m)" for i
    using account_sessions_iff [of ?m i a] revoke_account_spec(3) [OF inv, of a i]
    by (auto split: option.splits if_splits)
  then have none: "account_sessions a ?m = []" by (metis list.set_intros(1) neq_Nil_conv)
  have count: "length (account_sessions a x) = proxy_active_count a x" for x
    by (simp add: account_sessions_def proxy_active_count_def)
  have "pm_live m g" using assms(2) by (simp add: pm_live_def)
  then show ?thesis
    using proxy_registry.revoke_told [OF inv, of g a] proxy_registry.revoke_owner [OF inv, of g a] none count [of ?m] count [of m]
    by (auto simp: revoke_account_def [of a ?m] Let_def) (auto simp: revoke_account_def Let_def)
qed

theorem revoke_account_exact_witness:
  "let m = snd (register_proxy ''s2'' (Some ''b'') (snd (register_proxy ''s1'' (Some ''a'') ProxyManager_new)))
   in fst (revoke_account ''a'' m) = 1 \<and>
      pm_told (snd (revoke_account ''a'' m)) \<lparr>pg_id = Some ''s1'', pg_shutdown = 0\<rparr>"
proof -
  let ?m1 = "snd (register_proxy ''s1'' (Some ''a'') ProxyManager_new)"
  let ?m = "snd (register_proxy ''s2'' (Some ''b'') ?m1)"
  let ?g = "\<lparr>pg_id = Some ''s1'', pg_shutdown = 0\<rparr>"
  have g: "?g \<in> set (pm_guards ?m)" "fresh_id ''s1'' ProxyManager_new" "fresh_id ''s2'' ?m1"
    by (simp_all add: register_proxy_def ProxyManager_new_def fresh_id_def Let_def)
  have "reachable (\<lambda>m. m = ProxyManager_new) pm_step ?m1"
    by (rule reach_step [where s = ProxyManager_new]) (auto intro: reach_init ps_register g)
  then have "reachable (\<lambda>m. m = ProxyManager_new) pm_step ?m"
    using ps_register [OF g(3)] by (rule reach_step)
  from revoke_account_exact [OF this g(1), of "''a''" "''b''"] show ?thesis
    by (simp add: Let_def proxy_active_count_def pm_owner_def register_proxy_def ProxyManager_new_def)
qed

end
