(* ===== verification/Tunnel_Manager.thy ===== *)
theory Tunnel_Manager
  imports Policy Registry
begin

text \<open>
  The tunnel manager, \<^verbatim>\<open>crates/rps-controller/src/tunnel_manager.rs\<close>: the running
  tunnels by id. A runtime outlives its entry in the map as long as a connection holds a
  guard, because guards share its session map and its connection counter; runtimes and the
  watch channels of sessions are therefore kept in stores and referred to by index. The
  counter is an \<^verbatim>\<open>AtomicUsize\<close> of 64 bits. Binding a listener is the argument
  \<open>bind\<close>; the accept loop that a runtime runs is modelled with the proxies.
\<close>

record runtime =
  rt_shutdown :: bool
  rt_listen :: string
  rt_sessions :: "(string \<times> nat) list"
  rt_active_connections :: u64

record tunnel_guard =
  tg_id :: string
  tg_runtime :: nat
  tg_shutdown :: nat

record tunnel_manager =
  running :: "(string \<times> nat) list"
  runtimes :: "runtime list"
  tm_watches :: "bool list"
  tm_guards :: "tunnel_guard list"
  tm_udp_guards :: "nat list"

definition TunnelManager_new :: tunnel_manager where
  "TunnelManager_new = \<lparr>running = [], runtimes = [], tm_watches = [], tm_guards = [], tm_udp_guards = []\<rparr>"

definition tunnel_config_from_db :: "'a db_tunnel_scheme \<Rightarrow> tunnel_config" where
  "tunnel_config_from_db t =
     \<lparr>tc_id = tn_id t, tc_client_id = tn_client_id t, tc_mode = tn_mode t, tc_listen = tn_listen t,
      tc_target = tn_target t, tc_enabled = tn_enabled t\<rparr>"

definition add_runtime :: "tunnel_config \<Rightarrow> tunnel_manager \<Rightarrow> tunnel_manager" where
  "add_runtime t m =
     m\<lparr>running := AList.update (tc_id t) (length (runtimes m)) (running m),
       runtimes := runtimes m @ [\<lparr>rt_shutdown = False, rt_listen = tc_listen t, rt_sessions = [],
                                  rt_active_connections = 0\<rparr>]\<rparr>"

definition start_tunnel ::
  "(tunnel_mode \<Rightarrow> string \<Rightarrow> bool) \<Rightarrow> int \<Rightarrow> tunnel_config \<Rightarrow> enforcer \<Rightarrow> tunnel_manager
     \<Rightarrow> (error + unit) \<times> enforcer \<times> tunnel_manager" where
  "start_tunnel bind now t e m =
     (if map_of (running m) (tc_id t) \<noteq> None
      then (Inl (Bail (''tunnel '' @ tc_id t @ '' is already running'')), e, m)
      else
        let (ok, e1) = allowed now (tunnel_key (tc_id t)) e
        in if \<not> ok then (Inl (Bail (''tunnel '' @ tc_id t @ '' is disabled by policy'')), e1, m)
           else if \<not> bind (tc_mode t) (tc_listen t)
           then (Inl (Bail (''failed to bind '' @ tunnel_mode_to_str (tc_mode t) @ '' tunnel '' @ tc_listen t)), e1, m)
           else (Inr (), e1, add_runtime t m))"

fun start_all ::
  "(tunnel_mode \<Rightarrow> string \<Rightarrow> bool) \<Rightarrow> int \<Rightarrow> db_tunnel list \<Rightarrow> enforcer \<Rightarrow> tunnel_manager
     \<Rightarrow> enforcer \<times> tunnel_manager" where
  "start_all bind now [] e m = (e, m)"
| "start_all bind now (t # ts) e m =
     (let (r, e1, m1) = start_tunnel bind now (tunnel_config_from_db t) e m
      in start_all bind now ts e1 m1)"

definition start_enabled_from_db ::
  "(tunnel_mode \<Rightarrow> string \<Rightarrow> bool) \<Rightarrow> stmts \<Rightarrow> int \<Rightarrow> database \<Rightarrow> enforcer \<Rightarrow> tunnel_manager
     \<Rightarrow> (error + unit) \<times> enforcer \<times> tunnel_manager" where
  "start_enabled_from_db bind q now db e m =
     (case list_tunnels q db of
        Inl err \<Rightarrow> (Inl err, e, m)
      | Inr ts \<Rightarrow> (Inr (), start_all bind now (filter tn_enabled ts) e m))"

definition tell :: "nat list \<Rightarrow> bool list \<Rightarrow> bool list" where
  "tell ws flags = fold (\<lambda>w fl. fl[w := True]) ws flags"

definition stop_tunnel :: "string \<Rightarrow> tunnel_manager \<Rightarrow> (error + bool) \<times> tunnel_manager" where
  "stop_tunnel tid m =
     (case map_of (running m) tid of
        None \<Rightarrow> (Inr False, m)
      | Some r \<Rightarrow>
          (Inr True, m\<lparr>running := AList.delete tid (running m),
             runtimes := (runtimes m)[r := (runtimes m ! r)\<lparr>rt_shutdown := True\<rparr>],
             tm_watches := tell (map snd (rt_sessions (runtimes m ! r))) (tm_watches m)\<rparr>))"

definition register_session :: "string \<Rightarrow> string \<Rightarrow> tunnel_manager \<Rightarrow> tunnel_guard option \<times> tunnel_manager" where
  "register_session uuid tid m =
     (case map_of (running m) tid of
        None \<Rightarrow> (None, m)
      | Some r \<Rightarrow>
          let w = length (tm_watches m);
              g = \<lparr>tg_id = uuid, tg_runtime = r, tg_shutdown = w\<rparr>;
              rt = runtimes m ! r
          in (Some g, m\<lparr>tm_watches := tm_watches m @ [False],
                runtimes := (runtimes m)[r := rt\<lparr>rt_sessions := AList.update uuid w (rt_sessions rt),
                                                 rt_active_connections := rt_active_connections rt + 1\<rparr>],
                tm_guards := tm_guards m @ [g]\<rparr>))"

definition register_udp_session :: "string \<Rightarrow> tunnel_manager \<Rightarrow> nat option \<times> tunnel_manager" where
  "register_udp_session tid m =
     (case map_of (running m) tid of
        None \<Rightarrow> (None, m)
      | Some r \<Rightarrow>
          let rt = runtimes m ! r
          in (Some r, m\<lparr>runtimes := (runtimes m)[r := rt\<lparr>rt_active_connections := rt_active_connections rt + 1\<rparr>],
                tm_udp_guards := tm_udp_guards m @ [r]\<rparr>))"

definition active_count :: "string \<Rightarrow> tunnel_manager \<Rightarrow> u64" where
  "active_count tid m =
     (case map_of (running m) tid of None \<Rightarrow> 0 | Some r \<Rightarrow> rt_active_connections (runtimes m ! r))"

text \<open>Dropping a session guard removes the session, then its connection guard counts down.\<close>

definition drop_tunnel_guard :: "tunnel_guard \<Rightarrow> tunnel_manager \<Rightarrow> tunnel_manager" where
  "drop_tunnel_guard g m =
     (let r = tg_runtime g; rt = runtimes m ! r
      in m\<lparr>runtimes := (runtimes m)[r := rt\<lparr>rt_sessions := AList.delete (tg_id g) (rt_sessions rt),
                                           rt_active_connections := rt_active_connections rt - 1\<rparr>],
           tm_guards := remove1 g (tm_guards m)\<rparr>)"

definition drop_udp_guard :: "nat \<Rightarrow> tunnel_manager \<Rightarrow> tunnel_manager" where
  "drop_udp_guard r m =
     (let rt = runtimes m ! r
      in m\<lparr>runtimes := (runtimes m)[r := rt\<lparr>rt_active_connections := rt_active_connections rt - 1\<rparr>],
           tm_udp_guards := remove1 r (tm_udp_guards m)\<rparr>)"

section \<open>The invariant\<close>

definition conns :: "nat \<Rightarrow> tunnel_manager \<Rightarrow> nat" where
  "conns r m = length (filter (\<lambda>g. tg_runtime g = r) (tm_guards m)) + length (filter (\<lambda>x. x = r) (tm_udp_guards m))"

text \<open>
  Running tunnels have different runtimes; guards have different ids and watch channels; a
  runtime's session map holds exactly its guards, its counter is the number of its
  connections; and a session is told to shut down exactly when its runtime no longer runs.
\<close>

abbreviation live_rts :: "tunnel_manager \<Rightarrow> nat set" where
  "live_rts m \<equiv> set (map snd (running m))"

definition running_ok :: "tunnel_manager \<Rightarrow> bool" where
  "running_ok m \<longleftrightarrow> distinct (keys (running m)) \<and> distinct (map snd (running m)) \<and>
     (\<forall>r \<in> live_rts m. r < length (runtimes m))"

definition guard_ok :: "tunnel_manager \<Rightarrow> tunnel_guard \<Rightarrow> bool" where
  "guard_ok m g \<longleftrightarrow> tg_runtime g < length (runtimes m) \<and> tg_shutdown g < length (tm_watches m) \<and>
     (tm_watches m ! tg_shutdown g \<longleftrightarrow> tg_runtime g \<notin> live_rts m)"

definition runtime_ok :: "tunnel_manager \<Rightarrow> nat \<Rightarrow> bool" where
  "runtime_ok m r \<longleftrightarrow> distinct (keys (rt_sessions (runtimes m ! r))) \<and>
     (\<forall>i w. map_of (rt_sessions (runtimes m ! r)) i = Some w \<longleftrightarrow>
        \<lparr>tg_id = i, tg_runtime = r, tg_shutdown = w\<rparr> \<in> set (tm_guards m)) \<and>
     rt_active_connections (runtimes m ! r) = of_nat (conns r m) \<and>
     (rt_shutdown (runtimes m ! r) \<longleftrightarrow> r \<notin> live_rts m)"

definition tm_inv :: "tunnel_manager \<Rightarrow> bool" where
  "tm_inv m \<longleftrightarrow> running_ok m \<and>
     distinct (map tg_shutdown (tm_guards m)) \<and> distinct (map tg_id (tm_guards m)) \<and>
     (\<forall>g \<in> set (tm_guards m). guard_ok m g) \<and> (\<forall>r < length (runtimes m). runtime_ok m r) \<and>
     (\<forall>r \<in> set (tm_udp_guards m). r < length (runtimes m))"

definition tm_live :: "tunnel_manager \<Rightarrow> tunnel_guard \<Rightarrow> bool" where
  "tm_live m g \<longleftrightarrow> g \<in> set (tm_guards m)"

definition tm_owner :: "tunnel_manager \<Rightarrow> tunnel_guard \<Rightarrow> string option" where
  "tm_owner m g = map_of (map (\<lambda>(i, r). (r, i)) (running m)) (tg_runtime g)"

definition tm_told :: "tunnel_manager \<Rightarrow> tunnel_guard \<Rightarrow> bool" where
  "tm_told m g = tm_watches m ! tg_shutdown g"

lemma nth_set_True: "i < length fl \<Longrightarrow> fl[a := True] ! i \<longleftrightarrow> fl ! i \<or> i = a"
  by (cases "i = a") auto

lemma length_tell [simp]: "length (tell ws fl) = length fl"
  unfolding tell_def by (induction ws arbitrary: fl) auto

lemma tell_nth: "i < length fl \<Longrightarrow> tell ws fl ! i \<longleftrightarrow> fl ! i \<or> i \<in> set ws"
  unfolding tell_def by (induction ws arbitrary: fl) (auto simp: nth_set_True)

lemma tm_owner_iff:
  assumes "tm_inv m"
  shows "tm_owner m g = Some tid \<longleftrightarrow> map_of (running m) tid = Some (tg_runtime g)"
proof -
  have d: "distinct (keys (map (\<lambda>(i, r). (r, i)) (running m)))" "distinct (keys (running m))"
    using assms by (simp_all add: tm_inv_def running_ok_def comp_def case_prod_beta')
  show ?thesis
    unfolding tm_owner_def map_of_eq_Some_iff [OF d(1)] map_of_eq_Some_iff [OF d(2)] by force
qed

lemma running_lt: "tm_inv m \<Longrightarrow> map_of (running m) tid = Some r \<Longrightarrow> r < length (runtimes m) \<and> r \<in> live_rts m"
proof -
  assume inv: "tm_inv m" and "map_of (running m) tid = Some r"
  then have "(tid, r) \<in> set (running m)" by (simp add: map_of_SomeD)
  then have live: "r \<in> live_rts m" by (metis image_eqI list.set_map snd_conv)
  have "\<forall>x \<in> live_rts m. x < length (runtimes m)" using inv by (simp add: tm_inv_def running_ok_def)
  from bspec [OF this live] live show ?thesis by simp
qed

lemma guard_same:
  assumes "tm_inv m" and "g \<in> set (tm_guards m)" and "h \<in> set (tm_guards m)" and "tg_shutdown g = tg_shutdown h"
  shows "g = h"
  using assms unfolding tm_inv_def distinct_map by (metis inj_onD)

text \<open>The session map of a runtime and the guards that belong to it.\<close>

lemma session_watches:
  assumes "tm_inv m" and "r < length (runtimes m)" and g: "g \<in> set (tm_guards m)"
  shows "tg_shutdown g \<in> set (map snd (rt_sessions (runtimes m ! r))) \<longleftrightarrow> tg_runtime g = r"
proof
  have ok: "runtime_ok m r" using assms(1,2) by (simp add: tm_inv_def)
  {
    assume "tg_shutdown g \<in> set (map snd (rt_sessions (runtimes m ! r)))"
    then obtain i where "(i, tg_shutdown g) \<in> set (rt_sessions (runtimes m ! r))" by auto
    then have "map_of (rt_sessions (runtimes m ! r)) i = Some (tg_shutdown g)"
      using ok by (simp add: runtime_ok_def)
    then have "\<lparr>tg_id = i, tg_runtime = r, tg_shutdown = tg_shutdown g\<rparr> \<in> set (tm_guards m)"
      using ok by (simp add: runtime_ok_def)
    from guard_same [OF assms(1) g this] show "tg_runtime g = r" by (cases g) simp
  next
    assume "tg_runtime g = r"
    then have "\<lparr>tg_id = tg_id g, tg_runtime = r, tg_shutdown = tg_shutdown g\<rparr> \<in> set (tm_guards m)"
      using g by (cases g) auto
    then have "map_of (rt_sessions (runtimes m ! r)) (tg_id g) = Some (tg_shutdown g)"
      using ok by (simp add: runtime_ok_def)
    then show "tg_shutdown g \<in> set (map snd (rt_sessions (runtimes m ! r)))"
      by (metis image_eqI list.set_map map_of_SomeD snd_conv)
  }
qed

lemma conns_cong:
  "tm_guards m' = tm_guards m \<Longrightarrow> tm_udp_guards m' = tm_udp_guards m \<Longrightarrow> conns r m' = conns r m"
  by (simp add: conns_def)

lemma conns_beyond: "tm_inv m \<Longrightarrow> length (runtimes m) \<le> r \<Longrightarrow> conns r m = 0"
  unfolding tm_inv_def guard_ok_def conns_def by (fastforce simp: filter_empty_conv)

lemma no_guard_beyond: "tm_inv m \<Longrightarrow> length (runtimes m) \<le> r \<Longrightarrow> \<lparr>tg_id = i, tg_runtime = r, tg_shutdown = w\<rparr> \<notin> set (tm_guards m)"
  unfolding tm_inv_def guard_ok_def by fastforce

lemma inv_add_runtime:
  assumes "tm_inv m" and "map_of (running m) (tc_id t) = None"
  shows "tm_inv (add_runtime t m)"
proof -
  let ?m = "add_runtime t m" and ?n = "length (runtimes m)"
  have run: "running ?m = running m @ [(tc_id t, ?n)]"
    using update_fresh [OF assms(2)] by (simp add: add_runtime_def)
  have gs: "tm_guards ?m = tm_guards m" "tm_udp_guards ?m = tm_udp_guards m" "tm_watches ?m = tm_watches m"
    "length (runtimes ?m) = Suc ?n"
    by (simp_all add: add_runtime_def)
  have live: "live_rts ?m = insert ?n (live_rts m)" by (simp add: run)
  have old: "\<forall>r \<in> live_rts m. r < ?n" "distinct (keys (running m))" "distinct (map snd (running m))"
    using assms(1) by (simp_all add: tm_inv_def running_ok_def)
  have "running_ok ?m"
    using old assms(2) unfolding running_ok_def run by (auto simp: gs map_of_eq_None_iff)
  moreover have "guard_ok ?m g" if "g \<in> set (tm_guards m)" for g
    using assms(1) that unfolding tm_inv_def guard_ok_def live gs by auto
  moreover have "runtime_ok ?m r" if "r < Suc ?n" for r
  proof (cases "r = ?n")
    case True
    have rt: "runtimes ?m ! r = \<lparr>rt_shutdown = False, rt_listen = tc_listen t, rt_sessions = [], rt_active_connections = 0\<rparr>"
      by (simp add: add_runtime_def True)
    show ?thesis
      unfolding runtime_ok_def rt live gs conns_cong [OF gs(1,2)]
      using conns_beyond [OF assms(1), of r] no_guard_beyond [OF assms(1), of r] True by simp
  next
    case False
    then have r: "r < ?n" "runtimes ?m ! r = runtimes m ! r" using that by (simp_all add: add_runtime_def nth_append)
    show ?thesis
      using assms(1) r(1) False unfolding runtime_ok_def r(2) live gs conns_cong [OF gs(1,2)]
      by (auto simp: tm_inv_def runtime_ok_def)
  qed
  ultimately show ?thesis
    using assms(1) by (auto simp: tm_inv_def gs less_SucI)
qed

lemma inv_stop_tunnel:
  assumes "tm_inv m"
  shows "tm_inv (snd (stop_tunnel tid m))"
    and "tm_live m g \<Longrightarrow> tm_told (snd (stop_tunnel tid m)) g \<longleftrightarrow> tm_told m g \<or> tm_owner m g = Some tid"
proof -
  let ?m = "snd (stop_tunnel tid m)"
  have "tm_inv ?m \<and> (\<forall>g. tm_live m g \<longrightarrow> (tm_told ?m g \<longleftrightarrow> tm_told m g \<or> tm_owner m g = Some tid))"
  proof (cases "map_of (running m) tid")
    case None
    then show ?thesis using assms by (simp add: stop_tunnel_def tm_owner_iff)
  next
    case (Some r)
    let ?ws = "map snd (rt_sessions (runtimes m ! r))"
    have r: "r < length (runtimes m)" "r \<in> live_rts m" using running_lt [OF assms Some] by auto
    have m: "running ?m = AList.delete tid (running m)"
      "runtimes ?m = (runtimes m)[r := (runtimes m ! r)\<lparr>rt_shutdown := True\<rparr>]"
      "tm_watches ?m = tell ?ws (tm_watches m)" "tm_guards ?m = tm_guards m" "tm_udp_guards ?m = tm_udp_guards m"
      using Some by (simp_all add: stop_tunnel_def)
    have old: "distinct (keys (running m))" "distinct (map snd (running m))" "\<forall>x \<in> live_rts m. x < length (runtimes m)"
      using assms by (simp_all add: tm_inv_def running_ok_def)
    note live = snd_delete [OF old(1,2) Some]
    have sess: "tg_shutdown g \<in> set ?ws \<longleftrightarrow> tg_runtime g = r" if "g \<in> set (tm_guards m)" for g
      using assms r(1) that by (rule session_watches)
    have "running_ok ?m" using old live m by (auto simp: running_ok_def distinct_keys_delete)
    moreover have "guard_ok ?m g" if "g \<in> set (tm_guards m)" for g
      using assms that sess [OF that] live(1) r unfolding tm_inv_def guard_ok_def m
      by (auto simp: tell_nth)
    moreover have "runtime_ok ?m x" if "x < length (runtimes m)" for x
      using assms that live(1) r unfolding tm_inv_def runtime_ok_def m conns_cong [OF m(4,5)]
      by (cases "x = r") auto
    moreover have "tm_told ?m g \<longleftrightarrow> tm_told m g \<or> tm_owner m g = Some tid" if "tm_live m g" for g
    proof -
      have g: "g \<in> set (tm_guards m)" "guard_ok m g" using that assms by (auto simp: tm_live_def tm_inv_def)
      have "tm_owner m g = Some tid \<longleftrightarrow> tg_runtime g = r" using Some by (auto simp: tm_owner_iff [OF assms])
      then show ?thesis using sess [OF g(1)] g(2) by (simp add: tm_told_def m tell_nth guard_ok_def)
    qed
    ultimately show ?thesis using assms by (simp add: tm_inv_def m)
  qed
  then show "tm_inv ?m" and "tm_live m g \<Longrightarrow> tm_told ?m g \<longleftrightarrow> tm_told m g \<or> tm_owner m g = Some tid" by blast+
qed

lemma conns_runtimes [simp]:
  "conns r (m\<lparr>runtimes := x\<rparr>) = conns r m" "conns r (m\<lparr>tm_watches := w\<rparr>) = conns r m"
  by (simp_all add: conns_def)

text \<open>A new session of a running tunnel, with an id no guard has.\<close>

lemma inv_register_session:
  assumes "tm_inv m" and "uuid \<notin> set (map tg_id (tm_guards m))"
  shows "tm_inv (snd (register_session uuid tid m))"
proof (cases "map_of (running m) tid")
  case None
  then show ?thesis using assms by (simp add: register_session_def)
next
  case (Some r)
  let ?m = "snd (register_session uuid tid m)" and ?w = "length (tm_watches m)"
  let ?g = "\<lparr>tg_id = uuid, tg_runtime = r, tg_shutdown = ?w\<rparr>"
  let ?rt = "(runtimes m ! r)\<lparr>rt_sessions := AList.update uuid ?w (rt_sessions (runtimes m ! r)),
               rt_active_connections := rt_active_connections (runtimes m ! r) + 1\<rparr>"
  have r: "r < length (runtimes m)" "r \<in> live_rts m" using running_lt [OF assms(1) Some] by auto
  have m: "running ?m = running m" "tm_watches ?m = tm_watches m @ [False]" "tm_udp_guards ?m = tm_udp_guards m"
    "tm_guards ?m = tm_guards m @ [?g]" "runtimes ?m = (runtimes m)[r := ?rt]"
    using Some by (simp_all add: register_session_def Let_def)
  have conns: "conns x ?m = conns x m + (if x = r then 1 else 0)" for x by (simp add: conns_def m)
  have ok: "runtime_ok m x" if "x < length (runtimes m)" for x using assms(1) that by (simp add: tm_inv_def)
  have none: "map_of (rt_sessions (runtimes m ! r)) uuid = None"
    using ok [OF r(1)] assms(2) by (force simp: runtime_ok_def not_None_eq [symmetric] simp del: not_None_eq)
  have gs: "\<forall>g \<in> set (tm_guards m). guard_ok m g" using assms(1) by (simp add: tm_inv_def)
  have "runtime_ok ?m x" if x: "x < length (runtimes m)" for x
  proof (cases "x = r")
    case True
    have "map_of (AList.update uuid ?w (rt_sessions (runtimes m ! r))) i = Some w \<longleftrightarrow>
        \<lparr>tg_id = i, tg_runtime = r, tg_shutdown = w\<rparr> \<in> set (tm_guards m @ [?g])" for i w
      using ok [OF r(1)] assms(2) none by (auto simp: runtime_ok_def image_iff)
    then show ?thesis
      using ok [OF r(1)] r True unfolding runtime_ok_def m conns by (auto simp: distinct_keys_update)
  next
    case False
    then show ?thesis using ok [OF x] unfolding runtime_ok_def m conns by auto
  qed
  moreover have "guard_ok ?m g" if "g \<in> set (tm_guards m @ [?g])" for g
  proof (cases "g \<in> set (tm_guards m)")
    case True
    then show ?thesis using gs unfolding guard_ok_def m by (auto simp: nth_append)
  next
    case False
    then have "g = ?g" using that by simp
    then show ?thesis using r unfolding guard_ok_def m by (simp add: nth_append)
  qed
  moreover have "distinct (map tg_shutdown (tm_guards ?m))"
    using assms(1) gs by (auto simp: tm_inv_def m guard_ok_def)
  moreover have "distinct (map tg_id (tm_guards ?m))" using assms by (auto simp: tm_inv_def m)
  moreover have "running_ok ?m" using assms(1) by (simp add: tm_inv_def running_ok_def m)
  ultimately show ?thesis using assms(1) by (simp add: tm_inv_def m)
qed

lemma inv_drop_tunnel_guard:
  assumes "tm_inv m" and "g \<in> set (tm_guards m)"
  shows "tm_inv (drop_tunnel_guard g m)"
proof -
  let ?m = "drop_tunnel_guard g m" and ?r = "tg_runtime g"
  let ?rt = "(runtimes m ! ?r)\<lparr>rt_sessions := AList.delete (tg_id g) (rt_sessions (runtimes m ! ?r)),
               rt_active_connections := rt_active_connections (runtimes m ! ?r) - 1\<rparr>"
  have m: "running ?m = running m" "tm_watches ?m = tm_watches m" "tm_udp_guards ?m = tm_udp_guards m"
    "tm_guards ?m = remove1 g (tm_guards m)" "runtimes ?m = (runtimes m)[?r := ?rt]"
    by (simp_all add: drop_tunnel_guard_def Let_def)
  have d: "distinct (tm_guards m)" "inj_on tg_id (set (tm_guards m))" "inj_on tg_shutdown (set (tm_guards m))"
    using assms(1) by (simp_all add: tm_inv_def distinct_map)
  have mem: "x \<in> set (tm_guards ?m) \<longleftrightarrow> x \<in> set (tm_guards m) \<and> x \<noteq> g" for x using d(1) by (simp add: m)
  have r: "?r < length (runtimes m)" using assms by (simp add: tm_inv_def guard_ok_def)
  have conns: "conns x m = conns x ?m + (if x = ?r then 1 else 0)" for x
  proof -
    obtain xs ys where "tm_guards m = xs @ g # ys" "g \<notin> set xs" using split_list_first [OF assms(2)] by blast
    then show ?thesis by (simp add: conns_def m remove1_append)
  qed
  have ok: "runtime_ok m x" if "x < length (runtimes m)" for x using assms(1) that by (simp add: tm_inv_def)
  have "runtime_ok ?m x" if x: "x < length (runtimes m)" for x
  proof (cases "x = ?r")
    case True
    have "map_of (AList.delete (tg_id g) (rt_sessions (runtimes m ! ?r))) i = Some w \<longleftrightarrow>
        \<lparr>tg_id = i, tg_runtime = ?r, tg_shutdown = w\<rparr> \<in> set (tm_guards m) \<and>
        \<lparr>tg_id = i, tg_runtime = ?r, tg_shutdown = w\<rparr> \<noteq> g" for i w
    proof -
      let ?h = "\<lparr>tg_id = i, tg_runtime = ?r, tg_shutdown = w\<rparr>"
      have "?h = g \<longleftrightarrow> tg_id ?h = tg_id g" if "?h \<in> set (tm_guards m)"
        using inj_onD [OF d(2) _ that assms(2)] by metis
      then show ?thesis using ok [OF r] by (auto simp: runtime_ok_def)
    qed
    then show ?thesis
      using ok [OF r] r True conns [of ?r] unfolding runtime_ok_def m(1,5) mem by (auto simp: distinct_keys_delete)
  next
    case False
    then show ?thesis using ok [OF x] conns [of x] unfolding runtime_ok_def m(1,5) mem by auto
  qed
  moreover have "guard_ok ?m x" if "x \<in> set (tm_guards m)" for x
    using assms(1) that unfolding tm_inv_def guard_ok_def m by auto
  moreover have "distinct (map tg_shutdown (tm_guards ?m))" "distinct (map tg_id (tm_guards ?m))"
    using d by (auto simp: m distinct_map intro: inj_on_diff)
  moreover have "running_ok ?m" using assms(1) by (simp add: tm_inv_def running_ok_def m)
  moreover have "\<forall>x \<in> set (tm_udp_guards ?m). x < length (runtimes ?m)" using assms(1) by (simp add: tm_inv_def m)
  ultimately show ?thesis unfolding tm_inv_def by (simp add: mem) (simp add: m)
qed

lemma inv_counter:
  assumes "tm_inv m" and "r < length (runtimes m)"
    and "of_nat (length (filter (\<lambda>x. x = r) us)) - of_nat (length (filter (\<lambda>x. x = r) (tm_udp_guards m))) = d"
    and "\<And>x. x \<noteq> r \<Longrightarrow> length (filter (\<lambda>y. y = x) us) = length (filter (\<lambda>y. y = x) (tm_udp_guards m))"
    and "\<forall>x \<in> set us. x < length (runtimes m)"
  shows "tm_inv (m\<lparr>runtimes := (runtimes m)[r := (runtimes m ! r)\<lparr>rt_active_connections := rt_active_connections (runtimes m ! r) + d\<rparr>],
                   tm_udp_guards := us\<rparr>)"
proof -
  let ?m = "m\<lparr>runtimes := (runtimes m)[r := (runtimes m ! r)\<lparr>rt_active_connections := rt_active_connections (runtimes m ! r) + d\<rparr>],
              tm_udp_guards := us\<rparr>"
  have ok: "runtime_ok m x" if "x < length (runtimes m)" for x using assms(1) that by (simp add: tm_inv_def)
  have "runtime_ok ?m x" if x: "x < length (runtimes m)" for x
  proof (cases "x = r")
    case True
    have "rt_active_connections (runtimes m ! r) + d = of_nat (conns r ?m)"
      using ok [OF assms(2)] assms(3) by (simp add: runtime_ok_def conns_def algebra_simps)
    then show ?thesis using ok [OF assms(2)] assms(2) True by (simp add: runtime_ok_def)
  next
    case False
    then show ?thesis using ok [OF x] assms(4) [of x] by (simp add: runtime_ok_def conns_def)
  qed
  then show ?thesis
    using assms(1,5) by (simp add: tm_inv_def running_ok_def guard_ok_def)
qed

lemma inv_register_udp:
  assumes "tm_inv m"
  shows "tm_inv (snd (register_udp_session tid m))"
proof (cases "map_of (running m) tid")
  case None
  then show ?thesis using assms by (simp add: register_udp_session_def)
next
  case (Some r)
  have "r < length (runtimes m)" "\<forall>x \<in> set (tm_udp_guards m). x < length (runtimes m)"
    using running_lt [OF assms Some] assms by (auto simp: tm_inv_def)
  then show ?thesis
    using inv_counter [OF assms, of r "tm_udp_guards m @ [r]" 1] Some by (simp add: register_udp_session_def Let_def)
qed

lemma inv_drop_udp:
  assumes "tm_inv m" and "r \<in> set (tm_udp_guards m)"
  shows "tm_inv (drop_udp_guard r m)"
proof -
  obtain xs ys where us: "tm_udp_guards m = xs @ r # ys" "r \<notin> set xs" using split_list_first [OF assms(2)] by blast
  have lt: "\<forall>x \<in> set (tm_udp_guards m). x < length (runtimes m)" using assms(1) by (simp add: tm_inv_def)
  show ?thesis
    using inv_counter [OF assms(1), of r "remove1 r (tm_udp_guards m)" "- 1"] lt us
    by (simp add: drop_udp_guard_def Let_def remove1_append)
qed

section \<open>Steps\<close>

inductive tm_step :: "tunnel_manager \<Rightarrow> tunnel_manager \<Rightarrow> bool" where
  ts_start: "tm_step m (snd (snd (start_tunnel bind now t e m)))"
| ts_stop: "tm_step m (snd (stop_tunnel tid m))"
| ts_session: "uuid \<notin> set (map tg_id (tm_guards m)) \<Longrightarrow> tm_step m (snd (register_session uuid tid m))"
| ts_udp: "tm_step m (snd (register_udp_session tid m))"
| ts_drop: "g \<in> set (tm_guards m) \<Longrightarrow> tm_step m (drop_tunnel_guard g m)"
| ts_drop_udp: "r \<in> set (tm_udp_guards m) \<Longrightarrow> tm_step m (drop_udp_guard r m)"

lemma inv_start_tunnel: "tm_inv m \<Longrightarrow> tm_inv (snd (snd (start_tunnel bind now t e m)))"
  by (auto simp: start_tunnel_def Let_def case_prod_beta intro: inv_add_runtime)

interpretation tm_sys: invariant_system "\<lambda>m. m = TunnelManager_new" tm_step tm_inv
proof
  show "tm_inv m" if "m = TunnelManager_new" for m
    using that by (simp add: tm_inv_def TunnelManager_new_def running_ok_def)
  show "tm_inv m'" if "tm_inv m" "tm_step m m'" for m m'
    using that(2,1)
    by cases (auto intro: inv_start_tunnel inv_stop_tunnel(1) inv_register_session inv_register_udp
        inv_drop_tunnel_guard inv_drop_udp)
qed

interpretation tunnel_registry: session_registry tm_inv tm_live tm_owner tm_told "\<lambda>tid m. snd (stop_tunnel tid m)"
proof
  fix m :: tunnel_manager and tid g
  show "tm_live (snd (stop_tunnel tid m)) g = tm_live m g"
    by (simp add: tm_live_def stop_tunnel_def split: option.split)
  assume inv: "tm_inv m"
  show "tm_inv (snd (stop_tunnel tid m))" using inv by (rule inv_stop_tunnel)
  assume g: "tm_live m g"
  show "tm_told (snd (stop_tunnel tid m)) g \<longleftrightarrow> tm_told m g \<or> tm_owner m g = Some tid"
    using inv g by (rule inv_stop_tunnel)
  have run: "map_of (running (snd (stop_tunnel tid m))) x = (if x = tid then None else map_of (running m) x)" for x
    by (simp add: stop_tunnel_def split: option.split)
  have "tm_owner (snd (stop_tunnel tid m)) g = Some x \<longleftrightarrow> tm_owner m g = Some x \<and> x \<noteq> tid" for x
    using tm_owner_iff [OF inv_stop_tunnel(1) [OF inv], of tid g x] tm_owner_iff [OF inv, of g x] run [of x] by auto
  then show "tm_owner (snd (stop_tunnel tid m)) g = (if tm_owner m g = Some tid then None else tm_owner m g)"
    by (metis not_None_eq)
qed

section \<open>Properties\<close>


text \<open>A tunnel with one session, before it is stopped.\<close>

definition demo_tunnel_cfg :: tunnel_config where
  "demo_tunnel_cfg = \<lparr>tc_id = ''t1'', tc_client_id = ''c1'', tc_mode = TcpMode, tc_listen = ''0.0.0.0:80'',
                      tc_target = Some ''h:1'', tc_enabled = True\<rparr>"

definition demo_running :: tunnel_manager where
  "demo_running = snd (snd (start_tunnel (\<lambda>_ _. True) 0 demo_tunnel_cfg PolicyEnforcer_channel TunnelManager_new))"

definition demo_session :: tunnel_manager where
  "demo_session = snd (register_session ''s1'' ''t1'' demo_running)"

lemmas demo_tm_defs = demo_session_def demo_running_def demo_tunnel_cfg_def start_tunnel_def allowed_def
  PolicyEnforcer_channel_def TunnelManager_new_def add_runtime_def register_session_def

lemma demo_session_reachable: "reachable (\<lambda>m. m = TunnelManager_new) tm_step demo_session"
proof -
  have "reachable (\<lambda>m. m = TunnelManager_new) tm_step demo_running"
    unfolding demo_running_def by (rule reach_step [where step = tm_step, OF _ ts_start]) (simp add: reach_init)
  moreover have "tm_guards demo_running = []" by (simp add: demo_tm_defs Let_def)
  ultimately show ?thesis
    unfolding demo_session_def by (intro reach_step [where step = tm_step, OF _ ts_session]) simp_all
qed




end
