(* ===== verification/Controller.thy ===== *)
theory Controller
  imports Mux_Session Traffic Proxy_Manager Tunnel_Manager
begin

text \<open>
  The controller's shared state, \<^verbatim>\<open>crates/rps-controller/src/main.rs\<close>, its start, and the
  policy task of \<^verbatim>\<open>policy.rs\<close> that acts on it. A \<^verbatim>\<open>ClientConnection\<close> refers to its
  mux and its pool by index in the stores \<open>app_muxes\<close> and \<open>app_pools\<close>, because
  connections that are replaced in the client map live on in the tasks that hold them. A
  pooled connection is the stream a Noise connection hands out: whether it takes bytes, the
  bytes written to it, the bytes that arrive on it and whether it then ends.
\<close>

record duplex =
  dx_writable :: bool
  dx_written :: bytes
  dx_input :: bytes
  dx_ended :: bool

record client_connection =
  cn_mux :: nat
  cn_pool :: nat
  cn_data_session_id :: string

record web_session =
  ws_username :: string
  ws_expires_at :: int

record app_state =
  app_config :: controller_config
  app_db :: database
  app_traffic :: "traffic_event list"
  app_clients :: "(string \<times> client_connection) list"
  app_web_sessions :: "(string \<times> web_session) list"
  app_tunnels :: tunnel_manager
  app_proxies :: proxy_manager
  app_policy :: enforcer
  app_muxes :: "mux list"
  app_pools :: "duplex list list"

text \<open>\<^verbatim>\<open>ClientConnection::new\<close> with a new mux and a new, empty pool.\<close>

definition ClientConnection_new :: "string \<Rightarrow> app_state \<Rightarrow> client_connection \<times> app_state" where
  "ClientConnection_new session_id st =
     (\<lparr>cn_mux = length (app_muxes st), cn_pool = length (app_pools st), cn_data_session_id = session_id\<rparr>,
      st\<lparr>app_muxes := app_muxes st @ [mux_new], app_pools := app_pools st @ [[]]\<rparr>)"

text \<open>A pool is open as long as a connection in the client map holds its sender.\<close>

definition pool_open :: "nat \<Rightarrow> app_state \<Rightarrow> bool" where
  "pool_open p st \<longleftrightarrow> list_ex (\<lambda>(k, c). cn_pool c = p) (app_clients st)"

section \<open>The policy task\<close>

definition revoke :: "stmts \<Rightarrow> int \<Rightarrow> revoke_event \<Rightarrow> app_state \<Rightarrow> app_state" where
  "revoke q now event st =
     (let i = rk_id (rv_key event); reason = reason_as_str (rv_reason event)
      in case rk_kind (rv_key event) of
           RTunnel \<Rightarrow>
             let (r, db1) = disable_tunnel q now i reason (app_db st);
                 (s, m1) = stop_tunnel i (app_tunnels st)
             in st\<lparr>app_db := db1, app_tunnels := m1\<rparr>
         | RProxyAccount \<Rightarrow>
             let (r, db1) = disable_proxy_account q now i reason (app_db st);
                 (n, m1) = revoke_account i (app_proxies st)
             in st\<lparr>app_db := db1, app_proxies := m1\<rparr>)"

text \<open>
  One turn of \<^verbatim>\<open>policy::run\<close>: an event of the queue, or the tick that looks for expired
  resources and revokes them in order.
\<close>

datatype policy_event = RecvRevoke | PolicyTick

fun revoke_all :: "stmts \<Rightarrow> int \<Rightarrow> (resource_key \<times> revoke_reason) list \<Rightarrow> app_state \<Rightarrow> app_state" where
  "revoke_all q now [] st = st"
| "revoke_all q now ((key, reason) # ks) st =
     revoke_all q now ks (revoke q now \<lparr>rv_key = key, rv_reason = reason\<rparr> st)"

fun policy_turn :: "stmts \<Rightarrow> int \<Rightarrow> policy_event \<Rightarrow> app_state \<Rightarrow> app_state" where
  "policy_turn q now RecvRevoke st =
     (case revoke_rx (app_policy st) of
        [] \<Rightarrow> st
      | event # events \<Rightarrow> revoke q now event (st\<lparr>app_policy := (app_policy st)\<lparr>revoke_rx := events\<rparr>\<rparr>))"
| "policy_turn q now PolicyTick st =
     (let (ks, e1) = expired_keys now (app_policy st)
      in revoke_all q now ks (st\<lparr>app_policy := e1\<rparr>))"

section \<open>The start of the controller\<close>

text \<open>
  \<^verbatim>\<open>ProxyManager::start_from_config\<close>: which proxies are run, and \<^verbatim>\<open>main\<close> from the
  opened database on: the policies are loaded, then the enabled tunnels are started.
\<close>

datatype proxy_kind = HttpProxy | Socks5Proxy

definition start_from_config :: "app_state \<Rightarrow> (proxy_kind \<times> proxy_listen_config) list" where
  "start_from_config st =
     (case http_proxy (server (app_config st)) of
        Some proxy \<Rightarrow> if pl_enabled proxy then [(HttpProxy, proxy)] else []
      | None \<Rightarrow> []) @
     (case socks5 (server (app_config st)) of
        Some proxy \<Rightarrow> if pl_enabled proxy then [(Socks5Proxy, proxy)] else []
      | None \<Rightarrow> [])"

definition AppState_new :: "controller_config \<Rightarrow> database \<Rightarrow> app_state" where
  "AppState_new cfg db =
     \<lparr>app_config = cfg, app_db = db, app_traffic = [], app_clients = [], app_web_sessions = [],
      app_tunnels = TunnelManager_new, app_proxies = ProxyManager_new, app_policy = PolicyEnforcer_channel,
      app_muxes = [], app_pools = []\<rparr>"

definition controller_start ::
  "(tunnel_mode \<Rightarrow> string \<Rightarrow> bool) \<Rightarrow> stmts \<Rightarrow> int \<Rightarrow> controller_config \<Rightarrow> database \<Rightarrow> (error + unit) \<times> app_state" where
  "controller_start bind q now cfg db =
     (let st = AppState_new cfg db
      in case load_from_db q db (app_policy st) of
           (Inl err, e1) \<Rightarrow> (Inl err, st\<lparr>app_policy := e1\<rparr>)
         | (Inr _, e1) \<Rightarrow>
             (case start_enabled_from_db bind (\<lambda>i. q (i + 2)) now db e1 (app_tunnels st) of
                (r, e2, m1) \<Rightarrow> (r, st\<lparr>app_policy := e2, app_tunnels := m1\<rparr>)))"

section \<open>What a revocation does\<close>

text \<open>
  A resource that is off: no row of the database enables it, and it has no running tunnel,
  respectively no registered session. \<open>G\<close> are the sessions it had, all of them told to
  shut down.
\<close>

definition tunnel_off :: "tunnel_guard set \<Rightarrow> string \<Rightarrow> app_state \<Rightarrow> bool" where
  "tunnel_off G tid st \<longleftrightarrow>
     (\<forall>r \<in> set (tunnels (app_db st)). t_id r = tid \<longrightarrow> t_enabled r = 0) \<and>
     map_of (running (app_tunnels st)) tid = None \<and> (\<forall>g \<in> G. tm_told (app_tunnels st) g)"

definition account_off :: "proxy_guard set \<Rightarrow> string \<Rightarrow> app_state \<Rightarrow> bool" where
  "account_off G aid st \<longleftrightarrow>
     (\<forall>r \<in> set (proxy_accounts (app_db st)). a_id r = aid \<longrightarrow> a_enabled r = 0) \<and>
     proxy_active_count aid (app_proxies st) = 0 \<and> (\<forall>g \<in> G. pm_told (app_proxies st) g)"

definition tunnel_armed :: "tunnel_guard set \<Rightarrow> string \<Rightarrow> app_state \<Rightarrow> bool" where
  "tunnel_armed G tid st \<longleftrightarrow> tm_inv (app_tunnels st) \<and>
     (\<forall>g \<in> G. tm_live (app_tunnels st) g \<and> (tm_owner (app_tunnels st) g = Some tid \<or> tm_told (app_tunnels st) g))"

definition account_armed :: "proxy_guard set \<Rightarrow> string \<Rightarrow> app_state \<Rightarrow> bool" where
  "account_armed G aid st \<longleftrightarrow> pm_inv (app_proxies st) \<and>
     (\<forall>g \<in> G. pm_live (app_proxies st) g \<and> (pm_owner (app_proxies st) g = Some aid \<or> pm_told (app_proxies st) g))"

text \<open>What the policy task needs of a kind of resource to be sure that revoking works.\<close>

locale revocable =
  fixes kind :: resource_kind and armed :: "string \<Rightarrow> app_state \<Rightarrow> bool" and off :: "string \<Rightarrow> app_state \<Rightarrow> bool"
  assumes armed_policy: "armed i (st\<lparr>app_policy := e\<rparr>) = armed i st"
    and off_policy: "off i (st\<lparr>app_policy := e\<rparr>) = off i st"
    and revoke_armed: "armed i st \<Longrightarrow> armed i (revoke q now ev st)"
    and revoke_off: "armed i st \<Longrightarrow> q 0 \<Longrightarrow> rv_key ev = \<lparr>rk_kind = kind, rk_id = i\<rparr> \<Longrightarrow> off i (revoke q now ev st)"
    and revoke_keeps_off: "armed i st \<Longrightarrow> off i st \<Longrightarrow> off i (revoke q now ev st)"
begin

lemma revoke_fold_off:
  assumes "armed i st" and "q 0" and "off i st \<or> \<lparr>rk_kind = kind, rk_id = i\<rparr> \<in> set (map rv_key evs)"
  shows "off i (fold (revoke q now) evs st)"
  using assms
proof (induction evs arbitrary: st)
  case (Cons ev evs)
  have "armed i (revoke q now ev st)" using Cons.prems(1) by (rule revoke_armed)
  moreover have "off i (revoke q now ev st) \<or> \<lparr>rk_kind = kind, rk_id = i\<rparr> \<in> set (map rv_key evs)"
    using Cons.prems revoke_off revoke_keeps_off by auto
  ultimately show ?case using Cons.IH [of "revoke q now ev st"] Cons.prems(2) by simp
qed simp

end

lemma app_policy_revoke [simp]: "app_policy (revoke q now ev st) = app_policy st"
  by (simp add: revoke_def Let_def case_prod_beta split: resource_kind.split)

lemma revoke_policy_upd: "revoke q now ev (st\<lparr>app_policy := e\<rparr>) = (revoke q now ev st)\<lparr>app_policy := e\<rparr>"
  by (simp add: revoke_def Let_def case_prod_beta split: resource_kind.split)

lemma revoke_fold_policy_upd:
  "fold (revoke q now) evs (st\<lparr>app_policy := e\<rparr>) = (fold (revoke q now) evs st)\<lparr>app_policy := e\<rparr>"
  by (induction evs arbitrary: st) (simp_all add: revoke_policy_upd)

lemma app_policy_fold [simp]: "app_policy (fold (revoke q now) evs st) = app_policy st"
  by (induction evs arbitrary: st) simp_all

text \<open>Receiving until the queue is empty handles every event in order.\<close>

lemma drain_queue:
  assumes "length (revoke_rx (app_policy st)) \<le> n"
  shows "(policy_turn q now RecvRevoke ^^ n) st =
           (fold (revoke q now) (revoke_rx (app_policy st)) st)\<lparr>app_policy := (app_policy st)\<lparr>revoke_rx := []\<rparr>\<rparr>"
  using assms
proof (induction n arbitrary: st)
  case (Suc n)
  show ?case
  proof (cases "revoke_rx (app_policy st)")
    case Nil
    then show ?thesis using Suc.IH [of st] by (simp add: funpow_Suc_right del: funpow.simps)
  next
    case (Cons ev evs)
    let ?st = "policy_turn q now RecvRevoke st"
    have st: "?st = (revoke q now ev st)\<lparr>app_policy := (app_policy st)\<lparr>revoke_rx := evs\<rparr>\<rparr>"
      using Cons by (simp add: revoke_policy_upd)
    have "(policy_turn q now RecvRevoke ^^ Suc n) st = (policy_turn q now RecvRevoke ^^ n) ?st"
      by (simp add: funpow_Suc_right del: funpow.simps policy_turn.simps)
    also have "\<dots> = (fold (revoke q now) evs ?st)\<lparr>app_policy := (app_policy st)\<lparr>revoke_rx := []\<rparr>\<rparr>"
      using Suc.IH [of ?st] Suc.prems Cons by (simp add: st del: policy_turn.simps)
    finally show ?thesis by (simp only: st revoke_fold_policy_upd Cons) simp
  qed
qed simp

lemma all_update_flag:
  assumes "\<And>r. k (f r) = k r" and "\<And>r. \<not> on (f r)"
  shows "(\<forall>r \<in> set (update_rows (\<lambda>r. k r = i) f rows). k r = x \<longrightarrow> \<not> on r) \<longleftrightarrow>
           i = x \<or> (\<forall>r \<in> set rows. k r = x \<longrightarrow> \<not> on r)"
  using assms by (induction rows) (auto simp: update_rows_def)

lemma disabled_after_disable_tunnel:
  "(\<forall>r \<in> set (tunnels (snd (disable_tunnel q now i reason db))). t_id r = tid \<longrightarrow> t_enabled r = 0) \<longleftrightarrow>
     (q 0 \<and> i = tid) \<or> (\<forall>r \<in> set (tunnels db). t_id r = tid \<longrightarrow> t_enabled r = 0)"
  "proxy_accounts (snd (disable_tunnel q now i reason db)) = proxy_accounts db"
  using all_update_flag [of t_id "\<lambda>r. r\<lparr>t_enabled := 0, t_disabled_reason := Some reason, t_updated_at := now\<rparr>"
      "\<lambda>r. t_enabled r \<noteq> 0" i "tunnels db" tid]
  by (simp_all add: disable_tunnel_def)

lemma disabled_after_disable_account:
  "(\<forall>r \<in> set (proxy_accounts (snd (disable_proxy_account q now i reason db))). a_id r = aid \<longrightarrow> a_enabled r = 0) \<longleftrightarrow>
     (q 0 \<and> i = aid) \<or> (\<forall>r \<in> set (proxy_accounts db). a_id r = aid \<longrightarrow> a_enabled r = 0)"
  "tunnels (snd (disable_proxy_account q now i reason db)) = tunnels db"
  using all_update_flag [of a_id "\<lambda>r. r\<lparr>a_enabled := 0, a_disabled_reason := Some reason, a_updated_at := now\<rparr>"
      "\<lambda>r. a_enabled r \<noteq> 0" i "proxy_accounts db" aid]
  by (simp_all add: disable_proxy_account_def)

lemmas revoke_parts = disabled_after_disable_tunnel disabled_after_disable_account

lemma running_stop: "map_of (running (snd (stop_tunnel i m))) x = (if x = i then None else map_of (running m) x)"
  by (simp add: stop_tunnel_def split: option.split)

interpretation tunnel_revocable: revocable RTunnel "tunnel_armed G" "tunnel_off G" for G
proof
  fix i st e q now ev
  show "tunnel_armed G i (st\<lparr>app_policy := e\<rparr>) = tunnel_armed G i st"
    "tunnel_off G i (st\<lparr>app_policy := e\<rparr>) = tunnel_off G i st"
    by (simp_all add: tunnel_armed_def tunnel_off_def)
  assume a: "tunnel_armed G i st"
  then have inv: "tm_inv (app_tunnels st)" by (simp add: tunnel_armed_def)
  note reg = tunnel_registry.revoke_inv [OF inv] tunnel_registry.revoke_told [OF inv]
    tunnel_registry.revoke_owner [OF inv] tunnel_registry.revoke_live
  show "tunnel_armed G i (revoke q now ev st)"
    using a reg by (auto simp: tunnel_armed_def revoke_def Let_def case_prod_beta split: resource_kind.split)
  show "tunnel_off G i (revoke q now ev st)" if "q 0" "rv_key ev = \<lparr>rk_kind = RTunnel, rk_id = i\<rparr>"
    using a reg that by (auto simp: tunnel_armed_def tunnel_off_def revoke_def Let_def case_prod_beta revoke_parts running_stop)
  show "tunnel_off G i (revoke q now ev st)" if "tunnel_off G i st"
    using a reg that
    by (auto simp: tunnel_armed_def tunnel_off_def revoke_def Let_def case_prod_beta revoke_parts running_stop
        split: resource_kind.split)
qed

lemma active_count_0: "proxy_active_count a m = 0 \<longleftrightarrow> (\<forall>i w. (i, a, w) \<notin> set (pm_sessions m))"
  by (auto simp: proxy_active_count_def filter_empty_conv)

lemma active_count_revoke:
  assumes "pm_inv m"
  shows "proxy_active_count a (snd (revoke_account b m)) = 0 \<longleftrightarrow> a = b \<or> proxy_active_count a m = 0"
proof -
  have d: "distinct (keys (pm_sessions (snd (revoke_account b m))))" "distinct (keys (pm_sessions m))"
    using revoke_account_spec(1) [OF assms] assms by (simp_all add: pm_inv_def)
  have s: "(i, c, w) \<in> set (pm_sessions (snd (revoke_account b m))) \<longleftrightarrow> (i, c, w) \<in> set (pm_sessions m) \<and> c \<noteq> b" for i c w
    using map_of_eq_Some_iff [OF d(1), of i "(c, w)"] map_of_eq_Some_iff [OF d(2), of i "(c, w)"]
      revoke_account_spec(3) [OF assms, of b i] by (auto split: option.splits if_splits)
  show ?thesis by (simp add: active_count_0 s) blast
qed

interpretation account_revocable: revocable RProxyAccount "account_armed G" "account_off G" for G
proof
  fix i st e q now ev
  show "account_armed G i (st\<lparr>app_policy := e\<rparr>) = account_armed G i st"
    "account_off G i (st\<lparr>app_policy := e\<rparr>) = account_off G i st"
    by (simp_all add: account_armed_def account_off_def)
  assume a: "account_armed G i st"
  then have inv: "pm_inv (app_proxies st)" by (simp add: account_armed_def)
  note reg = proxy_registry.revoke_inv [OF inv] proxy_registry.revoke_told [OF inv]
    proxy_registry.revoke_owner [OF inv] proxy_registry.revoke_live active_count_revoke [OF inv]
  show "account_armed G i (revoke q now ev st)"
    using a reg by (auto simp: account_armed_def revoke_def Let_def case_prod_beta split: resource_kind.split)
  show "account_off G i (revoke q now ev st)" if "q 0" "rv_key ev = \<lparr>rk_kind = RProxyAccount, rk_id = i\<rparr>"
    using a reg that by (auto simp: account_armed_def account_off_def revoke_def Let_def case_prod_beta revoke_parts)
  show "account_off G i (revoke q now ev st)" if "account_off G i st"
    using a reg that
    by (auto simp: account_armed_def account_off_def revoke_def Let_def case_prod_beta revoke_parts
        split: resource_kind.split)
qed

section \<open>An example state\<close>

definition demo_config :: controller_config where
  "demo_config =
     \<lparr>server = \<lparr>bridge_addr = ''b'', web_addr = ''w'', web_dir = ''d'', database_path = ''p'',
                web_auth = WebAuthConfig_default, http_proxy = None, socks5 = None\<rparr>,
      clients_cfg = [], tunnels_cfg = []\<rparr>"

definition demo_state :: app_state where
  "demo_state = AppState_new demo_config demo_db2"

end
