(* ===== verification/Proxy_Tcp.thy ===== *)
theory Proxy_Tcp
  imports Controller
begin

text \<open>
  Streams to agents and the TCP pipe, \<^verbatim>\<open>crates/rps-controller/src/proxy_tcp.rs\<close>. The
  JSON library is the pair \<open>to_vec\<close>, \<open>from_slice\<close> of functions; \<open>q\<close>, \<open>now\<close> and
  \<open>uuid\<close> are the database's statements, the clock and a fresh id. The task that records
  an opened stream in the database runs right after the stream was opened.
\<close>

definition POOL_COPY_BUF_SIZE :: nat where "POOL_COPY_BUF_SIZE = 128 * 1024"

definition POOL_ACQUIRE_RETRIES :: nat where "POOL_ACQUIRE_RETRIES = 4"

record stream_route =
  sr_tunnel_id :: string
  sr_client_id :: string

definition StreamRoute_from :: "tunnel_config \<Rightarrow> stream_route" where
  "StreamRoute_from tunnel = \<lparr>sr_tunnel_id = tc_id tunnel, sr_client_id = tc_client_id tunnel\<rparr>"

text \<open>\<^verbatim>\<open>TrafficRecorder::add\<close>; a recorder is the route it was made for.\<close>

definition recorder_add :: "stream_route \<Rightarrow> u64 \<Rightarrow> u64 \<Rightarrow> app_state \<Rightarrow> app_state" where
  "recorder_add r rx tx st =
     st\<lparr>app_policy := record_route_usage (sr_tunnel_id r) rx tx (app_policy st),
        app_traffic := record_traffic (sr_client_id r) (sr_tunnel_id r) rx tx (app_traffic st)\<rparr>"

definition offline_error :: "string \<Rightarrow> error" where
  "offline_error cid = Bail (''client '' @ cid @ '' is offline'')"

definition target_error :: "string \<Rightarrow> string option \<Rightarrow> error" where
  "target_error target reason =
     Bail (''agent failed to open target '' @ target @ '': '' @
           (case reason of None \<Rightarrow> ''unknown error'' | Some r \<Rightarrow> r))"

definition record_open :: "stmts \<Rightarrow> int \<Rightarrow> string \<Rightarrow> stream_route \<Rightarrow> open_request \<Rightarrow> app_state \<Rightarrow> app_state" where
  "record_open q now uuid route request st =
     st\<lparr>app_db := snd (record_stream_open q now uuid (sr_client_id route) (sr_tunnel_id route)
          (or_protocol request) (or_target request) (or_remote_addr request) (app_db st))\<rparr>"

section \<open>Streams of the mux\<close>

text \<open>
  \<^verbatim>\<open>open_stream\<close>: \<open>meanwhile\<close> is what the mux's reader and writer do until the first
  data arrive, the stream ends, or five seconds have passed.
\<close>

definition set_mux :: "nat \<Rightarrow> mux \<Rightarrow> app_state \<Rightarrow> app_state" where
  "set_mux i m st = st\<lparr>app_muxes := (app_muxes st)[i := m]\<rparr>"

definition proxy_open_stream ::
  "(open_request \<Rightarrow> string + bytes) \<Rightarrow> (bytes \<Rightarrow> string + open_response) \<Rightarrow> (mux \<Rightarrow> mux) \<Rightarrow> stmts \<Rightarrow> int \<Rightarrow> string
     \<Rightarrow> stream_route \<Rightarrow> target_protocol \<Rightarrow> string \<Rightarrow> string \<Rightarrow> app_state \<Rightarrow> (error + mux_stream) \<times> app_state" where
  "proxy_open_stream to_vec from_slice meanwhile q now uuid route protocol target remote_addr st =
     (case map_of (app_clients st) (sr_client_id route) of
        None \<Rightarrow> (Inl (offline_error (sr_client_id route)), st)
      | Some conn \<Rightarrow>
          let i = cn_mux conn;
              request = \<lparr>or_tunnel_id = sr_tunnel_id route, or_protocol = protocol, or_target = target,
                         or_remote_addr = remote_addr, or_timeout_ms = 5000\<rparr>
          in (case to_vec request of
                Inl e \<Rightarrow> (Inl (Bail e), st)
              | Inr body \<Rightarrow>
                  (case open_stream body (app_muxes st ! i) of
                     (Inl e, m1) \<Rightarrow> (Inl e, set_mux i m1 st)
                   | (Inr stream, m1) \<Rightarrow>
                       (case recv_data stream (meanwhile m1) of
                          (Blocked, m2) \<Rightarrow>
                            (Inl (IoError TimedOut (''agent open target '' @ target @ '' timed out after 5000ms'')),
                             set_mux i (drop_rx (inbound_rx stream) m2) st)
                        | (Closed, m2) \<Rightarrow>
                            (Inl (IoError UnexpectedEof ''agent closed stream before open response''),
                             set_mux i (drop_rx (inbound_rx stream) m2) st)
                        | (Got response, m2) \<Rightarrow>
                            (case from_slice response of
                               Inl e \<Rightarrow>
                                 (Inl (IoError InvalidData (''invalid agent open response: '' @ e)),
                                  set_mux i (drop_rx (inbound_rx stream) m2) st)
                             | Inr r \<Rightarrow>
                                 if \<not> ors_ok r
                                 then (Inl (target_error target (ors_error r)),
                                       set_mux i (drop_rx (inbound_rx stream) m2) st)
                                 else (Inr stream, record_open q now uuid route request (set_mux i m2 st)))))))"

section \<open>Connections of the pool\<close>

text \<open>
  Writing to a pooled connection, and reading one message from it within the time limit: it
  is there, reading fails, or the time is over.
\<close>

datatype 'a timed = Done 'a | Failed error | Elapsed

definition duplex_write_json :: "('a \<Rightarrow> string + bytes) \<Rightarrow> 'a \<Rightarrow> duplex \<Rightarrow> error + duplex" where
  "duplex_write_json to_vec v d =
     (case write_json to_vec v of
        Inl e \<Rightarrow> Inl e
      | Inr bs \<Rightarrow>
          if dx_writable d then Inr (d\<lparr>dx_written := dx_written d @ bs\<rparr>)
          else Inl (IoError BrokenPipe ''broken pipe''))"

definition duplex_read_json :: "(bytes \<Rightarrow> string + 'a) \<Rightarrow> duplex \<Rightarrow> ('a \<times> duplex) timed" where
  "duplex_read_json from_slice d =
     (case read_json from_slice (dx_input d) of
        Inr (v, rest) \<Rightarrow> Done (v, d\<lparr>dx_input := rest\<rparr>)
      | Inl e \<Rightarrow> if e = eof_error \<and> \<not> dx_ended d then Elapsed else Failed e)"

text \<open>The loop over at most four connections; the pool is what can be taken within the time limit.\<close>

fun pool_loop ::
  "(open_request \<Rightarrow> string + bytes) \<Rightarrow> (bytes \<Rightarrow> string + open_response) \<Rightarrow> nat \<Rightarrow> string \<Rightarrow> open_request \<Rightarrow> bool
     \<Rightarrow> duplex list \<Rightarrow> (error + duplex) \<times> duplex list" where
  "pool_loop to_vec from_slice 0 cid request is_open pool =
     (Inl (Bail (''no live pooled connection available for client '' @ cid)), pool)"
| "pool_loop to_vec from_slice (Suc n) cid request is_open pool =
     (case pool of
        [] \<Rightarrow>
          (Inl (if \<not> is_open then Bail (''client '' @ cid @ '' pool is closed'')
                else Bail (''client '' @ cid @ '' pool exhausted: no idle connection within 10s'')), [])
      | d # pool1 \<Rightarrow>
          (case duplex_write_json to_vec request d of
             Inl e \<Rightarrow> pool_loop to_vec from_slice n cid request is_open pool1
           | Inr d1 \<Rightarrow>
               (case duplex_read_json from_slice d1 of
                  Failed e \<Rightarrow> pool_loop to_vec from_slice n cid request is_open pool1
                | Elapsed \<Rightarrow>
                    (Inl (Bail (''agent open target '' @ or_target request @ '' timed out after 5000ms'')), pool1)
                | Done (r, d2) \<Rightarrow>
                    if \<not> ors_ok r then (Inl (target_error (or_target request) (ors_error r)), pool1)
                    else (Inr d2, pool1))))"

definition pool_request :: "stream_route \<Rightarrow> string \<Rightarrow> string \<Rightarrow> open_request" where
  "pool_request route target remote_addr =
     \<lparr>or_tunnel_id = sr_tunnel_id route, or_protocol = Tcp, or_target = target,
      or_remote_addr = remote_addr, or_timeout_ms = 5000\<rparr>"

definition open_pool_stream ::
  "(open_request \<Rightarrow> string + bytes) \<Rightarrow> (bytes \<Rightarrow> string + open_response) \<Rightarrow> stmts \<Rightarrow> int \<Rightarrow> string
     \<Rightarrow> stream_route \<Rightarrow> string \<Rightarrow> string \<Rightarrow> app_state \<Rightarrow> (error + duplex) \<times> app_state" where
  "open_pool_stream to_vec from_slice q now uuid route target remote_addr st =
     (case map_of (app_clients st) (sr_client_id route) of
        None \<Rightarrow> (Inl (offline_error (sr_client_id route)), st)
      | Some conn \<Rightarrow>
          let p = cn_pool conn; request = pool_request route target remote_addr
          in (case pool_loop to_vec from_slice POOL_ACQUIRE_RETRIES (sr_client_id route) request
                     (pool_open p st) (app_pools st ! p) of
                (Inl e, pool1) \<Rightarrow> (Inl e, st\<lparr>app_pools := (app_pools st)[p := pool1]\<rparr>)
              | (Inr d, pool1) \<Rightarrow>
                  (Inr d, record_open q now uuid route request (st\<lparr>app_pools := (app_pools st)[p := pool1]\<rparr>))))"

text \<open>
  \<^verbatim>\<open>handle_tcp\<close> until the pipe starts: the connection and the guard the pipe runs with,
  and dropping the guard when the pipe has ended.
\<close>

definition handle_tcp ::
  "(open_request \<Rightarrow> string + bytes) \<Rightarrow> (bytes \<Rightarrow> string + open_response) \<Rightarrow> stmts \<Rightarrow> int \<Rightarrow> string \<Rightarrow> string
     \<Rightarrow> tunnel_config \<Rightarrow> string \<Rightarrow> app_state \<Rightarrow> (error + duplex \<times> tunnel_guard option) \<times> app_state" where
  "handle_tcp to_vec from_slice q now uuid session_uuid tunnel remote_addr st =
     (case tc_target tunnel of
        None \<Rightarrow> (Inl (Bail ''tcp tunnel target is required''), st)
      | Some target \<Rightarrow>
          let route = StreamRoute_from tunnel
          in (case open_pool_stream to_vec from_slice q now uuid route target remote_addr st of
                (Inl e, st1) \<Rightarrow> (Inl e, st1)
              | (Inr d, st1) \<Rightarrow>
                  let (g, m1) = register_session session_uuid (sr_tunnel_id route) (app_tunnels st1)
                  in (Inr (d, g), st1\<lparr>app_tunnels := m1\<rparr>)))"

definition handle_tcp_end :: "tunnel_guard option \<Rightarrow> app_state \<Rightarrow> app_state" where
  "handle_tcp_end g st =
     (case g of None \<Rightarrow> st | Some g \<Rightarrow> st\<lparr>app_tunnels := drop_tunnel_guard g (app_tunnels st)\<rparr>)"

section \<open>The pipe\<close>

text \<open>
  \<^verbatim>\<open>pipe_pool_inner\<close>: two copying tasks and the function that waits for them. An input
  is the bytes its peer still sends before it ends; an output the bytes written and whether
  it has been shut down. \<open>pipe_shutdown\<close> says whether the caller passed a shutdown
  receiver. A task's iteration is one event, with the number of bytes its read returns and
  whether its write succeeds; aborting a task takes effect between its iterations. The
  function itself first waits for either task or the shutdown signal, and then, in the two
  branches of a finished task, for the other task only.
\<close>

datatype task = Running | TaskOk | TaskErr | Aborted

datatype pipe_phase = Selecting | AwaitDownlink | AwaitUplink | PipeEnded "error + unit"

record pipe =
  pi_client_in :: bytes
  pi_stream_out :: bytes
  pi_stream_fin :: bool
  pi_stream_in :: bytes
  pi_client_out :: bytes
  pi_client_fin :: bool
  pi_uplink :: task
  pi_downlink :: task
  pi_phase :: pipe_phase
  pi_shutdown :: bool

datatype branch = BrUplink | BrDownlink | BrSignal

datatype pipe_event = UplinkRead nat bool | DownlinkRead nat bool | WaitTurn branch

definition record_opt :: "stream_route option \<Rightarrow> u64 \<Rightarrow> u64 \<Rightarrow> app_state \<Rightarrow> app_state" where
  "record_opt r rx tx st = (case r of None \<Rightarrow> st | Some route \<Rightarrow> recorder_add route rx tx st)"

definition pipe_start ::
  "stream_route option \<Rightarrow> bool \<Rightarrow> bool \<Rightarrow> bytes option \<Rightarrow> bytes \<Rightarrow> bytes \<Rightarrow> app_state \<Rightarrow> (error + pipe) \<times> app_state" where
  "pipe_start r has_shutdown write_ok initial client_in stream_in st =
     (let p = \<lparr>pi_client_in = client_in, pi_stream_out = [], pi_stream_fin = False, pi_stream_in = stream_in,
               pi_client_out = [], pi_client_fin = False, pi_uplink = Running, pi_downlink = Running,
               pi_phase = Selecting, pi_shutdown = has_shutdown\<rparr>
      in case initial of
           None \<Rightarrow> (Inr p, st)
         | Some data \<Rightarrow>
             let st1 = record_opt r 0 (of_nat (length data)) st
             in if write_ok then (Inr (p\<lparr>pi_stream_out := data\<rparr>), st1)
                else (Inl (IoError BrokenPipe ''broken pipe''), st1))"

text \<open>The bytes one read returns: at least one, unless the input has ended.\<close>

definition read_size :: "nat \<Rightarrow> bytes \<Rightarrow> nat" where
  "read_size n input = min (max 1 (min n POOL_COPY_BUF_SIZE)) (length input)"

text \<open>One iteration of a copying task, with the number of bytes it has written.\<close>

definition uplink_copy :: "nat \<Rightarrow> bool \<Rightarrow> pipe \<Rightarrow> pipe \<times> nat" where
  "uplink_copy n write_ok p =
     (if pi_uplink p \<noteq> Running then (p, 0)
      else let k = read_size n (pi_client_in p)
           in if k = 0 then (p\<lparr>pi_stream_fin := True, pi_uplink := TaskOk\<rparr>, 0)
              else if \<not> write_ok then (p\<lparr>pi_client_in := drop k (pi_client_in p), pi_uplink := TaskErr\<rparr>, 0)
              else (p\<lparr>pi_client_in := drop k (pi_client_in p),
                      pi_stream_out := pi_stream_out p @ take k (pi_client_in p)\<rparr>, k))"

definition downlink_copy :: "nat \<Rightarrow> bool \<Rightarrow> pipe \<Rightarrow> pipe \<times> nat" where
  "downlink_copy n write_ok p =
     (if pi_downlink p \<noteq> Running then (p, 0)
      else let k = read_size n (pi_stream_in p)
           in if k = 0 then (p\<lparr>pi_client_fin := True, pi_downlink := TaskOk\<rparr>, 0)
              else if \<not> write_ok then (p\<lparr>pi_stream_in := drop k (pi_stream_in p), pi_downlink := TaskErr\<rparr>, 0)
              else (p\<lparr>pi_stream_in := drop k (pi_stream_in p),
                      pi_client_out := pi_client_out p @ take k (pi_stream_in p)\<rparr>, k))"

text \<open>The tasks of the controller's pipe also record what they have written.\<close>

definition uplink_turn :: "stream_route option \<Rightarrow> nat \<Rightarrow> bool \<Rightarrow> pipe \<times> app_state \<Rightarrow> pipe \<times> app_state" where
  "uplink_turn r n write_ok = (\<lambda>(p, st).
     let (p1, k) = uplink_copy n write_ok p in (p1, if k = 0 then st else record_opt r 0 (of_nat k) st))"

definition downlink_turn :: "stream_route option \<Rightarrow> nat \<Rightarrow> bool \<Rightarrow> pipe \<times> app_state \<Rightarrow> pipe \<times> app_state" where
  "downlink_turn r n write_ok = (\<lambda>(p, st).
     let (p1, k) = downlink_copy n write_ok p in (p1, if k = 0 then st else record_opt r (of_nat k) 0 st))"

definition abort_task :: "task \<Rightarrow> task" where
  "abort_task t = (if t = Running then Aborted else t)"

definition task_failed :: "task \<Rightarrow> bool" where
  "task_failed t \<longleftrightarrow> t = TaskErr \<or> t = Aborted"

fun finish_pipe_task :: "task \<Rightarrow> error + unit" where
  "finish_pipe_task TaskErr = Inl (IoError BrokenPipe ''broken pipe'')"
| "finish_pipe_task Aborted = Inl (Bail ''task was cancelled'')"
| "finish_pipe_task t = Inr ()"

definition finish_both :: "task \<Rightarrow> task \<Rightarrow> error + unit" where
  "finish_both a b = (case finish_pipe_task a of Inl e \<Rightarrow> Inl e | Inr _ \<Rightarrow> finish_pipe_task b)"

text \<open>
  A turn of the waiting function. In the first wait any branch that is ready may be taken;
  \<open>BrSignal\<close> is the branch of a shutdown channel that has changed. A branch that is not
  ready is not taken.
\<close>

definition wait_turn :: "branch \<Rightarrow> pipe \<Rightarrow> pipe" where
  "wait_turn br p =
     (case pi_phase p of
        Selecting \<Rightarrow>
          (case br of
             BrUplink \<Rightarrow>
               if pi_uplink p = Running then p
               else if task_failed (pi_uplink p)
               then p\<lparr>pi_downlink := abort_task (pi_downlink p), pi_phase := AwaitDownlink\<rparr>
               else p\<lparr>pi_phase := AwaitDownlink\<rparr>
           | BrDownlink \<Rightarrow>
               if pi_downlink p = Running then p
               else if task_failed (pi_downlink p)
               then p\<lparr>pi_uplink := abort_task (pi_uplink p), pi_phase := AwaitUplink\<rparr>
               else p\<lparr>pi_phase := AwaitUplink\<rparr>
           | BrSignal \<Rightarrow>
               if pi_shutdown p
               then p\<lparr>pi_uplink := abort_task (pi_uplink p), pi_downlink := abort_task (pi_downlink p),
                      pi_phase := PipeEnded (Inr ())\<rparr>
               else p)
      | AwaitDownlink \<Rightarrow>
          if pi_downlink p \<noteq> Running then p\<lparr>pi_phase := PipeEnded (finish_both (pi_uplink p) (pi_downlink p))\<rparr> else p
      | AwaitUplink \<Rightarrow>
          if pi_uplink p \<noteq> Running then p\<lparr>pi_phase := PipeEnded (finish_both (pi_downlink p) (pi_uplink p))\<rparr> else p
      | PipeEnded _ \<Rightarrow> p)"

fun pipe_turn :: "stream_route option \<Rightarrow> pipe_event \<Rightarrow> pipe \<times> app_state \<Rightarrow> pipe \<times> app_state" where
  "pipe_turn r (UplinkRead n write_ok) s = uplink_turn r n write_ok s"
| "pipe_turn r (DownlinkRead n write_ok) s = downlink_turn r n write_ok s"
| "pipe_turn r (WaitTurn br) s = (wait_turn br (fst s), snd s)"

section \<open>Taking a connection from the pool\<close>

definition dead :: "(open_request \<Rightarrow> string + bytes) \<Rightarrow> (bytes \<Rightarrow> string + open_response) \<Rightarrow> open_request \<Rightarrow> duplex \<Rightarrow> bool" where
  "dead to_vec from_slice request d \<longleftrightarrow>
     (case duplex_write_json to_vec request d of
        Inl e \<Rightarrow> True
      | Inr d1 \<Rightarrow> (case duplex_read_json from_slice d1 of Failed e \<Rightarrow> True | _ \<Rightarrow> False))"

text \<open>What a connection that is not dead answers.\<close>

definition answer :: "(open_request \<Rightarrow> string + bytes) \<Rightarrow> (bytes \<Rightarrow> string + open_response) \<Rightarrow> open_request \<Rightarrow> duplex \<Rightarrow> error + duplex" where
  "answer to_vec from_slice request d =
     (case duplex_write_json to_vec request d of
        Inl e \<Rightarrow> Inl e
      | Inr d1 \<Rightarrow>
          (case duplex_read_json from_slice d1 of
             Done (r, d2) \<Rightarrow> if ors_ok r then Inr d2 else Inl (target_error (or_target request) (ors_error r))
           | _ \<Rightarrow> Inl (Bail (''agent open target '' @ or_target request @ '' timed out after 5000ms''))))"

definition no_connection :: "nat \<Rightarrow> string \<Rightarrow> bool \<Rightarrow> duplex list \<Rightarrow> error" where
  "no_connection n cid is_open pool =
     (if n \<le> length pool then Bail (''no live pooled connection available for client '' @ cid)
      else if is_open then Bail (''client '' @ cid @ '' pool exhausted: no idle connection within 10s'')
      else Bail (''client '' @ cid @ '' pool is closed''))"

lemma pool_loop_step:
  "pool_loop to_vec from_slice (Suc n) cid request is_open (d # pool) =
     (if dead to_vec from_slice request d then pool_loop to_vec from_slice n cid request is_open pool
      else (answer to_vec from_slice request d, pool))"
  by (auto simp: dead_def answer_def split: sum.split timed.split prod.split)

lemma pool_loop_first_live:
  "pool_loop to_vec from_slice n cid request is_open pool =
     (let skipped = takeWhile (dead to_vec from_slice request) (take n pool); k = length skipped
      in if k < length pool \<and> k < n then (answer to_vec from_slice request (pool ! k), drop (Suc k) pool)
         else (Inl (no_connection n cid is_open pool), drop n pool))"
proof (induction n arbitrary: pool)
  case 0
  then show ?case by (simp add: no_connection_def)
next
  case (Suc n)
  show ?case
  proof (cases pool)
    case Nil
    then show ?thesis by (simp add: no_connection_def)
  next
    case (Cons d ds)
    show ?thesis
      unfolding Cons pool_loop_step using Suc.IH [of ds]
      by (simp add: Let_def no_connection_def del: pool_loop.simps)
  qed
qed

section \<open>What the pipe forwards and records\<close>

text \<open>
  The state of one copying task: while it runs, what was written and what is left is what
  there was; when it has ended well everything was written and the output shut down; in any
  case a prefix was written and nothing else.
\<close>

definition copied :: "bytes \<Rightarrow> bytes \<Rightarrow> bytes \<Rightarrow> bool \<Rightarrow> task \<Rightarrow> bool" where
  "copied whole input output fin t \<longleftrightarrow>
     prefix output whole \<and> (t = Running \<longrightarrow> output @ input = whole) \<and>
     (t = TaskOk \<longrightarrow> output = whole) \<and> (fin \<longleftrightarrow> t = TaskOk)"

lemma copied_abort: "copied whole input output fin t \<Longrightarrow> copied whole input output fin (abort_task t)"
  by (auto simp: copied_def abort_task_def)

lemma copied_chunk:
  "copied whole input output fin Running \<Longrightarrow> copied whole (drop k input) (output @ take k input) fin Running"
  by (auto simp: copied_def take_is_prefix)

lemma copied_err: "copied whole input output fin Running \<Longrightarrow> copied whole input' output fin TaskErr"
  by (auto simp: copied_def)

lemma copied_eof: "copied whole [] output fin Running \<Longrightarrow> copied whole [] output True TaskOk"
  by (auto simp: copied_def)

lemma read_size_0 [simp]: "read_size n input = 0 \<longleftrightarrow> input = []"
  by (auto simp: read_size_def POOL_COPY_BUF_SIZE_def min_def max_def)

lemma read_size_le: "read_size n input \<le> length input" "read_size n input \<le> POOL_COPY_BUF_SIZE"
  by (auto simp: read_size_def POOL_COPY_BUF_SIZE_def)

text \<open>The samples a run records, and the sums of the two directions.\<close>

definition recorded :: "stream_route option \<Rightarrow> (u64 \<times> u64) list \<Rightarrow> app_state \<Rightarrow> app_state" where
  "recorded r ss st = fold (\<lambda>(rx, tx). record_opt r rx tx) ss st"

definition rx_sum :: "(u64 \<times> u64) list \<Rightarrow> nat" where
  "rx_sum ss = (\<Sum>s \<leftarrow> ss. unat (fst s))"

definition tx_sum :: "(u64 \<times> u64) list \<Rightarrow> nat" where
  "tx_sum ss = (\<Sum>s \<leftarrow> ss. unat (snd s))"

lemma recorded_snoc: "recorded r (ss @ [(rx, tx)]) st = record_opt r rx tx (recorded r ss st)"
  by (simp add: recorded_def)

lemma sum_snoc [simp]: "rx_sum (ss @ [(rx, tx)]) = rx_sum ss + unat rx" "tx_sum (ss @ [(rx, tx)]) = tx_sum ss + unat tx"
  by (simp_all add: rx_sum_def tx_sum_def)

lemma unat_of_nat_small: "k \<le> POOL_COPY_BUF_SIZE \<Longrightarrow> unat (of_nat k :: u64) = k"
  by (simp add: POOL_COPY_BUF_SIZE_def unat_of_nat)

definition pipe_ok :: "stream_route option \<Rightarrow> bytes \<Rightarrow> bytes \<Rightarrow> app_state \<Rightarrow> pipe \<times> app_state \<Rightarrow> bool" where
  "pipe_ok r up down st s \<longleftrightarrow>
     copied up (pi_client_in (fst s)) (pi_stream_out (fst s)) (pi_stream_fin (fst s)) (pi_uplink (fst s)) \<and>
     copied down (pi_stream_in (fst s)) (pi_client_out (fst s)) (pi_client_fin (fst s)) (pi_downlink (fst s)) \<and>
     (\<exists>ss. snd s = recorded r ss st \<and>
        tx_sum ss = length (pi_stream_out (fst s)) \<and> rx_sum ss = length (pi_client_out (fst s)))"

lemma pipe_okI:
  assumes "copied up (pi_client_in p) (pi_stream_out p) (pi_stream_fin p) (pi_uplink p)"
    and "copied down (pi_stream_in p) (pi_client_out p) (pi_client_fin p) (pi_downlink p)"
    and "st' = recorded r ss st" and "tx_sum ss = length (pi_stream_out p)" and "rx_sum ss = length (pi_client_out p)"
  shows "pipe_ok r up down st (p, st')"
  using assms by (auto simp: pipe_ok_def)

lemma pipe_ok_uplink:
  assumes "pipe_ok r up down st (p, s)"
  shows "pipe_ok r up down st (uplink_turn r n w (p, s))"
proof (cases "pi_uplink p = Running")
  case True
  let ?k = "read_size n (pi_client_in p)"
  obtain ss where ss: "s = recorded r ss st" "tx_sum ss = length (pi_stream_out p)" "rx_sum ss = length (pi_client_out p)"
    using assms by (auto simp: pipe_ok_def)
  have c: "copied up (pi_client_in p) (pi_stream_out p) (pi_stream_fin p) Running"
    "copied down (pi_stream_in p) (pi_client_out p) (pi_client_fin p) (pi_downlink p)"
    using assms True by (auto simp: pipe_ok_def)
  have k: "unat (of_nat ?k :: u64) = ?k" "?k \<le> length (pi_client_in p)"
    using read_size_le by (auto intro: unat_of_nat_small)
  consider "pi_client_in p = []" | "pi_client_in p \<noteq> []" "\<not> w" | "pi_client_in p \<noteq> []" w by blast
  then show ?thesis
  proof cases
    case 1
    then show ?thesis using True c ss copied_eof by (auto simp: uplink_turn_def uplink_copy_def intro!: pipe_okI [where ss = ss])
  next
    case 2
    then show ?thesis using True c ss copied_err
      by (auto simp: uplink_turn_def uplink_copy_def Let_def intro!: pipe_okI [where ss = ss])
  next
    case 3
    then show ?thesis using True c ss k copied_chunk [OF c(1), of ?k]
      by (auto simp: uplink_turn_def uplink_copy_def Let_def recorded_snoc intro!: pipe_okI [where ss = "ss @ [(0, of_nat ?k)]"])
  qed
next
  case False
  then show ?thesis using assms by (simp add: uplink_turn_def uplink_copy_def)
qed

lemma pipe_ok_downlink:
  assumes "pipe_ok r up down st (p, s)"
  shows "pipe_ok r up down st (downlink_turn r n w (p, s))"
proof (cases "pi_downlink p = Running")
  case True
  let ?k = "read_size n (pi_stream_in p)"
  obtain ss where ss: "s = recorded r ss st" "tx_sum ss = length (pi_stream_out p)" "rx_sum ss = length (pi_client_out p)"
    using assms by (auto simp: pipe_ok_def)
  have c: "copied up (pi_client_in p) (pi_stream_out p) (pi_stream_fin p) (pi_uplink p)"
    "copied down (pi_stream_in p) (pi_client_out p) (pi_client_fin p) Running"
    using assms True by (auto simp: pipe_ok_def)
  have k: "unat (of_nat ?k :: u64) = ?k" "?k \<le> length (pi_stream_in p)"
    using read_size_le by (auto intro: unat_of_nat_small)
  consider "pi_stream_in p = []" | "pi_stream_in p \<noteq> []" "\<not> w" | "pi_stream_in p \<noteq> []" w by blast
  then show ?thesis
  proof cases
    case 1
    then show ?thesis using True c ss copied_eof by (auto simp: downlink_turn_def downlink_copy_def intro!: pipe_okI [where ss = ss])
  next
    case 2
    then show ?thesis using True c ss copied_err
      by (auto simp: downlink_turn_def downlink_copy_def Let_def intro!: pipe_okI [where ss = ss])
  next
    case 3
    then show ?thesis using True c ss k copied_chunk [OF c(2), of ?k]
      by (auto simp: downlink_turn_def downlink_copy_def Let_def recorded_snoc intro!: pipe_okI [where ss = "ss @ [(of_nat ?k, 0)]"])
  qed
next
  case False
  then show ?thesis using assms by (simp add: downlink_turn_def downlink_copy_def)
qed

lemma wait_turn_data [simp]:
  "pi_client_in (wait_turn br p) = pi_client_in p" "pi_stream_out (wait_turn br p) = pi_stream_out p"
  "pi_stream_fin (wait_turn br p) = pi_stream_fin p" "pi_stream_in (wait_turn br p) = pi_stream_in p"
  "pi_client_out (wait_turn br p) = pi_client_out p" "pi_client_fin (wait_turn br p) = pi_client_fin p"
  "pi_shutdown (wait_turn br p) = pi_shutdown p"
  by (auto simp: wait_turn_def split: pipe_phase.split branch.split)

lemma wait_turn_task:
  "pi_uplink (wait_turn br p) \<in> {pi_uplink p, abort_task (pi_uplink p)}"
  "pi_downlink (wait_turn br p) \<in> {pi_downlink p, abort_task (pi_downlink p)}"
  by (auto simp: wait_turn_def split: pipe_phase.split branch.split)

lemma pipe_ok_wait: "pipe_ok r up down st (p, s) \<Longrightarrow> pipe_ok r up down st (wait_turn br p, s)"
  using wait_turn_task [of br p] copied_abort by (auto simp: pipe_ok_def)

lemma pipe_ok_turn: "pipe_ok r up down st s \<Longrightarrow> pipe_ok r up down st (pipe_turn r ev s)"
  by (cases s; cases ev) (auto intro: pipe_ok_uplink pipe_ok_downlink pipe_ok_wait)

lemma pipe_ok_fold: "pipe_ok r up down st s \<Longrightarrow> pipe_ok r up down st (fold (pipe_turn r) evs s)"
  by (induction evs arbitrary: s) (simp_all add: pipe_ok_turn)

lemma pipe_start_ok:
  assumes "pipe_start r b w initial client_in stream_in st = (Inr p, st1)"
    and "length (case initial of None \<Rightarrow> [] | Some d \<Rightarrow> d) < 2 ^ 64"
  shows "pipe_ok r ((case initial of None \<Rightarrow> [] | Some d \<Rightarrow> d) @ client_in) stream_in st (p, st1)"
proof (cases initial)
  case None
  then show ?thesis
    using assms by (auto simp: pipe_start_def copied_def recorded_def rx_sum_def tx_sum_def intro!: pipe_okI [where ss = "[]"])
next
  case (Some data)
  then show ?thesis
    using assms by (auto simp: pipe_start_def Let_def copied_def recorded_def rx_sum_def tx_sum_def unat_of_nat
        split: if_splits intro!: pipe_okI [where ss = "[(0, of_nat (length data))]"])
qed

section \<open>The pipe ends\<close>

text \<open>A run in which writes succeed and no shutdown signal arrives.\<close>

fun calm :: "pipe_event \<Rightarrow> bool" where
  "calm (UplinkRead n w) = w"
| "calm (DownlinkRead n w) = w"
| "calm (WaitTurn br) = (br \<noteq> BrSignal)"

fun is_up :: "pipe_event \<Rightarrow> bool" where
  "is_up (UplinkRead n w) = True" | "is_up _ = False"

fun is_down :: "pipe_event \<Rightarrow> bool" where
  "is_down (DownlinkRead n w) = True" | "is_down _ = False"

definition healthy :: "pipe \<Rightarrow> bool" where
  "healthy p \<longleftrightarrow> pi_uplink p \<in> {Running, TaskOk} \<and> pi_downlink p \<in> {Running, TaskOk} \<and>
     (pi_phase p = AwaitDownlink \<longrightarrow> pi_uplink p = TaskOk) \<and> (pi_phase p = AwaitUplink \<longrightarrow> pi_downlink p = TaskOk) \<and>
     (\<forall>x. pi_phase p = PipeEnded x \<longrightarrow> x = Inr ())"

definition up_left :: "pipe \<Rightarrow> nat" where
  "up_left p = (if pi_uplink p = Running then Suc (length (pi_client_in p)) else 0)"

definition down_left :: "pipe \<Rightarrow> nat" where
  "down_left p = (if pi_downlink p = Running then Suc (length (pi_stream_in p)) else 0)"

lemma healthy_upd [simp]:
  "healthy (p\<lparr>pi_client_in := x, pi_stream_out := y\<rparr>) = healthy p"
  "healthy (p\<lparr>pi_stream_in := x, pi_client_out := y\<rparr>) = healthy p"
  by (simp_all add: healthy_def)

lemma healthy_end:
  "healthy p \<Longrightarrow> healthy (p\<lparr>pi_stream_fin := b, pi_uplink := TaskOk\<rparr>)"
  "healthy p \<Longrightarrow> healthy (p\<lparr>pi_client_fin := b, pi_downlink := TaskOk\<rparr>)"
  by (simp_all add: healthy_def)

lemma healthy_wait:
  assumes "healthy p" and "br \<noteq> BrSignal"
  shows "healthy (wait_turn br p)" "pi_uplink (wait_turn br p) = pi_uplink p" "pi_downlink (wait_turn br p) = pi_downlink p"
  using assms
  by (cases "pi_phase p"; cases br; cases "pi_uplink p"; cases "pi_downlink p";
      simp add: wait_turn_def healthy_def task_failed_def finish_both_def)+

lemma read_size_left: "xs \<noteq> [] \<Longrightarrow> Suc (length xs - read_size n xs) \<le> length xs"
  using read_size_0 [of n xs] by (cases "read_size n xs"; cases xs) auto

lemma healthy_turn:
  assumes "healthy (fst s)" and "calm ev"
  shows "healthy (fst (pipe_turn r ev s))"
    and "up_left (fst (pipe_turn r ev s)) \<le> up_left (fst s) - (if is_up ev then 1 else 0)"
    and "down_left (fst (pipe_turn r ev s)) \<le> down_left (fst s) - (if is_down ev then 1 else 0)"
proof -
  obtain p st where s: "s = (p, st)" by (cases s)
  have p: "healthy p" using assms(1) by (simp add: s)
  have *: "healthy (fst (pipe_turn r ev s)) \<and>
    up_left (fst (pipe_turn r ev s)) \<le> up_left (fst s) - (if is_up ev then 1 else 0) \<and>
    down_left (fst (pipe_turn r ev s)) \<le> down_left (fst s) - (if is_down ev then 1 else 0)"
  proof (cases ev)
    case (UplinkRead n w)
    consider "pi_uplink p \<noteq> Running" | "pi_uplink p = Running" "pi_client_in p = []"
      | "pi_uplink p = Running" "pi_client_in p \<noteq> []" by blast
    then show ?thesis
      using assms(2) p UplinkRead read_size_left [of "pi_client_in p" n]
      by cases (simp_all add: s uplink_turn_def uplink_copy_def healthy_end up_left_def down_left_def Let_def)
  next
    case (DownlinkRead n w)
    consider "pi_downlink p \<noteq> Running" | "pi_downlink p = Running" "pi_stream_in p = []"
      | "pi_downlink p = Running" "pi_stream_in p \<noteq> []" by blast
    then show ?thesis
      using assms(2) p DownlinkRead read_size_left [of "pi_stream_in p" n]
      by cases (simp_all add: s downlink_turn_def downlink_copy_def healthy_end up_left_def down_left_def Let_def)
  next
    case (WaitTurn br)
    then show ?thesis using assms(2) healthy_wait [OF p] by (simp add: s up_left_def down_left_def)
  qed
  then show "healthy (fst (pipe_turn r ev s))"
    "up_left (fst (pipe_turn r ev s)) \<le> up_left (fst s) - (if is_up ev then 1 else 0)"
    "down_left (fst (pipe_turn r ev s)) \<le> down_left (fst s) - (if is_down ev then 1 else 0)" by blast+
qed

lemma healthy_fold:
  assumes "healthy (fst s)" and "list_all calm evs"
  shows "healthy (fst (fold (pipe_turn r) evs s))"
    and "up_left (fst (fold (pipe_turn r) evs s)) \<le> up_left (fst s) - length (filter is_up evs)"
    and "down_left (fst (fold (pipe_turn r) evs s)) \<le> down_left (fst s) - length (filter is_down evs)"
  using assms
proof (induction evs arbitrary: s)
  case (Cons ev evs)
  {
    case 1
    then show ?case using Cons.IH(1) healthy_turn(1) by simp
  next
    case 2
    then show ?case using Cons.IH(2) [of "pipe_turn r ev s"] healthy_turn(1,2) [of s ev r] by (auto split: if_splits)
  next
    case 3
    then show ?case using Cons.IH(3) [of "pipe_turn r ev s"] healthy_turn(1,3) [of s ev r] by (auto split: if_splits)
  }
qed auto

lemma healthy_done:
  assumes "healthy p" and "pi_uplink p = TaskOk" and "pi_downlink p = TaskOk"
  shows "pi_phase (wait_turn BrUplink (wait_turn BrUplink p)) = PipeEnded (Inr ())"
  using assms by (cases "pi_phase p") (auto simp: healthy_def wait_turn_def finish_both_def task_failed_def)

lemma pipe_start_healthy:
  assumes "pipe_start r b w initial client_in stream_in st = (Inr p, st1)"
  shows "healthy p" "up_left p = Suc (length client_in)" "down_left p = Suc (length stream_in)"
  using assms by (auto simp: pipe_start_def Let_def healthy_def up_left_def down_left_def split: option.splits if_splits)

section \<open>Properties\<close>

definition demo_route :: stream_route where
  "demo_route = \<lparr>sr_tunnel_id = ''t1'', sr_client_id = ''c1''\<rparr>"

definition demo_duplex :: "bool \<Rightarrow> duplex" where
  "demo_duplex alive = \<lparr>dx_writable = alive, dx_written = [], dx_input = [0, 0, 0, 1, 7], dx_ended = False\<rparr>"

definition demo_pool_state :: app_state where
  "demo_pool_state = demo_state\<lparr>
     app_clients := [(''c1'', \<lparr>cn_mux = 0, cn_pool = 0, cn_data_session_id = ''s1''\<rparr>)],
     app_pools := [[demo_duplex False, demo_duplex True, demo_duplex True]]\<rparr>"



definition demo_pipe :: pipe where
  "demo_pipe = \<lparr>pi_client_in = [2, 3, 4], pi_stream_out = [1], pi_stream_fin = False, pi_stream_in = [8, 9],
     pi_client_out = [], pi_client_fin = False, pi_uplink = Running, pi_downlink = Running,
     pi_phase = Selecting, pi_shutdown = True\<rparr>"

lemma demo_start:
  "pipe_start (Some demo_route) True True (Some [1]) [2, 3, 4] [8, 9] demo_state =
     (Inr demo_pipe, recorder_add demo_route 0 1 demo_state)"
  by (simp add: pipe_start_def demo_pipe_def record_opt_def)





text \<open>
  C24: a shutdown signal ends a session that is not yet half closed. In the first wait of a pipe
  that was given a shutdown receiver the signal ends the pipe without an error, no task is
  left running, and nothing is forwarded or recorded from then on, whatever happens.
\<close>

theorem shutdown_ends_pipe:
  assumes "pi_phase p = Selecting" and "pi_shutdown p"
  shows "fold (pipe_turn r) evs (wait_turn BrSignal p, st) = (wait_turn BrSignal p, st) \<and>
         pi_phase (wait_turn BrSignal p) = PipeEnded (Inr ())"
proof -
  let ?p = "wait_turn BrSignal p"
  have p: "pi_phase ?p = PipeEnded (Inr ())" "pi_uplink ?p \<noteq> Running" "pi_downlink ?p \<noteq> Running"
    using assms by (auto simp: wait_turn_def abort_task_def)
  have "pipe_turn r ev (?p, st) = (?p, st)" for ev
    using p by (cases ev) (auto simp: uplink_turn_def uplink_copy_def downlink_turn_def downlink_copy_def wait_turn_def [of _ ?p])
  then show ?thesis using p(1) by (induction evs) simp_all
qed

theorem shutdown_ends_pipe_witness:
  "fold (pipe_turn (Some demo_route)) [UplinkRead 1 True, DownlinkRead 1 True] (wait_turn BrSignal demo_pipe, demo_state) =
     (wait_turn BrSignal demo_pipe, demo_state) \<and> pi_phase (wait_turn BrSignal demo_pipe) = PipeEnded (Inr ())"
  by (rule shutdown_ends_pipe) (simp_all add: demo_pipe_def)

text \<open>
  Once one direction has ended, the function only waits for the other task: a shutdown signal
  no longer has any effect, and the remaining direction goes on forwarding.
\<close>

lemma half_closed_ignores_shutdown:
  assumes "pi_phase p = AwaitDownlink" and "pi_downlink p = Running" and "pi_stream_in p \<noteq> []"
  shows "wait_turn BrSignal p = p \<and>
         length (pi_client_out p) < length (pi_client_out (fst (downlink_turn r n True (wait_turn BrSignal p, st))))"
proof -
  have w: "wait_turn BrSignal p = p" using assms by (simp add: wait_turn_def)
  show ?thesis unfolding w using assms(2,3) read_size_0 [of n "pi_stream_in p"]
    by (cases "read_size n (pi_stream_in p)") (simp_all add: downlink_turn_def downlink_copy_def Let_def)
qed

end
