(* ===== verification/Bridge.thy ===== *)
theory Bridge
  imports Proxy_Tcp Noise
begin

text \<open>
  The bridge, \<^verbatim>\<open>crates/rps-controller/src/bridge.rs\<close>: the listener agents connect to.
  \<open>handle_conn\<close> is split where it starts to wait: \<open>bridge_accept\<close> is everything up
  to the registered session, on the bytes the peer sends; \<open>control_loop\<close> is the loop of
  a control session, and \<open>control_end\<close> and \<open>data_end\<close> are what follows the loops. The
  JSON library's parsers for the three messages are \<open>pj\<close> (a record), the Noise library is
  \<open>lib\<close>. The stream behind the handshake delivers what the transport's inbound task
  decrypts.
\<close>

record json_in =
  prelude_from_slice :: "bytes \<Rightarrow> string + noise_prelude"
  hello_from_slice :: "bytes \<Rightarrow> string + hello"
  control_from_slice :: "bytes \<Rightarrow> string + control_message"

datatype bridge_outcome =
    Refused error
  | Denied hello_ack
  | ControlSession string string bytes
  | DataSession string string nat
  | Pooled nat
  | PoolDropped

text \<open>
  The handshake: the client that connected, its hello and what follows it, or why it failed.
  \<open>back\<close> are the bytes the bridge has sent in the clear, the answer of the handshake.
\<close>

definition bridge_handshake ::
  "('h, 's) snow \<Rightarrow> json_in \<Rightarrow> stmts \<Rightarrow> bytes \<Rightarrow> database \<Rightarrow> bytes \<times> (error + db_client \<times> hello \<times> bytes)" where
  "bridge_handshake lib pj q wire db =
     (case read_json (prelude_from_slice pj) wire of
        Inl e \<Rightarrow> ([], Inl e)
      | Inr (prelude, wire1) \<Rightarrow>
          if np_magic prelude \<noteq> MAGIC then ([], Inl (Bail ''bad magic''))
          else
            (case find_enabled_client_by_id q (np_client_id prelude) db of
               Inl e \<Rightarrow> ([], Inl e)
             | Inr None \<Rightarrow> ([], Inl (Bail ''invalid client id''))
             | Inr (Some client) \<Rightarrow>
                 (case accept lib (cl_psk client) wire1 of
                    (back, Inl e) \<Rightarrow> (back, Inl e)
                  | (back, Inr (s, wire2)) \<Rightarrow>
                      (case read_json (hello_from_slice pj) (inbound_loop lib s (\<lambda>_. True) wire2) of
                         Inl e \<Rightarrow> (back, Inl e)
                       | Inr (hello, rest) \<Rightarrow> (back, Inr (client, hello, rest))))))"

text \<open>A connection handed to the pool.\<close>

definition pool_send :: "nat \<Rightarrow> duplex \<Rightarrow> app_state \<Rightarrow> bridge_outcome \<times> app_state" where
  "pool_send p d st =
     (if pool_open p st
      then (Pooled p, st\<lparr>app_pools := (app_pools st)[p := app_pools st ! p @ [d]]\<rparr>)
      else (PoolDropped, st))"

text \<open>The start of a session of either kind: the record in the database, and for data the client map.\<close>

definition control_begin ::
  "stmts \<Rightarrow> int \<Rightarrow> string \<Rightarrow> string \<Rightarrow> string \<Rightarrow> bytes \<Rightarrow> app_state \<Rightarrow> bridge_outcome \<times> app_state" where
  "control_begin q now session_id cid remote_addr rest st =
     (case record_agent_connected q now session_id cid ''control'' remote_addr (app_db st) of
        (Inl e, db1) \<Rightarrow> (Refused e, st\<lparr>app_db := db1\<rparr>)
      | (Inr sid, db1) \<Rightarrow> (ControlSession cid sid rest, st\<lparr>app_db := db1\<rparr>))"

definition data_begin ::
  "stmts \<Rightarrow> int \<Rightarrow> string \<Rightarrow> string \<Rightarrow> string \<Rightarrow> app_state \<Rightarrow> bridge_outcome \<times> app_state" where
  "data_begin q now session_id cid remote_addr st =
     (case record_agent_connected q now session_id cid ''data'' remote_addr (app_db st) of
        (Inl e, db1) \<Rightarrow> (Refused e, st\<lparr>app_db := db1\<rparr>)
      | (Inr sid, db1) \<Rightarrow>
          let (conn, st1) = ClientConnection_new sid (st\<lparr>app_db := db1\<rparr>)
          in (DataSession cid sid (cn_mux conn),
              st1\<lparr>app_clients := AList.update cid conn (app_clients st1)\<rparr>))"

text \<open>
  \<^verbatim>\<open>handle_conn\<close> up to the session. \<open>ack_ok\<close> says whether the acknowledgement can be
  written; \<open>q i\<close> is the \<open>i\<close>-th statement; \<open>session_id\<close> a fresh id; \<open>ended\<close> says
  whether a pooled connection is seen to end while it is parked.
\<close>

definition bridge_accept ::
  "('h, 's) snow \<Rightarrow> json_in \<Rightarrow> bool \<Rightarrow> bool \<Rightarrow> stmts \<Rightarrow> int \<Rightarrow> string \<Rightarrow> string \<Rightarrow> bytes \<Rightarrow> app_state
     \<Rightarrow> bridge_outcome \<times> app_state" where
  "bridge_accept lib pj ack_ok ended q now session_id remote_addr wire st =
     (case snd (bridge_handshake lib pj q wire (app_db st)) of
        Inl e \<Rightarrow> (Refused e, st)
      | Inr (client, hello, rest) \<Rightarrow>
          if \<not> ack_ok then (Refused (IoError BrokenPipe ''broken pipe''), st)
          else if h_magic hello \<noteq> MAGIC then (Denied (HelloAck_err ''bad magic''), st)
          else if h_client_id hello \<noteq> cl_id client then (Denied (HelloAck_err ''client id mismatch''), st)
          else
            (case h_role hello of
               RolePool \<Rightarrow>
                 (case map_of (app_clients st) (cl_id client) of
                    Some conn \<Rightarrow>
                      pool_send (cn_pool conn)
                        \<lparr>dx_writable = True, dx_written = [], dx_input = rest, dx_ended = ended\<rparr> st
                  | None \<Rightarrow> (PoolDropped, st))
             | RoleControl \<Rightarrow> control_begin (\<lambda>i. q (Suc i)) now session_id (cl_id client) remote_addr rest st
             | RoleData \<Rightarrow> data_begin (\<lambda>i. q (Suc i)) now session_id (cl_id client) remote_addr st))"

text \<open>
  The loop of a control session on what the agent sends: the answers it writes, and whether
  it left the loop or failed to write an answer. \<open>write_ok k\<close> is the \<open>k\<close>-th write.
\<close>

lemma read_json_consumes: "read_json from_slice bs = Inr (v, rest) \<Longrightarrow> length rest < length bs"
  by (auto simp: read_json_Inr)

function control_loop :: "json_in \<Rightarrow> (nat \<Rightarrow> bool) \<Rightarrow> bytes \<Rightarrow> control_message list \<times> (error + unit)" where
  "control_loop pj write_ok input =
     (case read_json (control_from_slice pj) input of
        Inl e \<Rightarrow> ([], Inr ())
      | Inr (CPing ts, rest) \<Rightarrow>
          if \<not> write_ok 0 then ([], Inl (IoError BrokenPipe ''broken pipe''))
          else (let (out, r) = control_loop pj (\<lambda>k. write_ok (Suc k)) rest in (CPong ts # out, r))
      | Inr (CPong ts, rest) \<Rightarrow> control_loop pj write_ok rest
      | Inr (CShutdown reason, rest) \<Rightarrow> ([], Inr ()))"
  by pat_completeness auto
termination
  by (relation "measure (\<lambda>(pj, w, input). length input)") (auto dest: read_json_consumes)

declare control_loop.simps [simp del]

text \<open>What follows the loops. A failed answer leaves the function before the session is closed.\<close>

definition control_end :: "stmts \<Rightarrow> int \<Rightarrow> string \<Rightarrow> string \<Rightarrow> error + unit \<Rightarrow> app_state \<Rightarrow> app_state" where
  "control_end q now cid session_id result st =
     (case result of
        Inl e \<Rightarrow> st
      | Inr _ \<Rightarrow> st\<lparr>app_db := snd (record_agent_disconnected q now session_id cid (app_db st))\<rparr>)"

definition remove_client_if :: "string \<Rightarrow> string \<Rightarrow> app_state \<Rightarrow> app_state" where
  "remove_client_if cid session_id st =
     (case map_of (app_clients st) cid of
        Some conn \<Rightarrow>
          if cn_data_session_id conn = session_id
          then st\<lparr>app_clients := AList.delete cid (app_clients st)\<rparr> else st
      | None \<Rightarrow> st)"

definition data_end :: "stmts \<Rightarrow> int \<Rightarrow> string \<Rightarrow> string \<Rightarrow> app_state \<Rightarrow> app_state" where
  "data_end q now cid session_id st =
     (let st1 = remove_client_if cid session_id st
      in st1\<lparr>app_db := snd (record_agent_disconnected q now session_id cid (app_db st1))\<rparr>)"

section \<open>The client map\<close>

text \<open>
  Every connected client has a mux and a pool of its own: the indices are in range and no two
  clients share one.
\<close>

definition link_inv :: "app_state \<Rightarrow> bool" where
  "link_inv st \<longleftrightarrow>
     distinct (keys (app_clients st)) \<and>
     inj_on (cn_mux \<circ> snd) (set (app_clients st)) \<and> inj_on (cn_pool \<circ> snd) (set (app_clients st)) \<and>
     (\<forall>(k, c) \<in> set (app_clients st). cn_mux c < length (app_muxes st) \<and> cn_pool c < length (app_pools st))"

lemma link_inv_upd [simp]:
  "link_inv (st\<lparr>app_db := d\<rparr>) = link_inv st" "link_inv (st\<lparr>app_policy := e\<rparr>) = link_inv st"
  "link_inv (st\<lparr>app_traffic := t\<rparr>) = link_inv st" "link_inv (st\<lparr>app_tunnels := tm\<rparr>) = link_inv st"
  "link_inv (st\<lparr>app_proxies := pm\<rparr>) = link_inv st"
  "link_inv (st\<lparr>app_pools := (app_pools st)[i := x]\<rparr>) = link_inv st"
  "link_inv (st\<lparr>app_muxes := (app_muxes st)[i := y]\<rparr>) = link_inv st"
  by (simp_all add: link_inv_def)

lemma set_update_subset: "set (AList.update k v al) \<subseteq> insert (k, v) (set al)"
  by (induction al) auto

lemma link_inv_connect:
  assumes "link_inv st" and "ClientConnection_new sid st = (conn, st1)"
  shows "link_inv (st1\<lparr>app_clients := AList.update cid conn (app_clients st1)\<rparr>)"
proof -
  have st1: "st1 = st\<lparr>app_muxes := app_muxes st @ [mux_new], app_pools := app_pools st @ [[]]\<rparr>"
    "cn_mux conn = length (app_muxes st)" "cn_pool conn = length (app_pools st)"
    using assms(2) by (auto simp: ClientConnection_new_def)
  let ?al = "AList.update cid conn (app_clients st)"
  have sub: "set ?al \<subseteq> insert (cid, conn) (set (app_clients st))" by (rule set_update_subset)
  have old: "cn_mux c < length (app_muxes st) \<and> cn_pool c < length (app_pools st)" if "(k, c) \<in> set (app_clients st)" for k c
    using assms(1) that by (auto simp: link_inv_def)
  have d: "distinct (keys ?al)" using assms(1) by (simp add: link_inv_def)
  have new: "x = (cid, conn)" if "x \<in> set ?al" "snd x = conn" for x
  proof -
    have "x = (cid, conn) \<or> (fst x, conn) \<in> set (app_clients st)" using that sub by (cases x) auto
    then show ?thesis using old [of "fst x" conn] st1 by auto
  qed
  have inj: "inj_on (f \<circ> snd) (set ?al)"
    if "inj_on (f \<circ> snd) (set (app_clients st))" "\<And>k c. (k, c) \<in> set (app_clients st) \<Longrightarrow> f c \<noteq> f conn" for f
  proof (rule inj_onI)
    fix x y assume xy: "x \<in> set ?al" "y \<in> set ?al" "(f \<circ> snd) x = (f \<circ> snd) y"
    consider "snd x = conn" "snd y = conn" | "x \<in> set (app_clients st)" "y \<in> set (app_clients st)"
      | "snd x = conn" "y \<in> set (app_clients st)" | "x \<in> set (app_clients st)" "snd y = conn"
      using xy(1,2) sub by fastforce
    then show "x = y"
    proof cases
      case 1
      then show ?thesis using new xy(1,2) by metis
    next
      case 2
      then show ?thesis using inj_onD [OF that(1) xy(3)] by simp
    next
      case 3
      then show ?thesis using that(2) [of "fst y" "snd y"] xy(3) by auto
    next
      case 4
      then show ?thesis using that(2) [of "fst x" "snd x"] xy(3) by auto
    qed
  qed
  have "inj_on (cn_mux \<circ> snd) (set ?al)" "inj_on (cn_pool \<circ> snd) (set ?al)"
    using assms(1) old st1 by (auto simp: link_inv_def intro!: inj)
  then show ?thesis using d sub old st1 by (fastforce simp: link_inv_def)
qed

lemma link_inv_data_begin: "link_inv st \<Longrightarrow> link_inv (snd (data_begin q now sid cid remote st))"
  by (auto simp: data_begin_def Let_def split: prod.split sum.split intro: link_inv_connect [where st = "st\<lparr>app_db := d\<rparr>" for d])

lemma link_inv_delete: "link_inv st \<Longrightarrow> link_inv (st\<lparr>app_clients := AList.delete cid (app_clients st)\<rparr>)"
  by (auto simp: link_inv_def AList.delete_eq distinct_map inj_on_def)

lemma link_inv_data_end: "link_inv st \<Longrightarrow> link_inv (data_end q now cid sid st)"
  by (auto simp: data_end_def remove_client_if_def Let_def link_inv_delete split: option.split)

section \<open>Sessions over time\<close>

datatype link_event = DataUp string string | DataDown string string

fun link_turn :: "int \<Rightarrow> link_event \<Rightarrow> app_state \<Rightarrow> app_state" where
  "link_turn now (DataUp cid sid) st = snd (data_begin (\<lambda>_. True) now sid cid ''peer'' st)"
| "link_turn now (DataDown cid sid) st = data_end (\<lambda>_. True) now cid sid st"

definition session_of :: "string \<Rightarrow> app_state \<Rightarrow> string option" where
  "session_of cid st = map_option cn_data_session_id (map_of (app_clients st) cid)"

text \<open>The latest data session of a client in a history, if it has not ended since.\<close>

definition latest :: "string \<Rightarrow> string \<Rightarrow> link_event list \<Rightarrow> bool" where
  "latest cid sid evs \<longleftrightarrow>
     (\<exists>pre post. evs = pre @ DataUp cid sid # post \<and> (\<forall>s. DataUp cid s \<notin> set post) \<and> DataDown cid sid \<notin> set post)"

lemma latest_snoc:
  "latest cid sid (evs @ [e]) \<longleftrightarrow>
     e = DataUp cid sid \<or> (latest cid sid evs \<and> (\<forall>s. e \<noteq> DataUp cid s) \<and> e \<noteq> DataDown cid sid)"
proof
  assume "latest cid sid (evs @ [e])"
  then obtain pre post where h: "evs @ [e] = pre @ DataUp cid sid # post" "\<forall>s. DataUp cid s \<notin> set post"
    "DataDown cid sid \<notin> set post" by (auto simp: latest_def)
  show "e = DataUp cid sid \<or> (latest cid sid evs \<and> (\<forall>s. e \<noteq> DataUp cid s) \<and> e \<noteq> DataDown cid sid)"
  proof (cases post rule: rev_cases)
    case Nil
    then show ?thesis using h(1) by simp
  next
    case (snoc post' x)
    then have "evs = pre @ DataUp cid sid # post'" "x = e" using h(1) by auto
    then show ?thesis using h snoc by (auto simp: latest_def)
  qed
next
  assume "e = DataUp cid sid \<or> (latest cid sid evs \<and> (\<forall>s. e \<noteq> DataUp cid s) \<and> e \<noteq> DataDown cid sid)"
  then show "latest cid sid (evs @ [e])"
  proof
    assume "e = DataUp cid sid"
    then show ?thesis unfolding latest_def by (intro exI [of _ evs] exI [of _ "[]"]) simp
  next
    assume a: "latest cid sid evs \<and> (\<forall>s. e \<noteq> DataUp cid s) \<and> e \<noteq> DataDown cid sid"
    then obtain pre post where "evs = pre @ DataUp cid sid # post" "\<forall>s. DataUp cid s \<notin> set post"
      "DataDown cid sid \<notin> set post" by (auto simp: latest_def)
    with a show ?thesis unfolding latest_def by (intro exI [of _ pre] exI [of _ "post @ [e]"]) auto
  qed
qed

fun up_ids :: "link_event list \<Rightarrow> string list" where
  "up_ids [] = []"
| "up_ids (DataUp cid sid # evs) = sid # up_ids evs"
| "up_ids (DataDown cid sid # evs) = up_ids evs"

lemma up_ids_append [simp]: "up_ids (a @ b) = up_ids a @ up_ids b"
  by (induction a rule: up_ids.induct) auto

definition session_ids :: "app_state \<Rightarrow> string set" where
  "session_ids st = s_id ` set (agent_sessions (app_db st))"

lemma session_ids_turn: "session_ids (link_turn now e st) \<subseteq> session_ids st \<union> set (up_ids [e])"
proof (cases e)
  case (DataUp cid sid)
  then show ?thesis
    by (auto simp: session_ids_def data_begin_def record_agent_connected_def ClientConnection_new_def Let_def)
next
  case (DataDown cid sid)
  then show ?thesis
    by (auto simp: session_ids_def data_end_def remove_client_if_def record_agent_disconnected_def Let_def update_rows_def
        split: option.splits)
qed

lemma session_ids_fold: "session_ids (fold (link_turn now) evs st) \<subseteq> session_ids st \<union> set (up_ids evs)"
proof (induction evs rule: rev_induct)
  case (snoc e evs)
  then show ?case using session_ids_turn [of now e "fold (link_turn now) evs st"] by auto
qed simp

lemma session_of_turn:
  assumes "set (up_ids [e]) \<inter> session_ids st = {}"
  shows "session_of cid (link_turn now e st) =
    (case e of DataUp c s \<Rightarrow> if c = cid then Some s else session_of cid st
     | DataDown c s \<Rightarrow> if c = cid \<and> session_of cid st = Some s then None else session_of cid st)"
proof (cases e)
  case (DataUp c s)
  then have "\<forall>r \<in> set (agent_sessions (app_db st)). s_id r \<noteq> s" using assms by (auto simp: session_ids_def)
  then show ?thesis
    using DataUp by (auto simp: session_of_def data_begin_def record_agent_connected_def ClientConnection_new_def Let_def)
next
  case (DataDown c s)
  then show ?thesis
    by (auto simp: session_of_def data_end_def remove_client_if_def Let_def split: option.split)
qed

lemma session_of_history:
  assumes "distinct (up_ids evs)" and "set (up_ids evs) \<inter> session_ids st = {}" and "session_of cid st = None"
  shows "session_of cid (fold (link_turn now) evs st) = Some sid \<longleftrightarrow> latest cid sid evs"
  using assms
proof (induction evs arbitrary: sid rule: rev_induct)
  case Nil
  then show ?case by (simp add: latest_def)
next
  case (snoc e evs)
  let ?st = "fold (link_turn now) evs st"
  have fresh: "set (up_ids [e]) \<inter> session_ids ?st = {}"
    using session_ids_fold [of now evs st] snoc.prems(1,2) by auto
  have ih: "session_of cid ?st = Some x \<longleftrightarrow> latest cid x evs" for x
    using snoc.IH snoc.prems by auto
  show ?case
    unfolding latest_snoc ih [symmetric] using session_of_turn [OF fresh, of cid now] by (cases e) auto
qed

section \<open>Properties\<close>

text \<open>
  C16: streams go to the latest data session. Whatever the order in which the data connections of
  agents come and go, the connection that proxies use for a client is the one that connected
  last, for as long as it has not ended; the end of an older connection never removes a
  newer one; and different clients never share a mux or a pool.
\<close>

theorem latest_session_serves:
  assumes "distinct (up_ids evs)" and "set (up_ids evs) \<inter> session_ids st = {}" and "app_clients st = []"
  shows "(session_of cid (fold (link_turn now) evs st) = Some sid \<longleftrightarrow>
           (\<exists>pre post. evs = pre @ DataUp cid sid # post \<and> (\<forall>s. DataUp cid s \<notin> set post) \<and> DataDown cid sid \<notin> set post)) \<and>
         link_inv (fold (link_turn now) evs st)"
proof -
  have turn: "link_inv s \<Longrightarrow> link_inv (link_turn now e s)" for e s
    by (cases e) (auto intro: link_inv_data_begin link_inv_data_end)
  have "link_inv s \<Longrightarrow> link_inv (fold (link_turn now) evs s)" for s
    by (induction evs arbitrary: s) (simp_all add: turn)
  moreover have "link_inv st" using assms(3) by (simp add: link_inv_def)
  ultimately show ?thesis
    using session_of_history [OF assms(1,2)] assms(3) unfolding latest_def by (simp add: session_of_def)
qed

theorem latest_session_serves_witness:
  "let evs = [DataUp ''c1'' ''s1'', DataUp ''c1'' ''s2'', DataDown ''c1'' ''s1'']
   in session_of ''c1'' (fold (link_turn 5) evs (AppState_new demo_config empty_database)) = Some ''s2''"
proof -
  let ?evs = "[DataUp ''c1'' ''s1'', DataUp ''c1'' ''s2'', DataDown ''c1'' ''s1'']"
  have "distinct (up_ids ?evs)" "set (up_ids ?evs) \<inter> session_ids (AppState_new demo_config empty_database) = {}"
    "app_clients (AppState_new demo_config empty_database) = []"
    by (simp_all add: session_ids_def AppState_new_def empty_database_def)
  moreover have "?evs = [DataUp ''c1'' ''s1''] @ DataUp ''c1'' ''s2'' # [DataDown ''c1'' ''s1''] \<and>
      (\<forall>s. DataUp ''c1'' s \<notin> set [DataDown ''c1'' ''s1'']) \<and> DataDown ''c1'' ''s2'' \<notin> set [DataDown ''c1'' ''s1'']" by simp
  ultimately show ?thesis
    unfolding Let_def using latest_session_serves [of ?evs "AppState_new demo_config empty_database" "''c1''" 5 "''s2''"] by blast
qed

text \<open>
  The database's online flag is different: it is cleared by the end of any session of the
  client, so a client whose connection is in use can be shown as offline; and a control
  session whose answer cannot be written is never recorded as ended.
\<close>

lemma online_flag_lags:
  "let st = fold (link_turn 5) [DataUp ''c1'' ''s1'', DataUp ''c1'' ''s2'', DataDown ''c1'' ''s1'']
              (AppState_new demo_config empty_database)
   in session_of ''c1'' st = Some ''s2'' \<and> map o_online (client_online (app_db st)) = [0]"
  by (simp add: session_of_def data_begin_def data_end_def remove_client_if_def record_agent_connected_def
      record_agent_disconnected_def ClientConnection_new_def AppState_new_def empty_database_def upsert_row_def update_rows_def
      Let_def)

lemma failed_pong_leaves_session_open:
  assumes "read_json (control_from_slice pj) input = Inr (CPing ts, rest)" and "\<not> write_ok 0"
  shows "control_end q now cid sid (snd (control_loop pj write_ok input)) st = st"
  using assms by (simp add: control_loop.simps control_end_def)

end
