(* ===== verification/Ip_Text.thy ===== *)
theory Ip_Text
  imports Rust_Str
begin

text \<open>
  The textual form of IP addresses in the Rust standard library, which the SOCKS5 proxy uses
  to pass addresses on: \<^verbatim>\<open>Display\<close> and \<^verbatim>\<open>FromStr\<close> of \<^verbatim>\<open>Ipv4Addr\<close> and
  \<^verbatim>\<open>Ipv6Addr\<close>. An IPv4 address is its four octets, an IPv6 address its eight 16-bit
  groups. The lemmas give the round trip for both.
\<close>

section \<open>Numbers\<close>

text \<open>\<^verbatim>\<open>char::to_digit\<close> for the radices 10 and 16.\<close>

definition to_digit :: "nat \<Rightarrow> char \<Rightarrow> nat option" where
  "to_digit radix c =
     (let b = of_char c :: nat;
          v = (if 48 \<le> b \<and> b \<le> 57 then Some (b - 48)
               else if 97 \<le> b \<and> b \<le> 122 then Some (b - 87)
               else if 65 \<le> b \<and> b \<le> 90 then Some (b - 55) else None)
      in case v of None \<Rightarrow> None | Some d \<Rightarrow> if d < radix then Some d else None)"

text \<open>
  The loop of the parser's \<^verbatim>\<open>read_number\<close>: digits as long as there are some, with a
  bound on the value and on the number of digits. The result has the value, the number of
  digits and the rest.
\<close>

fun read_digits :: "nat \<Rightarrow> nat \<Rightarrow> nat \<Rightarrow> nat \<Rightarrow> nat \<Rightarrow> string \<Rightarrow> (nat \<times> nat \<times> string) option" where
  "read_digits radix maxv maxd acc n [] = Some (acc, n, [])"
| "read_digits radix maxv maxd acc n (c # cs) =
     (case to_digit radix c of
        None \<Rightarrow> Some (acc, n, c # cs)
      | Some d \<Rightarrow>
          if acc * radix + d > maxv then None
          else if n + 1 > maxd then None
          else read_digits radix maxv maxd (acc * radix + d) (n + 1) cs)"

definition read_number :: "nat \<Rightarrow> nat \<Rightarrow> nat \<Rightarrow> bool \<Rightarrow> string \<Rightarrow> (nat \<times> string) option" where
  "read_number radix maxv maxd allow_zero_prefix s =
     (case read_digits radix maxv maxd 0 0 s of
        None \<Rightarrow> None
      | Some (v, n, rest) \<Rightarrow>
          if n = 0 then None
          else if \<not> allow_zero_prefix \<and> n > 1 \<and> s \<noteq> [] \<and> hd s = CHR ''0'' then None
          else Some (v, rest))"

text \<open>
  \<^verbatim>\<open>str::parse\<close> of an unsigned integer: an optional plus sign and at least one digit, with
  a value of at most \<open>maxv\<close>.
\<close>

fun dec_value :: "nat \<Rightarrow> string \<Rightarrow> nat option" where
  "dec_value acc [] = Some acc"
| "dec_value acc (c # cs) =
     (case to_digit 10 c of None \<Rightarrow> None | Some d \<Rightarrow> dec_value (acc * 10 + d) cs)"

definition parse_dec :: "nat \<Rightarrow> string \<Rightarrow> nat option" where
  "parse_dec maxv s =
     (let digits = (if s \<noteq> [] \<and> hd s = CHR ''+'' then tl s else s)
      in if digits = [] then None
         else case dec_value 0 digits of None \<Rightarrow> None | Some v \<Rightarrow> if v \<le> maxv then Some v else None)"

definition read_given_char :: "char \<Rightarrow> string \<Rightarrow> string option" where
  "read_given_char c s = (case s of [] \<Rightarrow> None | x # xs \<Rightarrow> if x = c then Some xs else None)"

text \<open>\<^verbatim>\<open>read_separator\<close>: before every element but the first.\<close>

definition read_sep :: "char \<Rightarrow> nat \<Rightarrow> (string \<Rightarrow> ('a \<times> string) option) \<Rightarrow> string \<Rightarrow> ('a \<times> string) option" where
  "read_sep sep i p s =
     (if i = 0 then p s
      else (case read_given_char sep s of None \<Rightarrow> None | Some s1 \<Rightarrow> p s1))"

section \<open>IPv4\<close>

type_synonym ipv4 = "byte \<times> byte \<times> byte \<times> byte"

fun ipv4_to_string :: "ipv4 \<Rightarrow> string" where
  "ipv4_to_string (a, b, c, d) =
     dec_string (unat a) @ ''.'' @ dec_string (unat b) @ ''.'' @ dec_string (unat c) @ ''.'' @ dec_string (unat d)"

fun octets4 :: "ipv4 \<Rightarrow> bytes" where
  "octets4 (a, b, c, d) = [a, b, c, d]"

definition read_octet :: "string \<Rightarrow> (nat \<times> string) option" where
  "read_octet = read_number 10 255 3 False"

definition read_ipv4_addr :: "string \<Rightarrow> (ipv4 \<times> string) option" where
  "read_ipv4_addr s =
     (case read_sep CHR ''.'' 0 read_octet s of None \<Rightarrow> None | Some (a, s1) \<Rightarrow>
      case read_sep CHR ''.'' 1 read_octet s1 of None \<Rightarrow> None | Some (b, s2) \<Rightarrow>
      case read_sep CHR ''.'' 2 read_octet s2 of None \<Rightarrow> None | Some (c, s3) \<Rightarrow>
      case read_sep CHR ''.'' 3 read_octet s3 of None \<Rightarrow> None | Some (d, s4) \<Rightarrow>
      Some ((of_nat a, of_nat b, of_nat c, of_nat d), s4))"

text \<open>\<^verbatim>\<open>parse\<close> of an IPv4 address: at most 15 characters, all of them used.\<close>

definition ipv4_parse :: "string \<Rightarrow> ipv4 option" where
  "ipv4_parse s =
     (if length s > 15 then None
      else case read_ipv4_addr s of None \<Rightarrow> None | Some (ip, rest) \<Rightarrow> if rest = [] then Some ip else None)"

section \<open>IPv6\<close>

type_synonym ipv6 = "nat list"

definition ipv6_ok :: "ipv6 \<Rightarrow> bool" where
  "ipv6_ok ip \<longleftrightarrow> length ip = 8 \<and> (\<forall>g \<in> set ip. g < 65536)"

fun hex_string :: "nat \<Rightarrow> string" where
  "hex_string n =
     (let d = (\<lambda>k. if k < 10 then char_of (48 + k) else char_of (87 + k))
      in if n < 16 then [d n] else hex_string (n div 16) @ [d (n mod 16)])"

declare hex_string.simps [simp del]

text \<open>The first of the longest runs of zero groups: start and length.\<close>

fun zero_span :: "nat \<Rightarrow> nat list \<Rightarrow> nat \<times> nat \<Rightarrow> nat \<times> nat \<Rightarrow> nat \<times> nat" where
  "zero_span i [] current longest = longest"
| "zero_span i (g # gs) current longest =
     (if g = 0 then
        let current1 = (if snd current = 0 then (i, 1) else (fst current, snd current + 1))
        in zero_span (i + 1) gs current1 (if snd current1 > snd longest then current1 else longest)
      else zero_span (i + 1) gs (0, 0) longest)"

definition fmt_groups :: "nat list \<Rightarrow> string" where
  "fmt_groups gs = join '':'' (map hex_string gs)"

definition to_ipv4_mapped :: "ipv6 \<Rightarrow> ipv4 option" where
  "to_ipv4_mapped ip =
     (if take 6 ip = [0, 0, 0, 0, 0, 65535]
      then Some (of_nat (ip ! 6 div 256), of_nat (ip ! 6 mod 256), of_nat (ip ! 7 div 256), of_nat (ip ! 7 mod 256))
      else None)"

definition ipv6_to_string :: "ipv6 \<Rightarrow> string" where
  "ipv6_to_string ip =
     (case to_ipv4_mapped ip of
        Some v4 \<Rightarrow> ''::ffff:'' @ ipv4_to_string v4
      | None \<Rightarrow>
          let (start, len) = zero_span 0 ip (0, 0) (0, 0)
          in if len > 1 then fmt_groups (take start ip) @ ''::'' @ fmt_groups (drop (start + len) ip)
             else fmt_groups ip)"

text \<open>
  \<^verbatim>\<open>read_groups\<close> from slot \<open>i\<close> on, with \<open>k\<close> slots left: the groups read, and
  whether an IPv4 address ended them.
\<close>

fun read_groups :: "nat \<Rightarrow> nat \<Rightarrow> string \<Rightarrow> nat list \<times> bool \<times> string" where
  "read_groups i 0 s = ([], False, s)"
| "read_groups i (Suc k) s =
     (case (if k = 0 then None else read_sep CHR '':'' i read_ipv4_addr s) of
        Some ((a, b, c, d), s1) \<Rightarrow>
          ([unat a * 256 + unat b, unat c * 256 + unat d], True, s1)
      | None \<Rightarrow>
          (case read_sep CHR '':'' i (read_number 16 65535 4 True) s of
             None \<Rightarrow> ([], False, s)
           | Some (g, s1) \<Rightarrow> (let (gs, v4, s2) = read_groups (i + 1) k s1 in (g # gs, v4, s2))))"

definition read_ipv6_addr :: "string \<Rightarrow> (ipv6 \<times> string) option" where
  "read_ipv6_addr s =
     (let (head, head_v4, s1) = read_groups 0 8 s
      in if length head = 8 then Some (head, s1)
         else if head_v4 then None
         else (case read_given_char CHR '':'' s1 of None \<Rightarrow> None | Some s2 \<Rightarrow>
               case read_given_char CHR '':'' s2 of None \<Rightarrow> None | Some s3 \<Rightarrow>
                 (let (tail, tail_v4, s4) = read_groups 0 (7 - length head) s3
                  in Some (head @ replicate (8 - length head - length tail) 0 @ tail, s4))))"

definition ipv6_parse :: "string \<Rightarrow> ipv6 option" where
  "ipv6_parse s =
     (case read_ipv6_addr s of None \<Rightarrow> None | Some (ip, rest) \<Rightarrow> if rest = [] then Some ip else None)"

definition ipv6_from_octets :: "bytes \<Rightarrow> ipv6" where
  "ipv6_from_octets bs = map (\<lambda>i. unat (bs ! (2 * i)) * 256 + unat (bs ! (2 * i + 1))) [0..<8]"

definition octets6 :: "ipv6 \<Rightarrow> bytes" where
  "octets6 ip = concat (map (\<lambda>g. [of_nat (g div 256), of_nat (g mod 256)]) ip)"

section \<open>Reading back a printed number\<close>

definition stops :: "nat \<Rightarrow> string \<Rightarrow> bool" where
  "stops radix s \<longleftrightarrow> s = [] \<or> to_digit radix (hd s) = None"

lemma read_digits_stops: "stops radix s \<Longrightarrow> read_digits radix mv md acc n s = Some (acc, n, s)"
  by (cases s) (auto simp: stops_def)

lemma to_digit_digit_char: "d < 10 \<Longrightarrow> to_digit 10 (digit_char d) = Some d"
  by (simp add: to_digit_def digit_char_def)

lemma to_digit_hex:
  "d < 16 \<Longrightarrow> to_digit 16 (if d < 10 then char_of (48 + d) else char_of (87 + d)) = Some d"
  by (simp add: to_digit_def)

lemma read_digits_dec:
  assumes "g \<le> mv" and "length (dec_string g) \<le> md"
  shows "read_digits 10 mv md 0 0 (dec_string g @ rest) = read_digits 10 mv md g (length (dec_string g)) rest"
  using assms
proof (induction g arbitrary: rest rule: dec_string.induct)
  case (1 g)
  show ?case
  proof (cases "g < 10")
    case True
    then show ?thesis using "1.prems" by (simp add: dec_string.simps [of g] to_digit_digit_char)
  next
    case False
    have ih: "read_digits 10 mv md 0 0 (dec_string (g div 10) @ r) =
        read_digits 10 mv md (g div 10) (length (dec_string (g div 10))) r" for r
      using 1(1) [OF False] "1.prems" False by (simp add: dec_string.simps [of g])
    have "g div 10 * 10 + g mod 10 = g" by simp
    then show ?thesis
      using "1.prems" False by (simp add: dec_string.simps [of g] ih to_digit_digit_char)
  qed
qed

lemma read_digits_hex:
  assumes "g \<le> mv" and "length (hex_string g) \<le> md"
  shows "read_digits 16 mv md 0 0 (hex_string g @ rest) = read_digits 16 mv md g (length (hex_string g)) rest"
  using assms
proof (induction g arbitrary: rest rule: hex_string.induct)
  case (1 g)
  show ?case
  proof (cases "g < 16")
    case True
    then show ?thesis using "1.prems" to_digit_hex [of g] by (simp add: hex_string.simps [of g])
  next
    case False
    have ih: "read_digits 16 mv md 0 0 (hex_string (g div 16) @ r) =
        read_digits 16 mv md (g div 16) (length (hex_string (g div 16))) r" for r
      using 1(1) False "1.prems" by (simp add: hex_string.simps [of g])
    have "g div 16 * 16 + g mod 16 = g" by simp
    then show ?thesis
      using "1.prems" False to_digit_hex [of "g mod 16"] by (simp add: hex_string.simps [of g] ih)
  qed
qed

lemma dec_string_3: "g < 1000 \<Longrightarrow> 0 < length (dec_string g) \<and> length (dec_string g) \<le> 3"
  by (simp add: dec_string.simps [of g] dec_string.simps [of "g div 10"] dec_string.simps [of "g div 10 div 10"])

lemma hex_string_4: "g < 65536 \<Longrightarrow> 0 < length (hex_string g) \<and> length (hex_string g) \<le> 4"
  by (simp add: hex_string.simps [of g] hex_string.simps [of "g div 16"] hex_string.simps [of "g div 16 div 16"]
      hex_string.simps [of "g div 16 div 16 div 16"])

lemma dec_string_no_zero_prefix: "length (dec_string g) > 1 \<Longrightarrow> hd (dec_string g) \<noteq> CHR ''0''"
proof (induction g rule: dec_string.induct)
  case (1 g)
  then have g: "\<not> g < 10" by (auto simp: dec_string.simps [of g])
  have ne: "dec_string (g div 10) \<noteq> []" by (simp add: dec_string.simps [of "g div 10"])
  show ?case
  proof (cases "g div 10 < 10")
    case True
    define k where "k = g div 10"
    have "1 \<le> k" "k < 10" using g True by (simp_all add: k_def)
    moreover have "to_digit 10 CHR ''0'' = Some 0" by (simp add: to_digit_def)
    ultimately have "digit_char k \<noteq> CHR ''0''" using to_digit_digit_char [of k] by auto
    then have "digit_char (g div 10) \<noteq> CHR ''0''" by (simp add: k_def)
    then show ?thesis using g True by (simp add: dec_string.simps [of g] dec_string.simps [of "g div 10"])
  next
    case False
    then have "length (dec_string (g div 10)) > 1" by (simp add: dec_string.simps [of "g div 10"])
      (metis append_Nil dec_string.simps gr0I length_0_conv not_Cons_self2 snoc_eq_iff_butlast)
    then show ?thesis using 1(1) g ne by (simp add: dec_string.simps [of g])
  qed
qed

lemma read_octet_dec:
  assumes "stops 10 rest"
  shows "read_octet (dec_string (unat (b :: byte)) @ rest) = Some (unat b, rest)"
proof -
  have b: "unat b \<le> 255" using unat_byte_less [of b] by linarith
  have len: "0 < length (dec_string (unat b))" "length (dec_string (unat b)) \<le> 3"
    using dec_string_3 [of "unat b"] b by auto
  have "read_digits 10 255 3 0 0 (dec_string (unat b) @ rest) = Some (unat b, length (dec_string (unat b)), rest)"
    using read_digits_dec [OF b len(2)] read_digits_stops [OF assms] by simp
  then show ?thesis
    using len dec_string_no_zero_prefix [of "unat b"] by (auto simp: read_octet_def read_number_def hd_append)
qed

lemma read_group_hex:
  "g < 65536 \<Longrightarrow> stops 16 rest \<Longrightarrow> read_number 16 65535 4 True (hex_string g @ rest) = Some (g, rest)"
  using hex_string_4 [of g] by (auto simp: read_number_def read_digits_hex read_digits_stops)

lemma dec_value_append: "dec_value a (xs @ ys) = (case dec_value a xs of None \<Rightarrow> None | Some v \<Rightarrow> dec_value v ys)"
  by (induction a xs rule: dec_value.induct) (auto split: option.split)

lemma dec_value_dec: "dec_value 0 (dec_string g) = Some g"
proof (induction g rule: dec_string.induct)
  case (1 g)
  then show ?case
    by (cases "g < 10") (simp_all add: dec_string.simps [of g] dec_value_append to_digit_digit_char)
qed

lemma dec_string_head: "dec_string g \<noteq> []" "hd (dec_string g) \<noteq> CHR ''+''"
proof -
  show ne: "dec_string g \<noteq> []" by (simp add: dec_string.simps [of g])
  have "to_digit 10 CHR ''+'' = None" by (simp add: to_digit_def)
  then show "hd (dec_string g) \<noteq> CHR ''+''"
    using dec_value_dec [of g] ne by (cases "dec_string g") auto
qed

lemma parse_dec_string: "g \<le> maxv \<Longrightarrow> parse_dec maxv (dec_string g) = Some g"
  by (simp add: parse_dec_def dec_string_head dec_value_dec)

section \<open>Reading back a printed address\<close>

lemma stops_dot: "stops 10 (CHR ''.'' # s)" and stops_nil: "stops radix []"
  and stops_colon: "stops 16 (CHR '':'' # s)"
  by (simp_all add: stops_def to_digit_def)

lemma read_ipv4_print: "stops 10 rest \<Longrightarrow> read_ipv4_addr (ipv4_to_string ip @ rest) = Some (ip, rest)"
  by (cases ip) (simp add: read_ipv4_addr_def read_sep_def read_given_char_def read_octet_dec stops_dot)

lemma ipv4_roundtrip: "ipv4_parse (ipv4_to_string ip) = Some ip"
proof -
  obtain a b c d where ip: "ip = (a, b, c, d)" by (cases ip)
  have "length (ipv4_to_string ip) \<le> 15"
    using dec_string_3 [of "unat a"] dec_string_3 [of "unat b"] dec_string_3 [of "unat c"] dec_string_3 [of "unat d"]
      unat_byte_less [of a] unat_byte_less [of b] unat_byte_less [of c] unat_byte_less [of d]
    by (simp add: ip)
  with read_ipv4_print [of "[]" ip] show ?thesis by (simp add: ipv4_parse_def stops_nil)
qed

text \<open>Without a dot there is no IPv4 address to read.\<close>

lemma read_digits_suffix: "read_digits radix mv md acc n s = Some (v, m, r) \<Longrightarrow> suffix r s"
  by (induction radix mv md acc n s rule: read_digits.induct) (auto split: option.splits if_splits intro: suffix_ConsI)

lemma read_ipv4_needs_dot: "CHR ''.'' \<notin> set s \<Longrightarrow> read_ipv4_addr s = None"
proof -
  assume dot: "CHR ''.'' \<notin> set s"
  have "read_given_char CHR ''.'' s1 = None" if "read_octet s = Some (a, s1)" for a s1
  proof -
    from that obtain n where "read_digits 10 255 3 0 0 s = Some (a, n, s1)"
      by (auto simp: read_octet_def read_number_def split: option.splits if_splits)
    then have "suffix s1 s" by (rule read_digits_suffix)
    then have "CHR ''.'' \<notin> set s1" using dot set_mono_suffix by blast
    then show ?thesis by (cases s1) (auto simp: read_given_char_def)
  qed
  then show ?thesis by (simp add: read_ipv4_addr_def read_sep_def split: option.split prod.split)
qed

lemma hex_digit_not_dot: "(d :: nat) < 16 \<Longrightarrow> (if d < 10 then char_of (48 + d) else char_of (87 + d)) \<noteq> CHR ''.''"
proof
  assume d: "d < 16" and c: "(if d < 10 then char_of (48 + d) else char_of (87 + d)) = CHR ''.''"
  have "to_digit 16 CHR ''.'' = None" by (simp add: to_digit_def)
  with to_digit_hex [OF d] c show False by simp
qed

lemma hex_string_chars: "CHR ''.'' \<notin> set (hex_string g)"
proof (induction g rule: hex_string.induct)
  case (1 g)
  show ?case
  proof (cases "g < 16")
    case True
    then show ?thesis using hex_digit_not_dot [of g] by (simp add: hex_string.simps [of g] Let_def split: if_splits)
  next
    case False
    then show ?thesis using 1 hex_digit_not_dot [of "g mod 16"] by (simp add: hex_string.simps [of g] Let_def split: if_splits)
  qed
qed

text \<open>Groups with a colon before each, and what follows them.\<close>

definition colon_groups :: "nat list \<Rightarrow> string" where
  "colon_groups gs = concat (map (\<lambda>g. CHR '':'' # hex_string g) gs)"

definition group_end :: "string \<Rightarrow> bool" where
  "group_end s \<longleftrightarrow> s = [] \<or> prefix ''::'' s"

lemma fmt_groups_Cons: "fmt_groups (g # gs) = hex_string g @ colon_groups gs"
  by (induction gs arbitrary: g) (simp_all add: fmt_groups_def colon_groups_def)

lemma colon_groups_no_dot: "CHR ''.'' \<notin> set (colon_groups gs)"
  using hex_string_chars by (auto simp: colon_groups_def)

lemma to_digit_colon [simp]: "to_digit 16 CHR '':'' = None"
  by (simp add: to_digit_def)

lemma group_end_no_group: "group_end s \<Longrightarrow> read_sep CHR '':'' i (read_number 16 65535 4 True) s = None"
  by (auto simp: group_end_def prefix_def read_sep_def read_given_char_def read_number_def
      stops_nil)

lemma stops_colon_groups: "group_end rest \<Longrightarrow> stops 16 (colon_groups gs @ rest)"
  by (cases gs) (auto simp: colon_groups_def group_end_def prefix_def stops_def to_digit_def)

lemma read_sep_ipv4_needs_dot: "CHR ''.'' \<notin> set s \<Longrightarrow> read_sep CHR '':'' i read_ipv4_addr s = None"
  using read_ipv4_needs_dot by (cases s) (auto simp: read_sep_def read_given_char_def)

lemma read_groups_colon:
  assumes "length gs \<le> k" and "\<forall>g \<in> set gs. g < 65536" and "group_end rest" and "CHR ''.'' \<notin> set rest"
  shows "read_groups (Suc i) k (colon_groups gs @ rest) = (gs, False, rest)"
  using assms(1,2)
proof (induction gs arbitrary: k i)
  case Nil
  show ?case
    by (cases k) (simp_all add: colon_groups_def assms(4) read_sep_ipv4_needs_dot group_end_no_group [OF assms(3)])
next
  case (Cons g gs)
  then obtain k' where k: "k = Suc k'" "length gs \<le> k'" by (cases k) auto
  have none: "read_sep CHR '':'' (Suc i) read_ipv4_addr (colon_groups (g # gs) @ rest) = None"
    by (rule read_sep_ipv4_needs_dot) (simp add: colon_groups_no_dot assms(4))
  have "read_sep CHR '':'' (Suc i) (read_number 16 65535 4 True) (colon_groups (g # gs) @ rest)
      = Some (g, colon_groups gs @ rest)"
    using read_group_hex [OF _ stops_colon_groups [OF assms(3)], of g gs] Cons.prems(2)
    by (simp add: read_sep_def read_given_char_def colon_groups_def)
  with none Cons.IH [OF k(2), of "Suc i"] Cons.prems(2) show ?case
    by (cases "k' = 0") (auto simp: k(1))
qed

lemma read_groups_print:
  assumes "length gs \<le> k" and "\<forall>g \<in> set gs. g < 65536" and "group_end rest" and "CHR ''.'' \<notin> set rest"
  shows "read_groups 0 k (fmt_groups gs @ rest) = (gs, False, rest)"
proof (cases gs)
  case Nil
  then show ?thesis
    by (cases k) (simp_all add: fmt_groups_def assms(4) read_sep_ipv4_needs_dot group_end_no_group [OF assms(3)])
next
  case (Cons g hs)
  then obtain k' where k: "k = Suc k'" "length hs \<le> k'" using assms(1) by (cases k) auto
  have none: "read_sep CHR '':'' 0 read_ipv4_addr (hex_string g @ colon_groups hs @ rest) = None"
    by (rule read_sep_ipv4_needs_dot) (simp add: colon_groups_no_dot hex_string_chars assms(4))
  have "read_sep CHR '':'' 0 (read_number 16 65535 4 True) (hex_string g @ colon_groups hs @ rest)
      = Some (g, colon_groups hs @ rest)"
    using read_group_hex [OF _ stops_colon_groups [OF assms(3)], of g hs] assms(2) Cons by (simp add: read_sep_def)
  with none read_groups_colon [OF k(2) _ assms(3,4), of 0] assms(2) Cons show ?thesis
    by (cases "k' = 0") (auto simp: k(1) fmt_groups_Cons)
qed

text \<open>The span of zeroes that is left out really is zero.\<close>

definition zeros_at :: "nat list \<Rightarrow> nat \<times> nat \<Rightarrow> bool" where
  "zeros_at ip sp \<longleftrightarrow> fst sp + snd sp \<le> length ip \<and> (\<forall>j < snd sp. ip ! (fst sp + j) = 0)"

lemma zero_span_zeros:
  assumes "ip = pre @ gs" and "zeros_at ip cur" and "zeros_at ip lng"
    and "snd cur \<noteq> 0 \<longrightarrow> fst cur + snd cur = length pre"
  shows "zeros_at ip (zero_span (length pre) gs cur lng)"
  using assms
proof (induction gs arbitrary: pre cur lng)
  case (Cons g gs)
  show ?case
  proof (cases "g = 0")
    case True
    let ?c = "if snd cur = 0 then (length pre, 1) else (fst cur, snd cur + 1)"
    have c: "zeros_at ip ?c" "fst ?c + snd ?c = length (pre @ [g])"
      using Cons.prems True by (auto simp: zeros_at_def less_Suc_eq nth_append)
    from Cons.IH [of "pre @ [g]" ?c "if snd ?c > snd lng then ?c else lng"] Cons.prems c True show ?thesis
      by (simp add: Let_def)
  next
    case False
    with Cons.IH [of "pre @ [g]" "(0, 0)" lng] Cons.prems show ?thesis by (simp add: zeros_at_def)
  qed
qed simp

lemma zeros_at_split:
  assumes "zeros_at ip (start, len)"
  shows "take start ip @ replicate len 0 @ drop (start + len) ip = ip"
proof -
  have "take len (drop start ip) = replicate len 0"
    using assms by (intro nth_equalityI) (auto simp: zeros_at_def)
  then have "ip = take start ip @ replicate len 0 @ drop len (drop start ip)"
    by (metis append_take_drop_id)
  then show ?thesis by (simp add: add.commute)
qed

lemma ipv6_parse_full:
  assumes "ipv6_ok ip" shows "ipv6_parse (fmt_groups ip) = Some ip"
  using read_groups_print [of ip 8 "[]"] assms
  by (simp add: ipv6_ok_def group_end_def ipv6_parse_def read_ipv6_addr_def)

lemma ipv6_parse_compressed:
  assumes "\<forall>g \<in> set (xs @ ys). g < 65536" and "length xs + length ys \<le> 6"
  shows "ipv6_parse (fmt_groups xs @ ''::'' @ fmt_groups ys) = Some (xs @ replicate (8 - length xs - length ys) 0 @ ys)"
proof -
  have dot: "CHR ''.'' \<notin> set (fmt_groups ys)"
    using hex_string_chars colon_groups_no_dot by (cases ys) (simp_all add: fmt_groups_Cons, simp add: fmt_groups_def)
  have "read_groups 0 8 (fmt_groups xs @ ''::'' @ fmt_groups ys) = (xs, False, ''::'' @ fmt_groups ys)"
    by (rule read_groups_print) (use assms dot in \<open>auto simp: group_end_def\<close>)
  moreover have "read_groups 0 (7 - length xs) (fmt_groups ys) = (ys, False, [])"
    using read_groups_print [of ys "7 - length xs" "[]"] assms by (simp add: group_end_def)
  ultimately show ?thesis
    using assms(2) by (simp add: ipv6_parse_def read_ipv6_addr_def read_given_char_def)
qed

lemma read_ipv4_colon: "read_ipv4_addr (CHR '':'' # s) = None"
  by (simp add: read_sep_def read_ipv4_addr_def read_octet_def read_number_def to_digit_def)

lemma ipv6_parse_mapped:
  "ipv6_parse (''::ffff:'' @ ipv4_to_string (a, b, c, d)) =
     Some [0, 0, 0, 0, 0, 65535, unat a * 256 + unat b, unat c * 256 + unat d]"
proof -
  let ?v4 = "ipv4_to_string (a, b, c, d)"
  have no_head: "read_groups 0 8 (CHR '':'' # s) = ([], False, CHR '':'' # s)" for s
    using read_groups.simps(2) [of 0 7] by (simp add: read_ipv4_colon read_number_def read_sep_def)
  have "char_of (102 :: nat) = CHR ''f''" by code_simp
  then have ffff: "hex_string 65535 = ''ffff''" by (simp add: hex_string.simps)
  have num: "read_number 16 65535 4 True (''ffff:'' @ ?v4) = Some (65535, CHR '':'' # ?v4)"
    using read_group_hex [of 65535 "CHR '':'' # ?v4"] by (simp add: ffff stops_colon)
  have v4: "read_ipv4_addr ?v4 = Some ((a, b, c, d), [])" using read_ipv4_print [OF stops_nil, of "(a, b, c, d)"] by simp
  have no_v4: "read_ipv4_addr (CHR ''f'' # s) = None" for s
    by (simp add: read_sep_def read_ipv4_addr_def read_octet_def read_number_def to_digit_def)
  have "read_groups 0 7 (''ffff:'' @ ?v4) = ([65535, unat a * 256 + unat b, unat c * 256 + unat d], True, [])"
    using num v4 no_v4 read_groups.simps(2) [of 0 6] read_groups.simps(2) [of 1 5]
    by (simp add: read_sep_def read_given_char_def del: ipv4_to_string.simps read_groups.simps)
  moreover have "replicate 5 (0 :: nat) = [0, 0, 0, 0, 0]" by (simp add: numeral_eq_Suc)
  ultimately show ?thesis
    by (simp add: ipv6_parse_def read_ipv6_addr_def no_head read_given_char_def del: ipv4_to_string.simps read_groups.simps)
qed

lemma ipv6_roundtrip:
  assumes "ipv6_ok ip"
  shows "ipv6_parse (ipv6_to_string ip) = Some ip"
proof (cases "to_ipv4_mapped ip")
  case None
  obtain start len where sp: "zero_span 0 ip (0, 0) (0, 0) = (start, len)" by (meson prod.exhaust)
  have z: "zeros_at ip (start, len)"
    using zero_span_zeros [of ip "[]" ip "(0, 0)" "(0, 0)"] by (simp add: sp zeros_at_def)
  show ?thesis
  proof (cases "len > 1")
    case True
    let ?xs = "take start ip" and ?ys = "drop (start + len) ip"
    have n: "length ?xs = start" "length ?ys = 8 - start - len" "start + len \<le> 8"
      using z assms by (simp_all add: zeros_at_def ipv6_ok_def)
    have "\<forall>g \<in> set (?xs @ ?ys). g < 65536"
      using assms by (auto simp: ipv6_ok_def dest: in_set_takeD in_set_dropD)
    from ipv6_parse_compressed [OF this] n True
    have "ipv6_parse (fmt_groups ?xs @ ''::'' @ fmt_groups ?ys) = Some (?xs @ replicate len 0 @ ?ys)" by simp
    then show ?thesis using zeros_at_split [OF z] None True by (simp add: ipv6_to_string_def sp)
  next
    case False
    then show ?thesis using ipv6_parse_full [OF assms] None by (simp add: ipv6_to_string_def sp)
  qed
next
  case (Some v4)
  from assms have n: "length ip = 8" and g: "ip ! 6 < 65536" "ip ! 7 < 65536" by (auto simp: ipv6_ok_def)
  from n have "ip = take 6 ip @ [ip ! 6, ip ! 7]"
    using append_take_drop_id [of 6 ip] Cons_nth_drop_Suc [of 6 ip] Cons_nth_drop_Suc [of 7 ip] by simp
  moreover have c: "unat (of_nat (x div 256) :: byte) * 256 + unat (of_nat (x mod 256) :: byte) = x" if "x < 65536" for x
    using that by (simp add: unat_of_nat)
  moreover have v4: "take 6 ip = [0, 0, 0, 0, 0, 65535]"
      "v4 = (of_nat (ip ! 6 div 256), of_nat (ip ! 6 mod 256), of_nat (ip ! 7 div 256), of_nat (ip ! 7 mod 256))"
    using Some by (simp_all add: to_ipv4_mapped_def split: if_splits)
  ultimately have "ipv6_parse (''::ffff:'' @ ipv4_to_string v4) = Some ip"
    unfolding v4(2) ipv6_parse_mapped c [OF g(1)] c [OF g(2)] by simp
  then show ?thesis using Some by (simp add: ipv6_to_string_def)
qed

text \<open>The octets of an address and the address of its octets.\<close>

lemma octets6_from: "length bs = 16 \<Longrightarrow> octets6 (ipv6_from_octets bs) = bs"
proof -
  assume len: "length bs = 16"
  have hi: "(of_nat ((unat (x :: byte) * 256 + unat (y :: byte)) div 256) :: byte) = x"
    and lo: "(of_nat ((unat x * 256 + unat y) mod 256) :: byte) = y" for x y
    using unat_byte_less [of y] by simp_all
  obtain b0 b1 b2 b3 b4 b5 b6 b7 b8 b9 b10 b11 b12 b13 b14 b15 where
    "bs = [b0, b1, b2, b3, b4, b5, b6, b7, b8, b9, b10, b11, b12, b13, b14, b15]"
    using len by (auto simp: numeral_eq_Suc length_Suc_conv)
  then show ?thesis by (simp add: octets6_def ipv6_from_octets_def upt_rec hi lo)
qed

lemma ipv6_from_octets_ok: "ipv6_ok (ipv6_from_octets bs)"
proof -
  have "unat (x :: byte) * 256 + unat (y :: byte) < 65536" for x y
    using unat_byte_less [of x] unat_byte_less [of y] by linarith
  then show ?thesis by (auto simp: ipv6_ok_def ipv6_from_octets_def)
qed

end
