(* ===== verification/Net.thy ===== *)
theory Net
  imports Prelude
begin

text \<open>
  The socket options of \<^verbatim>\<open>crates/rps-core/src/net.rs\<close>. The operating system is the argument
  \<open>os\<close>: what it answers to each option, and the size it really gives to a buffer. The lemmas
  show when tuning succeeds and what it leaves on the socket, in particular that a refused
  buffer size is never an error.
\<close>

definition KEEPALIVE_IDLE :: nat where "KEEPALIVE_IDLE = 30"

definition KEEPALIVE_INTERVAL :: nat where "KEEPALIVE_INTERVAL = 10"

definition SOCKET_BUFFER_BYTES :: nat where "SOCKET_BUFFER_BYTES = 4 * 1024 * 1024"

text \<open>The options of a socket that the code sets: the probes' idle time and interval are in seconds.\<close>

record sock =
  so_nodelay :: bool
  so_keepalive :: "(nat \<times> nat) option"
  so_sndbuf :: nat
  so_rcvbuf :: nat

record sock_os =
  os_nodelay :: "bool \<Rightarrow> string + unit"
  os_keepalive :: "nat \<times> nat \<Rightarrow> string + unit"
  os_sndbuf :: "nat \<Rightarrow> string + nat"
  os_rcvbuf :: "nat \<Rightarrow> string + nat"

definition set_nodelay :: "sock_os \<Rightarrow> bool \<Rightarrow> sock \<Rightarrow> (string + unit) \<times> sock" where
  "set_nodelay os v s = (case os_nodelay os v of Inl e \<Rightarrow> (Inl e, s) | Inr _ \<Rightarrow> (Inr (), s\<lparr>so_nodelay := v\<rparr>))"

definition set_tcp_keepalive :: "sock_os \<Rightarrow> nat \<times> nat \<Rightarrow> sock \<Rightarrow> (string + unit) \<times> sock" where
  "set_tcp_keepalive os v s =
     (case os_keepalive os v of Inl e \<Rightarrow> (Inl e, s) | Inr _ \<Rightarrow> (Inr (), s\<lparr>so_keepalive := Some v\<rparr>))"

definition set_send_buffer_size :: "sock_os \<Rightarrow> nat \<Rightarrow> sock \<Rightarrow> (string + unit) \<times> sock" where
  "set_send_buffer_size os n s =
     (case os_sndbuf os n of Inl e \<Rightarrow> (Inl e, s) | Inr k \<Rightarrow> (Inr (), s\<lparr>so_sndbuf := k\<rparr>))"

definition set_recv_buffer_size :: "sock_os \<Rightarrow> nat \<Rightarrow> sock \<Rightarrow> (string + unit) \<times> sock" where
  "set_recv_buffer_size os n s =
     (case os_rcvbuf os n of Inl e \<Rightarrow> (Inl e, s) | Inr k \<Rightarrow> (Inr (), s\<lparr>so_rcvbuf := k\<rparr>))"

definition tune_cross_border :: "sock_os \<Rightarrow> sock \<Rightarrow> (string + unit) \<times> sock" where
  "tune_cross_border os s =
     (case set_nodelay os True s of
        (Inl e, s1) \<Rightarrow> (Inl e, s1)
      | (Inr _, s1) \<Rightarrow>
          (case set_tcp_keepalive os (KEEPALIVE_IDLE, KEEPALIVE_INTERVAL) s1 of
             (Inl e, s2) \<Rightarrow> (Inl e, s2)
           | (Inr _, s2) \<Rightarrow>
               (let (_, s3) = set_send_buffer_size os SOCKET_BUFFER_BYTES s2;
                    (_, s4) = set_recv_buffer_size os SOCKET_BUFFER_BYTES s3
                in (Inr (), s4))))"

definition tune_local :: "sock_os \<Rightarrow> sock \<Rightarrow> (string + unit) \<times> sock" where
  "tune_local os s = set_nodelay os True s"

lemmas sock_defs = set_nodelay_def set_tcp_keepalive_def set_send_buffer_size_def set_recv_buffer_size_def

text \<open>
  Tuning succeeds exactly if the two options that matter are taken, whatever the answers on
  the buffers, and then the socket has them.
\<close>

lemma tune_cross_border_ok_iff:
  "is_ok (fst (tune_cross_border os s)) \<longleftrightarrow>
     is_ok (os_nodelay os True) \<and> is_ok (os_keepalive os (KEEPALIVE_IDLE, KEEPALIVE_INTERVAL))"
  by (auto simp: tune_cross_border_def sock_defs is_ok_iff split: sum.splits prod.splits)

lemma tune_cross_border_options:
  assumes "fst (tune_cross_border os s) = Inr u"
  shows "so_nodelay (snd (tune_cross_border os s)) \<and>
         so_keepalive (snd (tune_cross_border os s)) = Some (30, 10) \<and>
         so_sndbuf (snd (tune_cross_border os s)) =
           (case os_sndbuf os SOCKET_BUFFER_BYTES of Inl e \<Rightarrow> so_sndbuf s | Inr n \<Rightarrow> n) \<and>
         so_rcvbuf (snd (tune_cross_border os s)) =
           (case os_rcvbuf os SOCKET_BUFFER_BYTES of Inl e \<Rightarrow> so_rcvbuf s | Inr n \<Rightarrow> n)"
  using assms
  by (auto simp: tune_cross_border_def sock_defs KEEPALIVE_IDLE_def KEEPALIVE_INTERVAL_def
      split: sum.splits prod.splits)

lemma tune_local_keeps:
  "so_keepalive (snd (tune_local os s)) = so_keepalive s"
  "so_sndbuf (snd (tune_local os s)) = so_sndbuf s" "so_rcvbuf (snd (tune_local os s)) = so_rcvbuf s"
  by (simp_all add: tune_local_def sock_defs split: sum.splits)

end
