(* ===== verification/Agent.thy ===== *)
theory Agent
  imports Bridge Ip_Text Net
begin

text \<open>
  The agent, \<^verbatim>\<open>crates/rps-agent/src/main.rs\<close>: its configuration from the environment, the
  connection to the bridge, the manager of the pool of warm connections, and the relays to
  targets. The operating system's answer to connecting to a target is an argument of type
  \<open>connect_outcome\<close>; JSON and Noise are arguments as on the other side.
\<close>

definition POOL_SIZE :: nat where "POOL_SIZE = 32"

definition TCP_COPY_BUF_SIZE :: nat where "TCP_COPY_BUF_SIZE = 64 * 1024"

section \<open>Configuration\<close>

definition env_value :: "(string \<Rightarrow> string option) \<Rightarrow> string \<Rightarrow> string option" where
  "env_value env name =
     (case env name of
        None \<Rightarrow> None
      | Some value \<Rightarrow> let v = trim value in if v = [] then None else Some v)"

definition env_either :: "(string \<Rightarrow> string option) \<Rightarrow> string \<Rightarrow> string \<Rightarrow> string option" where
  "env_either env a b = (case env_value env a of Some v \<Rightarrow> Some v | None \<Rightarrow> env_value env b)"

definition load_agent_config_with_env ::
  "(string \<Rightarrow> string option) \<Rightarrow> (string \<Rightarrow> error + string) \<Rightarrow> (string \<Rightarrow> error + raw_agent) \<Rightarrow> string
     \<Rightarrow> error + agent_config" where
  "load_agent_config_with_env env read_to_string from_str path =
     (let env_server_addr = env_either env ''server_addr'' ''RPS_SERVER_ADDR'';
          env_client_id = env_either env ''client_id'' ''RPS_CLIENT_ID'';
          env_psk = env_either env ''psk'' ''RPS_PSK'';
          env_reconnect_interval = env_either env ''reconnect_interval_secs'' ''RPS_RECONNECT_INTERVAL_SECS''
      in if env_server_addr \<noteq> None \<or> env_client_id \<noteq> None \<or> env_psk \<noteq> None \<or> env_reconnect_interval \<noteq> None
         then
           (case env_server_addr of
              None \<Rightarrow> Inl (Bail ''agent env server_addr is required'')
            | Some addr \<Rightarrow>
                (case env_client_id of
                   None \<Rightarrow> Inl (Bail ''agent env client_id is required'')
                 | Some cid \<Rightarrow>
                     (case env_psk of
                        None \<Rightarrow> Inl (Bail ''agent env psk is required'')
                      | Some psk \<Rightarrow>
                          (case env_reconnect_interval of
                             None \<Rightarrow>
                               Inr \<lparr>server_addr = addr, ac_client_id = cid, ac_psk = psk, reconnect_interval_secs = 5\<rparr>
                           | Some value \<Rightarrow>
                               (case parse_dec (2 ^ 64 - 1) value of
                                  None \<Rightarrow> Inl (Bail ''invalid reconnect_interval_secs env'')
                                | Some n \<Rightarrow>
                                    Inr \<lparr>server_addr = addr, ac_client_id = cid, ac_psk = psk,
                                         reconnect_interval_secs = of_nat n\<rparr>)))))
         else load_agent_config read_to_string from_str path)"

section \<open>Connecting\<close>

record json_out =
  prelude_to_vec :: "noise_prelude \<Rightarrow> string + bytes"
  hello_to_vec :: "hello \<Rightarrow> string + bytes"

text \<open>
  \<^verbatim>\<open>connect_role\<close> up to the answer of the handshake: the bytes sent and the handshake
  state; then the plaintext hello it sends through the transport; then the acknowledgement.
\<close>

definition connect_role ::
  "('h, 's) snow \<Rightarrow> json_out \<Rightarrow> agent_config \<Rightarrow> error + bytes \<times> 'h" where
  "connect_role lib jo cfg =
     (case write_json (prelude_to_vec jo) (NoisePrelude_new (ac_client_id cfg)) of
        Inl e \<Rightarrow> Inl e
      | Inr prelude \<Rightarrow>
          (case connect_start lib (ac_psk cfg) of
             Inl e \<Rightarrow> Inl e
           | Inr (wire, h) \<Rightarrow> Inr (prelude @ wire, h)))"

definition connect_role_hello ::
  "('h, 's) snow \<Rightarrow> json_out \<Rightarrow> agent_config \<Rightarrow> hello_role \<Rightarrow> 'h \<Rightarrow> bytes \<Rightarrow> error + 's \<times> bytes \<times> bytes" where
  "connect_role_hello lib jo cfg role h back =
     (case connect_finish lib h back of
        Inl e \<Rightarrow> Inl e
      | Inr (s, back1) \<Rightarrow>
          (case write_json (hello_to_vec jo) (Hello_new role (ac_client_id cfg)) of
             Inl e \<Rightarrow> Inl e
           | Inr hello \<Rightarrow> Inr (s, hello, back1)))"

definition connect_role_ack :: "(bytes \<Rightarrow> string + hello_ack) \<Rightarrow> bytes \<Rightarrow> error + bytes" where
  "connect_role_ack from_slice input =
     (case read_json from_slice input of
        Inl e \<Rightarrow> Inl e
      | Inr (ack, rest) \<Rightarrow>
          if \<not> ha_ok ack
          then Inl (Bail (''controller rejected handshake: '' @
                          (case ha_error ack of None \<Rightarrow> ''unknown error'' | Some e \<Rightarrow> e)))
          else Inr rest)"

section \<open>The control session\<close>

text \<open>
  \<^verbatim>\<open>run_control\<close>: a ping, then one message from the controller, then a pause; it ends with
  the first ping that cannot be written or message that cannot be read. \<open>clock k\<close> is the
  time of the \<open>k\<close>-th turn, \<open>write_ok k\<close> whether its write succeeds. The result are the
  pings sent.
\<close>

function run_control :: "(bytes \<Rightarrow> string + control_message) \<Rightarrow> (nat \<Rightarrow> u64) \<Rightarrow> (nat \<Rightarrow> bool) \<Rightarrow> bytes \<Rightarrow> control_message list" where
  "run_control from_slice clock write_ok input =
     (if \<not> write_ok 0 then []
      else CPing (clock 0) #
        (case read_json from_slice input of
           Inl e \<Rightarrow> []
         | Inr (msg, rest) \<Rightarrow> run_control from_slice (\<lambda>k. clock (Suc k)) (\<lambda>k. write_ok (Suc k)) rest))"
  by pat_completeness auto
termination
  by (relation "measure (\<lambda>(f, c, w, input). length input)") (auto dest: read_json_consumes)

declare run_control.simps [simp del]

section \<open>The pool manager\<close>

text \<open>
  \<^verbatim>\<open>run_pool_manager\<close> and the tasks it spawns: the permits of the semaphore that are
  free, and how many tasks are connecting, waiting after a failure, holding a warm
  connection, and serving a relay. The tasks of the first three kinds hold a permit.
\<close>

record pool_manager =
  pm_permits :: nat
  pm_dialing :: nat
  pm_backoff :: nat
  pm_warm :: nat
  pm_relays :: nat

definition pool_manager_new :: pool_manager where
  "pool_manager_new = \<lparr>pm_permits = POOL_SIZE, pm_dialing = 0, pm_backoff = 0, pm_warm = 0, pm_relays = 0\<rparr>"

inductive pool_step :: "pool_manager \<Rightarrow> pool_manager \<Rightarrow> bool" where
  acquire: "0 < pm_permits m \<Longrightarrow> pool_step m (m\<lparr>pm_permits := pm_permits m - 1, pm_dialing := pm_dialing m + 1\<rparr>)"
| connected: "0 < pm_dialing m \<Longrightarrow> pool_step m (m\<lparr>pm_dialing := pm_dialing m - 1, pm_warm := pm_warm m + 1\<rparr>)"
| connect_failed: "0 < pm_dialing m \<Longrightarrow> pool_step m (m\<lparr>pm_dialing := pm_dialing m - 1, pm_backoff := pm_backoff m + 1\<rparr>)"
| backoff_over: "0 < pm_backoff m \<Longrightarrow> pool_step m (m\<lparr>pm_backoff := pm_backoff m - 1, pm_permits := pm_permits m + 1\<rparr>)"
| recycled: "0 < pm_warm m \<Longrightarrow> pool_step m (m\<lparr>pm_warm := pm_warm m - 1, pm_permits := pm_permits m + 1\<rparr>)"
| consumed: "0 < pm_warm m \<Longrightarrow>
    pool_step m (m\<lparr>pm_warm := pm_warm m - 1, pm_permits := pm_permits m + 1, pm_relays := pm_relays m + 1\<rparr>)"
| relay_ended: "0 < pm_relays m \<Longrightarrow> pool_step m (m\<lparr>pm_relays := pm_relays m - 1\<rparr>)"

inductive_cases pool_stepE: "pool_step m m'"

section \<open>Opening a target\<close>

text \<open>
  What the operating system makes of connecting to the target. \<open>TuneFailed\<close> is a TCP
  connection that was made and whose socket then refused an option: both handlers leave by
  \<^verbatim>\<open>?\<close> before they have answered.
\<close>

datatype connect_outcome = Connected | ConnectFailed string | ConnectTimedOut | TuneFailed string

definition tuned :: "sock_os \<Rightarrow> sock \<Rightarrow> connect_outcome \<Rightarrow> connect_outcome" where
  "tuned os s outcome =
     (case outcome of
        Connected \<Rightarrow> (case fst (tune_cross_border os s) of Inl e \<Rightarrow> TuneFailed e | Inr _ \<Rightarrow> Connected)
      | _ \<Rightarrow> outcome)"

fun tune_error :: "connect_outcome \<Rightarrow> string option" where
  "tune_error (TuneFailed e) = Some e"
| "tune_error _ = None"

definition open_timeout :: "open_request \<Rightarrow> u64" where
  "open_timeout request = max (or_timeout_ms request) 1"

definition connect_error :: "string \<Rightarrow> open_request \<Rightarrow> connect_outcome \<Rightarrow> string option" where
  "connect_error what request outcome =
     (case outcome of
        Connected \<Rightarrow> None
      | TuneFailed _ \<Rightarrow> None
      | ConnectFailed err \<Rightarrow> Some (what @ '' connect '' @ or_target request @ '' failed: '' @ err)
      | ConnectTimedOut \<Rightarrow>
          Some (what @ '' connect '' @ or_target request @ '' timed out after '' @
                dec_string (unat (or_timeout_ms request)) @ ''ms''))"

text \<open>
  \<^verbatim>\<open>serve_pool_request\<close> and \<^verbatim>\<open>handle_pool_tcp\<close> up to the relay, on the pooled
  connection: the answer is written; when it says yes, the relay starts.
\<close>

definition serve_pool_request ::
  "(open_response \<Rightarrow> string + bytes) \<Rightarrow> connect_outcome \<Rightarrow> open_request \<Rightarrow> duplex \<Rightarrow> (error + unit) \<times> duplex" where
  "serve_pool_request to_vec outcome request stream =
     (let reply = (\<lambda>resp. case duplex_write_json to_vec resp stream of Inl e \<Rightarrow> stream | Inr s1 \<Rightarrow> s1)
      in case or_protocol request of
           Udp \<Rightarrow> (Inl (Bail ''udp request received on pool channel''),
                   reply (OpenResponse_err ''udp is not supported on pool channel''))
         | Tcp \<Rightarrow>
             (case connect_error ''tcp'' request outcome of
                Some e \<Rightarrow> (Inl (Bail e), reply (OpenResponse_err e))
              | None \<Rightarrow>
                  (case tune_error outcome of
                     Some e \<Rightarrow> (Inl (Bail e), stream)
                   | None \<Rightarrow>
                       (case duplex_write_json to_vec OpenResponse_ok stream of
                          Inl e \<Rightarrow> (Inl e, stream)
                        | Inr s1 \<Rightarrow> (Inr (), s1)))))"

text \<open>The same on a stream of the mux: \<^verbatim>\<open>send_open_ok\<close>, \<^verbatim>\<open>send_open_error\<close>, \<^verbatim>\<open>handle_stream\<close>.\<close>

definition send_open_ok :: "(open_response \<Rightarrow> string + bytes) \<Rightarrow> u32 \<Rightarrow> mux \<Rightarrow> (error + unit) \<times> mux" where
  "send_open_ok to_vec sid m =
     (case to_vec OpenResponse_ok of
        Inl e \<Rightarrow> (Inl (Bail e), m)
      | Inr body \<Rightarrow> (case send_data sid body m of Inl e \<Rightarrow> (Inl e, m) | Inr m1 \<Rightarrow> (Inr (), m1)))"

definition send_open_error :: "(open_response \<Rightarrow> string + bytes) \<Rightarrow> string \<Rightarrow> u32 \<Rightarrow> mux \<Rightarrow> (error + unit) \<times> mux" where
  "send_open_error to_vec err sid m =
     (case to_vec (OpenResponse_err err) of
        Inl e \<Rightarrow> (Inl (Bail e), m)
      | Inr body \<Rightarrow>
          (case send_data sid body m of
             Inl e \<Rightarrow> (Inl e, m)
           | Inr m1 \<Rightarrow> (Inr (), case close sid m1 of Inl e \<Rightarrow> m1 | Inr m2 \<Rightarrow> m2)))"

text \<open>
  \<^verbatim>\<open>handle_tcp_target\<close> and \<^verbatim>\<open>handle_udp_target\<close> up to the relay; \<open>bind_error\<close> is the
  failure of binding the local UDP socket, if any.
\<close>

definition open_target ::
  "(open_response \<Rightarrow> string + bytes) \<Rightarrow> string option \<Rightarrow> connect_outcome \<Rightarrow> open_request \<Rightarrow> u32 \<Rightarrow> mux \<Rightarrow> (error + unit) \<times> mux" where
  "open_target to_vec bind_error outcome request sid m =
     (let refuse = (\<lambda>err. case send_open_error to_vec err sid m of
                            (Inl e, m1) \<Rightarrow> (Inl e, m1)
                          | (Inr _, m1) \<Rightarrow> (Inl (Bail err), m1))
      in case or_protocol request of
           Tcp \<Rightarrow>
             (case connect_error ''tcp'' request outcome of
                Some err \<Rightarrow> refuse err
              | None \<Rightarrow>
                  (case tune_error outcome of
                     Some e \<Rightarrow> (Inl (Bail e), m)
                   | None \<Rightarrow> send_open_ok to_vec sid m))
         | Udp \<Rightarrow>
             (case bind_error of
                Some err \<Rightarrow> refuse (''udp bind failed: '' @ err)
              | None \<Rightarrow>
                  (case connect_error ''udp'' request outcome of
                     Some err \<Rightarrow> refuse err
                   | None \<Rightarrow> send_open_ok to_vec sid m)))"

definition handle_stream ::
  "(bytes \<Rightarrow> string + open_request) \<Rightarrow> (open_response \<Rightarrow> string + bytes) \<Rightarrow> (open_request \<Rightarrow> string option \<times> connect_outcome)
     \<Rightarrow> mux_stream \<Rightarrow> mux \<Rightarrow> ((error + open_request) recv) \<times> mux" where
  "handle_stream from_slice to_vec os stream m =
     (case recv_data stream m of
        (Blocked, m1) \<Rightarrow> (Blocked, m1)
      | (Closed, m1) \<Rightarrow> (Got (Inl (Bail ''missing open payload'')), drop_rx (inbound_rx stream) m1)
      | (Got open_payload, m1) \<Rightarrow>
          (case from_slice open_payload of
             Inl e \<Rightarrow> (Got (Inl (Bail ''invalid open payload'')), drop_rx (inbound_rx stream) m1)
           | Inr request \<Rightarrow>
               let (bind_error, outcome) = os request
               in (case open_target to_vec bind_error outcome request (ms_id stream) m1 of
                     (Inl e, m2) \<Rightarrow> (Got (Inl e), drop_rx (inbound_rx stream) m2)
                   | (Inr _, m2) \<Rightarrow> (Got (Inr request), m2))))"

section \<open>The relays\<close>

text \<open>
  The relay of \<^verbatim>\<open>handle_pool_tcp\<close> copies like the controller's pipe, with the stream of
  the controller on the client's side and the target on the other. It has no shutdown signal,
  and the cancellation of the second task is no error.
\<close>

definition relay_start :: "bytes \<Rightarrow> bytes \<Rightarrow> pipe" where
  "relay_start from_controller from_target =
     \<lparr>pi_client_in = from_controller, pi_stream_out = [], pi_stream_fin = False, pi_stream_in = from_target,
      pi_client_out = [], pi_client_fin = False, pi_uplink = Running, pi_downlink = Running,
      pi_phase = Selecting, pi_shutdown = False\<rparr>"

definition relay_finish :: "task \<Rightarrow> task \<Rightarrow> error + unit" where
  "relay_finish first second =
     (case finish_pipe_task first of
        Inl e \<Rightarrow> Inl e
      | Inr _ \<Rightarrow> if second = TaskErr then finish_pipe_task second else Inr ())"

definition relay_wait :: "branch \<Rightarrow> pipe \<Rightarrow> pipe" where
  "relay_wait br p =
     (case pi_phase p of
        Selecting \<Rightarrow> wait_turn br p
      | AwaitDownlink \<Rightarrow>
          if pi_downlink p \<noteq> Running then p\<lparr>pi_phase := PipeEnded (relay_finish (pi_uplink p) (pi_downlink p))\<rparr> else p
      | AwaitUplink \<Rightarrow>
          if pi_uplink p \<noteq> Running then p\<lparr>pi_phase := PipeEnded (relay_finish (pi_downlink p) (pi_uplink p))\<rparr> else p
      | PipeEnded _ \<Rightarrow> p)"

fun relay_turn :: "pipe_event \<Rightarrow> pipe \<Rightarrow> pipe" where
  "relay_turn (UplinkRead n write_ok) p = fst (uplink_copy n write_ok p)"
| "relay_turn (DownlinkRead n write_ok) p = fst (downlink_copy n write_ok p)"
| "relay_turn (WaitTurn br) p = relay_wait br p"

text \<open>
  The relays of mux streams: the writes to the target, whether its writing side was shut
  down, and the two tasks. The first two functions are the tasks of \<^verbatim>\<open>handle_tcp_target\<close>,
  the last two those of \<^verbatim>\<open>handle_udp_target\<close>; \<open>None\<close> is a failing receive. An uplink task
  that fails drops the receiver of its stream; one that ends has received the end of it.
\<close>

record target_io =
  ti_sent :: "bytes list"
  ti_fin :: bool
  ti_uplink :: task
  ti_downlink :: task

definition tcp_uplink :: "bool \<Rightarrow> mux_stream \<Rightarrow> target_io \<times> mux \<Rightarrow> target_io \<times> mux" where
  "tcp_uplink write_ok stream = (\<lambda>(io, m).
     if ti_uplink io \<noteq> Running then (io, m)
     else case recv_data stream m of
            (Blocked, m1) \<Rightarrow> (io, m1)
          | (Closed, m1) \<Rightarrow> (io\<lparr>ti_fin := True, ti_uplink := TaskOk\<rparr>, m1)
          | (Got d, m1) \<Rightarrow>
              if write_ok then (io\<lparr>ti_sent := ti_sent io @ [d]\<rparr>, m1)
              else (io\<lparr>ti_uplink := TaskErr\<rparr>, drop_rx (inbound_rx stream) m1))"

definition tcp_downlink :: "bytes option \<Rightarrow> u32 \<Rightarrow> target_io \<times> mux \<Rightarrow> target_io \<times> mux" where
  "tcp_downlink input sid = (\<lambda>(io, m).
     if ti_downlink io \<noteq> Running then (io, m)
     else case input of
            None \<Rightarrow> (io\<lparr>ti_downlink := TaskErr\<rparr>, m)
          | Some [] \<Rightarrow> (io\<lparr>ti_downlink := TaskOk\<rparr>, case close sid m of Inl e \<Rightarrow> m | Inr m1 \<Rightarrow> m1)
          | Some (b # bs) \<Rightarrow>
              (case send_data sid (take TCP_COPY_BUF_SIZE (b # bs)) m of
                 Inl e \<Rightarrow> (io\<lparr>ti_downlink := TaskErr\<rparr>, m)
               | Inr m1 \<Rightarrow> (io, m1)))"

definition udp_uplink :: "bool \<Rightarrow> mux_stream \<Rightarrow> target_io \<times> mux \<Rightarrow> target_io \<times> mux" where
  "udp_uplink send_ok stream = (\<lambda>(io, m).
     if ti_uplink io \<noteq> Running then (io, m)
     else case recv_data stream m of
            (Blocked, m1) \<Rightarrow> (io, m1)
          | (Closed, m1) \<Rightarrow> (io\<lparr>ti_uplink := TaskOk\<rparr>, m1)
          | (Got d, m1) \<Rightarrow>
              if send_ok then (io\<lparr>ti_sent := ti_sent io @ [d]\<rparr>, m1)
              else (io\<lparr>ti_uplink := TaskErr\<rparr>, drop_rx (inbound_rx stream) m1))"

definition udp_downlink :: "bytes option \<Rightarrow> u32 \<Rightarrow> target_io \<times> mux \<Rightarrow> target_io \<times> mux" where
  "udp_downlink input sid = (\<lambda>(io, m).
     if ti_downlink io \<noteq> Running then (io, m)
     else case input of
            None \<Rightarrow> (io\<lparr>ti_downlink := TaskErr\<rparr>, m)
          | Some d \<Rightarrow>
              (case send_data sid d m of
                 Inl e \<Rightarrow> (io\<lparr>ti_downlink := TaskErr\<rparr>, m)
               | Inr m1 \<Rightarrow> (io, m1)))"

text \<open>\<^verbatim>\<open>try_join\<close> waits for both tasks; their own results do not end the wait.\<close>

definition udp_ended :: "target_io \<Rightarrow> bool" where
  "udp_ended io \<longleftrightarrow> ti_uplink io \<noteq> Running \<and> ti_downlink io \<noteq> Running"

section \<open>Lemmas\<close>

interpretation pool_sys: invariant_system "\<lambda>m. m = pool_manager_new" pool_step
  "\<lambda>m. pm_permits m + pm_dialing m + pm_backoff m + pm_warm m = POOL_SIZE"
proof
  show "pm_permits m + pm_dialing m + pm_backoff m + pm_warm m = POOL_SIZE" if "m = pool_manager_new" for m
    using that by (simp add: pool_manager_new_def)
  show "pm_permits m' + pm_dialing m' + pm_backoff m' + pm_warm m' = POOL_SIZE"
    if "pm_permits m + pm_dialing m + pm_backoff m + pm_warm m = POOL_SIZE" "pool_step m m'" for m m'
    using that(2,1) by cases auto
qed

text \<open>From any state of the manager the pool can be filled, whatever relays are running.\<close>

lemma pool_refills:
  assumes "pm_permits x + pm_dialing x + pm_backoff x + pm_warm x = POOL_SIZE"
  shows "\<exists>m'. pool_step\<^sup>*\<^sup>* x m' \<and> pm_warm m' = POOL_SIZE \<and> pm_relays m' = pm_relays x"
  using assms
proof (induction "3 * pm_backoff x + 2 * pm_permits x + pm_dialing x" arbitrary: x rule: less_induct)
  case less
  show ?case
  proof (cases "pm_backoff x = 0 \<and> pm_permits x = 0 \<and> pm_dialing x = 0")
    case True
    then show ?thesis using less.prems by auto
  next
    case False
    have step: ?thesis if y: "pool_step x y" "pm_relays y = pm_relays x"
      "pm_permits y + pm_dialing y + pm_backoff y + pm_warm y = POOL_SIZE"
      "3 * pm_backoff y + 2 * pm_permits y + pm_dialing y < 3 * pm_backoff x + 2 * pm_permits x + pm_dialing x" for y
      using less.hyps [OF y(4) y(3)] y(1,2) by (metis converse_rtranclp_into_rtranclp)
    consider "0 < pm_backoff x" | "0 < pm_permits x" | "0 < pm_dialing x" using False by auto
    then show ?thesis
      by cases (use less.prems in \<open>auto intro: step [OF backoff_over] step [OF acquire] step [OF connected]\<close>)
  qed
qed

lemma relay_copied:
  assumes "copied up (pi_client_in p) (pi_stream_out p) (pi_stream_fin p) (pi_uplink p)"
    and "copied down (pi_stream_in p) (pi_client_out p) (pi_client_fin p) (pi_downlink p)"
  shows "copied up (pi_client_in (relay_turn ev p)) (pi_stream_out (relay_turn ev p)) (pi_stream_fin (relay_turn ev p)) (pi_uplink (relay_turn ev p))"
    and "copied down (pi_stream_in (relay_turn ev p)) (pi_client_out (relay_turn ev p)) (pi_client_fin (relay_turn ev p)) (pi_downlink (relay_turn ev p))"
proof -
  have "copied up (pi_client_in (relay_turn ev p)) (pi_stream_out (relay_turn ev p)) (pi_stream_fin (relay_turn ev p)) (pi_uplink (relay_turn ev p)) \<and>
    copied down (pi_stream_in (relay_turn ev p)) (pi_client_out (relay_turn ev p)) (pi_client_fin (relay_turn ev p)) (pi_downlink (relay_turn ev p))"
  proof (cases ev)
    case (UplinkRead n w)
    then show ?thesis
      using assms copied_chunk copied_err copied_eof by (auto simp: uplink_copy_def Let_def)
  next
    case (DownlinkRead n w)
    then show ?thesis
      using assms copied_chunk copied_err copied_eof by (auto simp: downlink_copy_def Let_def)
  next
    case (WaitTurn br)
    then show ?thesis
      using assms wait_turn_task [of br p] copied_abort by (auto simp: relay_wait_def split: pipe_phase.split)
  qed
  then show "copied up (pi_client_in (relay_turn ev p)) (pi_stream_out (relay_turn ev p)) (pi_stream_fin (relay_turn ev p)) (pi_uplink (relay_turn ev p))"
    "copied down (pi_stream_in (relay_turn ev p)) (pi_client_out (relay_turn ev p)) (pi_client_fin (relay_turn ev p)) (pi_downlink (relay_turn ev p))"
    by blast+
qed

lemma relay_copied_fold:
  assumes "copied up (pi_client_in p) (pi_stream_out p) (pi_stream_fin p) (pi_uplink p)"
    and "copied down (pi_stream_in p) (pi_client_out p) (pi_client_fin p) (pi_downlink p)"
  shows "copied up (pi_client_in (fold relay_turn evs p)) (pi_stream_out (fold relay_turn evs p)) (pi_stream_fin (fold relay_turn evs p)) (pi_uplink (fold relay_turn evs p)) \<and>
    copied down (pi_stream_in (fold relay_turn evs p)) (pi_client_out (fold relay_turn evs p)) (pi_client_fin (fold relay_turn evs p)) (pi_downlink (fold relay_turn evs p))"
  using assms by (induction evs arbitrary: p) (simp_all add: relay_copied)

lemma relay_start_copied:
  "copied a (pi_client_in (relay_start a b)) (pi_stream_out (relay_start a b)) (pi_stream_fin (relay_start a b)) (pi_uplink (relay_start a b))"
  "copied b (pi_stream_in (relay_start a b)) (pi_client_out (relay_start a b)) (pi_client_fin (relay_start a b)) (pi_downlink (relay_start a b))"
  by (simp_all add: relay_start_def copied_def)

section \<open>Properties\<close>


definition demo_agent :: agent_config where
  "demo_agent = \<lparr>server_addr = ''s'', ac_client_id = ''c1'', ac_psk = zero_key_text, reconnect_interval_secs = 5\<rparr>"

definition demo_agent_client :: db_client where
  "demo_agent_client = \<lparr>cl_psk = zero_key_text, cl_enabled = True, cl_remark = None, cl_max_connections = None,
     cl_compress = False, cl_encrypt = True, cl_id = ''c1''\<rparr>"

definition demo_json_out :: json_out where
  "demo_json_out =
     \<lparr>prelude_to_vec = (\<lambda>v. if v = NoisePrelude_new ''c1'' then Inr [1] else Inl ''unsupported''),
      hello_to_vec = (\<lambda>v. if v = Hello_new RoleData ''c1'' then Inr [2] else Inl ''unsupported'')\<rparr>"

definition demo_json_in :: json_in where
  "demo_json_in =
     \<lparr>prelude_from_slice = (\<lambda>b. Inr (NoisePrelude_new ''c1'')), hello_from_slice = (\<lambda>b. Inr (Hello_new RoleData ''c1'')),
      control_from_slice = (\<lambda>b. Inl ''unsupported'')\<rparr>"


text \<open>
  C31: the warm pool. In every state of the pool manager the free permits and the tasks that
  connect, wait after a failure or hold a warm connection are 32 together, so there are never
  more than 32 warm connections; and however many relays are running, the pool can be filled
  up to 32 warm connections again without ending one of them.
\<close>

theorem pool_slots_conserved:
  assumes "reachable (\<lambda>m. m = pool_manager_new) pool_step m"
  shows "pm_permits m + pm_dialing m + pm_backoff m + pm_warm m = 32 \<and>
         (\<exists>m'. pool_step\<^sup>*\<^sup>* m m' \<and> pm_warm m' = 32 \<and> pm_relays m' = pm_relays m)"
proof -
  have inv: "pm_permits m + pm_dialing m + pm_backoff m + pm_warm m = POOL_SIZE"
    using assms by (rule pool_sys.reachable_inv)
  show ?thesis using inv pool_refills [OF inv] by (simp add: POOL_SIZE_def)
qed

theorem pool_slots_conserved_witness:
  "\<exists>m'. pool_step\<^sup>*\<^sup>* pool_manager_new m' \<and> pm_warm m' = 32"
  using pool_slots_conserved [OF reach_init [of "\<lambda>m. m = pool_manager_new"]] by auto

text \<open>
  C29: both ends of a pooled connection agree. When the agent reads the request the controller
  wrote and answers it, the controller's \<^verbatim>\<open>open_pool_stream\<close> takes the connection exactly
  if the agent reached the target, and otherwise reports the agent's reason; if the target's
  socket refused an option the agent writes nothing, and the controller counts the connection
  as dead. The hypotheses
  are that the JSON library reads what it writes and that the answers fit a message.
\<close>

theorem pool_open_agreement:
  assumes "\<And>v bs. rq_to v = Inr bs \<Longrightarrow> rq_from bs = Inr v"
    and "\<And>v bs. rs_to v = Inr bs \<Longrightarrow> rs_from bs = Inr v"
    and "is_ok (write_json rs_to (case connect_error ''tcp'' request outcome of None \<Rightarrow> OpenResponse_ok | Some e \<Rightarrow> OpenResponse_err e))"
    and "or_protocol request = Tcp" and "dx_writable d" and "duplex_write_json rq_to request d = Inr d1"
    and "dx_writable a" and "dx_written a = []" and "read_json rq_from (drop (length (dx_written d)) (dx_written d1)) = Inr (request', rest)"
  shows "request' = request \<and> rest = [] \<and>
         (let reply = dx_written (snd (serve_pool_request rs_to outcome request' a));
              result = answer rq_to rs_from request (d\<lparr>dx_input := reply\<rparr>)
          in if tune_error outcome \<noteq> None
             then reply = [] \<and> dead rq_to rs_from request (d\<lparr>dx_input := reply, dx_ended := True\<rparr>)
             else case connect_error ''tcp'' request outcome of
               None \<Rightarrow> result = Inr (d1\<lparr>dx_input := []\<rparr>)
             | Some e \<Rightarrow> result = Inl (target_error (or_target request) (Some e)))"
proof -
  obtain bs where bs: "write_json rq_to request = Inr bs" "d1 = d\<lparr>dx_written := dx_written d @ bs\<rparr>"
    using assms(5,6) by (auto simp: duplex_write_json_def split: sum.splits)
  have rq: "read_json rq_from bs = Inr (request, [])" using read_write_json [OF assms(1) bs(1), where rest = "[]"] by simp
  then have req: "request' = request" "rest = []" using assms(9) by (simp_all add: bs(2))
  have rs: "\<exists>w. write_json rs_to v = Inr w \<and> read_json rs_from w = Inr (v, [])" if ok: "is_ok (write_json rs_to v)" for v
  proof -
    obtain w where w: "write_json rs_to v = Inr w" using ok by (auto simp: is_ok_iff)
    then show ?thesis using read_write_json [OF assms(2) w, where rest = "[]"] by simp
  qed
  consider (tune) e where "outcome = TuneFailed e" | (ok) "connect_error ''tcp'' request outcome = None" "tune_error outcome = None"
    | (refused) e where "connect_error ''tcp'' request outcome = Some e" "tune_error outcome = None"
    by (cases outcome) (auto simp: connect_error_def)
  then show ?thesis
  proof cases
    case tune
    have "read_json rs_from [] = Inl eof_error" by (simp add: read_json_def read_u32_def read_exact_def)
    then show ?thesis
      using assms(4,5,7,8) req bs tune
      by (simp add: Let_def serve_pool_request_def connect_error_def dead_def duplex_write_json_def duplex_read_json_def)
  next
    case ok
    then obtain w1 where "write_json rs_to OpenResponse_ok = Inr w1" "read_json rs_from w1 = Inr (OpenResponse_ok, [])"
      using rs assms(3) by auto
    then show ?thesis
      using assms(4,5,7,8) req bs ok
      by (simp add: Let_def serve_pool_request_def duplex_write_json_def duplex_read_json_def answer_def OpenResponse_ok_def)
  next
    case refused
    then obtain w2 where "write_json rs_to (OpenResponse_err e) = Inr w2" "read_json rs_from w2 = Inr (OpenResponse_err e, [])"
      using rs assms(3) by auto
    then show ?thesis
      using assms(4,5,7,8) req bs refused
      by (simp add: Let_def serve_pool_request_def duplex_write_json_def duplex_read_json_def answer_def OpenResponse_err_def)
  qed
qed

definition demo_request :: open_request where
  "demo_request = pool_request demo_route ''x:1'' ''y:2''"

theorem pool_open_agreement_witness:
  "answer (\<lambda>v. if v = demo_request then Inr [5] else Inl ''unsupported'') (\<lambda>b. Inr (OpenResponse_err ''tcp connect x:1 failed: refused''))
     demo_request ((demo_duplex True)\<lparr>dx_input := dx_written (snd (serve_pool_request
        (\<lambda>v. if v = OpenResponse_err ''tcp connect x:1 failed: refused'' then Inr [6] else Inl ''unsupported'')
        (ConnectFailed ''refused'') demo_request (demo_duplex True)))\<rparr>) =
   Inl (target_error ''x:1'' (Some ''tcp connect x:1 failed: refused''))"
proof -
  let ?rq = "\<lambda>v. if v = demo_request then Inr [5] else Inl ''unsupported''"
  let ?e = "''tcp connect x:1 failed: refused''"
  let ?rs = "\<lambda>v. if v = OpenResponse_err ?e then Inr [6] else Inl ''unsupported''"
  have e: "connect_error ''tcp'' demo_request (ConnectFailed ''refused'') = Some ?e" "or_target demo_request = ''x:1''"
    by (simp_all add: connect_error_def demo_request_def pool_request_def)
  have ok: "is_ok (write_json ?rs (case connect_error ''tcp'' demo_request (ConnectFailed ''refused'') of
      None \<Rightarrow> OpenResponse_ok | Some e \<Rightarrow> OpenResponse_err e))"
    by (simp add: e write_json_def MAX_JSON_MESSAGE_LEN_def)
  have w: "duplex_write_json ?rq demo_request (demo_duplex True) = Inr ((demo_duplex True)\<lparr>dx_written := [0, 0, 0, 1, 5]\<rparr>)"
    by (simp add: duplex_write_json_def write_json_def MAX_JSON_MESSAGE_LEN_def demo_duplex_def u32_to_be_def)
  have r: "read_json (\<lambda>b. Inr demo_request) (drop (length (dx_written (demo_duplex True)))
      (dx_written ((demo_duplex True)\<lparr>dx_written := [0, 0, 0, 1, 5]\<rparr>))) = Inr (demo_request, [])"
    by (simp add: read_json_def demo_duplex_def read_u32_def u32_from_be_def read_exact_def MAX_JSON_MESSAGE_LEN_def)
  have p: "or_protocol demo_request = Tcp" "dx_writable (demo_duplex True)" "dx_written (demo_duplex True) = []"
    by (simp_all add: demo_request_def pool_request_def demo_duplex_def)
  have j: "\<And>v bs. ?rq v = Inr bs \<Longrightarrow> (\<lambda>b. Inr demo_request :: string + open_request) bs = Inr v"
    "\<And>v bs. ?rs v = Inr bs \<Longrightarrow> (\<lambda>b. Inr (OpenResponse_err ?e) :: string + open_response) bs = Inr v"
    by (auto split: if_splits)
  show ?thesis
    using pool_open_agreement [where rq_to = ?rq and rq_from = "\<lambda>b. Inr demo_request" and rs_to = ?rs
        and rs_from = "\<lambda>b. Inr (OpenResponse_err ?e)", OF j ok p(1,2) w p(2,3) r]
    by (simp add: e Let_def)
qed

text \<open>
  A UDP relay does not end with its stream: once the uplink has ended the downlink goes on for
  as long as the socket and the mux work, so the task and its socket stay.
\<close>

lemma udp_relay_outlives_stream:
  assumes "ti_downlink io = Running" and "writer_open m"
  shows "\<not> udp_ended (fst (fold (\<lambda>d. udp_downlink (Some d) sid) ds (io, m)))"
proof -
  have "ti_downlink (fst (fold (\<lambda>d. udp_downlink (Some d) sid) ds (io, m))) = Running"
    using assms by (induction ds arbitrary: m) (simp_all add: udp_downlink_def send_data_def writer_send_def)
  then show ?thesis by (simp add: udp_ended_def)
qed

end
