(* ===== verification/Agent_Run.thy ===== *)
theory Agent_Run
  imports Agent
begin

text \<open>
  The running agent, \<^verbatim>\<open>crates/rps-agent/src/main.rs\<close>: the relay of a mux stream to a TCP
  target with the \<^verbatim>\<open>select!\<close> that ends it (\<^verbatim>\<open>handle_tcp_target\<close>), that of a UDP target
  (\<^verbatim>\<open>handle_udp_target\<close>), and the sessions of the agent (\<^verbatim>\<open>run_agent\<close> and the loop of
  \<^verbatim>\<open>main\<close>). The lemmas show that a target receives what the controller sent on its stream and
  nothing else, that a relay succeeds exactly if both of its tasks do, that every relay of a
  session ends with the session's data, and what is left of a session after its end.
\<close>

section \<open>The relay of a TCP target\<close>

record target_run =
  tr_io :: target_io
  tr_mux :: mux
  tr_wire :: bytes
  tr_phase :: pipe_phase

text \<open>The handler after the target was opened: both tasks start.\<close>

definition target_start :: "mux \<Rightarrow> target_run" where
  "target_start m =
     \<lparr>tr_io = \<lparr>ti_sent = [], ti_fin = False, ti_uplink = Running, ti_downlink = Running\<rparr>,
      tr_mux = m, tr_wire = [], tr_phase = Selecting\<rparr>"

text \<open>
  An aborted uplink task drops its receiver, and an aborted downlink task only its writer and
  the reading half of the target. Aborting a task that has ended changes nothing.
\<close>

definition abort_uplink :: "mux_stream \<Rightarrow> target_run \<Rightarrow> target_run" where
  "abort_uplink stream t =
     (if ti_uplink (tr_io t) = Running
      then t\<lparr>tr_io := (tr_io t)\<lparr>ti_uplink := Aborted\<rparr>, tr_mux := drop_rx (inbound_rx stream) (tr_mux t)\<rparr>
      else t)"

definition abort_downlink :: "target_run \<Rightarrow> target_run" where
  "abort_downlink t = t\<lparr>tr_io := (tr_io t)\<lparr>ti_downlink := abort_task (ti_downlink (tr_io t))\<rparr>\<rparr>"

text \<open>
  A turn of the handler itself: the \<^verbatim>\<open>select!\<close> takes a task that has ended, aborts the other
  one if it failed, and awaits it. There is no shutdown channel, so \<open>BrSignal\<close> is no branch.
\<close>

definition target_wait :: "mux_stream \<Rightarrow> branch \<Rightarrow> target_run \<Rightarrow> target_run" where
  "target_wait stream br t =
     (let up = ti_uplink (tr_io t); down = ti_downlink (tr_io t)
      in case tr_phase t of
           Selecting \<Rightarrow>
             (case br of
                BrUplink \<Rightarrow>
                  if up = Running then t
                  else (if task_failed up then abort_downlink t else t)\<lparr>tr_phase := AwaitDownlink\<rparr>
              | BrDownlink \<Rightarrow>
                  if down = Running then t
                  else (if task_failed down then abort_uplink stream t else t)\<lparr>tr_phase := AwaitUplink\<rparr>
              | BrSignal \<Rightarrow> t)
         | AwaitDownlink \<Rightarrow> if down \<noteq> Running then t\<lparr>tr_phase := PipeEnded (relay_finish up down)\<rparr> else t
         | AwaitUplink \<Rightarrow> if up \<noteq> Running then t\<lparr>tr_phase := PipeEnded (relay_finish down up)\<rparr> else t
         | PipeEnded _ \<Rightarrow> t)"

text \<open>
  The relay among the events of its session: a frame that the reader task takes, an iteration
  of the writer task (the bytes it writes are appended to \<open>tr_wire\<close>), an iteration of a task
  of the relay (with the answer of the target's socket), a turn of the handler.
\<close>

datatype target_event = TgFrame frame | TgWriter bool | TgUplink bool | TgDownlink "bytes option" | TgWait branch

fun session_turn :: "target_event \<Rightarrow> target_run \<Rightarrow> target_run" where
  "session_turn (TgFrame f) t = t\<lparr>tr_mux := mux_reader_step f (tr_mux t)\<rparr>"
| "session_turn (TgWriter io_ok) t =
     (let (m, bs) = mux_writer_step io_ok (tr_mux t) in t\<lparr>tr_mux := m, tr_wire := tr_wire t @ bs\<rparr>)"
| "session_turn _ t = t"

fun target_turn :: "mux_stream \<Rightarrow> target_event \<Rightarrow> target_run \<Rightarrow> target_run" where
  "target_turn stream (TgFrame f) t = session_turn (TgFrame f) t"
| "target_turn stream (TgWriter io_ok) t = session_turn (TgWriter io_ok) t"
| "target_turn stream (TgUplink write_ok) t =
     (let (io, m) = tcp_uplink write_ok stream (tr_io t, tr_mux t) in t\<lparr>tr_io := io, tr_mux := m\<rparr>)"
| "target_turn stream (TgDownlink input) t =
     (let (io, m) = tcp_downlink input (ms_id stream) (tr_io t, tr_mux t) in t\<lparr>tr_io := io, tr_mux := m\<rparr>)"
| "target_turn stream (TgWait br) t = target_wait stream br t"

text \<open>
  \<^verbatim>\<open>handle_tcp_target\<close>: opening, then the relay over the events that follow. A handler that
  leaves early has dropped the stream.
\<close>

definition handle_tcp_target ::
  "(open_response \<Rightarrow> string + bytes) \<Rightarrow> connect_outcome \<Rightarrow> open_request \<Rightarrow> mux_stream \<Rightarrow> target_event list \<Rightarrow> mux
     \<Rightarrow> error \<times> mux + target_run" where
  "handle_tcp_target to_vec outcome request stream evs m =
     (case open_target to_vec None outcome (request\<lparr>or_protocol := Tcp\<rparr>) (ms_id stream) m of
        (Inl e, m1) \<Rightarrow> Inl (e, drop_rx (inbound_rx stream) m1)
      | (Inr _, m1) \<Rightarrow> Inr (fold (target_turn stream) evs (target_start m1)))"

section \<open>The relay of a UDP target\<close>

text \<open>
  The handler only waits for both tasks: \<^verbatim>\<open>try_join!\<close> on join handles sees the failure of a
  task as a value, and the handler ignores the values.
\<close>

fun udp_target_turn :: "mux_stream \<Rightarrow> target_event \<Rightarrow> target_run \<Rightarrow> target_run" where
  "udp_target_turn stream (TgFrame f) t = session_turn (TgFrame f) t"
| "udp_target_turn stream (TgWriter io_ok) t = session_turn (TgWriter io_ok) t"
| "udp_target_turn stream (TgUplink send_ok) t =
     (let (io, m) = udp_uplink send_ok stream (tr_io t, tr_mux t) in t\<lparr>tr_io := io, tr_mux := m\<rparr>)"
| "udp_target_turn stream (TgDownlink input) t =
     (let (io, m) = udp_downlink input (ms_id stream) (tr_io t, tr_mux t) in t\<lparr>tr_io := io, tr_mux := m\<rparr>)"
| "udp_target_turn stream (TgWait br) t =
     (if udp_ended (tr_io t) then t\<lparr>tr_phase := PipeEnded (Inr ())\<rparr> else t)"

definition handle_udp_target ::
  "(open_response \<Rightarrow> string + bytes) \<Rightarrow> string option \<Rightarrow> connect_outcome \<Rightarrow> open_request \<Rightarrow> mux_stream
     \<Rightarrow> target_event list \<Rightarrow> mux \<Rightarrow> error \<times> mux + target_run" where
  "handle_udp_target to_vec bind_error outcome request stream evs m =
     (case open_target to_vec bind_error outcome (request\<lparr>or_protocol := Udp\<rparr>) (ms_id stream) m of
        (Inl e, m1) \<Rightarrow> Inl (e, drop_rx (inbound_rx stream) m1)
      | (Inr _, m1) \<Rightarrow> Inr (fold (udp_target_turn stream) evs (target_start m1)))"

section \<open>When a relay ends\<close>

definition relay_phase_ok :: "target_run \<Rightarrow> bool" where
  "relay_phase_ok t \<longleftrightarrow>
     (let up = ti_uplink (tr_io t); down = ti_downlink (tr_io t)
      in case tr_phase t of
           Selecting \<Rightarrow> up \<noteq> Aborted \<and> down \<noteq> Aborted
         | AwaitDownlink \<Rightarrow> up = TaskOk \<and> down \<noteq> Aborted \<or> up = TaskErr \<and> down \<noteq> Running
         | AwaitUplink \<Rightarrow> down = TaskOk \<and> up \<noteq> Aborted \<or> down = TaskErr \<and> up \<noteq> Running
         | PipeEnded r \<Rightarrow> up \<noteq> Running \<and> down \<noteq> Running \<and> (r = Inr () \<longleftrightarrow> up = TaskOk \<and> down = TaskOk))"

lemma tcp_uplink_tasks:
  "ti_downlink (fst (tcp_uplink w stream (io, m))) = ti_downlink io"
  "ti_uplink io \<noteq> Running \<Longrightarrow> tcp_uplink w stream (io, m) = (io, m)"
  "ti_uplink (fst (tcp_uplink w stream (io, m))) = Aborted \<longleftrightarrow> ti_uplink io = Aborted"
  by (auto simp: tcp_uplink_def split: recv.splits prod.splits)

lemma tcp_downlink_tasks:
  "ti_uplink (fst (tcp_downlink input sid (io, m))) = ti_uplink io"
  "ti_sent (fst (tcp_downlink input sid (io, m))) = ti_sent io"
  "ti_fin (fst (tcp_downlink input sid (io, m))) = ti_fin io"
  "ti_downlink io \<noteq> Running \<Longrightarrow> tcp_downlink input sid (io, m) = (io, m)"
  "ti_downlink (fst (tcp_downlink input sid (io, m))) = Aborted \<longleftrightarrow> ti_downlink io = Aborted"
  by (auto simp: tcp_downlink_def split: option.splits list.splits sum.splits)

lemma target_wait_phase_ok: "relay_phase_ok t \<Longrightarrow> relay_phase_ok (target_wait stream br t)"
  by (cases "ti_uplink (tr_io t)"; cases "ti_downlink (tr_io t)"; cases br)
     (simp_all add: relay_phase_ok_def target_wait_def abort_uplink_def abort_downlink_def abort_task_def
        task_failed_def relay_finish_def split: pipe_phase.splits)

lemma target_turn_phase_ok:
  assumes "relay_phase_ok t"
  shows "relay_phase_ok (target_turn stream ev t)"
proof (cases ev)
  case (TgUplink w)
  show ?thesis
  proof (cases "ti_uplink (tr_io t) = Running")
    case True
    then show ?thesis
      using assms TgUplink tcp_uplink_tasks [where w = w and stream = stream and io = "tr_io t" and m = "tr_mux t"]
      by (auto simp: relay_phase_ok_def Let_def case_prod_beta split: pipe_phase.splits)
  qed (use assms TgUplink tcp_uplink_tasks(2) in simp)
next
  case (TgDownlink input)
  show ?thesis
  proof (cases "ti_downlink (tr_io t) = Running")
    case True
    then show ?thesis
      using assms TgDownlink tcp_downlink_tasks [where input = input and sid = "ms_id stream" and io = "tr_io t" and m = "tr_mux t"]
      by (auto simp: relay_phase_ok_def Let_def case_prod_beta split: pipe_phase.splits)
  qed (use assms TgDownlink tcp_downlink_tasks(4) in simp)
qed (use assms target_wait_phase_ok in \<open>simp_all add: relay_phase_ok_def case_prod_beta\<close>)

lemma target_phase_ok: "relay_phase_ok (fold (target_turn stream) evs (target_start m))"
proof -
  have "relay_phase_ok t \<Longrightarrow> relay_phase_ok (fold (target_turn stream) evs t)" for t
    by (induction evs arbitrary: t) (simp_all add: target_turn_phase_ok del: target_turn.simps)
  then show ?thesis by (simp add: relay_phase_ok_def target_start_def)
qed

section \<open>What a target receives\<close>

lemma chan_send_length_ge: "length (chans m) \<le> length (chans (mux_reader_step f m))"
  by (cases "frame_type f")
     (auto simp: mux_reader_step_def writer_send_def Let_def chan_new_def streams_insert_def drop_rx_def split: option.splits)

lemma streams_remove_gone:
  assumes "map_of (streams m) sid \<noteq> Some c"
  shows "chans (streams_remove sid m) ! c = chans m ! c"
  using assms by (cases "map_of (streams m) sid") (simp_all add: streams_remove_def drop_tx_def)

text \<open>A channel without sender is out of the reach of the reader task.\<close>

lemma reader_step_gone:
  assumes "mux_inv m" and "c < length (chans m)" and "\<not> ch_tx (chans m ! c)"
  shows "chans (mux_reader_step f m) ! c = chans m ! c"
proof -
  have no: "map_of (streams m) s \<noteq> Some c" for s using mux_inv_xD [OF assms(1)] assms(3) by (auto simp: open_chans_def)
  let ?d = "length (chans m)" and ?m1 = "snd (chan_new m)"
  have m1: "chans ?m1 ! c = chans m ! c" "streams ?m1 = streams m" "fst (chan_new m) = ?d" "c \<noteq> ?d"
    using assms(2) by (simp_all add: chan_new_def nth_append)
  show ?thesis
  proof (cases "frame_type f")
    case Open
    then show ?thesis
      using m1 no streams_remove_gone [of ?m1 "stream_id f" c] streams_remove_gone [of "chan_send ?d (payload f) ?m1" "stream_id f" c]
      by (auto simp: mux_reader_step_def writer_send_def Let_def case_prod_beta streams_insert_def drop_rx_def)
  next
    case Data
    then show ?thesis using no [of "stream_id f"] by (auto simp: mux_reader_step_def split: option.splits)
  next
    case Close
    then show ?thesis using streams_remove_gone no by (simp add: mux_reader_step_def)
  next
    case Error
    then show ?thesis using streams_remove_gone no by (simp add: mux_reader_step_def)
  qed (simp_all add: mux_reader_step_def writer_send_def)
qed

text \<open>The frame that ends or replaces a stream leaves its queued data and drops its sender.\<close>

lemma streams_remove_ends:
  assumes "map_of (streams m) sid = Some c" and "c < length (chans m)"
  shows "chans (streams_remove sid m) ! c = (chans m ! c)\<lparr>ch_tx := False\<rparr>"
  using assms by (simp add: streams_remove_def drop_tx_def)

lemma reader_step_ends:
  assumes "stream_on sid c m" and "\<not> keeps_stream sid f"
  shows "chans (mux_reader_step f m) ! c = (chans m ! c)\<lparr>ch_tx := False\<rparr>"
proof -
  have on: "mux_inv m" "map_of (streams m) sid = Some c" "incoming_open m" using assms(1) by (simp_all add: stream_on_def)
  have c: "c < length (chans m)" using mux_inv_xD [OF on(1,2)] by simp
  have f: "stream_id f = sid" "frame_type f = Open \<or> frame_type f = Close \<or> frame_type f = Error"
    using assms(2) by (auto simp: keeps_stream_def)
  let ?d = "length (chans m)" and ?m1 = "snd (chan_new m)"
  have m1: "chans ?m1 ! c = chans m ! c" "streams ?m1 = streams m" "fst (chan_new m) = ?d" "c \<noteq> ?d"
    "incoming_open ?m1" "c < length (chans ?m1)"
    using c on(3) by (simp_all add: chan_new_def nth_append)
  show ?thesis
    using f(2)
  proof (elim disjE)
    assume "frame_type f = Open"
    then show ?thesis
      using m1 f(1) on(2) streams_remove_ends [of ?m1 sid c] streams_remove_ends [of "chan_send ?d (payload f) ?m1" sid c]
      by (auto simp: mux_reader_step_def writer_send_def Let_def case_prod_beta streams_insert_def)
  qed (use f(1) on(2) c streams_remove_ends [of m sid c] in \<open>simp_all add: mux_reader_step_def\<close>)
qed

text \<open>What the controller has sent on a stream until its end: what was queued, and the data of the frames.\<close>

definition stream_data :: "u32 \<Rightarrow> bytes list \<Rightarrow> frame list \<Rightarrow> bytes list" where
  "stream_data sid q fs = q @ data_for sid (takeWhile (keeps_stream sid) fs)"

lemma stream_data_snoc:
  "stream_data sid q (fs @ [f]) =
     (if list_all (keeps_stream sid) (fs @ [f]) then stream_data sid q fs @ data_for sid [f] else stream_data sid q fs)"
proof (cases "list_all (keeps_stream sid) fs")
  case True
  then have tw: "takeWhile (keeps_stream sid) fs = fs" by (simp add: list_all_iff)
  show ?thesis using True by (simp add: stream_data_def data_for_def list_all_iff takeWhile_append tw)
next
  case False
  then obtain g where "g \<in> set fs" "\<not> keeps_stream sid g" by (auto simp: list_all_iff)
  then have "takeWhile (keeps_stream sid) (fs @ [f]) = takeWhile (keeps_stream sid) fs" by (rule takeWhile_append1)
  with False show ?thesis by (simp add: stream_data_def)
qed

lemma stream_data_prefix: "prefix xs (stream_data sid q fs) \<Longrightarrow> prefix xs (stream_data sid q (fs @ [f]))"
  by (simp add: stream_data_snoc)

definition uplink_ok :: "mux_stream \<Rightarrow> bytes list \<Rightarrow> frame list \<Rightarrow> target_run \<Rightarrow> bool" where
  "uplink_ok s q fs t \<longleftrightarrow>
     (let io = tr_io t; m = tr_mux t; ch = chans m ! inbound_rx s; sent = stream_data (ms_id s) q fs
      in mux_inv m \<and> inbound_rx s < length (chans m) \<and>
         (case ti_uplink io of
            Running \<Rightarrow> \<not> ti_fin io \<and> ti_sent io @ ch_queue ch = sent \<and>
              (if list_all (keeps_stream (ms_id s)) fs then stream_on (ms_id s) (inbound_rx s) m else \<not> ch_tx ch)
          | TaskOk \<Rightarrow> ti_fin io \<and> ti_sent io = sent \<and> \<not> list_all (keeps_stream (ms_id s)) fs
          | _ \<Rightarrow> \<not> ti_fin io \<and> prefix (ti_sent io) sent))"

lemma uplink_ok_frame:
  assumes "uplink_ok s q fs t"
  shows "uplink_ok s q (fs @ [f]) (target_turn s (TgFrame f) t)"
proof -
  let ?m = "tr_mux t" and ?c = "inbound_rx s"
  have inv: "mux_inv (mux_reader_step f ?m)" "?c < length (chans (mux_reader_step f ?m))"
    using assms inv_mux_reader_step chan_send_length_ge [of ?m f] by (auto simp: uplink_ok_def Let_def)
  show ?thesis
  proof (cases "ti_uplink (tr_io t) = Running")
    case run: True
    consider (keep) "list_all (keeps_stream (ms_id s)) fs" "keeps_stream (ms_id s) f"
      | (last) "list_all (keeps_stream (ms_id s)) fs" "\<not> keeps_stream (ms_id s) f"
      | (gone) "\<not> list_all (keeps_stream (ms_id s)) fs" by blast
    then show ?thesis
    proof cases
      case keep
      then have "stream_on (ms_id s) ?c ?m" using assms run by (simp add: uplink_ok_def Let_def)
      from reader_step_stream [OF this keep(2)] show ?thesis
        using assms run keep inv by (simp add: uplink_ok_def Let_def stream_data_snoc flip: append_assoc)
    next
      case last
      then have "stream_on (ms_id s) ?c ?m" using assms run by (simp add: uplink_ok_def Let_def)
      from reader_step_ends [OF this last(2)] show ?thesis
        using assms run last inv by (simp add: uplink_ok_def Let_def stream_data_snoc)
    next
      case gone
      then have "chans (mux_reader_step f ?m) ! ?c = chans ?m ! ?c"
        using assms run by (intro reader_step_gone) (simp_all add: uplink_ok_def Let_def)
      then show ?thesis
        using assms run gone inv by (simp add: uplink_ok_def Let_def stream_data_snoc)
    qed
  next
    case False
    then show ?thesis
      using assms inv
      by (auto simp: uplink_ok_def Let_def stream_data_snoc split: task.splits)
  qed
qed

lemma stream_on_recv:
  assumes "stream_on sid c m" and "ch_queue (chans m ! c) = d # ds"
  shows "stream_on sid c (m\<lparr>chans := (chans m)[c := (chans m ! c)\<lparr>ch_queue := ds\<rparr>]\<rparr>)"
proof -
  have c: "c < length (chans m)" using assms(1) mux_inv_xD(1) by (auto simp: stream_on_def)
  have "recv_data \<lparr>ms_id = sid, inbound_rx = c\<rparr> m = (Got d, m\<lparr>chans := (chans m)[c := (chans m ! c)\<lparr>ch_queue := ds\<rparr>]\<rparr>)"
    using assms(2) by (simp add: recv_data_def)
  from inv_recv_data [OF _ this] show ?thesis using assms(1) c by (simp add: stream_on_def)
qed

lemma uplink_ok_uplink:
  assumes "uplink_ok s q fs t"
  shows "uplink_ok s q fs (target_turn s (TgUplink w) t)"
proof (cases "ti_uplink (tr_io t) = Running")
  case run: True
  let ?m = "tr_mux t" and ?c = "inbound_rx s"
  have ok: "mux_inv ?m" "?c < length (chans ?m)" "\<not> ti_fin (tr_io t)"
    "ti_sent (tr_io t) @ ch_queue (chans ?m ! ?c) = stream_data (ms_id s) q fs"
    "if list_all (keeps_stream (ms_id s)) fs then stream_on (ms_id s) ?c ?m else \<not> ch_tx (chans ?m ! ?c)"
    using assms run by (simp_all add: uplink_ok_def Let_def)
  show ?thesis
  proof (cases "ch_queue (chans ?m ! ?c)")
    case Nil
    have "ch_tx (chans ?m ! ?c)" if "stream_on (ms_id s) ?c ?m"
      using that mux_inv_xD(2) by (auto simp: stream_on_def)
    then show ?thesis
      using Nil ok run by (auto simp: uplink_ok_def Let_def tcp_uplink_def recv_data_def split: if_splits)
  next
    case (Cons d ds)
    let ?m1 = "?m\<lparr>chans := (chans ?m)[?c := (chans ?m ! ?c)\<lparr>ch_queue := ds\<rparr>]\<rparr>"
    have r: "recv_data s ?m = (Got d, ?m1)" using Cons by (simp add: recv_data_def Let_def)
    have inv: "mux_inv ?m1" using inv_recv_data [OF ok(1) r] .
    show ?thesis
    proof (cases w)
      case True
      then show ?thesis
        using r inv ok Cons run stream_on_recv [of "ms_id s" ?c ?m d ds]
        by (simp add: uplink_ok_def Let_def tcp_uplink_def split: if_splits)
    next
      case False
      have "prefix (ti_sent (tr_io t)) (stream_data (ms_id s) q fs)" using ok(4) by (metis prefixI)
      then show ?thesis
        using r inv_drop_rx [OF inv] ok(2,3) run False
        by (simp add: uplink_ok_def Let_def tcp_uplink_def) (simp add: drop_rx_def)
    qed
  qed
qed (use assms tcp_uplink_tasks(2) in simp)

lemma uplink_ok_same:
  assumes "uplink_ok s q fs t" and "ti_uplink (tr_io t') = ti_uplink (tr_io t)" and "ti_sent (tr_io t') = ti_sent (tr_io t)"
    and "ti_fin (tr_io t') = ti_fin (tr_io t)" and "mux_inv (tr_mux t')" and "chans (tr_mux t') = chans (tr_mux t)"
    and "streams (tr_mux t') = streams (tr_mux t)" and "incoming_open (tr_mux t') = incoming_open (tr_mux t)"
  shows "uplink_ok s q fs t'"
  using assms by (auto simp: uplink_ok_def Let_def stream_on_def split: task.splits)

lemma tcp_downlink_mux:
  "\<exists>w. snd (tcp_downlink input sid (io, m)) = m\<lparr>writer_rx := w\<rparr>"
proof -
  have same: "\<exists>w. m = m\<lparr>writer_rx := w\<rparr>" by (rule exI [of _ "writer_rx m"]) simp
  show ?thesis
    by (auto simp: tcp_downlink_def send_data_def close_def writer_send_def intro: same split: option.splits list.splits)
qed

lemma uplink_ok_downlink:
  assumes "uplink_ok s q fs t"
  shows "uplink_ok s q fs (target_turn s (TgDownlink input) t)"
proof -
  obtain w where w: "snd (tcp_downlink input (ms_id s) (tr_io t, tr_mux t)) = (tr_mux t)\<lparr>writer_rx := w\<rparr>"
    using tcp_downlink_mux by blast
  have "mux_inv (tr_mux t)" using assms by (simp add: uplink_ok_def Let_def)
  then show ?thesis
    by (intro uplink_ok_same [OF assms]) (simp_all add: Let_def case_prod_beta w tcp_downlink_tasks)
qed

lemma writer_step_same:
  "chans (fst (mux_writer_step k m)) = chans m" "streams (fst (mux_writer_step k m)) = streams m"
  "incoming_open (fst (mux_writer_step k m)) = incoming_open m"
  by (simp_all add: mux_writer_step_def split: list.splits sum.splits)

lemma uplink_ok_writer:
  assumes "uplink_ok s q fs t"
  shows "uplink_ok s q fs (target_turn s (TgWriter k) t)"
proof -
  have "mux_inv (tr_mux t)" using assms by (simp add: uplink_ok_def Let_def)
  then have "mux_inv (fst (mux_writer_step k (tr_mux t)))"
    using inv_mux_writer_step [of "{}" "tr_mux t" k] by (cases "mux_writer_step k (tr_mux t)") simp
  then show ?thesis
    by (intro uplink_ok_same [OF assms]) (simp_all add: case_prod_beta writer_step_same)
qed

lemma uplink_ok_abort:
  assumes "uplink_ok s q fs t"
  shows "uplink_ok s q fs (abort_uplink s t)"
proof (cases "ti_uplink (tr_io t) = Running")
  case True
  then have "mux_inv (tr_mux t)" "prefix (ti_sent (tr_io t)) (stream_data (ms_id s) q fs)"
    using assms by (auto simp: uplink_ok_def Let_def) (metis prefixI)
  then show ?thesis
    using assms True inv_drop_rx [of "{}" "tr_mux t" "inbound_rx s"]
    by (simp add: abort_uplink_def uplink_ok_def Let_def) (simp add: drop_rx_def)
qed (use assms in \<open>simp add: abort_uplink_def\<close>)

lemma uplink_ok_phase: "uplink_ok s q fs (t\<lparr>tr_phase := ph\<rparr>) = uplink_ok s q fs t"
  by (simp add: uplink_ok_def)

lemma uplink_ok_abort_down: "uplink_ok s q fs (abort_downlink t) = uplink_ok s q fs t"
  by (simp add: uplink_ok_def abort_downlink_def Let_def split: task.split)

lemma uplink_ok_wait: "uplink_ok s q fs t \<Longrightarrow> uplink_ok s q fs (target_wait s br t)"
  using uplink_ok_abort [of s q fs t]
  by (simp add: target_wait_def Let_def uplink_ok_phase uplink_ok_abort_down split: pipe_phase.split branch.split)

text \<open>The frames that the reader task takes in a run, and the answers of the target's reads.\<close>

fun ev_frames :: "target_event \<Rightarrow> frame list" where
  "ev_frames (TgFrame f) = [f]"
| "ev_frames _ = []"

fun ev_reads :: "target_event \<Rightarrow> bytes option list" where
  "ev_reads (TgDownlink input) = [input]"
| "ev_reads _ = []"

lemma uplink_ok_turn: "uplink_ok s q fs t \<Longrightarrow> uplink_ok s q (fs @ ev_frames ev) (target_turn s ev t)"
  using uplink_ok_frame [of s q fs t] uplink_ok_uplink [of s q fs t] uplink_ok_downlink [of s q fs t]
    uplink_ok_writer [of s q fs t] uplink_ok_wait [of s q fs t]
  by (cases ev) (simp_all del: target_turn.simps, simp)

lemma uplink_ok_run:
  "uplink_ok s q fs t \<Longrightarrow> uplink_ok s q (fs @ concat (map ev_frames evs)) (fold (target_turn s) evs t)"
proof (induction evs arbitrary: fs t)
  case (Cons ev evs)
  from Cons.IH [OF uplink_ok_turn [OF Cons.prems]] show ?case by simp
qed simp

lemma uplink_ok_start:
  assumes "stream_on sid c m"
  shows "uplink_ok \<lparr>ms_id = sid, inbound_rx = c\<rparr> (ch_queue (chans m ! c)) [] (target_start m)"
proof -
  have "c < length (chans m)" using assms mux_inv_xD(1) by (auto simp: stream_on_def)
  then show ?thesis using assms by (simp add: uplink_ok_def target_start_def stream_data_def data_for_def stream_on_def)
qed

section \<open>What the controller receives\<close>

text \<open>What the target sends until its end or its first failure, in the chunks of the reads.\<close>

definition read_live :: "bytes option \<Rightarrow> bool" where
  "read_live input \<longleftrightarrow> input \<noteq> None \<and> input \<noteq> Some []"

definition target_data :: "bytes option list \<Rightarrow> bytes list" where
  "target_data ins = map (take TCP_COPY_BUF_SIZE \<circ> the) (takeWhile read_live ins)"

lemma target_data_snoc:
  "target_data (ins @ [i]) =
     (if list_all read_live (ins @ [i]) then target_data ins @ [take TCP_COPY_BUF_SIZE (the i)] else target_data ins)"
proof (cases "list_all read_live ins")
  case True
  then have tw: "takeWhile read_live ins = ins" by (simp add: list_all_iff)
  show ?thesis using True by (simp add: target_data_def list_all_iff takeWhile_append tw)
next
  case False
  then obtain g where "g \<in> set ins" "\<not> read_live g" by (auto simp: list_all_iff)
  then have "takeWhile read_live (ins @ [i]) = takeWhile read_live ins" by (rule takeWhile_append1)
  with False show ?thesis by (simp add: target_data_def)
qed

text \<open>
  The frames written to the wire, those still queued and, once the writer task has stopped,
  those lost carry together what the downlink task has taken from the target.
\<close>

definition queued_data :: "u32 \<Rightarrow> bytes list \<Rightarrow> target_run \<Rightarrow> bool" where
  "queued_data sid d t \<longleftrightarrow>
     (\<exists>fs lost. enc_all write_frame fs = Inr (tr_wire t) \<and> (writer_open (tr_mux t) \<longrightarrow> lost = []) \<and>
        (\<not> writer_open (tr_mux t) \<longrightarrow> writer_rx (tr_mux t) = []) \<and>
        data_for sid (fs @ writer_rx (tr_mux t) @ lost) = d)"

definition downlink_ok :: "u32 \<Rightarrow> bytes list \<Rightarrow> bytes option list \<Rightarrow> target_run \<Rightarrow> bool" where
  "downlink_ok sid d ins t \<longleftrightarrow>
     (case ti_downlink (tr_io t) of
        Running \<Rightarrow> list_all read_live ins \<and> queued_data sid (d @ target_data ins) t
      | TaskOk \<Rightarrow> \<not> list_all read_live ins \<and> queued_data sid (d @ target_data ins) t
      | _ \<Rightarrow> (\<exists>k. queued_data sid (d @ take k (target_data ins)) t))"

lemma data_for_append: "data_for sid (xs @ ys) = data_for sid xs @ data_for sid ys"
  by (simp add: data_for_def)

lemma reader_step_writer:
  "\<exists>ys. writer_rx (mux_reader_step f m) = writer_rx m @ ys \<and> data_for sid ys = [] \<and> (\<not> writer_open m \<longrightarrow> ys = [])"
  "writer_open (mux_reader_step f m) = writer_open m"
proof -
  have s: "writer_rx (streams_insert x c m') = writer_rx m'" "writer_open (streams_insert x c m') = writer_open m'"
    "writer_rx (streams_remove x m') = writer_rx m'" "writer_open (streams_remove x m') = writer_open m'" for x c m'
    by (simp_all add: streams_insert_def streams_remove_def drop_tx_def Let_def split: option.splits)
  show "\<exists>ys. writer_rx (mux_reader_step f m) = writer_rx m @ ys \<and> data_for sid ys = [] \<and> (\<not> writer_open m \<longrightarrow> ys = [])"
    by (cases "frame_type f")
       (simp_all add: mux_reader_step_def writer_send_def Let_def chan_new_def s data_for_def Frame_new_def drop_rx_def
         chan_send_def split: option.split)
  show "writer_open (mux_reader_step f m) = writer_open m"
    by (cases "frame_type f")
       (simp_all add: mux_reader_step_def writer_send_def Let_def chan_new_def s drop_rx_def chan_send_def split: option.split)
qed

lemma queued_frame:
  assumes "queued_data sid d t"
  shows "queued_data sid d (session_turn (TgFrame f) t)"
proof -
  obtain ys where ys: "writer_rx (mux_reader_step f (tr_mux t)) = writer_rx (tr_mux t) @ ys" "data_for sid ys = []"
    "\<not> writer_open (tr_mux t) \<longrightarrow> ys = []" using reader_step_writer(1) by blast
  with assms show ?thesis
    unfolding queued_data_def by (fastforce simp: reader_step_writer(2) data_for_append)
qed

lemma enc_all_snoc:
  "enc_all enc xs = Inr bs \<Longrightarrow> enc x = Inr b \<Longrightarrow> enc_all enc (xs @ [x]) = Inr (bs @ b)"
  by (induction xs arbitrary: bs) (auto split: sum.splits)

lemma queued_writer:
  assumes "queued_data sid d t"
  shows "queued_data sid d (session_turn (TgWriter k) t)"
proof -
  obtain fs lost where q: "enc_all write_frame fs = Inr (tr_wire t)" "writer_open (tr_mux t) \<longrightarrow> lost = []"
    "\<not> writer_open (tr_mux t) \<longrightarrow> writer_rx (tr_mux t) = []" "data_for sid (fs @ writer_rx (tr_mux t) @ lost) = d"
    using assms unfolding queued_data_def by blast
  show ?thesis
  proof (cases "writer_open (tr_mux t) \<and> writer_rx (tr_mux t) \<noteq> []")
    case False
    then have "mux_writer_step k (tr_mux t) = (tr_mux t, [])"
      by (cases "writer_rx (tr_mux t)") (auto simp: mux_writer_step_def)
    then show ?thesis using assms by (simp add: queued_data_def)
  next
    case True
    then obtain f gs where w: "writer_open (tr_mux t)" "writer_rx (tr_mux t) = f # gs" "lost = []"
      using q(2) by (cases "writer_rx (tr_mux t)") auto
    show ?thesis
    proof (cases "\<exists>bs. write_frame f = Inr bs \<and> k")
      case True
      then obtain bs where "write_frame f = Inr bs" "k" by blast
      then show ?thesis
        using w q enc_all_snoc [OF q(1), of f bs] unfolding queued_data_def
        by (intro exI [of _ "fs @ [f]"] exI [of _ "[]"]) (simp add: mux_writer_step_def)
    next
      case False
      then show ?thesis
        using w q unfolding queued_data_def
        by (intro exI [of _ fs] exI [of _ "f # gs"]) (auto simp: mux_writer_step_def split: sum.split)
    qed
  qed
qed

lemma queued_same:
  "tr_mux t' = tr_mux t \<Longrightarrow> tr_wire t' = tr_wire t \<Longrightarrow> queued_data sid d t' = queued_data sid d t"
  by (simp add: queued_data_def)

lemma queued_send:
  assumes "queued_data sid d t" and "writer_open (tr_mux t)"
    and "tr_mux t' = (tr_mux t)\<lparr>writer_rx := writer_rx (tr_mux t) @ [f]\<rparr>" and "tr_wire t' = tr_wire t"
  shows "queued_data sid (d @ data_for sid [f]) t'"
  using assms unfolding queued_data_def by (fastforce simp: data_for_append)

lemma queued_cong:
  assumes "writer_rx (tr_mux t') = writer_rx (tr_mux t)" and "writer_open (tr_mux t') = writer_open (tr_mux t)"
    and "tr_wire t' = tr_wire t"
  shows "queued_data sid d t' = queued_data sid d t"
  using assms by (simp add: queued_data_def)

lemma uplink_writer:
  "writer_rx (snd (tcp_uplink w s (io, m))) = writer_rx m" "writer_open (snd (tcp_uplink w s (io, m))) = writer_open m"
  by (auto simp: tcp_uplink_def recv_data_def drop_rx_def Let_def split: list.split)

lemma wait_writer:
  "writer_rx (tr_mux (target_wait s br t)) = writer_rx (tr_mux t)" "writer_open (tr_mux (target_wait s br t)) = writer_open (tr_mux t)"
  "tr_wire (target_wait s br t) = tr_wire t"
  by (simp_all add: target_wait_def abort_uplink_def abort_downlink_def drop_rx_def Let_def split: pipe_phase.split branch.split)

lemma wait_downlink:
  "ti_downlink (tr_io (target_wait s br t)) = ti_downlink (tr_io t) \<or>
   ti_downlink (tr_io t) = Running \<and> ti_downlink (tr_io (target_wait s br t)) = Aborted"
  by (auto simp: target_wait_def abort_uplink_def abort_downlink_def abort_task_def Let_def split: pipe_phase.split branch.split)

lemma downlink_ok_other:
  assumes "downlink_ok sid d ins t" and "\<And>e. queued_data sid e t \<Longrightarrow> queued_data sid e t'"
    and "ti_downlink (tr_io t') = ti_downlink (tr_io t) \<or> ti_downlink (tr_io t) = Running \<and> ti_downlink (tr_io t') = Aborted"
  shows "downlink_ok sid d ins t'"
proof -
  have "\<exists>k. queued_data sid (d @ take k (target_data ins)) t'" if "ti_downlink (tr_io t) = Running"
    using assms(1,2) that by (auto simp: downlink_ok_def intro!: exI [of _ "length (target_data ins)"])
  then show ?thesis
    using assms by (cases "ti_downlink (tr_io t)") (auto simp: downlink_ok_def)
qed

lemma downlink_ok_downlink:
  assumes "downlink_ok (ms_id s) d ins t"
  shows "downlink_ok (ms_id s) d (ins @ [input]) (target_turn s (TgDownlink input) t)"
proof (cases "ti_downlink (tr_io t) = Running")
  case run: True
  then have ok: "list_all read_live ins" "queued_data (ms_id s) (d @ target_data ins) t"
    using assms by (simp_all add: downlink_ok_def)
  let ?t = "target_turn s (TgDownlink input) t"
  have full: "\<exists>k. queued_data (ms_id s) (d @ take k (target_data (ins @ [input]))) t'"
    if "queued_data (ms_id s) (d @ target_data ins) t'" for t'
    using that by (intro exI [of _ "length (target_data ins)"]) (simp add: target_data_snoc)
  consider (fail) "input = None" | (eof) "input = Some []" | (data) b bs where "input = Some (b # bs)"
    by (cases input) (auto, metis list.exhaust)
  then show ?thesis
  proof cases
    case fail
    have "queued_data (ms_id s) (d @ target_data ins) ?t"
      using ok(2) run fail by (simp add: tcp_downlink_def queued_data_def)
    then show ?thesis using full run fail by (simp add: downlink_ok_def tcp_downlink_def)
  next
    case eof
    have "queued_data (ms_id s) (d @ target_data ins) ?t"
    proof (cases "writer_open (tr_mux t)")
      case True
      then show ?thesis
        using queued_send [OF ok(2) True, of ?t "Frame_new Close (ms_id s) []"] run eof
        by (simp add: tcp_downlink_def close_def writer_send_def data_for_def Frame_new_def)
    qed (use ok(2) run eof in \<open>simp add: tcp_downlink_def close_def writer_send_def queued_data_def\<close>)
    then show ?thesis
      using ok(1) run eof by (simp add: downlink_ok_def tcp_downlink_def target_data_snoc read_live_def)
  next
    case data
    show ?thesis
    proof (cases "writer_open (tr_mux t)")
      case True
      let ?f = "Frame_new Data (ms_id s) (take TCP_COPY_BUF_SIZE (b # bs))"
      have "queued_data (ms_id s) ((d @ target_data ins) @ data_for (ms_id s) [?f]) ?t"
        using queued_send [OF ok(2) True, of ?t ?f] run data True
        by (simp add: tcp_downlink_def send_data_def writer_send_def)
      then show ?thesis
        using ok(1) run data True
        by (simp add: downlink_ok_def tcp_downlink_def send_data_def writer_send_def target_data_snoc read_live_def
            data_for_def Frame_new_def)
    next
      case False
      have "queued_data (ms_id s) (d @ target_data ins) ?t"
        using ok(2) run data False by (simp add: tcp_downlink_def send_data_def writer_send_def queued_data_def)
      then show ?thesis
        using full run data False by (simp add: downlink_ok_def tcp_downlink_def send_data_def writer_send_def)
    qed
  qed
next
  case False
  have t: "target_turn s (TgDownlink input) t = t" using tcp_downlink_tasks(4) [OF False] by simp
  have k: "\<exists>j. take k (target_data ins) = take j (target_data (ins @ [input]))" for k
    by (rule exI [of _ "min k (length (target_data ins))"]) (simp add: target_data_snoc min_def)
  show ?thesis
    unfolding t using assms False k
    by (cases "ti_downlink (tr_io t)") (auto simp: downlink_ok_def target_data_snoc, metis+)
qed

lemma downlink_ok_turn:
  assumes "downlink_ok (ms_id s) d ins t"
  shows "downlink_ok (ms_id s) d (ins @ ev_reads ev) (target_turn s ev t)"
proof (cases ev)
  case (TgUplink w)
  let ?t = "target_turn s (TgUplink w) t"
  have "queued_data (ms_id s) e ?t = queued_data (ms_id s) e t" for e
    by (rule queued_cong) (simp_all add: case_prod_beta uplink_writer)
  moreover have "ti_downlink (tr_io ?t) = ti_downlink (tr_io t)" by (simp add: case_prod_beta tcp_uplink_tasks)
  ultimately show ?thesis using TgUplink downlink_ok_other [OF assms, of ?t] by (simp del: target_turn.simps)
next
  case (TgWait br)
  have "downlink_ok (ms_id s) d ins (target_wait s br t)"
    using wait_downlink [of s br t] queued_cong [OF wait_writer, of "ms_id s"] by (intro downlink_ok_other [OF assms]) auto
  then show ?thesis using TgWait by simp
next
  case (TgFrame f)
  then show ?thesis using downlink_ok_other [OF assms queued_frame] by simp
next
  case (TgWriter k)
  have "ti_downlink (tr_io (session_turn (TgWriter k) t)) = ti_downlink (tr_io t)" by (simp add: case_prod_beta)
  then show ?thesis using TgWriter downlink_ok_other [OF assms queued_writer] by simp
qed (use assms downlink_ok_downlink in \<open>simp del: target_turn.simps\<close>)

lemma downlink_ok_run:
  "downlink_ok (ms_id s) d ins t \<Longrightarrow>
   downlink_ok (ms_id s) d (ins @ concat (map ev_reads evs)) (fold (target_turn s) evs t)"
proof (induction evs arbitrary: ins t)
  case (Cons ev evs)
  from Cons.IH [OF downlink_ok_turn [OF Cons.prems]] show ?case by simp
qed simp

lemma downlink_ok_start:
  "writer_open m \<Longrightarrow> downlink_ok sid (data_for sid (writer_rx m)) [] (target_start m)"
  by (auto simp: downlink_ok_def queued_data_def target_start_def target_data_def intro: exI [of _ "[]"])

section \<open>The sessions of the agent\<close>

text \<open>
  The end of \<^verbatim>\<open>run_agent\<close> drops the mux and with it the map of the streams, so every stream of
  the session loses its sender; the tasks of the streams go on.
\<close>

definition mux_dropped :: "mux \<Rightarrow> mux" where
  "mux_dropped m =
     m\<lparr>streams := [], chans := map (\<lambda>ch. ch\<lparr>ch_tx := False\<rparr>) (chans m), incoming_rx := [], incoming_open := False\<rparr>"

text \<open>
  The process: the phase of \<^verbatim>\<open>run_agent\<close> or of the pause between two runs, whether the
  heartbeat task runs, the pool manager, the tasks that earlier pool managers left behind (a
  pool manager spawns its tasks without keeping them, so they are not aborted with it), and
  the number of stream tasks.
\<close>

datatype agent_phase = DialControl | DialData | Serving | Pausing

record agent_run =
  ar_phase :: agent_phase
  ar_control :: bool
  ar_pool :: "pool_manager option"
  ar_left :: "pool_manager list"
  ar_streams :: nat

definition agent_start :: agent_run where
  "agent_start = \<lparr>ar_phase = DialControl, ar_control = False, ar_pool = None, ar_left = [], ar_streams = 0\<rparr>"

text \<open>\<^verbatim>\<open>main\<close> ends only if the configuration cannot be loaded.\<close>

definition agent_main ::
  "(string \<Rightarrow> string option) \<Rightarrow> (string \<Rightarrow> error + string) \<Rightarrow> (string \<Rightarrow> error + raw_agent) \<Rightarrow> string
     \<Rightarrow> error + agent_config \<times> agent_run" where
  "agent_main env read_to_string from_str path =
     (case load_agent_config_with_env env read_to_string from_str path of
        Inl e \<Rightarrow> Inl e
      | Inr cfg \<Rightarrow> Inr (cfg, agent_start))"

inductive agent_step :: "agent_run \<Rightarrow> agent_run \<Rightarrow> bool" where
  control_dialled: "ar_phase a = DialControl \<Longrightarrow> agent_step a (a\<lparr>ar_phase := DialData\<rparr>)"
| control_refused: "ar_phase a = DialControl \<Longrightarrow> agent_step a (a\<lparr>ar_phase := Pausing\<rparr>)"
| data_dialled: "ar_phase a = DialData \<Longrightarrow>
    agent_step a (a\<lparr>ar_phase := Serving, ar_control := True, ar_pool := Some pool_manager_new\<rparr>)"
| data_refused: "ar_phase a = DialData \<Longrightarrow> agent_step a (a\<lparr>ar_phase := Pausing\<rparr>)"
| control_ended: "ar_control a \<Longrightarrow> agent_step a (a\<lparr>ar_control := False\<rparr>)"
| pool_works: "ar_pool a = Some m \<Longrightarrow> pool_step m m' \<Longrightarrow> agent_step a (a\<lparr>ar_pool := Some m'\<rparr>)"
| stream_accepted: "ar_phase a = Serving \<Longrightarrow> agent_step a (a\<lparr>ar_streams := ar_streams a + 1\<rparr>)"
| stream_ended: "0 < ar_streams a \<Longrightarrow> agent_step a (a\<lparr>ar_streams := ar_streams a - 1\<rparr>)"
| session_ended: "ar_phase a = Serving \<Longrightarrow> ar_pool a = Some m \<Longrightarrow>
    agent_step a (a\<lparr>ar_phase := Pausing, ar_control := False, ar_pool := None, ar_left := m # ar_left a\<rparr>)"
| left_task: "i < length (ar_left a) \<Longrightarrow> pool_step (ar_left a ! i) m' \<Longrightarrow> pm_dialing m' \<le> pm_dialing (ar_left a ! i) \<Longrightarrow>
    agent_step a (a\<lparr>ar_left := (ar_left a)[i := m']\<rparr>)"
| paused: "ar_phase a = Pausing \<Longrightarrow> agent_step a (a\<lparr>ar_phase := DialControl\<rparr>)"

inductive_cases agent_stepE: "agent_step a a'"

definition slots_ok :: "pool_manager \<Rightarrow> bool" where
  "slots_ok m \<longleftrightarrow> pm_permits m + pm_dialing m + pm_backoff m + pm_warm m = POOL_SIZE"

definition agent_ok :: "agent_run \<Rightarrow> bool" where
  "agent_ok a \<longleftrightarrow>
     (ar_phase a = Serving \<longleftrightarrow> ar_pool a \<noteq> None) \<and> (ar_control a \<longrightarrow> ar_phase a = Serving) \<and>
     list_all slots_ok (ar_left a) \<and> pred_option slots_ok (ar_pool a)"

lemma slots_step: "slots_ok m \<Longrightarrow> pool_step m m' \<Longrightarrow> slots_ok m'"
  unfolding slots_ok_def by (rule pool_sys.inv_step)

lemma slots_new: "slots_ok pool_manager_new"
  unfolding slots_ok_def by (rule pool_sys.inv_init) (rule refl)

interpretation agent_sys: invariant_system "\<lambda>a. a = agent_start" agent_step agent_ok
proof
  show "agent_ok a" if "a = agent_start" for a using that by (simp add: agent_ok_def agent_start_def)
  show "agent_ok a'" if "agent_ok a" "agent_step a a'" for a a'
    using that(2,1)
  proof cases
    case (left_task i m')
    have "slots_ok (ar_left a ! i)" using that(1) left_task(2) by (simp add: agent_ok_def list_all_length)
    then have "slots_ok m'" using left_task(3) slots_step by blast
    then show ?thesis
      using that(1) left_task(1) by (auto simp: agent_ok_def list_all_iff dest!: set_update_subset_insert [THEN subsetD])
  qed (auto simp: agent_ok_def slots_new slots_step)
qed

text \<open>
  At most 32 connections of each session, also of the ended ones, are warm; the heartbeat runs
  only while its session does; and the agent can always come back to serving.
\<close>

definition warm_connections :: "agent_run \<Rightarrow> nat" where
  "warm_connections a =
     sum_list (map pm_warm (ar_left a)) + (case ar_pool a of None \<Rightarrow> 0 | Some m \<Rightarrow> pm_warm m)"

lemma warm_connections_bounded:
  assumes "reachable (\<lambda>a. a = agent_start) agent_step a"
  shows "warm_connections a \<le> POOL_SIZE * (length (ar_left a) + (if ar_phase a = Serving then 1 else 0))"
proof -
  have ok: "agent_ok a" using assms by (rule agent_sys.reachable_inv)
  have le: "slots_ok m \<Longrightarrow> pm_warm m \<le> POOL_SIZE" for m by (simp add: slots_ok_def)
  have "list_all slots_ok ms \<Longrightarrow> sum_list (map pm_warm ms) \<le> POOL_SIZE * length ms" for ms
    using le by (induction ms) (auto simp: add_mono)
  moreover have "(case ar_pool a of None \<Rightarrow> 0 | Some m \<Rightarrow> pm_warm m) \<le> (if ar_phase a = Serving then POOL_SIZE else 0)"
    using ok le by (auto simp: agent_ok_def split: option.splits)
  ultimately show ?thesis
    using ok by (auto simp: warm_connections_def agent_ok_def distrib_left intro: add_mono)
qed

lemma agent_can_serve: "\<exists>a'. agent_step\<^sup>*\<^sup>* a a' \<and> ar_phase a' = Serving"
proof -
  have data: "\<exists>a'. agent_step\<^sup>*\<^sup>* a a' \<and> ar_phase a' = Serving" if "ar_phase a = DialData" for a
    using r_into_rtranclp [of agent_step, OF data_dialled [OF that]] by force
  have control: "\<exists>a'. agent_step\<^sup>*\<^sup>* a a' \<and> ar_phase a' = Serving" if "ar_phase a = DialControl" for a
    using data [of "a\<lparr>ar_phase := DialData\<rparr>"] converse_rtranclp_into_rtranclp [of agent_step, OF control_dialled [OF that]] by auto
  have pause: "\<exists>a'. agent_step\<^sup>*\<^sup>* a a' \<and> ar_phase a' = Serving" if "ar_phase a = Pausing" for a
    using control [of "a\<lparr>ar_phase := DialControl\<rparr>"] converse_rtranclp_into_rtranclp [of agent_step, OF paused [OF that]] by auto
  show ?thesis using data control pause by (cases "ar_phase a") auto
qed

text \<open>
  After one lost session the agent may hold twice the pool: the warm connections of the ended
  session are still there beside the new pool's.
\<close>

lemma pool_runs:
  assumes "pool_step\<^sup>*\<^sup>* m m'" and "ar_pool a = Some m"
  shows "agent_step\<^sup>*\<^sup>* a (a\<lparr>ar_pool := Some m'\<rparr>)"
  using assms
proof (induction rule: rtranclp_induct)
  case base
  then have "a\<lparr>ar_pool := Some m\<rparr> = a" by simp
  then show ?case by simp
next
  case (step y z)
  then show ?case
    using pool_works [of "a\<lparr>ar_pool := Some y\<rparr>" y z] by (auto intro: rtranclp.rtrancl_into_rtrancl)
qed

lemma warm_pool_outlives_session:
  "\<exists>a. agent_step\<^sup>*\<^sup>* agent_start a \<and> warm_connections a = 64 \<and> ar_phase a = Serving"
proof -
  obtain m where m: "pool_step\<^sup>*\<^sup>* pool_manager_new m" "pm_warm m = 32"
    using pool_refills [of pool_manager_new] slots_new by (auto simp: slots_ok_def POOL_SIZE_def)
  let ?serve = "\<lambda>ms. agent_start\<lparr>ar_phase := Serving, ar_control := True, ar_pool := Some pool_manager_new, ar_left := ms\<rparr>"
  have serve: "agent_step\<^sup>*\<^sup>* (agent_start\<lparr>ar_left := ms\<rparr>) (?serve ms)" for ms
    using control_dialled [of "agent_start\<lparr>ar_left := ms\<rparr>"] data_dialled [of "agent_start\<lparr>ar_phase := DialData, ar_left := ms\<rparr>"]
    by (simp add: agent_start_def)
  have fill: "agent_step\<^sup>*\<^sup>* (?serve ms) ((?serve ms)\<lparr>ar_pool := Some m\<rparr>)" for ms
    by (rule pool_runs [OF m(1)]) simp
  have lose: "agent_step\<^sup>*\<^sup>* ((?serve [])\<lparr>ar_pool := Some m\<rparr>) (agent_start\<lparr>ar_left := [m]\<rparr>)"
    using session_ended [of "(?serve [])\<lparr>ar_pool := Some m\<rparr>" m] paused [of "agent_start\<lparr>ar_phase := Pausing, ar_left := [m]\<rparr>"]
    by (simp add: agent_start_def)
  have "agent_step\<^sup>*\<^sup>* agent_start ((?serve [m])\<lparr>ar_pool := Some m\<rparr>)"
    using serve [of "[]"] fill [of "[]"] lose serve [of "[m]"] fill [of "[m]"]
    by (simp add: agent_start_def)
  then show ?thesis using m(2) by (intro exI conjI) (auto simp: warm_connections_def)
qed

text \<open>The end of the session lets every TCP relay deliver what is queued and shut its target down.\<close>

lemma session_end_drains:
  assumes "inbound_rx s < length (chans m)" and "ti_uplink io = Running"
    and "ch_queue (chans m ! inbound_rx s) = q" and "\<not> ch_tx (chans m ! inbound_rx s)"
  shows "fst ((tcp_uplink True s ^^ Suc (length q)) (io, m)) =
         io\<lparr>ti_sent := ti_sent io @ q, ti_fin := True, ti_uplink := TaskOk\<rparr>"
  using assms
proof (induction q arbitrary: io m)
  case Nil
  then show ?case by (simp add: tcp_uplink_def recv_data_def Let_def)
next
  case (Cons d q)
  let ?m = "m\<lparr>chans := (chans m)[inbound_rx s := (chans m ! inbound_rx s)\<lparr>ch_queue := q\<rparr>]\<rparr>"
  have "tcp_uplink True s (io, m) = (io\<lparr>ti_sent := ti_sent io @ [d]\<rparr>, ?m)"
    using Cons.prems by (simp add: tcp_uplink_def recv_data_def Let_def)
  moreover have "fst ((tcp_uplink True s ^^ Suc (length q)) (io\<lparr>ti_sent := ti_sent io @ [d]\<rparr>, ?m)) =
      io\<lparr>ti_sent := ti_sent io @ d # q, ti_fin := True, ti_uplink := TaskOk\<rparr>"
    using Cons.prems Cons.IH [of ?m "io\<lparr>ti_sent := ti_sent io @ [d]\<rparr>"] by simp
  ultimately show ?case by (simp add: funpow_Suc_right del: funpow.simps)
qed

lemma session_end_ends_uplinks:
  assumes "inbound_rx s < length (chans m)" and "ti_uplink io = Running"
  shows "fst ((tcp_uplink True s ^^ Suc (length (ch_queue (chans m ! inbound_rx s)))) (io, mux_dropped m)) =
         io\<lparr>ti_sent := ti_sent io @ ch_queue (chans m ! inbound_rx s), ti_fin := True, ti_uplink := TaskOk\<rparr>"
  using assms by (intro session_end_drains) (simp_all add: mux_dropped_def)

section \<open>Properties\<close>

lemma send_open_ok_queue:
  assumes "send_open_ok to_vec sid m = (Inr u, m1)" and "to_vec OpenResponse_ok = Inr body"
  shows "writer_open m \<and> m1 = m\<lparr>writer_rx := writer_rx m @ [Frame_new Data sid body]\<rparr>"
  using assms by (auto simp: send_open_ok_def send_data_def writer_send_def split: if_splits)

lemma handle_tcp_target_Inr:
  assumes "handle_tcp_target to_vec outcome request stream evs m = Inr t" and "to_vec OpenResponse_ok = Inr body"
  shows "outcome = Connected \<and> writer_open m \<and>
    t = fold (target_turn stream) evs
          (target_start (m\<lparr>writer_rx := writer_rx m @ [Frame_new Data (ms_id stream) body]\<rparr>))"
proof -
  obtain u m1 where o: "open_target to_vec None outcome (request\<lparr>or_protocol := Tcp\<rparr>) (ms_id stream) m = (Inr u, m1)"
    "t = fold (target_turn stream) evs (target_start m1)"
    using assms(1) by (auto simp: handle_tcp_target_def split: prod.splits sum.splits)
  then have "outcome = Connected" "send_open_ok to_vec (ms_id stream) m = (Inr u, m1)"
    by (cases outcome; simp add: open_target_def connect_error_def Let_def split: prod.splits sum.splits)+
  then show ?thesis using send_open_ok_queue assms(2) o(2) by blast
qed


definition relay_example :: "target_event list" where
  "relay_example = [TgUplink True, TgFrame (Frame_new Data 1 [8]), TgDownlink (Some [9]), TgFrame (Frame_new Close 1 []),
     TgUplink True, TgUplink True, TgDownlink (Some []), TgWait BrUplink, TgWait BrUplink]"


text \<open>
  A UDP relay that ends reports success whatever happened to its tasks: the handler ignores
  their results.
\<close>

lemma udp_relay_result:
  assumes "handle_udp_target to_vec bind_error outcome request stream evs m = Inr t" and "tr_phase t = PipeEnded r"
  shows "r = Inr () \<and> udp_ended (tr_io t)"
proof -
  let ?I = "\<lambda>t. \<forall>r. tr_phase t = PipeEnded r \<longrightarrow> r = Inr () \<and> udp_ended (tr_io t)"
  have turn: "?I (udp_target_turn stream ev x)" if "?I x" for ev x
  proof (cases "udp_ended (tr_io x)")
    case True
    then have "udp_uplink w stream (tr_io x, tr_mux x) = (tr_io x, tr_mux x)"
      "udp_downlink input sid (tr_io x, tr_mux x) = (tr_io x, tr_mux x)" for w input sid
      by (simp_all add: udp_ended_def udp_uplink_def udp_downlink_def)
    then show ?thesis using that True by (cases ev) (simp_all add: case_prod_beta)
  next
    case False
    then show ?thesis using that by (cases ev) (simp_all add: case_prod_beta)
  qed
  have run: "?I (fold (udp_target_turn stream) es x)" if "?I x" for es x
    using that
  proof (induction es arbitrary: x)
    case (Cons e es)
    from Cons.IH [OF turn [OF Cons.prems]] show ?case by simp
  qed simp
  obtain m1 where "t = fold (udp_target_turn stream) evs (target_start m1)"
    using assms(1) by (auto simp: handle_udp_target_def split: prod.splits sum.splits)
  then show ?thesis using run [of "target_start m1" evs] assms(2) by (simp add: target_start_def)
qed

end
