(* ===== verification/Socks5.thy ===== *)
theory Socks5
  imports Proxy_Tcp Ip_Text
begin

text \<open>
  The SOCKS5 proxy's protocol, \<^verbatim>\<open>crates/rps-controller/src/proxy_socks5.rs\<close>: the
  negotiation and authentication of a TCP connection, the addresses of requests and of UDP
  packets, and the replies. A connection is the bytes the client sends before it ends; a
  handler returns the bytes it writes to the client with its result. The UDP relay is in the
  theory that follows.
\<close>

definition SOCKS_VERSION :: byte where "SOCKS_VERSION = 5"
definition METHOD_NO_AUTH :: byte where "METHOD_NO_AUTH = 0"
definition METHOD_USERNAME_PASSWORD :: byte where "METHOD_USERNAME_PASSWORD = 2"
definition CMD_CONNECT :: byte where "CMD_CONNECT = 1"
definition CMD_BIND :: byte where "CMD_BIND = 2"
definition CMD_UDP_ASSOCIATE :: byte where "CMD_UDP_ASSOCIATE = 3"
definition ATYP_IPV4 :: byte where "ATYP_IPV4 = 1"
definition ATYP_DOMAIN :: byte where "ATYP_DOMAIN = 3"
definition ATYP_IPV6 :: byte where "ATYP_IPV6 = 4"
definition REP_SUCCEEDED :: byte where "REP_SUCCEEDED = 0"
definition REP_GENERAL_FAILURE :: byte where "REP_GENERAL_FAILURE = 1"
definition REP_COMMAND_NOT_SUPPORTED :: byte where "REP_COMMAND_NOT_SUPPORTED = 7"
definition REP_ADDR_TYPE_NOT_SUPPORTED :: byte where "REP_ADDR_TYPE_NOT_SUPPORTED = 8"

lemmas socks_consts = SOCKS_VERSION_def METHOD_NO_AUTH_def METHOD_USERNAME_PASSWORD_def CMD_CONNECT_def CMD_BIND_def
  CMD_UDP_ASSOCIATE_def ATYP_IPV4_def ATYP_DOMAIN_def ATYP_IPV6_def REP_SUCCEEDED_def REP_GENERAL_FAILURE_def
  REP_COMMAND_NOT_SUPPORTED_def REP_ADDR_TYPE_NOT_SUPPORTED_def

text \<open>\<^verbatim>\<open>Result::ok\<close>.\<close>

fun result_ok :: "'e + 'a \<Rightarrow> 'a option" where
  "result_ok (Inr x) = Some x"
| "result_ok (Inl e) = None"

lemma result_ok_Some [simp]: "result_ok r = Some x \<longleftrightarrow> r = Inr x"
  by (cases r) auto

lemma result_ok_None: "result_ok r = None \<longleftrightarrow> (\<exists>e. r = Inl e)"
  by (cases r) auto

section \<open>Socket addresses\<close>

datatype ip_addr = IpV4 ipv4 | IpV6 ipv6

record socket_addr =
  sk_ip :: ip_addr
  sk_port :: u16

fun ip_to_string :: "ip_addr \<Rightarrow> string" where
  "ip_to_string (IpV4 a) = ipv4_to_string a"
| "ip_to_string (IpV6 a) = ipv6_to_string a"

definition socket_to_string :: "socket_addr \<Rightarrow> string" where
  "socket_to_string a =
     (case sk_ip a of
        IpV4 ip \<Rightarrow> ipv4_to_string ip
      | IpV6 ip \<Rightarrow> ''['' @ ipv6_to_string ip @ '']'') @ '':'' @ dec_string (unat (sk_port a))"

section \<open>Addresses of requests\<close>

record socks_addr =
  sa_host :: string
  sa_port :: u16
  sa_atyp :: byte

definition socks_target :: "socks_addr \<Rightarrow> string" where
  "socks_target a =
     (if sa_atyp a = ATYP_IPV6 then ''['' @ sa_host a @ '']:'' @ dec_string (unat (sa_port a))
      else sa_host a @ '':'' @ dec_string (unat (sa_port a)))"

definition unsupported_atyp :: "byte \<Rightarrow> error" where
  "unsupported_atyp atyp = Bail (''unsupported socks address type '' @ dec_string (unat atyp))"

definition encode_udp_response :: "socks_addr \<Rightarrow> bytes \<Rightarrow> error + bytes" where
  "encode_udp_response a data =
     (let head = [0, 0, 0, sa_atyp a]; tail = u16_to_be (sa_port a) @ data
      in if sa_atyp a = ATYP_IPV4
         then (case ipv4_parse (sa_host a) of
                 None \<Rightarrow> Inl (Bail ''invalid IPv4 address syntax'')
               | Some ip \<Rightarrow> Inr (head @ octets4 ip @ tail))
         else if sa_atyp a = ATYP_IPV6
         then (case ipv6_parse (sa_host a) of
                 None \<Rightarrow> Inl (Bail ''invalid IPv6 address syntax'')
               | Some ip \<Rightarrow> Inr (head @ octets6 ip @ tail))
         else if sa_atyp a = ATYP_DOMAIN
         then (let host = as_bytes (sa_host a)
               in if length host > 255 then Inl (Bail ''domain name too long'')
                  else Inr (head @ of_nat (length host) # host @ tail))
         else Inl (unsupported_atyp (sa_atyp a)))"

definition ipv4_from_octets :: "bytes \<Rightarrow> ipv4" where
  "ipv4_from_octets bs = (bs ! 0, bs ! 1, bs ! 2, bs ! 3)"

definition read_socks_host :: "byte \<Rightarrow> bytes \<Rightarrow> error + string \<times> bytes" where
  "read_socks_host atyp reader =
     (if atyp = ATYP_IPV4
      then (case read_exact 4 reader of
              Inl e \<Rightarrow> Inl e
            | Inr (raw, reader1) \<Rightarrow> Inr (ipv4_to_string (ipv4_from_octets raw), reader1))
      else if atyp = ATYP_IPV6
      then (case read_exact 16 reader of
              Inl e \<Rightarrow> Inl e
            | Inr (raw, reader1) \<Rightarrow> Inr (ipv6_to_string (ipv6_from_octets raw), reader1))
      else if atyp = ATYP_DOMAIN
      then (case read_u8 reader of
              Inl e \<Rightarrow> Inl e
            | Inr (len, reader1) \<Rightarrow>
                (case read_exact (unat len) reader1 of
                   Inl e \<Rightarrow> Inl e
                 | Inr (raw, reader2) \<Rightarrow>
                     (case from_utf8 raw of Inl e \<Rightarrow> Inl e | Inr host \<Rightarrow> Inr (host, reader2))))
      else Inl (unsupported_atyp atyp))"

definition read_socks_addr :: "byte \<Rightarrow> bytes \<Rightarrow> error + socks_addr \<times> bytes" where
  "read_socks_addr atyp reader =
     (case read_socks_host atyp reader of
        Inl e \<Rightarrow> Inl e
      | Inr (host, reader1) \<Rightarrow>
          (case read_u16 reader1 of
             Inl e \<Rightarrow> Inl e
           | Inr (port, reader2) \<Rightarrow> Inr (\<lparr>sa_host = host, sa_port = port, sa_atyp = atyp\<rparr>, reader2)))"

section \<open>UDP packets\<close>

definition parse_udp_host :: "byte \<Rightarrow> nat \<Rightarrow> bytes \<Rightarrow> error + string \<times> nat" where
  "parse_udp_host atyp cursor packet =
     (if atyp = ATYP_IPV4
      then (if length packet < cursor + 4 then Inl (Bail ''truncated ipv4 address'')
            else Inr (ipv4_to_string (ipv4_from_octets (take 4 (drop cursor packet))), cursor + 4))
      else if atyp = ATYP_IPV6
      then (if length packet < cursor + 16 then Inl (Bail ''truncated ipv6 address'')
            else Inr (ipv6_to_string (ipv6_from_octets (take 16 (drop cursor packet))), cursor + 16))
      else if atyp = ATYP_DOMAIN
      then (if length packet \<le> cursor then Inl (Bail ''missing domain length'')
            else let len = unat (packet ! cursor); cursor1 = cursor + 1
                 in if length packet < cursor1 + len then Inl (Bail ''truncated domain'')
                    else (case from_utf8 (take len (drop cursor1 packet)) of
                            Inl e \<Rightarrow> Inl e
                          | Inr host \<Rightarrow> Inr (host, cursor1 + len)))
      else Inl (unsupported_atyp atyp))"

definition parse_udp_addr :: "bytes \<Rightarrow> nat \<Rightarrow> error + socks_addr \<times> nat" where
  "parse_udp_addr packet offset =
     (if length packet \<le> offset then Inl (Bail ''missing address type'')
      else let atyp = packet ! offset
           in (case parse_udp_host atyp (offset + 1) packet of
                 Inl e \<Rightarrow> Inl e
               | Inr (host, cursor) \<Rightarrow>
                   if length packet < cursor + 2 then Inl (Bail ''missing port'')
                   else Inr (\<lparr>sa_host = host, sa_port = u16_from_be (packet ! cursor) (packet ! (cursor + 1)), sa_atyp = atyp\<rparr>,
                             cursor + 2)))"

definition parse_udp_packet :: "bytes \<Rightarrow> error + socks_addr \<times> bytes" where
  "parse_udp_packet packet =
     (if length packet < 4 then Inl (Bail ''packet too short'')
      else if \<not> (packet ! 0 = 0 \<and> packet ! 1 = 0) then Inl (Bail ''invalid reserved bytes'')
      else if packet ! 2 \<noteq> 0 then Inl (Bail ''fragmented udp packets are not supported'')
      else (case parse_udp_addr packet 3 of
              Inl e \<Rightarrow> Inl e
            | Inr (addr, offset) \<Rightarrow>
                if length packet < offset then Inl (Bail ''packet too short for payload'')
                else Inr (addr, drop offset packet)))"

section \<open>Replies\<close>

definition ipv4_unspecified :: ipv4 where "ipv4_unspecified = (0, 0, 0, 0)"

definition ipv6_is_unspecified :: "ipv6 \<Rightarrow> bool" where
  "ipv6_is_unspecified ip \<longleftrightarrow> ip = replicate 8 0"

definition send_reply :: "byte \<Rightarrow> socket_addr option \<Rightarrow> bytes" where
  "send_reply rep bind_addr =
     (let addr = (case bind_addr of Some a \<Rightarrow> a | None \<Rightarrow> \<lparr>sk_ip = IpV4 ipv4_unspecified, sk_port = 0\<rparr>)
      in [SOCKS_VERSION, rep, 0] @
         (case sk_ip addr of
            IpV4 ip \<Rightarrow> ATYP_IPV4 # octets4 ip
          | IpV6 ip \<Rightarrow>
              if ipv6_is_unspecified ip then ATYP_IPV4 # octets4 ipv4_unspecified
              else ATYP_IPV6 # octets6 ip) @
         u16_to_be (sk_port addr))"

definition is_addr_type_error :: "error \<Rightarrow> bool" where
  "is_addr_type_error err = str_contains (err_string err) ''unsupported socks address type''"

definition addr_error_reply :: "error \<Rightarrow> bytes" where
  "addr_error_reply err =
     send_reply (if is_addr_type_error err then REP_ADDR_TYPE_NOT_SUPPORTED else REP_GENERAL_FAILURE) None"

section \<open>Authentication\<close>

record socks_auth =
  au_client_id :: string
  au_account_id :: "string option"

definition read_username_password :: "bytes \<Rightarrow> error + (string \<times> string) \<times> bytes" where
  "read_username_password reader =
     (case read_u8 reader of Inl e \<Rightarrow> Inl e | Inr (version, r1) \<Rightarrow>
        if version \<noteq> 1 then Inl (Bail (''unsupported socks5 auth version '' @ dec_string (unat version)))
        else
      case read_u8 r1 of Inl e \<Rightarrow> Inl e | Inr (ulen, r2) \<Rightarrow>
      case read_exact (unat ulen) r2 of Inl e \<Rightarrow> Inl e | Inr (username, r3) \<Rightarrow>
      case read_u8 r3 of Inl e \<Rightarrow> Inl e | Inr (plen, r4) \<Rightarrow>
      case read_exact (unat plen) r4 of Inl e \<Rightarrow> Inl e | Inr (password, r5) \<Rightarrow>
      case from_utf8 username of Inl e \<Rightarrow> Inl e | Inr u \<Rightarrow>
      case from_utf8 password of Inl e \<Rightarrow> Inl e | Inr p \<Rightarrow> Inr ((u, p), r5))"

definition authenticate ::
  "stmts \<Rightarrow> int \<Rightarrow> proxy_listen_config \<Rightarrow> bytes \<Rightarrow> bytes \<Rightarrow> app_state
     \<Rightarrow> bytes \<times> (error + socks_auth \<times> bytes) \<times> app_state" where
  "authenticate q now proxy methods reader st =
     (case has_enabled_proxy_accounts q ''socks5'' (app_db st) of
        Inl e \<Rightarrow> ([], Inl e, st)
      | Inr True \<Rightarrow>
          if METHOD_USERNAME_PASSWORD \<notin> set methods
          then ([SOCKS_VERSION, 0xff], Inl (Bail ''socks5 username/password method is not offered''), st)
          else
            let out = [SOCKS_VERSION, METHOD_USERNAME_PASSWORD]
            in (case read_username_password reader of
                  Inl e \<Rightarrow> (out, Inl e, st)
                | Inr ((username, password), reader1) \<Rightarrow>
                    (case find_enabled_proxy_account (\<lambda>i. q (Suc i)) ''socks5'' username password (app_db st) of
                       Inl e \<Rightarrow> (out, Inl e, st)
                     | Inr None \<Rightarrow> (out @ [1, 1], Inl (Bail ''socks5 username/password authentication failed''), st)
                     | Inr (Some account) \<Rightarrow>
                         let (ok, e1) = allowed now (proxy_account_key (pa_id account)) (app_policy st);
                             st1 = st\<lparr>app_policy := e1\<rparr>
                         in if \<not> ok then (out @ [1, 1], Inl (Bail ''socks5 account disabled by policy''), st1)
                            else (out @ [1, 0],
                                  Inr (\<lparr>au_client_id = pa_client_id account, au_account_id = Some (pa_id account)\<rparr>, reader1), st1)))
      | Inr False \<Rightarrow>
          if METHOD_NO_AUTH \<notin> set methods
          then ([SOCKS_VERSION, 0xff], Inl (Bail ''socks5 no-auth method is not offered''), st)
          else ([SOCKS_VERSION, METHOD_NO_AUTH],
                Inr (\<lparr>au_client_id = pl_client_id proxy, au_account_id = None\<rparr>, reader), st))"

text \<open>
  \<^verbatim>\<open>handle_conn\<close> until the command is known: the bytes written to the client, and who it is, the
  command, the type of the address and the input that is left.
\<close>

definition negotiate ::
  "stmts \<Rightarrow> int \<Rightarrow> proxy_listen_config \<Rightarrow> bytes \<Rightarrow> app_state
     \<Rightarrow> bytes \<times> (error + socks_auth \<times> byte \<times> byte \<times> bytes) \<times> app_state" where
  "negotiate q now proxy input st =
     (case read_exact 2 input of Inl e \<Rightarrow> ([], Inl e, st) | Inr (hello, r1) \<Rightarrow>
        if hello ! 0 \<noteq> SOCKS_VERSION then ([], Inl (Bail (''unsupported socks version '' @ dec_string (unat (hello ! 0)))), st)
        else
      case read_exact (unat (hello ! 1)) r1 of Inl e \<Rightarrow> ([], Inl e, st) | Inr (methods, r2) \<Rightarrow>
      case authenticate q now proxy methods r2 st of (out, Inl e, st1) \<Rightarrow> (out, Inl e, st1) | (out, Inr (auth, r3), st1) \<Rightarrow>
      case read_exact 4 r3 of Inl e \<Rightarrow> (out, Inl e, st1) | Inr (header, r4) \<Rightarrow>
        if header ! 0 \<noteq> SOCKS_VERSION then (out, Inl (Bail (''invalid request version '' @ dec_string (unat (header ! 0)))), st1)
        else if header ! 2 \<noteq> 0 then (out, Inl (Bail (''invalid reserved byte '' @ dec_string (unat (header ! 2)))), st1)
        else (out, Inr (auth, header ! 1, header ! 3, r4), st1))"

section \<open>The connect command\<close>

text \<open>
  \<^verbatim>\<open>handle_connect\<close> until the pipe starts: the bytes written, the pooled connection and the
  guard of the registered session. \<open>local_addr\<close> is the socket's own address, if the
  system gives it; \<open>uuid\<close> and \<open>session_id\<close> are fresh ids.
\<close>

definition connect_route :: "socks_auth \<Rightarrow> stream_route" where
  "connect_route auth =
     \<lparr>sr_tunnel_id = (case au_account_id auth of None \<Rightarrow> ''socks5'' | Some i \<Rightarrow> ''socks5:'' @ i),
      sr_client_id = au_client_id auth\<rparr>"

definition handle_connect ::
  "(open_request \<Rightarrow> string + bytes) \<Rightarrow> (bytes \<Rightarrow> string + open_response) \<Rightarrow> socket_addr option \<Rightarrow> stmts \<Rightarrow> int \<Rightarrow> string \<Rightarrow> string
     \<Rightarrow> socks_auth \<Rightarrow> socket_addr \<Rightarrow> byte \<Rightarrow> bytes \<Rightarrow> app_state
     \<Rightarrow> bytes \<times> (error + duplex \<times> proxy_guard \<times> bytes) \<times> app_state" where
  "handle_connect to_vec from_slice local_addr q now uuid session_id auth remote_addr atyp reader st =
     (case read_socks_addr atyp reader of
        Inl err \<Rightarrow> (addr_error_reply err, Inl err, st)
      | Inr (addr, reader1) \<Rightarrow>
          (case open_pool_stream to_vec from_slice q now uuid (connect_route auth) (socks_target addr)
                  (socket_to_string remote_addr) st of
             (Inl err, st1) \<Rightarrow> (send_reply REP_GENERAL_FAILURE None, Inl err, st1)
           | (Inr stream, st1) \<Rightarrow>
               let (g, m1) = register_proxy session_id (au_account_id auth) (app_proxies st1)
               in (send_reply REP_SUCCEEDED local_addr, Inr (stream, g, reader1), st1\<lparr>app_proxies := m1\<rparr>)))"

section \<open>Reading and writing addresses\<close>

text \<open>What a UDP packet says, and what the same bytes say to the reader of a TCP request.\<close>

lemma octets4_from: "length bs = 4 \<Longrightarrow> octets4 (ipv4_from_octets bs) = bs"
  by (auto simp: ipv4_from_octets_def numeral_eq_Suc length_Suc_conv)

text \<open>
  The bytes that code a host on the wire, after the type of the address: the octets, or a
  length and the name. Both parsers read exactly these, and the encoder writes them.
\<close>

definition host_coded :: "byte \<Rightarrow> bytes \<Rightarrow> string \<Rightarrow> bool" where
  "host_coded atyp hb host \<longleftrightarrow>
     (if atyp = ATYP_IPV4 then length hb = 4 \<and> host = ipv4_to_string (ipv4_from_octets hb)
      else if atyp = ATYP_IPV6 then length hb = 16 \<and> host = ipv6_to_string (ipv6_from_octets hb)
      else atyp = ATYP_DOMAIN \<and> length host \<le> 255 \<and> utf8_valid (as_bytes host) \<and>
           hb = of_nat (length host) # as_bytes host)"

lemma atyp_cases [simp]:
  "ATYP_IPV4 \<noteq> ATYP_IPV6" "ATYP_IPV4 \<noteq> ATYP_DOMAIN" "ATYP_IPV6 \<noteq> ATYP_DOMAIN"
  "ATYP_IPV6 \<noteq> ATYP_IPV4" "ATYP_DOMAIN \<noteq> ATYP_IPV4" "ATYP_DOMAIN \<noteq> ATYP_IPV6"
  by (simp_all add: socks_consts)

lemma unat_byte_le: "unat (b :: byte) \<le> 255"
  using unat_byte_less [of b] by linarith

lemma domain_bytes:
  "(\<exists>len raw. r = len # raw @ rest \<and> length raw = unat (len :: byte) \<and> utf8_valid raw \<and> raw = as_bytes host) \<longleftrightarrow>
     (\<exists>hb. r = hb @ rest \<and> length host \<le> 255 \<and> utf8_valid (as_bytes host) \<and> hb = of_nat (length host) # as_bytes host)"
proof
  assume "\<exists>len raw. r = len # raw @ rest \<and> length raw = unat len \<and> utf8_valid raw \<and> raw = as_bytes host"
  then obtain len :: byte where L: "r = len # as_bytes host @ rest" "length host = unat len" "utf8_valid (as_bytes host)" by auto
  have "length host \<le> 255" using unat_byte_le [of len] L(2) by linarith
  then show "\<exists>hb. r = hb @ rest \<and> length host \<le> 255 \<and> utf8_valid (as_bytes host) \<and> hb = of_nat (length host) # as_bytes host"
    using L by simp
qed auto

lemma read_host_iff:
  "read_socks_host atyp r = Inr (host, rest) \<longleftrightarrow> (\<exists>hb. r = hb @ rest \<and> host_coded atyp hb host)"
proof -
  have dom: "(case read_u8 r of Inl e \<Rightarrow> Inl e
       | Inr (len, reader1) \<Rightarrow>
           (case read_exact (unat len) reader1 of Inl e \<Rightarrow> Inl e
            | Inr (raw, reader2) \<Rightarrow> (case from_utf8 raw of Inl e \<Rightarrow> Inl e | Inr host \<Rightarrow> Inr (host, reader2)))) = Inr (host, rest)
     \<longleftrightarrow> (\<exists>len raw. r = len # raw @ rest \<and> length raw = unat len \<and> utf8_valid raw \<and> raw = as_bytes host)"
    by (cases r) (auto simp: read_u8_def read_exact_Inr from_utf8_Inr from_utf8_as_bytes split: sum.splits)
  have four: "(case read_exact n r of Inl e \<Rightarrow> Inl e | Inr (raw, reader1) \<Rightarrow> Inr (f raw, reader1)) = Inr (host, rest)
     \<longleftrightarrow> (\<exists>hb. r = hb @ rest \<and> length hb = n \<and> host = f hb)" for n and f :: "bytes \<Rightarrow> string"
    by (auto simp: read_exact_Inr split: sum.splits)
  show ?thesis
    unfolding read_socks_host_def host_coded_def using dom domain_bytes [of r rest host] by (simp add: four)
qed

text \<open>The cursor of the packet parser against the reader of the request parser.\<close>

lemma parse_udp_host_bounds:
  "parse_udp_host atyp c p = Inr (host, c') \<Longrightarrow> c \<le> c' \<and> c' \<le> length p"
  by (auto simp: parse_udp_host_def Let_def split: if_splits sum.splits)

lemma parse_udp_host_reader:
  "c \<le> length p \<Longrightarrow>
     result_ok (read_socks_host atyp (drop c p)) = map_option (\<lambda>(host, c'). (host, drop c' p)) (result_ok (parse_udp_host atyp c p))"
proof (cases "c < length p")
  case True
  then have "drop c p = p ! c # drop (Suc c) p" by (simp add: Cons_nth_drop_Suc)
  with True show ?thesis
    by (auto simp: read_socks_host_def parse_udp_host_def read_exact_def read_u8_def Let_def add.commute split: sum.splits)
qed (auto simp: read_socks_host_def parse_udp_host_def read_exact_def read_u8_def)

lemma parse_udp_addr_reader:
  assumes "c < length p"
  shows "result_ok (read_socks_addr (p ! c) (drop (c + 1) p)) = map_option (\<lambda>(a, c'). (a, drop c' p)) (result_ok (parse_udp_addr p c))"
proof (cases "parse_udp_host (p ! c) (c + 1) p")
  case (Inl e)
  then have "result_ok (read_socks_host (p ! c) (drop (c + 1) p)) = None" using parse_udp_host_reader [of "c + 1" p "p ! c"] assms by simp
  then show ?thesis using Inl assms by (auto simp: read_socks_addr_def parse_udp_addr_def split: sum.splits)
next
  case (Inr hc)
  obtain host c1 where hc: "hc = (host, c1)" by force
  have r: "read_socks_host (p ! c) (drop (c + 1) p) = Inr (host, drop c1 p)"
    using parse_udp_host_reader [of "c + 1" p "p ! c"] assms Inr hc by (simp split: sum.splits)
  have le: "c1 \<le> length p" using parse_udp_host_bounds [of "p ! c" "c + 1" p host c1] Inr hc by simp
  show ?thesis
  proof (cases "length p < c1 + 2")
    case True
    then have "length (drop c1 p) < 2" using le by simp
    then have "read_u16 (drop c1 p) = Inl eof_error"
      by (cases "drop c1 p" rule: remdups_adj.cases) (simp_all add: read_u16_def del: length_drop)
    then show ?thesis using True assms by (simp add: read_socks_addr_def parse_udp_addr_def r [simplified] Inr [simplified] hc Let_def)
  next
    case False
    then have "drop c1 p = p ! c1 # p ! (c1 + 1) # drop (c1 + 2) p"
      by (simp add: Cons_nth_drop_Suc [symmetric])
    then have "read_u16 (drop c1 p) = Inr (u16_from_be (p ! c1) (p ! (c1 + 1)), drop (c1 + 2) p)" by (simp add: read_u16_def)
    then show ?thesis using False assms by (simp add: read_socks_addr_def parse_udp_addr_def r [simplified] Inr [simplified] hc Let_def)
  qed
qed

lemma host_coded_bytes:
  "host_coded (sa_atyp a) hb (sa_host a) \<Longrightarrow>
     encode_udp_response a data = Inr ([0, 0, 0, sa_atyp a] @ hb @ u16_to_be (sa_port a) @ data)"
  using ipv6_roundtrip [OF ipv6_from_octets_ok, of hb]
  by (auto simp: host_coded_def encode_udp_response_def Let_def ipv4_roundtrip octets4_from octets6_from
      simp del: octets4.simps split: if_splits)

lemma read_u16_iff: "read_u16 x = Inr (port, rest) \<longleftrightarrow> x = u16_to_be port @ rest"
proof
  assume "read_u16 x = Inr (port, rest)"
  then obtain a b where "x = [a, b] @ rest" "port = u16_from_be a b" by (auto simp: read_u16_def split: list.splits)
  then show "x = u16_to_be port @ rest" by (simp add: u16_to_from_be)
qed simp

lemma read_addr_iff:
  "read_socks_addr atyp r = Inr (a, rest) \<longleftrightarrow>
     sa_atyp a = atyp \<and> (\<exists>hb. host_coded atyp hb (sa_host a) \<and> r = hb @ u16_to_be (sa_port a) @ rest)" (is "?L \<longleftrightarrow> ?R")
proof
  assume ?L
  then obtain host r1 where "read_socks_host atyp r = Inr (host, r1)" "read_u16 r1 = Inr (sa_port a, rest)" "sa_host a = host" "sa_atyp a = atyp"
    by (auto simp: read_socks_addr_def split: sum.splits)
  then show ?R by (auto simp: read_host_iff read_u16_iff)
next
  assume ?R
  then obtain hb where R: "sa_atyp a = atyp" "host_coded atyp hb (sa_host a)" "r = hb @ u16_to_be (sa_port a) @ rest" by blast
  then have "read_socks_host atyp r = Inr (sa_host a, u16_to_be (sa_port a) @ rest)" by (auto simp: read_host_iff)
  then show ?L using R(1) by (simp add: read_socks_addr_def)
qed

text \<open>A packet that parses is the header of its address and its payload.\<close>

lemma parse_udp_packet_ok:
  "result_ok (parse_udp_packet p) =
     (if 4 \<le> length p \<and> take 3 p = [0, 0, 0] then result_ok (read_socks_addr (p ! 3) (drop 4 p)) else None)"
proof -
  have t: "4 \<le> length p \<Longrightarrow> take 3 p = [0, 0, 0] \<longleftrightarrow> p ! 0 = 0 \<and> p ! 1 = 0 \<and> p ! 2 = 0"
    by (cases p rule: list.exhaust; auto simp: numeral_eq_Suc Suc_le_length_iff)
  show ?thesis
  proof (cases "4 \<le> length p \<and> p ! 0 = 0 \<and> p ! 1 = 0 \<and> p ! 2 = 0")
    case True
    have "result_ok (read_socks_addr (p ! 3) (drop 4 p)) = map_option (\<lambda>(a, c'). (a, drop c' p)) (result_ok (parse_udp_addr p 3))"
      using parse_udp_addr_reader [of 3 p] True by simp
    moreover have "c' \<le> length p" if "parse_udp_addr p 3 = Inr (a, c')" for a c'
      using that by (auto simp: parse_udp_addr_def Let_def split: if_splits sum.splits)
    ultimately show ?thesis using True t
      by (auto simp: parse_udp_packet_def not_less split: sum.splits)
  qed (use t in \<open>auto simp: parse_udp_packet_def\<close>)
qed

lemma parse_udp_packet_iff:
  "parse_udp_packet p = Inr (a, data) \<longleftrightarrow>
     (\<exists>hb. host_coded (sa_atyp a) hb (sa_host a) \<and> p = [0, 0, 0, sa_atyp a] @ hb @ u16_to_be (sa_port a) @ data)" (is "?L \<longleftrightarrow> ?R")
proof -
  have "?L \<longleftrightarrow> result_ok (parse_udp_packet p) = Some (a, data)" by (auto split: sum.splits)
  also have "\<dots> \<longleftrightarrow> 4 \<le> length p \<and> take 3 p = [0, 0, 0] \<and> read_socks_addr (p ! 3) (drop 4 p) = Inr (a, data)"
    by (auto simp: parse_udp_packet_ok split: sum.splits)
  also have "\<dots> \<longleftrightarrow> ?R"
  proof
    assume A: "4 \<le> length p \<and> take 3 p = [0, 0, 0] \<and> read_socks_addr (p ! 3) (drop 4 p) = Inr (a, data)"
    have "p = take 3 p @ p ! 3 # drop 4 p" using A id_take_nth_drop [of 3 p] by simp
    then show ?R using A by (auto simp: read_addr_iff)
  qed (auto simp: read_addr_iff)
  finally show ?thesis .
qed

section \<open>Authentication lemmas\<close>

text \<open>The username/password message: its version, and two strings with their lengths.\<close>

definition login_message :: "string \<Rightarrow> string \<Rightarrow> bytes" where
  "login_message u p = [1, of_nat (length u)] @ as_bytes u @ [of_nat (length p)] @ as_bytes p"

definition short_utf8 :: "string \<Rightarrow> bool" where
  "short_utf8 s \<longleftrightarrow> length s \<le> 255 \<and> utf8_valid (as_bytes s)"

lemma read_string_iff:
  "(\<exists>len raw. read_u8 r = Inr (len, r1) \<and> read_exact (unat len) r1 = Inr (raw, r2) \<and> from_utf8 raw = Inr s) \<longleftrightarrow>
     short_utf8 s \<and> r = of_nat (length s) # r1 \<and> r1 = as_bytes s @ r2" (is "?L \<longleftrightarrow> ?R")
proof
  assume ?L
  then obtain len where L: "r = len # r1" "r1 = as_bytes s @ r2" "length s = unat len" "utf8_valid (as_bytes s)"
    by (auto simp: read_u8_def read_exact_Inr from_utf8_Inr split: list.splits)
  moreover have "length s \<le> 255" using unat_byte_le [of len] L(3) by linarith
  ultimately show ?R by (simp add: short_utf8_def)
next
  assume ?R
  then show ?L by (auto simp: read_u8_def read_exact_Inr from_utf8_Inr short_utf8_def)
qed

lemma read_username_password_iff:
  "read_username_password r = Inr ((u, p), rest) \<longleftrightarrow> short_utf8 u \<and> short_utf8 p \<and> r = login_message u p @ rest" (is "?L \<longleftrightarrow> ?R")
proof -
  have "?L \<longleftrightarrow> (\<exists>r1 r2 r3 r4. r = 1 # r1 \<and>
      (\<exists>len raw. read_u8 r1 = Inr (len, r2) \<and> read_exact (unat len) r2 = Inr (raw, r3) \<and> from_utf8 raw = Inr u) \<and>
      (\<exists>len raw. read_u8 r3 = Inr (len, r4) \<and> read_exact (unat len) r4 = Inr (raw, rest) \<and> from_utf8 raw = Inr p))"
    by (cases r) (fastforce simp: read_username_password_def read_u8_def split: sum.splits if_splits list.splits)+
  also have "\<dots> \<longleftrightarrow> ?R" unfolding read_string_iff by (auto simp: login_message_def)
  finally show ?thesis .
qed

lemma enabled_accounts_iff:
  "has_enabled_proxy_accounts (\<lambda>_. True) ''socks5'' db =
     Inr (\<exists>r \<in> set (proxy_accounts db). a_kind r = ''socks5'' \<and> a_enabled r = 1)"
  by (auto simp: has_enabled_proxy_accounts_def validate_proxy_kind_def count_rows_def filter_empty_conv)

lemma find_account_row:
  assumes "db_inv db" and "\<forall>r \<in> set (proxy_accounts db). \<exists>rx tx. a_rx_bytes r = SqlInt rx \<and> a_tx_bytes r = SqlInt tx"
    and "validate_proxy_kind kind = Inr ()"
  shows "(\<exists>r a. r \<in> set (proxy_accounts db) \<and> a_kind r = kind \<and> a_username r = u \<and> a_password r = p \<and> a_enabled r = 1 \<and>
            find_enabled_proxy_account (\<lambda>_. True) kind u p db = Inr (Some a) \<and> pa_id a = a_id r \<and> pa_client_id a = a_client_id r) \<or>
         (\<not> (\<exists>r \<in> set (proxy_accounts db). a_kind r = kind \<and> a_username r = u \<and> a_password r = p \<and> a_enabled r = 1) \<and>
          find_enabled_proxy_account (\<lambda>_. True) kind u p db = Inr None)"
proof (cases "\<exists>r \<in> set (proxy_accounts db). a_kind r = kind \<and> a_username r = u \<and> a_password r = p \<and> a_enabled r = 1")
  case True
  then obtain r where r: "r \<in> set (proxy_accounts db)" "a_kind r = kind" "a_username r = u" "a_password r = p" "a_enabled r = 1" by blast
  have "account_ok r" using assms(1) r(1) by (auto simp: db_inv_def accounts_inv_def)
  moreover obtain rx tx where "a_rx_bytes r = SqlInt rx" "a_tx_bytes r = SqlInt tx" using assms(2) r(1) by blast
  ultimately obtain a where a: "row_to_proxy_account r = Inr a" "pa_id a = a_id r" "pa_client_id a = a_client_id r"
    using row_to_account_total by blast
  have "find_enabled_proxy_account (\<lambda>_. True) kind u p db = Inr (Some a)"
    using select_account_login [OF assms(1), of kind u p r] r a(1) assms(3) by (simp add: find_enabled_proxy_account_def transpose_def)
  then show ?thesis using r a by blast
next
  case False
  then have "select_one (\<lambda>r. a_kind r = kind \<and> a_username r = u \<and> a_password r = p \<and> a_enabled r = 1) (proxy_accounts db) = None"
    unfolding select_one_None by blast
  then show ?thesis using False assms(3) by (simp add: find_enabled_proxy_account_def transpose_def)
qed

text \<open>
  Who may use the proxy, by the rows of the database: with an enabled account, only the
  holder of one that the policy allows, who sends its name and password; without any, everyone.
\<close>

definition socks_admits :: "int \<Rightarrow> proxy_listen_config \<Rightarrow> app_state \<Rightarrow> bytes \<Rightarrow> bytes \<Rightarrow> socks_auth \<Rightarrow> bool" where
  "socks_admits now proxy st methods login auth \<longleftrightarrow>
     (if \<exists>r \<in> set (proxy_accounts (app_db st)). a_kind r = ''socks5'' \<and> a_enabled r = 1
      then METHOD_USERNAME_PASSWORD \<in> set methods \<and>
           (\<exists>r \<in> set (proxy_accounts (app_db st)). a_kind r = ''socks5'' \<and> a_enabled r = 1 \<and>
              short_utf8 (a_username r) \<and> short_utf8 (a_password r) \<and> login = login_message (a_username r) (a_password r) \<and>
              fst (allowed now (proxy_account_key (a_id r)) (app_policy st)) \<and>
              auth = \<lparr>au_client_id = a_client_id r, au_account_id = Some (a_id r)\<rparr>)
      else METHOD_NO_AUTH \<in> set methods \<and> login = [] \<and> auth = \<lparr>au_client_id = pl_client_id proxy, au_account_id = None\<rparr>)"

definition accounts_readable :: "database \<Rightarrow> bool" where
  "accounts_readable db \<longleftrightarrow>
     db_inv db \<and> (\<forall>r \<in> set (proxy_accounts db). \<exists>rx tx. a_rx_bytes r = SqlInt rx \<and> a_tx_bytes r = SqlInt tx)"

lemma unique_login:
  assumes "db_inv db" "r \<in> set (proxy_accounts db)" "r' \<in> set (proxy_accounts db)"
    and "a_kind r = a_kind r'" "a_username r = a_username r'"
  shows "r = r'"
  by (rule unique_same [of account_name "proxy_accounts db"]) (use assms in \<open>simp_all add: db_inv_def accounts_inv_def\<close>)

lemma authenticate_login:
  assumes "accounts_readable (app_db st)" "\<exists>r \<in> set (proxy_accounts (app_db st)). a_kind r = ''socks5'' \<and> a_enabled r = 1"
    and "METHOD_USERNAME_PASSWORD \<in> set methods" "read_username_password reader = Inr ((u, p), rest')"
  shows "fst (snd (authenticate (\<lambda>_. True) now proxy methods reader st)) = Inr (auth, rest) \<longleftrightarrow>
    rest = rest' \<and> (\<exists>r \<in> set (proxy_accounts (app_db st)). a_kind r = ''socks5'' \<and> a_enabled r = 1 \<and> a_username r = u \<and> a_password r = p \<and>
      fst (allowed now (proxy_account_key (a_id r)) (app_policy st)) \<and>
      auth = \<lparr>au_client_id = a_client_id r, au_account_id = Some (a_id r)\<rparr>)"
proof -
  have inv: "db_inv (app_db st)" using assms(1) by (simp add: accounts_readable_def)
  have kind: "validate_proxy_kind ''socks5'' = Inr ()" by (simp add: validate_proxy_kind_def)
  note auth = authenticate_def enabled_accounts_iff assms(2,3,4) Let_def
  consider (found) r a where "r \<in> set (proxy_accounts (app_db st))" "a_kind r = ''socks5''" "a_username r = u" "a_password r = p" "a_enabled r = 1"
      "find_enabled_proxy_account (\<lambda>_. True) ''socks5'' u p (app_db st) = Inr (Some a)" "pa_id a = a_id r" "pa_client_id a = a_client_id r"
    | (none) "\<not> (\<exists>r \<in> set (proxy_accounts (app_db st)). a_kind r = ''socks5'' \<and> a_username r = u \<and> a_password r = p \<and> a_enabled r = 1)"
      "find_enabled_proxy_account (\<lambda>_. True) ''socks5'' u p (app_db st) = Inr None"
    using find_account_row [OF inv _ kind, of u p] assms(1) unfolding accounts_readable_def by blast
  then show ?thesis
  proof cases
    case found
    obtain b e1 where b: "allowed now (proxy_account_key (a_id r)) (app_policy st) = (b, e1)" by force
    have same: "x = r" if "x \<in> set (proxy_accounts (app_db st))" "a_kind x = ''socks5''" "a_username x = u" for x
      using unique_login [OF inv that(1) found(1)] that(2,3) found(2,3) by simp
    have "fst (snd (authenticate (\<lambda>_. True) now proxy methods reader st)) = Inr (auth, rest) \<longleftrightarrow>
        b \<and> rest = rest' \<and> auth = \<lparr>au_client_id = a_client_id r, au_account_id = Some (a_id r)\<rparr>"
      by (auto simp: auth found(6,7,8) b)
    then show ?thesis using found(1-5) same b by fastforce
  next
    case none
    then show ?thesis by (auto simp: auth)
  qed
qed

lemma authenticate_iff:
  assumes "accounts_readable (app_db st)"
  shows "fst (snd (authenticate (\<lambda>_. True) now proxy methods reader st)) = Inr (auth, rest) \<longleftrightarrow>
    (\<exists>login. reader = login @ rest \<and> socks_admits now proxy st methods login auth)"
proof (cases "\<exists>r \<in> set (proxy_accounts (app_db st)). a_kind r = ''socks5'' \<and> a_enabled r = 1")
  case True
  show ?thesis
  proof (cases "METHOD_USERNAME_PASSWORD \<in> set methods")
    case offered: True
    show ?thesis
    proof (cases "read_username_password reader")
      case (Inl e)
      then have "fst (snd (authenticate (\<lambda>_. True) now proxy methods reader st)) = Inl e"
        using True offered by (simp add: authenticate_def enabled_accounts_iff)
      moreover have "\<not> (short_utf8 u \<and> short_utf8 p \<and> reader = login_message u p @ rest)" for u p
        using Inl read_username_password_iff [of reader u p rest] by simp
      ultimately show ?thesis using True by (auto simp: socks_admits_def)
    next
      case (Inr x)
      obtain u p rest' where x: "x = ((u, p), rest')" by (metis surj_pair)
      have "reader = login_message u' p' @ rest \<and> short_utf8 u' \<and> short_utf8 p' \<longleftrightarrow> rest = rest' \<and> u' = u \<and> p' = p" for u' p'
        using read_username_password_iff [of reader u' p' rest] Inr x by auto
      then show ?thesis
        unfolding authenticate_login [OF assms True offered Inr [unfolded x]] using True offered by (auto simp: socks_admits_def)
    qed
  qed (use True in \<open>simp add: authenticate_def enabled_accounts_iff socks_admits_def\<close>)
next
  case False
  have "has_enabled_proxy_accounts (\<lambda>_. True) ''socks5'' (app_db st) = Inr False"
    by (simp only: enabled_accounts_iff False)
  then show ?thesis unfolding socks_admits_def if_not_P [OF False] by (auto simp: authenticate_def)
qed

lemma four_bytes: "length h = 4 \<Longrightarrow> h = [h ! 0, h ! 1, h ! 2, h ! 3]"
  by (auto simp: numeral_eq_Suc length_Suc_conv)

lemma two_bytes: "length h = 2 \<Longrightarrow> h = [h ! 0, h ! 1]"
  by (auto simp: numeral_eq_Suc length_Suc_conv)

lemma length_byte_ex:
  "(\<exists>len methods login. P len methods login \<and> length methods = unat (len :: byte) \<and> Q methods login) \<longleftrightarrow>
     (\<exists>methods login. length methods \<le> 255 \<and> P (of_nat (length methods)) methods login \<and> Q methods login)"
proof -
  have "length methods = unat (len :: byte) \<longleftrightarrow> length methods \<le> 255 \<and> len = of_nat (length methods)" for len and methods :: "'a list"
    using unat_byte_le [of len] by (auto simp: unat_of_nat)
  then show ?thesis by auto
qed

lemma negotiate_iff:
  "(\<exists>out st'. negotiate q now proxy input st = (out, Inr (auth, cmd, atyp, rest), st')) \<longleftrightarrow>
     (\<exists>len methods r2 r3. input = [SOCKS_VERSION, len] @ methods @ r2 \<and> length methods = unat len \<and>
        fst (snd (authenticate q now proxy methods r2 st)) = Inr (auth, r3) \<and> r3 = [SOCKS_VERSION, cmd, 0, atyp] @ rest)" (is "?L \<longleftrightarrow> ?R")
proof
  assume ?L
  then obtain hello r1 methods r2 r3 header where
    h: "read_exact 2 input = Inr (hello, r1)" "hello ! 0 = SOCKS_VERSION" "read_exact (unat (hello ! 1)) r1 = Inr (methods, r2)"
    "fst (snd (authenticate q now proxy methods r2 st)) = Inr (auth, r3)" "read_exact 4 r3 = Inr (header, rest)"
    "header ! 0 = SOCKS_VERSION" "header ! 2 = 0" "header ! 1 = cmd" "header ! 3 = atyp"
    by (auto simp: negotiate_def split: sum.splits prod.splits if_splits)
  have "input = [SOCKS_VERSION, hello ! 1] @ methods @ r2" "length methods = unat (hello ! 1)"
    using h(1,2,3) two_bytes [of hello] by (auto simp: read_exact_Inr)
  moreover have "r3 = [SOCKS_VERSION, cmd, 0, atyp] @ rest"
    using h(5-9) four_bytes [of header] by (auto simp: read_exact_Inr)
  ultimately show ?R using h(4) by blast
next
  assume ?R
  then obtain len methods r2 where R: "input = [SOCKS_VERSION, len] @ methods @ r2" "length methods = unat len"
    "fst (snd (authenticate q now proxy methods r2 st)) = Inr (auth, [SOCKS_VERSION, cmd, 0, atyp] @ rest)" by blast
  have "read_exact 2 input = Inr ([SOCKS_VERSION, len], methods @ r2)" "read_exact (unat len) (methods @ r2) = Inr (methods, r2)"
    "read_exact 4 ([SOCKS_VERSION, cmd, 0, atyp] @ rest) = Inr ([SOCKS_VERSION, cmd, 0, atyp], rest)"
    unfolding read_exact_Inr by (simp_all add: R(1,2))
  then show ?L using R(3) by (auto simp: negotiate_def split: prod.splits)
qed

section \<open>Properties\<close>

text \<open>
  C35: The two parsers of an address agree. A UDP packet is accepted exactly when it has the
  three zero bytes and the reader of TCP requests accepts the rest after the type of the
  address, with the same address and the same bytes left; then the address's reply header
  together with any data, as \<^verbatim>\<open>encode_udp_response\<close> writes it, is accepted again and gives
  back that address and that data, and with the packet's own payload it is the packet.
\<close>

theorem udp_packet_roundtrip:
  "result_ok (parse_udp_packet p) =
     (if 4 \<le> length p \<and> take 3 p = [0, 0, 0] then result_ok (read_socks_addr (p ! 3) (drop 4 p)) else None) \<and>
   (case parse_udp_packet p of
      Inl _ \<Rightarrow> True
    | Inr (a, data) \<Rightarrow>
        encode_udp_response a data = Inr p \<and>
        (case encode_udp_response a sent of
           Inl _ \<Rightarrow> False
         | Inr reply \<Rightarrow> parse_udp_packet reply = Inr (a, sent)))"
proof (cases "parse_udp_packet p")
  case (Inr ad)
  obtain a data where ad: "ad = (a, data)" by force
  obtain hb where hb: "host_coded (sa_atyp a) hb (sa_host a)" "p = [0, 0, 0, sa_atyp a] @ hb @ u16_to_be (sa_port a) @ data"
    using Inr ad by (auto simp: parse_udp_packet_iff)
  have "parse_udp_packet ([0, 0, 0, sa_atyp a] @ hb @ u16_to_be (sa_port a) @ sent) = Inr (a, sent)"
    using hb(1) by (auto simp: parse_udp_packet_iff)
  then show ?thesis using Inr ad hb(2) host_coded_bytes [OF hb(1)] parse_udp_packet_ok [of p] by simp
qed (use parse_udp_packet_ok [of p] in simp)

text \<open>
  C6: Authentication of SOCKS5 clients. A connection gets as far as its command exactly when
  its bytes are a greeting that offers a method, then what \<open>socks_admits\<close> asks for, then the
  head of a request: if the database has an enabled account, the name and password of an
  enabled account that the policy allows, and the command runs for that account and its
  client; only if there is none, nothing at all. And the last byte written to the client
  says success exactly when authentication succeeded.
\<close>

theorem socks_admits_exact:
  assumes "accounts_readable (app_db st)"
  shows "((\<exists>out st'. negotiate (\<lambda>_. True) now proxy input st = (out, Inr (auth, cmd, atyp, rest), st')) \<longleftrightarrow>
           (\<exists>methods login. length methods \<le> 255 \<and>
              input = [SOCKS_VERSION, of_nat (length methods)] @ methods @ login @ [SOCKS_VERSION, cmd, 0, atyp] @ rest \<and>
              socks_admits now proxy st methods login auth)) \<and>
         (case authenticate (\<lambda>_. True) now proxy offered reader st of (out, r, st') \<Rightarrow> is_ok r \<longleftrightarrow> out \<noteq> [] \<and> last out = 0)"
proof
  let ?auth = "\<lambda>methods r2. fst (snd (authenticate (\<lambda>_. True) now proxy methods r2 st))"
  have "(\<exists>out st'. negotiate (\<lambda>_. True) now proxy input st = (out, Inr (auth, cmd, atyp, rest), st')) \<longleftrightarrow>
      (\<exists>len methods r2 r3. input = [SOCKS_VERSION, len] @ methods @ r2 \<and> length methods = unat len \<and>
         ?auth methods r2 = Inr (auth, r3) \<and> r3 = [SOCKS_VERSION, cmd, 0, atyp] @ rest)" (is "_ \<longleftrightarrow> ?M")
    by (rule negotiate_iff)
  also have "\<dots> \<longleftrightarrow> (\<exists>len methods login. input = [SOCKS_VERSION, len] @ methods @ login @ [SOCKS_VERSION, cmd, 0, atyp] @ rest \<and>
      length methods = unat len \<and> socks_admits now proxy st methods login auth)"
    unfolding authenticate_iff [OF assms] by fastforce
  also have "\<dots> \<longleftrightarrow> (\<exists>methods login. length methods \<le> 255 \<and>
      input = [SOCKS_VERSION, of_nat (length methods)] @ methods @ login @ [SOCKS_VERSION, cmd, 0, atyp] @ rest \<and>
      socks_admits now proxy st methods login auth)" (is "?X \<longleftrightarrow> ?Y")
    by (rule length_byte_ex)
  finally show "(\<exists>out st'. negotiate (\<lambda>_. True) now proxy input st = (out, Inr (auth, cmd, atyp, rest), st')) \<longleftrightarrow> ?Y" .
  show "case authenticate (\<lambda>_. True) now proxy offered reader st of (out, r, st') \<Rightarrow> is_ok r \<longleftrightarrow> out \<noteq> [] \<and> last out = 0"
    by (auto simp: authenticate_def Let_def is_ok_def socks_consts split: sum.splits bool.splits option.splits prod.splits)
qed

definition demo_socks_account :: new_proxy_account where
  "demo_socks_account = demo_account\<lparr>pa_kind := ''socks5''\<rparr>"

definition demo_socks_state :: app_state where
  "demo_socks_state = demo_state\<lparr>app_db := snd (create_proxy_account (\<lambda>_. True) 0 demo_socks_account empty_database)\<rparr>"

definition demo_listen :: proxy_listen_config where
  "demo_listen = \<lparr>pl_listen = ''l'', pl_client_id = ''c9'', pl_public_udp_addr = None, pl_enabled = True\<rparr>"

lemma demo_socks_accounts: "proxy_accounts (app_db demo_socks_state) = [account_row_of demo_socks_account 0]"
  by (simp add: demo_socks_state_def create_proxy_account_def demo_socks_account_def demo_account_def validate_proxy_kind_def
      empty_database_def Let_def)

lemma demo_socks_readable: "accounts_readable (app_db demo_socks_state)"
proof -
  have "db_inv (app_db demo_socks_state)" unfolding demo_socks_state_def by (simp add: inv_create_proxy_account)
  then show ?thesis unfolding accounts_readable_def demo_socks_accounts by (simp add: account_row_of_def)
qed

theorem socks_admits_exact_witness:
  "(\<exists>out st'. negotiate (\<lambda>_. True) 5 demo_listen
      ([5, 1, 2] @ [1, 1, 117, 1, 112] @ [5, CMD_CONNECT, 0, ATYP_IPV4, 10, 0, 0, 1]) demo_socks_state =
      (out, Inr (\<lparr>au_client_id = ''c1'', au_account_id = Some ''a1''\<rparr>, CMD_CONNECT, ATYP_IPV4, [10, 0, 0, 1]), st')) \<and>
   (case authenticate (\<lambda>_. True) 5 demo_listen [0] [] demo_socks_state of (out, r, st') \<Rightarrow> is_ok r \<longleftrightarrow> out \<noteq> [] \<and> last out = 0)"
proof -
  have up: "byte_of_char (CHR ''u'') = 117" "byte_of_char (CHR ''p'') = 112" by (simp_all add: byte_of_char_def)
  have "socks_admits 5 demo_listen demo_socks_state [2] [1, 1, 117, 1, 112] \<lparr>au_client_id = ''c1'', au_account_id = Some ''a1''\<rparr>"
    unfolding socks_admits_def demo_socks_accounts
    by (simp add: account_row_of_def demo_socks_account_def demo_account_def bool_to_i64_def METHOD_USERNAME_PASSWORD_def
        login_message_def short_utf8_def as_bytes_def up allowed_def demo_socks_state_def demo_state_def AppState_new_def PolicyEnforcer_channel_def)
  then have "\<exists>methods login. length methods \<le> 255 \<and>
      [5, 1, 2] @ [1, 1, 117, 1, 112] @ [5, CMD_CONNECT, 0, ATYP_IPV4, 10, 0, 0, 1] =
        [SOCKS_VERSION, of_nat (length methods)] @ methods @ login @ [SOCKS_VERSION, CMD_CONNECT, 0, ATYP_IPV4] @ [10, 0, 0, 1] \<and>
      socks_admits 5 demo_listen demo_socks_state methods login \<lparr>au_client_id = ''c1'', au_account_id = Some ''a1''\<rparr>"
    by (intro exI [of _ "[2]"] exI [of _ "[1, 1, 117, 1, 112]"]) (simp add: SOCKS_VERSION_def)
  note A = this
  note T = socks_admits_exact [OF demo_socks_readable, of 5 demo_listen
       "[5, 1, 2] @ [1, 1, 117, 1, 112] @ [5, CMD_CONNECT, 0, ATYP_IPV4, 10, 0, 0, 1]"
       "\<lparr>au_client_id = ''c1'', au_account_id = Some ''a1''\<rparr>" CMD_CONNECT ATYP_IPV4 "[10, 0, 0, 1]" "[0]" "[]"]
  show ?thesis by (rule conjI [OF iffD2 [OF conjunct1 [OF T] A] conjunct2 [OF T]])
qed

end
