(* ===== verification/Proxy_Udp.thy ===== *)
theory Proxy_Udp
  imports Socks5
begin

text \<open>
  The UDP tunnel, \<^verbatim>\<open>crates/rps-controller/src/proxy_udp.rs\<close>, and the table of UDP sessions
  that the SOCKS5 relay keeps in the same way. A session is the writer of a mux stream, that
  is, the index of the mux and the stream's id, the time it was last used, which it shares
  with the task that answers, and the guard of the tunnel manager. The tasks that answer are
  part of the table; \<open>rs_done\<close> says that one has ended.
\<close>

definition UDP_IDLE_SECS :: u64 where "UDP_IDLE_SECS = 120"

record udp_session =
  us_mux :: nat
  us_stream :: u32
  us_last_seen :: nat
  us_guard :: "nat option"

record 'k responder =
  rs_key :: 'k
  rs_mux :: nat
  rs_stream :: mux_stream
  rs_last_seen :: nat
  rs_done :: bool

record 'k udp_table =
  ut_sessions :: "('k \<times> udp_session) list"
  ut_seen :: "u64 list"
  ut_responders :: "'k responder list"

definition udp_table_new :: "'k udp_table" where
  "udp_table_new = \<lparr>ut_sessions = [], ut_seen = [], ut_responders = []\<rparr>"

section \<open>Operations on the table\<close>

definition drop_guard_opt :: "nat option \<Rightarrow> app_state \<Rightarrow> app_state" where
  "drop_guard_opt g st =
     (case g of None \<Rightarrow> st | Some r \<Rightarrow> st\<lparr>app_tunnels := drop_udp_guard r (app_tunnels st)\<rparr>)"

text \<open>\<^verbatim>\<open>sessions.remove\<close>: the session is dropped, and its guard with it.\<close>

definition udp_remove :: "'k \<Rightarrow> 'k udp_table \<times> app_state \<Rightarrow> 'k udp_table \<times> app_state" where
  "udp_remove key = (\<lambda>(t, st).
     case map_of (ut_sessions t) key of
       None \<Rightarrow> (t, st)
     | Some s \<Rightarrow> (t\<lparr>ut_sessions := AList.delete key (ut_sessions t)\<rparr>, drop_guard_opt (us_guard s) st))"

definition writer_close :: "udp_session \<Rightarrow> app_state \<Rightarrow> app_state" where
  "writer_close s st =
     (case close (us_stream s) (app_muxes st ! us_mux s) of
        Inl e \<Rightarrow> st
      | Inr m \<Rightarrow> set_mux (us_mux s) m st)"

text \<open>A session that is removed and its stream closed, for each of a list of keys.\<close>

definition udp_close_key :: "'k \<Rightarrow> 'k udp_table \<times> app_state \<Rightarrow> 'k udp_table \<times> app_state" where
  "udp_close_key key = (\<lambda>(t, st).
     case map_of (ut_sessions t) key of
       None \<Rightarrow> (t, st)
     | Some s \<Rightarrow> udp_remove key (t, writer_close s st))"

fun udp_close_keys :: "'k list \<Rightarrow> 'k udp_table \<times> app_state \<Rightarrow> 'k udp_table \<times> app_state" where
  "udp_close_keys [] ts = ts"
| "udp_close_keys (k # ks) ts = udp_close_keys ks (udp_close_key k ts)"

definition idle :: "u64 \<Rightarrow> u64 \<Rightarrow> bool" where
  "idle now last_seen \<longleftrightarrow> UDP_IDLE_SECS < sat_sub now last_seen"

definition udp_idle_keys :: "u64 \<Rightarrow> 'k udp_table \<Rightarrow> 'k list" where
  "udp_idle_keys now t = map fst (filter (\<lambda>(k, s). idle now (ut_seen t ! us_last_seen s)) (ut_sessions t))"

text \<open>The session of a key is used: its time is set, and its writer is taken.\<close>

definition udp_writer :: "u64 \<Rightarrow> 'k \<Rightarrow> 'k udp_table \<Rightarrow> ((nat \<times> u32) \<times> 'k udp_table) option" where
  "udp_writer now key t =
     (case map_of (ut_sessions t) key of
        None \<Rightarrow> None
      | Some s \<Rightarrow> Some ((us_mux s, us_stream s), t\<lparr>ut_seen := (ut_seen t)[us_last_seen s := now]\<rparr>))"

text \<open>A new session with its answering task; a session it replaces is dropped.\<close>

definition udp_insert ::
  "u64 \<Rightarrow> 'k \<Rightarrow> nat \<Rightarrow> mux_stream \<Rightarrow> nat option \<Rightarrow> 'k udp_table \<times> app_state \<Rightarrow> 'k udp_table \<times> app_state" where
  "udp_insert now key i stream guard ts =
     (let (t, st) = udp_remove key ts; c = length (ut_seen t)
      in (t\<lparr>ut_sessions := AList.update key \<lparr>us_mux = i, us_stream = ms_id stream, us_last_seen = c, us_guard = guard\<rparr> (ut_sessions t),
            ut_seen := ut_seen t @ [now],
            ut_responders := ut_responders t @
              [\<lparr>rs_key = key, rs_mux = i, rs_stream = stream, rs_last_seen = c, rs_done = False\<rparr>]\<rparr>, st))"

definition udp_send :: "stream_route \<Rightarrow> 'k \<Rightarrow> nat \<times> u32 \<Rightarrow> bytes \<Rightarrow> 'k udp_table \<times> app_state \<Rightarrow> 'k udp_table \<times> app_state" where
  "udp_send route key w data ts =
     (case send_data (snd w) data (app_muxes (snd ts) ! fst w) of
        Inl e \<Rightarrow> udp_remove key ts
      | Inr m \<Rightarrow> (fst ts, recorder_add route 0 (of_nat (length data)) (set_mux (fst w) m (snd ts))))"

text \<open>
  One turn of the answering task \<open>j\<close>: the packet of the next data, if it can be made, is
  sent to the client, or the task ends and removes the session of its key. The first result
  is the packet that was sent, with the key whose client it goes to.
\<close>

definition udp_respond_end :: "nat \<Rightarrow> 'k udp_table \<times> app_state \<Rightarrow> 'k udp_table \<times> app_state" where
  "udp_respond_end j = (\<lambda>(t, st).
     let r = ut_responders t ! j;
         st1 = set_mux (rs_mux r) (drop_rx (inbound_rx (rs_stream r)) (app_muxes st ! rs_mux r)) st
     in udp_remove (rs_key r) (t\<lparr>ut_responders := (ut_responders t)[j := r\<lparr>rs_done := True\<rparr>]\<rparr>, st1))"

definition udp_respond ::
  "('k \<Rightarrow> bytes \<Rightarrow> error + bytes) \<Rightarrow> ('k \<Rightarrow> stream_route) \<Rightarrow> bool \<Rightarrow> u64 \<Rightarrow> nat \<Rightarrow> 'k udp_table \<times> app_state
     \<Rightarrow> ('k \<times> bytes) option \<times> 'k udp_table \<times> app_state" where
  "udp_respond encode route send_ok now j = (\<lambda>(t, st).
     let r = ut_responders t ! j
     in if rs_done r then (None, t, st)
        else case recv_data (rs_stream r) (app_muxes st ! rs_mux r) of
               (Blocked, m) \<Rightarrow> (None, t, st)
             | (Closed, m) \<Rightarrow> (None, udp_respond_end j (t, st))
             | (Got data, m) \<Rightarrow>
                 let st1 = set_mux (rs_mux r) m st
                 in (case encode (rs_key r) data of
                       Inl e \<Rightarrow> (None, udp_respond_end j (t, st1))
                     | Inr packet \<Rightarrow>
                         if \<not> send_ok then (None, udp_respond_end j (t, st1))
                         else (Some (rs_key r, packet),
                               t\<lparr>ut_seen := (ut_seen t)[rs_last_seen r := now]\<rparr>,
                               recorder_add (route (rs_key r)) (of_nat (length data)) 0 st1)))"

section \<open>The UDP tunnel\<close>

text \<open>
  A datagram from \<open>remote_addr\<close>: it goes to the stream of the address's session, which is
  opened if there is none. An error ends \<^verbatim>\<open>run_socket\<close>.
\<close>

definition udp_datagram ::
  "(open_request \<Rightarrow> string + bytes) \<Rightarrow> (bytes \<Rightarrow> string + open_response) \<Rightarrow> (mux \<Rightarrow> mux) \<Rightarrow> stmts \<Rightarrow> int \<Rightarrow> u64 \<Rightarrow> string
     \<Rightarrow> tunnel_config \<Rightarrow> socket_addr \<Rightarrow> bytes \<Rightarrow> socket_addr udp_table \<times> app_state
     \<Rightarrow> (error + unit) \<times> socket_addr udp_table \<times> app_state" where
  "udp_datagram to_vec from_slice meanwhile q now secs uuid tunnel remote_addr data = (\<lambda>(t, st).
     let route = StreamRoute_from tunnel
     in case udp_writer secs remote_addr t of
          Some (w, t1) \<Rightarrow> (Inr (), udp_send route remote_addr w data (t1, st))
        | None \<Rightarrow>
            (case tc_target tunnel of
               None \<Rightarrow> (Inl (Bail ''udp tunnel target is required''), t, st)
             | Some target \<Rightarrow>
                 let i = (case map_of (app_clients st) (sr_client_id route) of Some conn \<Rightarrow> cn_mux conn | None \<Rightarrow> 0)
                 in (case proxy_open_stream to_vec from_slice meanwhile q now uuid route Udp target
                            (socket_to_string remote_addr) st of
                       (Inl e, st1) \<Rightarrow> (Inl e, t, st1)
                     | (Inr stream, st1) \<Rightarrow>
                         let (guard, m1) = register_udp_session (tc_id tunnel) (app_tunnels st1);
                             ts = udp_insert secs remote_addr i stream guard (t, st1\<lparr>app_tunnels := m1\<rparr>)
                         in (Inr (), udp_send route remote_addr (i, ms_id stream) data ts))))"

text \<open>The cleaning task's turn, and the end of the listener when it is told to stop.\<close>

definition udp_cleanup :: "u64 \<Rightarrow> 'k udp_table \<times> app_state \<Rightarrow> 'k udp_table \<times> app_state" where
  "udp_cleanup now = (\<lambda>(t, st). udp_close_keys (udp_idle_keys now t) (t, st))"

definition udp_close_all :: "'k udp_table \<times> app_state \<Rightarrow> 'k udp_table \<times> app_state" where
  "udp_close_all = (\<lambda>(t, st). udp_close_keys (map fst (ut_sessions t)) (t, st))"

datatype udp_event =
    Datagram stmts int u64 string socket_addr bytes "mux \<Rightarrow> mux"
  | Answer bool u64 nat
  | Cleanup u64
  | MuxWork nat mux

text \<open>
  \<^verbatim>\<open>run_socket\<close> as it takes its events: \<open>None\<close> while it listens, or the error it ended with.
  After an error there is no listener, while answers and cleaning go on. \<open>MuxWork\<close> is any
  progress of a mux that does not concern this component.
\<close>

definition udp_socket_turn ::
  "(open_request \<Rightarrow> string + bytes) \<Rightarrow> (bytes \<Rightarrow> string + open_response) \<Rightarrow> tunnel_config \<Rightarrow> udp_event
     \<Rightarrow> error option \<times> socket_addr udp_table \<times> app_state \<Rightarrow> error option \<times> socket_addr udp_table \<times> app_state" where
  "udp_socket_turn to_vec from_slice tunnel ev = (\<lambda>(ended, t, st).
     case ev of
       Datagram q now secs uuid remote_addr data meanwhile \<Rightarrow>
         if ended \<noteq> None then (ended, t, st)
         else (case udp_datagram to_vec from_slice meanwhile q now secs uuid tunnel remote_addr data (t, st) of
                 (Inl e, t1, st1) \<Rightarrow> (Some e, t1, st1)
               | (Inr _, t1, st1) \<Rightarrow> (None, t1, st1))
     | Answer send_ok now j \<Rightarrow>
         if j < length (ut_responders t)
         then (ended, snd (udp_respond (\<lambda>k d. Inr d) (\<lambda>k. StreamRoute_from tunnel) send_ok now j (t, st)))
         else (ended, t, st)
     | Cleanup now \<Rightarrow> (ended, udp_cleanup now (t, st))
     | MuxWork i m \<Rightarrow> (ended, t, set_mux i m st))"

section \<open>Lemmas\<close>

lemma set_mux_other [simp]:
  "app_tunnels (set_mux i m st) = app_tunnels st" "app_clients (set_mux i m st) = app_clients st"
  "app_proxies (set_mux i m st) = app_proxies st" "app_db (set_mux i m st) = app_db st"
  "app_policy (set_mux i m st) = app_policy st" "app_traffic (set_mux i m st) = app_traffic st"
  by (simp_all add: set_mux_def)

lemma recorder_add_other [simp]:
  "app_tunnels (recorder_add r rx tx st) = app_tunnels st" "app_muxes (recorder_add r rx tx st) = app_muxes st"
  "app_clients (recorder_add r rx tx st) = app_clients st" "app_proxies (recorder_add r rx tx st) = app_proxies st"
  by (simp_all add: recorder_add_def)

lemma writer_close_other [simp]:
  "app_tunnels (writer_close s st) = app_tunnels st" "app_clients (writer_close s st) = app_clients st"
  "app_proxies (writer_close s st) = app_proxies st"
  by (simp_all add: writer_close_def split: sum.split)

lemma proxy_open_stream_tunnels [simp]:
  "app_tunnels (snd (proxy_open_stream tv fs mw q now uuid route pr target ra st)) = app_tunnels st"
  by (auto simp: proxy_open_stream_def record_open_def Let_def split: option.split sum.split prod.split recv.split)

text \<open>The sessions after closing some keys are the others, in their order.\<close>

lemma udp_remove_sessions: "ut_sessions (fst (udp_remove k ts)) = AList.delete k (ut_sessions (fst ts))"
  by (cases ts) (auto simp: udp_remove_def AList.delete_eq map_of_eq_None_iff image_iff split: option.split
      intro!: filter_True [symmetric])

lemma udp_remove_rest [simp]:
  "ut_seen (fst (udp_remove k ts)) = ut_seen (fst ts)" "ut_responders (fst (udp_remove k ts)) = ut_responders (fst ts)"
  "app_muxes (snd (udp_remove k ts)) = app_muxes (snd ts)" "app_clients (snd (udp_remove k ts)) = app_clients (snd ts)"
  "app_policy (snd (udp_remove k ts)) = app_policy (snd ts)" "app_traffic (snd (udp_remove k ts)) = app_traffic (snd ts)"
  by (cases ts; auto simp: udp_remove_def drop_guard_opt_def split: option.split)+

lemma udp_close_key_sessions: "ut_sessions (fst (udp_close_key k ts)) = AList.delete k (ut_sessions (fst ts))"
proof (cases ts)
  case (Pair t st)
  show ?thesis
  proof (cases "map_of (ut_sessions t) k")
    case None
    then show ?thesis using udp_remove_sessions [of k ts] Pair by (simp add: udp_close_key_def udp_remove_def)
  next
    case (Some s)
    then show ?thesis using Pair by (simp add: udp_close_key_def udp_remove_sessions)
  qed
qed

lemma udp_close_key_rest [simp]:
  "ut_seen (fst (udp_close_key k ts)) = ut_seen (fst ts)" "ut_responders (fst (udp_close_key k ts)) = ut_responders (fst ts)"
  by (cases ts; simp add: udp_close_key_def split: option.split)+

lemma udp_close_keys_sessions:
  "ut_sessions (fst (udp_close_keys ks ts)) = filter (\<lambda>(k, s). k \<notin> set ks) (ut_sessions (fst ts))"
proof (induction ks arbitrary: ts)
  case (Cons k ks)
  have "filter (\<lambda>(k', s). k' \<notin> set ks) (AList.delete k xs) = filter (\<lambda>(k', s). k' \<notin> set (k # ks)) xs"
    for xs :: "('a \<times> udp_session) list"
    by (auto simp: AList.delete_eq intro!: filter_cong)
  then show ?case by (simp add: Cons.IH udp_close_key_sessions)
qed simp

lemma udp_close_keys_rest [simp]:
  "ut_seen (fst (udp_close_keys ks ts)) = ut_seen (fst ts)" "ut_responders (fst (udp_close_keys ks ts)) = ut_responders (fst ts)"
  by (induction ks arbitrary: ts) simp_all

lemma udp_cleanup_sessions:
  assumes "distinct (keys (ut_sessions t))"
  shows "ut_sessions (fst (udp_cleanup now (t, st))) =
    filter (\<lambda>(k, s). \<not> idle now (ut_seen t ! us_last_seen s)) (ut_sessions t)"
proof -
  have "k \<in> set (udp_idle_keys now t) \<longleftrightarrow> idle now (ut_seen t ! us_last_seen s)" if "(k, s) \<in> set (ut_sessions t)" for k s
    using that eq_key_imp_eq_value [OF assms, of k] by (auto simp: udp_idle_keys_def image_iff)
  then show ?thesis
    by (auto simp: udp_cleanup_def udp_close_keys_sessions intro!: filter_cong)
qed

section \<open>Sessions and the tunnel's counter\<close>

text \<open>
  Every session holds a guard of the tunnel's runtime \<open>r\<close>, whose counter is \<open>n\<close> more than
  the sessions.
\<close>

definition udp_counted :: "(string \<times> nat) list \<Rightarrow> nat \<Rightarrow> u64 \<Rightarrow> 'k udp_table \<times> app_state \<Rightarrow> bool" where
  "udp_counted run r n = (\<lambda>(t, st).
     distinct (keys (ut_sessions t)) \<and> (\<forall>(k, s) \<in> set (ut_sessions t). us_guard s = Some r) \<and>
     running (app_tunnels st) = run \<and> r < length (runtimes (app_tunnels st)) \<and>
     rt_active_connections (runtimes (app_tunnels st) ! r) = n + of_nat (length (ut_sessions t)))"

lemma udp_counted_cong:
  "udp_counted run r n (t, st) \<Longrightarrow> app_tunnels st' = app_tunnels st \<Longrightarrow> ut_sessions t' = ut_sessions t \<Longrightarrow>
     udp_counted run r n (t', st')"
  by (simp add: udp_counted_def)

lemma udp_counted_seen [simp]:
  "udp_counted run r n (t\<lparr>ut_seen := x\<rparr>, st) = udp_counted run r n (t, st)"
  by (simp add: udp_counted_def)

lemma length_delete_unique:
  assumes "distinct (keys xs)" "map_of xs k = Some v"
  shows "length xs = Suc (length (AList.delete k xs))"
  using count_delete [OF assms, of "\<lambda>_. True"] by simp

lemma counted_remove:
  assumes "udp_counted run r n ts"
  shows "udp_counted run r n (udp_remove k ts)"
proof (cases ts)
  case (Pair t st)
  show ?thesis
  proof (cases "map_of (ut_sessions t) k")
    case None
    then show ?thesis using assms Pair by (simp add: udp_remove_def)
  next
    case (Some s)
    have A: "distinct (keys (ut_sessions t))" "us_guard s = Some r" "r < length (runtimes (app_tunnels st))"
      using assms Pair map_of_SomeD [OF Some] by (auto simp: udp_counted_def)
    have "length (ut_sessions t) = Suc (length (AList.delete k (ut_sessions t)))" by (rule length_delete_unique [OF A(1) Some])
    then show ?thesis using assms Pair Some A
      by (auto simp: udp_remove_def udp_counted_def drop_guard_opt_def drop_udp_guard_def Let_def AList.delete_eq)
  qed
qed

lemma counted_close_key: "udp_counted run r n ts \<Longrightarrow> udp_counted run r n (udp_close_key k ts)"
  by (cases ts) (auto simp: udp_close_key_def split: option.split intro!: counted_remove elim: udp_counted_cong)

lemma counted_close_keys: "udp_counted run r n ts \<Longrightarrow> udp_counted run r n (udp_close_keys ks ts)"
  by (induction ks arbitrary: ts) (simp_all add: counted_close_key)

lemma counted_send: "udp_counted run r n ts \<Longrightarrow> udp_counted run r n (udp_send route k w data ts)"
  by (cases ts) (auto simp: udp_send_def split: sum.split intro!: counted_remove elim: udp_counted_cong)

lemma counted_insert:
  assumes "udp_counted run r (n + 1) ts"
  shows "udp_counted run r n (udp_insert now k i stream (Some r) ts)"
proof -
  obtain t st where ts: "udp_remove k ts = (t, st)" by force
  have c: "udp_counted run r (n + 1) (t, st)" using counted_remove [OF assms, of k] ts by simp
  have k: "map_of (ut_sessions t) k = None"
    using udp_remove_sessions [of k ts] ts by simp
  then have "AList.update k v (ut_sessions t) = ut_sessions t @ [(k, v)]" for v
    by (rule update_fresh)
  then show ?thesis using c k ts by (auto simp: udp_insert_def udp_counted_def map_of_eq_None_iff Let_def)
qed

lemma counted_respond_end: "udp_counted run r n ts \<Longrightarrow> udp_counted run r n (udp_respond_end j ts)"
  by (cases ts) (auto simp: udp_respond_end_def Let_def intro!: counted_remove elim: udp_counted_cong)

lemma counted_respond:
  "udp_counted run r n (t, st) \<Longrightarrow> udp_counted run r n (snd (udp_respond encode route ok now j (t, st)))"
  by (auto simp: udp_respond_def Let_def split: prod.split recv.split sum.split
      intro!: counted_respond_end elim: udp_counted_cong)

lemma counted_datagram:
  assumes "udp_counted run r n (t, st)" and "map_of run (tc_id tunnel) = Some r"
  shows "udp_counted run r n (snd (udp_datagram tv fs mw q now secs uuid tunnel ra data (t, st)))"
proof (cases "udp_writer secs ra t")
  case (Some wt)
  then show ?thesis using assms(1)
    by (auto simp: udp_datagram_def udp_writer_def Let_def split: option.splits intro!: counted_send elim: udp_counted_cong)
next
  case None
  let ?route = "StreamRoute_from tunnel"
  show ?thesis
  proof (cases "tc_target tunnel")
    case (Some target)
    obtain res st1 where o: "proxy_open_stream tv fs mw q now uuid ?route Udp target (socket_to_string ra) st = (res, st1)" by force
    have st1: "app_tunnels st1 = app_tunnels st" using proxy_open_stream_tunnels [of tv fs mw q now uuid ?route Udp target "socket_to_string ra" st] o by simp
    have reg: "register_udp_session (tc_id tunnel) (app_tunnels st1) = (Some r, m1) \<Longrightarrow>
        udp_counted run r (n + 1) (t, st1\<lparr>app_tunnels := m1\<rparr>)" for m1
      using assms by (auto simp: register_udp_session_def udp_counted_def st1 Let_def split: option.splits)
    have "fst (register_udp_session (tc_id tunnel) (app_tunnels st1)) = Some r"
      using assms by (simp add: register_udp_session_def udp_counted_def st1 Let_def)
    then obtain m1 where m1: "register_udp_session (tc_id tunnel) (app_tunnels st1) = (Some r, m1)"
      by (metis prod.collapse)
    show ?thesis
      using None Some o m1 assms(1) counted_send [OF counted_insert [OF reg [OF m1]]] udp_counted_cong [OF assms(1) st1, of t]
      by (auto simp: udp_datagram_def Let_def split: sum.split)
  qed (use None assms(1) in \<open>simp add: udp_datagram_def Let_def\<close>)
qed

lemma counted_turn:
  assumes "udp_counted run r n (snd es)" and "map_of run (tc_id tunnel) = Some r"
  shows "udp_counted run r n (snd (udp_socket_turn tv fs tunnel ev es))"
proof -
  obtain ended t st where es: "es = (ended, t, st)" by (metis surj_pair)
  then have c: "udp_counted run r n (t, st)" using assms(1) by simp
  show ?thesis
  proof (cases ev)
    case (Datagram q now secs uuid ra data mw)
    then show ?thesis
      using counted_datagram [OF c assms(2), of tv fs mw q now secs uuid ra data] c es
      by (auto simp: udp_socket_turn_def split: prod.split sum.split)
  next
    case (Answer ok now j)
    then show ?thesis using counted_respond [OF c] c es by (simp add: udp_socket_turn_def)
  next
    case (Cleanup now)
    then show ?thesis using counted_close_keys [OF c] es by (simp add: udp_socket_turn_def udp_cleanup_def)
  next
    case (MuxWork i m)
    then show ?thesis using udp_counted_cong [OF c, of "set_mux i m st" t] es by (simp add: udp_socket_turn_def)
  qed
qed

lemma counted_fold:
  "udp_counted run r n (snd es) \<Longrightarrow> map_of run (tc_id tunnel) = Some r \<Longrightarrow>
     udp_counted run r n (snd (fold (udp_socket_turn tv fs tunnel) evs es))"
  by (induction evs arbitrary: es) (simp_all add: counted_turn)

text \<open>
  A datagram from a new address while the agent is offline ends the listener, and every later
  datagram is lost, also those of addresses that have a session.
\<close>

lemma udp_offline_ends_listener:
  assumes "map_of (app_clients st) (tc_client_id tunnel) = None" and "map_of (ut_sessions t) ra = None"
  shows "\<exists>e. udp_socket_turn tv fs tunnel (Datagram q now secs uuid ra data mw) (None, t, st) = (Some e, t, st) \<and>
    udp_socket_turn tv fs tunnel (Datagram q' now' secs' uuid' ra' data' mw') (Some e, t', st') = (Some e, t', st')"
  using assms
  by (auto simp: udp_socket_turn_def udp_datagram_def udp_writer_def proxy_open_stream_def StreamRoute_from_def Let_def
      split: option.split)

text \<open>
  An answering task that ends removes the session of its key, also when that session is a
  newer one with another stream.
\<close>

lemma stale_responder_removes_session:
  assumes "j < length (ut_responders t)" and "\<not> rs_done (ut_responders t ! j)"
    and "fst (recv_data (rs_stream (ut_responders t ! j)) (app_muxes st ! rs_mux (ut_responders t ! j))) = Closed"
  shows "map_of (ut_sessions (fst (snd (udp_respond encode route ok now j (t, st))))) (rs_key (ut_responders t ! j)) = None"
  using assms(2,3)
  by (auto simp: udp_respond_def udp_respond_end_def Let_def udp_remove_sessions split: prod.split)

section \<open>Properties\<close>

text \<open>
  C23: UDP sessions are counted. Whatever datagrams, answers and idle checks a running UDP
  tunnel goes through, the tunnel manager counts exactly the sessions of its table on top of
  the connections counted before; an idle check removes exactly the sessions that were not
  used for more than 120 seconds; and when the listener stops, no session is left and the
  count is what it was.
\<close>

theorem udp_sessions_counted:
  assumes "tm_inv (app_tunnels st)" and "map_of (running (app_tunnels st)) (tc_id tunnel) = Some r"
  shows "case fold (udp_socket_turn to_vec from_slice tunnel) evs (None, udp_table_new, st) of (ended, t, st') \<Rightarrow>
     active_count (tc_id tunnel) (app_tunnels st') =
       active_count (tc_id tunnel) (app_tunnels st) + of_nat (length (ut_sessions t)) \<and>
     ut_sessions (fst (udp_cleanup now (t, st'))) =
       filter (\<lambda>(k, s). unat now - unat (ut_seen t ! us_last_seen s) \<le> 120) (ut_sessions t) \<and>
     (case udp_close_all (t, st') of (t2, st2) \<Rightarrow>
        ut_sessions t2 = [] \<and> active_count (tc_id tunnel) (app_tunnels st2) = active_count (tc_id tunnel) (app_tunnels st))"
proof -
  let ?run = "running (app_tunnels st)" and ?n = "active_count (tc_id tunnel) (app_tunnels st)"
  obtain ended t st' where f: "fold (udp_socket_turn to_vec from_slice tunnel) evs (None, udp_table_new, st) = (ended, t, st')"
    by (metis surj_pair)
  have "udp_counted ?run r ?n (udp_table_new :: socket_addr udp_table, st)"
    using running_lt [OF assms] assms(2) by (simp add: udp_counted_def udp_table_new_def active_count_def)
  then have c: "udp_counted ?run r ?n (t, st')"
    using counted_fold [of ?run r ?n "(None, udp_table_new, st)" tunnel to_vec from_slice evs] assms(2) f by simp
  obtain t2 st2 where a: "udp_close_all (t, st') = (t2, st2)" by force
  have c2: "udp_counted ?run r ?n (t2, st2)" using counted_close_keys [OF c, of "keys (ut_sessions t)"] a by (simp add: udp_close_all_def)
  have e: "ut_sessions t2 = []"
    using a udp_close_keys_sessions [of "map fst (ut_sessions t)" "(t, st')"]
    by (force simp: udp_close_all_def filter_empty_conv)
  have idle: "\<not> idle now x \<longleftrightarrow> unat now - unat x \<le> 120" for x
    by (simp add: idle_def UDP_IDLE_SECS_def word_less_nat_alt unat_sat_sub not_less)
  have count: "active_count (tc_id tunnel) (app_tunnels s) = ?n + of_nat (length (ut_sessions x))"
    if "udp_counted ?run r ?n (x, s)" for x :: "socket_addr udp_table" and s
    using that assms(2) by (simp add: udp_counted_def active_count_def)
  have "ut_sessions (fst (udp_cleanup now (t, st'))) =
       filter (\<lambda>(k, s). unat now - unat (ut_seen t ! us_last_seen s) \<le> 120) (ut_sessions t)"
    using udp_cleanup_sessions [of t now st'] c by (simp add: udp_counted_def idle)
  then show ?thesis using count [OF c] count [OF c2] f a e by simp
qed

definition demo_udp_tunnel :: tunnel_config where
  "demo_udp_tunnel = demo_tunnel_cfg\<lparr>tc_mode := UdpMode\<rparr>"

definition demo_udp_state :: app_state where
  "demo_udp_state = (let (c, st) = ClientConnection_new ''s1'' demo_state
     in st\<lparr>app_clients := [(''c1'', c)], app_tunnels := demo_running\<rparr>)"

definition demo_peer :: socket_addr where
  "demo_peer = \<lparr>sk_ip = IpV4 (10, 0, 0, 1), sk_port = 4000\<rparr>"

text \<open>The agent answers that the target is open.\<close>

definition demo_accept :: "mux \<Rightarrow> mux" where
  "demo_accept m = chan_send 0 [1] m"

definition demo_udp_events :: "udp_event list" where
  "demo_udp_events = [Datagram (\<lambda>_. True) 5 5 ''u1'' demo_peer [7, 8] demo_accept, Cleanup 100]"

theorem udp_sessions_counted_witness:
  "case fold (udp_socket_turn (\<lambda>_. Inr [2]) (\<lambda>_. Inr OpenResponse_ok) demo_udp_tunnel) demo_udp_events (None, udp_table_new, demo_udp_state) of
     (ended, t, st') \<Rightarrow>
       active_count ''t1'' (app_tunnels st') = 1 \<and> map fst (ut_sessions t) = [demo_peer] \<and>
       ut_sessions (fst (udp_cleanup 126 (t, st'))) = []"
proof -
  have inv: "tm_inv (app_tunnels demo_udp_state)"
    unfolding demo_udp_state_def by (simp add: ClientConnection_new_def demo_running_def inv_start_tunnel tm_sys.inv_init)
  have run: "map_of (running (app_tunnels demo_udp_state)) (tc_id demo_udp_tunnel) = Some 0"
    by (simp add: demo_udp_state_def ClientConnection_new_def demo_udp_tunnel_def demo_tm_defs Let_def)
  let ?f = "fold (udp_socket_turn (\<lambda>_. Inr [2]) (\<lambda>_. Inr OpenResponse_ok) demo_udp_tunnel) demo_udp_events (None, udp_table_new, demo_udp_state)"
  obtain ended t st' where f: "?f = (ended, t, st')" by (metis surj_pair)
  have "fst (snd ?f) = \<lparr>ut_sessions = [(demo_peer, \<lparr>us_mux = 0, us_stream = 1, us_last_seen = 0, us_guard = Some 0\<rparr>)], ut_seen = [5],
       ut_responders = [\<lparr>rs_key = demo_peer, rs_mux = 0, rs_stream = \<lparr>ms_id = 1, inbound_rx = 0\<rparr>, rs_last_seen = 0, rs_done = False\<rparr>]\<rparr>"
    by (simp add: demo_udp_events_def udp_socket_turn_def udp_datagram_def udp_writer_def udp_table_new_def demo_udp_tunnel_def
        demo_udp_state_def demo_tm_defs Let_def demo_state_def AppState_new_def proxy_open_stream_def StreamRoute_from_def
        open_stream_def next_stream_id_def chan_new_def streams_insert_def streams_remove_def writer_send_def mux_new_def recv_data_def demo_accept_def
        chan_send_def set_mux_def OpenResponse_ok_def register_udp_session_def udp_insert_def udp_remove_def udp_send_def send_data_def
        ClientConnection_new_def record_open_def udp_cleanup_def udp_idle_keys_def idle_def sat_sub_def UDP_IDLE_SECS_def)
  then have t: "map fst (ut_sessions t) = [demo_peer]" "length (ut_sessions t) = 1" "\<And>s. s \<in> set (ut_sessions t) \<Longrightarrow> ut_seen t ! us_last_seen (snd s) = 5"
    using f by auto
  have "active_count ''t1'' (app_tunnels demo_udp_state) = 0" "tc_id demo_udp_tunnel = ''t1''"
    by (simp_all add: demo_udp_state_def ClientConnection_new_def demo_udp_tunnel_def demo_tm_defs Let_def active_count_def)
  then show ?thesis
    using udp_sessions_counted [OF inv run, where to_vec = "\<lambda>_. Inr [2]" and from_slice = "\<lambda>_. Inr OpenResponse_ok" and evs = demo_udp_events and now = 126] f t
    by (auto simp: filter_empty_conv)
qed

end
