(* ===== verification/Socks5_Udp.thy ===== *)
theory Socks5_Udp
  imports Proxy_Udp
begin

text \<open>
  The UDP side of the SOCKS5 proxy, \<^verbatim>\<open>crates/rps-controller/src/proxy_socks5.rs\<close>: the
  associations that control connections hold, by the client's address without port, and the
  sessions of the relay. An association is shared by the map and the control connections, so
  the associations are a store and the map and the connections hold indices of it. The
  connections that are open are part of the state. An answering task's address and recorder
  are in \<open>su_tasks\<close> at the index of the task.
\<close>

record session_key =
  ky_client_id :: string
  ky_client_addr :: socket_addr
  ky_target :: string

record association =
  an_refs :: u64
  an_last_seen :: u64
  an_client_id :: string
  an_udp_tunnel_id :: string

record control =
  ct_ip :: ip_addr
  ct_assoc :: nat
  ct_guard :: proxy_guard

record socks_udp =
  su_store :: "association list"
  su_map :: "(ip_addr \<times> nat) list"
  su_table :: "session_key udp_table"
  su_tasks :: "(socks_addr \<times> stream_route) list"
  su_controls :: "control list"

definition socks_udp_new :: socks_udp where
  "socks_udp_new = \<lparr>su_store = [], su_map = [], su_table = udp_table_new, su_tasks = [], su_controls = []\<rparr>"

definition key_ip :: "session_key \<Rightarrow> ip_addr" where
  "key_ip k = sk_ip (ky_client_addr k)"

definition with_table ::
  "(session_key udp_table \<times> app_state \<Rightarrow> session_key udp_table \<times> app_state) \<Rightarrow> socks_udp \<times> app_state \<Rightarrow> socks_udp \<times> app_state" where
  "with_table f = (\<lambda>(u, st). case f (su_table u, st) of (t, st1) \<Rightarrow> (u\<lparr>su_table := t\<rparr>, st1))"

definition close_sessions_for_ip :: "ip_addr \<Rightarrow> socks_udp \<times> app_state \<Rightarrow> socks_udp \<times> app_state" where
  "close_sessions_for_ip ip = (\<lambda>(u, st).
     with_table (udp_close_keys (filter (\<lambda>k. key_ip k = ip) (map fst (ut_sessions (su_table u))))) (u, st))"

section \<open>Control connections\<close>

definition udp_tunnel_id :: "socks_auth \<Rightarrow> string" where
  "udp_tunnel_id auth = (case au_account_id auth of None \<Rightarrow> ''socks5-udp'' | Some i \<Rightarrow> ''socks5-udp:'' @ i)"

text \<open>\<^verbatim>\<open>entry(ip).or_insert_with(...)\<close>, counted up and its time set.\<close>

definition associate_entry :: "u64 \<Rightarrow> socks_auth \<Rightarrow> ip_addr \<Rightarrow> socks_udp \<Rightarrow> nat \<times> socks_udp" where
  "associate_entry now auth ip u =
     (let (i, u1) =
        (case map_of (su_map u) ip of
           Some i \<Rightarrow> (i, u)
         | None \<Rightarrow>
             let i = length (su_store u)
             in (i, u\<lparr>su_store := su_store u @
                      [\<lparr>an_refs = 0, an_last_seen = now, an_client_id = au_client_id auth, an_udp_tunnel_id = udp_tunnel_id auth\<rparr>],
                     su_map := AList.update ip i (su_map u)\<rparr>));
          a = su_store u1 ! i
      in (i, u1\<lparr>su_store := (su_store u1)[i := a\<lparr>an_refs := an_refs a + 1, an_last_seen := now\<rparr>]\<rparr>))"

text \<open>\<^verbatim>\<open>handle_udp_associate\<close> until it waits for the control connection; \<open>write_ok\<close> says whether the reply can be written.\<close>

definition handle_udp_associate ::
  "u64 \<Rightarrow> string \<Rightarrow> bool \<Rightarrow> socket_addr \<Rightarrow> socket_addr \<Rightarrow> byte \<Rightarrow> socks_auth \<Rightarrow> bytes \<Rightarrow> socks_udp \<times> app_state
     \<Rightarrow> bytes \<times> (error + control \<times> bytes) \<times> socks_udp \<times> app_state" where
  "handle_udp_associate now session_id write_ok remote_addr udp_addr atyp auth reader = (\<lambda>(u, st).
     case read_socks_addr atyp reader of
       Inl err \<Rightarrow> (addr_error_reply err, Inl err, u, st)
     | Inr (requested, reader1) \<Rightarrow>
         let (i, u1) = associate_entry now auth (sk_ip remote_addr) u
         in if \<not> write_ok then ([], Inl (IoError BrokenPipe ''broken pipe''), u1, st)
            else let (g, m1) = register_proxy session_id (au_account_id auth) (app_proxies st);
                     c = \<lparr>ct_ip = sk_ip remote_addr, ct_assoc = i, ct_guard = g\<rparr>
                 in (send_reply REP_SUCCEEDED (Some udp_addr), Inr (c, reader1),
                     u1\<lparr>su_controls := su_controls u1 @ [c]\<rparr>, st\<lparr>app_proxies := m1\<rparr>))"

text \<open>Data on a control connection, its end or shutdown, and an error of reading from it.\<close>

definition touch_association :: "u64 \<Rightarrow> ip_addr \<Rightarrow> socks_udp \<Rightarrow> socks_udp" where
  "touch_association now ip u =
     (case map_of (su_map u) ip of
        None \<Rightarrow> u
      | Some i \<Rightarrow> u\<lparr>su_store := (su_store u)[i := (su_store u ! i)\<lparr>an_last_seen := now\<rparr>]\<rparr>)"

definition control_closed :: "control \<Rightarrow> socks_udp \<times> app_state \<Rightarrow> socks_udp \<times> app_state" where
  "control_closed c = (\<lambda>(u, st).
     (u\<lparr>su_controls := remove1 c (su_controls u)\<rparr>, st\<lparr>app_proxies := drop_proxy_guard (ct_guard c) (app_proxies st)\<rparr>))"

definition udp_associate_end :: "control \<Rightarrow> socks_udp \<times> app_state \<Rightarrow> socks_udp \<times> app_state" where
  "udp_associate_end c = (\<lambda>(u, st).
     let a = su_store u ! ct_assoc c;
         u1 = u\<lparr>su_store := (su_store u)[ct_assoc c := a\<lparr>an_refs := an_refs a - 1\<rparr>]\<rparr>
     in control_closed c
          (if an_refs a = 1
           then close_sessions_for_ip (ct_ip c)
                  ((if map_of (su_map u1) (ct_ip c) = Some (ct_assoc c)
                    then u1\<lparr>su_map := AList.delete (ct_ip c) (su_map u1)\<rparr> else u1), st)
           else (u1, st)))"

definition udp_associate_error :: "control \<Rightarrow> socks_udp \<times> app_state \<Rightarrow> socks_udp \<times> app_state" where
  "udp_associate_error c = control_closed c"

section \<open>The relay\<close>

text \<open>
  A datagram on the relay's socket. It is dropped without an association of the sender's
  address or when it is no SOCKS5 packet; otherwise it goes to the session of the client,
  address and target, which is opened if there is none.
\<close>

definition udp_relay_packet ::
  "(open_request \<Rightarrow> string + bytes) \<Rightarrow> (bytes \<Rightarrow> string + open_response) \<Rightarrow> (mux \<Rightarrow> mux) \<Rightarrow> stmts \<Rightarrow> int \<Rightarrow> u64 \<Rightarrow> string
     \<Rightarrow> socket_addr \<Rightarrow> bytes \<Rightarrow> socks_udp \<times> app_state \<Rightarrow> socks_udp \<times> app_state" where
  "udp_relay_packet to_vec from_slice meanwhile q now secs uuid client_addr packet = (\<lambda>(u, st).
     case map_of (su_map u) (sk_ip client_addr) of
       None \<Rightarrow> (u, st)
     | Some n \<Rightarrow>
         let a = su_store u ! n;
             route = \<lparr>sr_tunnel_id = an_udp_tunnel_id a, sr_client_id = an_client_id a\<rparr>;
             u1 = u\<lparr>su_store := (su_store u)[n := a\<lparr>an_last_seen := secs\<rparr>]\<rparr>
         in (case parse_udp_packet packet of
               Inl e \<Rightarrow> (u1, st)
             | Inr (target_addr, data) \<Rightarrow>
                 let target = socks_target target_addr;
                     key = \<lparr>ky_client_id = sr_client_id route, ky_client_addr = client_addr, ky_target = target\<rparr>
                 in (case udp_writer secs key (su_table u1) of
                       Some (w, t1) \<Rightarrow> with_table (udp_send route key w data) (u1\<lparr>su_table := t1\<rparr>, st)
                     | None \<Rightarrow>
                         let i = (case map_of (app_clients st) (sr_client_id route) of Some conn \<Rightarrow> cn_mux conn | None \<Rightarrow> 0)
                         in (case proxy_open_stream to_vec from_slice meanwhile q now uuid route Udp target
                                    (socket_to_string client_addr) st of
                               (Inl e, st1) \<Rightarrow> (u1, st1)
                             | (Inr stream, st1) \<Rightarrow>
                                 with_table (udp_send route key (i, ms_id stream) data)
                                   (with_table (udp_insert secs key i stream None)
                                      (u1\<lparr>su_tasks := su_tasks u1 @ [(target_addr, route)]\<rparr>, st1))))))"

text \<open>The turn of an answering task of the relay, and the cleaning task.\<close>

definition udp_relay_response ::
  "bool \<Rightarrow> u64 \<Rightarrow> nat \<Rightarrow> socks_udp \<times> app_state \<Rightarrow> (session_key \<times> bytes) option \<times> socks_udp \<times> app_state" where
  "udp_relay_response send_ok now j = (\<lambda>(u, st).
     case udp_respond (\<lambda>k. encode_udp_response (fst (su_tasks u ! j))) (\<lambda>k. snd (su_tasks u ! j)) send_ok now j (su_table u, st) of
       (sent, t, st1) \<Rightarrow> (sent, u\<lparr>su_table := t\<rparr>, st1))"

definition idle_ips :: "u64 \<Rightarrow> socks_udp \<Rightarrow> ip_addr list" where
  "idle_ips now u = map fst (filter (\<lambda>(ip, i). idle now (an_last_seen (su_store u ! i))) (su_map u))"

fun drop_associations :: "ip_addr list \<Rightarrow> socks_udp \<times> app_state \<Rightarrow> socks_udp \<times> app_state" where
  "drop_associations [] us = us"
| "drop_associations (ip # ips) us =
     drop_associations ips
       (if map_of (su_map (fst us)) ip \<noteq> None
        then close_sessions_for_ip ip ((fst us)\<lparr>su_map := AList.delete ip (su_map (fst us))\<rparr>, snd us)
        else us)"

definition cleanup_udp_state :: "u64 \<Rightarrow> socks_udp \<times> app_state \<Rightarrow> socks_udp \<times> app_state" where
  "cleanup_udp_state now = (\<lambda>(u, st). with_table (udp_cleanup now) (drop_associations (idle_ips now u) (u, st)))"

section \<open>A connection\<close>

text \<open>\<^verbatim>\<open>handle_conn\<close> after the negotiation: what each command starts.\<close>

datatype started = Connecting duplex proxy_guard | Associated control | Refused

definition handle_command ::
  "(open_request \<Rightarrow> string + bytes) \<Rightarrow> (bytes \<Rightarrow> string + open_response) \<Rightarrow> socket_addr option \<Rightarrow> stmts \<Rightarrow> int \<Rightarrow> u64 \<Rightarrow> string \<Rightarrow> string
     \<Rightarrow> bool \<Rightarrow> socket_addr \<Rightarrow> socket_addr \<Rightarrow> socks_auth \<times> byte \<times> byte \<times> bytes \<Rightarrow> socks_udp \<times> app_state
     \<Rightarrow> bytes \<times> (error + started) \<times> socks_udp \<times> app_state" where
  "handle_command to_vec from_slice local_addr q now secs uuid session_id write_ok remote_addr udp_addr = (\<lambda>(auth, cmd, atyp, reader) (u, st).
     if cmd = CMD_CONNECT
     then (case handle_connect to_vec from_slice local_addr q now uuid session_id auth remote_addr atyp reader st of
             (out, Inl e, st1) \<Rightarrow> (out, Inl e, u, st1)
           | (out, Inr (stream, g, rest), st1) \<Rightarrow> (out, Inr (Connecting stream g), u, st1))
     else if cmd = CMD_UDP_ASSOCIATE
     then (case handle_udp_associate secs session_id write_ok remote_addr udp_addr atyp auth reader (u, st) of
             (out, Inl e, us1) \<Rightarrow> (out, Inl e, us1)
           | (out, Inr (c, rest), us1) \<Rightarrow> (out, Inr (Associated c), us1))
     else if cmd = CMD_BIND
     then (send_reply REP_COMMAND_NOT_SUPPORTED None, Inr Refused, u, st)
     else (send_reply REP_COMMAND_NOT_SUPPORTED None,
           Inl (Bail (''unsupported socks5 command '' @ dec_string (unat cmd))), u, st))"

definition socks_handle_conn ::
  "(open_request \<Rightarrow> string + bytes) \<Rightarrow> (bytes \<Rightarrow> string + open_response) \<Rightarrow> socket_addr option \<Rightarrow> stmts \<Rightarrow> int \<Rightarrow> u64 \<Rightarrow> string \<Rightarrow> string
     \<Rightarrow> bool \<Rightarrow> proxy_listen_config \<Rightarrow> socket_addr \<Rightarrow> socket_addr \<Rightarrow> bytes \<Rightarrow> socks_udp \<times> app_state
     \<Rightarrow> bytes \<times> (error + started) \<times> socks_udp \<times> app_state" where
  "socks_handle_conn to_vec from_slice local_addr q now secs uuid session_id write_ok proxy remote_addr udp_addr input = (\<lambda>(u, st).
     case negotiate q now proxy input st of
       (out, Inl e, st1) \<Rightarrow> (out, Inl e, u, st1)
     | (out, Inr request, st1) \<Rightarrow>
         (case handle_command to_vec from_slice local_addr (\<lambda>i. q (i + 2)) now secs uuid session_id write_ok remote_addr udp_addr request (u, st1) of
            (out2, r, us2) \<Rightarrow> (out @ out2, r, us2)))"

section \<open>Steps\<close>

text \<open>
  What the relay goes through. A step that is not \<open>clean_io\<close> is the failure of writing the
  reply to an association request or of reading from a control connection; there are fewer
  than \<open>2 ^ 64\<close> control connections.
\<close>

inductive su_step :: "bool \<Rightarrow> socks_udp \<times> app_state \<Rightarrow> socks_udp \<times> app_state \<Rightarrow> bool" for clean_io where
  associate: "Suc (length (su_controls (fst us))) < 2 ^ 64 \<Longrightarrow> write_ok \<or> \<not> clean_io \<Longrightarrow>
    su_step clean_io us (snd (snd (handle_udp_associate now sid write_ok ra ua atyp auth reader us)))"
| touch: "c \<in> set (su_controls u) \<Longrightarrow> su_step clean_io (u, st) (touch_association now (ct_ip c) u, st)"
| finish: "c \<in> set (su_controls (fst us)) \<Longrightarrow> su_step clean_io us (udp_associate_end c us)"
| broken: "c \<in> set (su_controls (fst us)) \<Longrightarrow> \<not> clean_io \<Longrightarrow> su_step clean_io us (udp_associate_error c us)"
| relay: "su_step clean_io us (udp_relay_packet tv fs mw q now secs uuid ca packet us)"
| respond: "j < length (ut_responders (su_table (fst us))) \<Longrightarrow> su_step clean_io us (snd (udp_relay_response ok now j us))"
| clean: "su_step clean_io us (cleanup_udp_state now us)"
| other: "su_step clean_io (u, st) (u, st')"

inductive_cases su_stepE: "su_step clean_io us us'"

section \<open>The invariant\<close>

definition holders :: "nat \<Rightarrow> socks_udp \<Rightarrow> nat" where
  "holders i u = length (filter (\<lambda>c. ct_assoc c = i) (su_controls u))"

text \<open>
  The associations in the map exist and are different; a connection's association exists and,
  if it is in the map, is there under the connection's address. Every session is one of an
  association in the map and goes to its client. Without failures, an association in the map
  counts its connections, and has one.
\<close>

definition assoc_inv :: "socks_udp \<Rightarrow> bool" where
  "assoc_inv u \<longleftrightarrow>
     distinct (keys (su_map u)) \<and>
     (\<forall>ip i. map_of (su_map u) ip = Some i \<longrightarrow> i < length (su_store u)) \<and>
     (\<forall>c \<in> set (su_controls u). ct_assoc c < length (su_store u)) \<and>
     (\<forall>c \<in> set (su_controls u). \<forall>ip. map_of (su_map u) ip = Some (ct_assoc c) \<longrightarrow> ct_ip c = ip) \<and>
     (\<forall>ip ip' i. map_of (su_map u) ip = Some i \<longrightarrow> map_of (su_map u) ip' = Some i \<longrightarrow> ip = ip') \<and>
     length (su_controls u) < 2 ^ 64"

definition sessions_inv :: "socks_udp \<Rightarrow> bool" where
  "sessions_inv u \<longleftrightarrow>
     (\<forall>k \<in> set (keys (ut_sessions (su_table u))).
        \<exists>i. map_of (su_map u) (key_ip k) = Some i \<and> an_client_id (su_store u ! i) = ky_client_id k)"

definition refs_inv :: "socks_udp \<Rightarrow> bool" where
  "refs_inv u \<longleftrightarrow>
     (\<forall>ip i. map_of (su_map u) ip = Some i \<longrightarrow> an_refs (su_store u ! i) = of_nat (holders i u) \<and> 0 < holders i u)"

text \<open>What an operation on the table leaves of the rest.\<close>

lemma with_table_parts:
  "su_map (fst (with_table f us)) = su_map (fst us)" "su_store (fst (with_table f us)) = su_store (fst us)"
  "su_controls (fst (with_table f us)) = su_controls (fst us)"
  "su_table (fst (with_table f us)) = fst (f (su_table (fst us), snd us))"
  "snd (with_table f us) = snd (f (su_table (fst us), snd us))"
  by (cases us; auto simp: with_table_def split: prod.split)+

lemma close_ip_parts:
  "su_map (fst (close_sessions_for_ip ip us)) = su_map (fst us)" "su_store (fst (close_sessions_for_ip ip us)) = su_store (fst us)"
  "su_controls (fst (close_sessions_for_ip ip us)) = su_controls (fst us)"
  by (cases us; simp add: close_sessions_for_ip_def with_table_parts)+

lemma close_ip_sessions:
  "ut_sessions (su_table (fst (close_sessions_for_ip ip us))) = filter (\<lambda>(k, s). key_ip k \<noteq> ip) (ut_sessions (su_table (fst us)))"
  by (cases us) (auto simp: close_sessions_for_ip_def with_table_parts udp_close_keys_sessions image_iff intro!: filter_cong)

lemma close_ip_other_sessions:
  "ut_seen (su_table (fst (close_sessions_for_ip ip us))) = ut_seen (su_table (fst us))"
  by (cases us) (simp add: close_sessions_for_ip_def with_table_parts)

lemma control_closed_parts:
  "su_map (fst (control_closed c us)) = su_map (fst us)" "su_store (fst (control_closed c us)) = su_store (fst us)"
  "su_table (fst (control_closed c us)) = su_table (fst us)" "su_controls (fst (control_closed c us)) = remove1 c (su_controls (fst us))"
  by (cases us; simp add: control_closed_def)+

lemma udp_send_keys: "set (keys (ut_sessions (fst (udp_send route k w data ts)))) \<subseteq> set (keys (ut_sessions (fst ts)))"
  by (auto simp: udp_send_def udp_remove_sessions AList.delete_eq split: sum.split)

lemma udp_insert_keys:
  "set (keys (ut_sessions (fst (udp_insert now k i stream g ts)))) = insert k (set (keys (ut_sessions (fst ts))))"
proof -
  obtain t st where r: "udp_remove k ts = (t, st)" by force
  then have "ut_sessions t = AList.delete k (ut_sessions (fst ts))" using udp_remove_sessions [of k ts] by simp
  then show ?thesis by (auto simp: udp_insert_def r Let_def dom_update AList.delete_eq)
qed

lemma udp_respond_keys:
  "set (keys (ut_sessions (fst (snd (udp_respond encode route ok now j ts))))) \<subseteq> set (keys (ut_sessions (fst ts)))"
  by (cases ts) (auto simp: udp_respond_def udp_respond_end_def udp_remove_sessions AList.delete_eq Let_def
      split: prod.splits recv.splits sum.splits)

lemma udp_cleanup_keys: "set (keys (ut_sessions (fst (udp_cleanup now ts)))) \<subseteq> set (keys (ut_sessions (fst ts)))"
  by (cases ts) (auto simp: udp_cleanup_def udp_close_keys_sessions)

section \<open>Every step keeps it\<close>

definition su_inv :: "bool \<Rightarrow> socks_udp \<times> app_state \<Rightarrow> bool" where
  "su_inv clean_io us \<longleftrightarrow> assoc_inv (fst us) \<and> sessions_inv (fst us) \<and> (clean_io \<longrightarrow> refs_inv (fst us))"

lemmas su_inv_defs = su_inv_def assoc_inv_def refs_inv_def holders_def

text \<open>An operation that touches only the table and last-seen times.\<close>

lemma inv_new_session:
  assumes "su_inv b us" and "map_of (su_map (fst us)) (key_ip k) = Some n" "an_client_id (su_store (fst us) ! n) = ky_client_id k"
    and keys: "set (keys (ut_sessions (su_table (fst us')))) \<subseteq> insert k (set (keys (ut_sessions (su_table (fst us)))))"
    and parts: "su_map (fst us') = su_map (fst us)" "su_controls (fst us') = su_controls (fst us)"
      "length (su_store (fst us')) = length (su_store (fst us))"
      "\<And>i. an_client_id (su_store (fst us') ! i) = an_client_id (su_store (fst us) ! i)"
      "\<And>i. an_refs (su_store (fst us') ! i) = an_refs (su_store (fst us) ! i)"
  shows "su_inv b us'"
proof -
  have "sessions_inv (fst us')"
    using assms(1-3) keys unfolding su_inv_def sessions_inv_def parts by blast
  then show ?thesis using assms(1) unfolding su_inv_defs parts by simp
qed

lemma inv_table:
  assumes "su_inv b us" and "set (keys (ut_sessions (su_table (fst us')))) \<subseteq> set (keys (ut_sessions (su_table (fst us))))"
    and parts: "su_map (fst us') = su_map (fst us)" "su_controls (fst us') = su_controls (fst us)"
      "length (su_store (fst us')) = length (su_store (fst us))"
      "\<And>i. an_client_id (su_store (fst us') ! i) = an_client_id (su_store (fst us) ! i)"
      "\<And>i. an_refs (su_store (fst us') ! i) = an_refs (su_store (fst us) ! i)"
  shows "su_inv b us'"
proof -
  have "sessions_inv (fst us')"
    using assms(1,2) unfolding su_inv_def sessions_inv_def parts by blast
  then show ?thesis using assms(1) unfolding su_inv_defs parts by simp
qed

lemma upd_field:
  "(\<And>a. f (g a) = f a) \<Longrightarrow> f (xs[i := g (xs ! i)] ! j) = f (xs ! j)"
  by (cases "i < length xs"; cases "i = j") (auto simp: not_less list_update_beyond)

lemma inv_touch: "su_inv b (u, st) \<Longrightarrow> su_inv b (touch_association now ip u, st)"
  by (rule inv_table [of b "(u, st)"])
     (auto simp: touch_association_def split: option.split intro!: upd_field [where g = "\<lambda>a. a\<lparr>an_last_seen := now\<rparr>"])

text \<open>Removing an association from the map together with the sessions of its address.\<close>

lemma inv_unmap:
  assumes "su_inv b us"
  shows "su_inv b (close_sessions_for_ip ip ((fst us)\<lparr>su_map := AList.delete ip (su_map (fst us))\<rparr>, snd us))"
proof -
  let ?u = "fst (close_sessions_for_ip ip ((fst us)\<lparr>su_map := AList.delete ip (su_map (fst us))\<rparr>, snd us))"
  have a: "assoc_inv ?u" using assms unfolding su_inv_def assoc_inv_def
    by (auto simp: close_ip_parts split: if_splits)
  have "refs_inv ?u" if "refs_inv (fst us)" using that
    by (auto simp: refs_inv_def holders_def close_ip_parts split: if_splits)
  moreover have "sessions_inv ?u"
    using assms by (auto simp: su_inv_def sessions_inv_def close_ip_parts close_ip_sessions)
  ultimately show ?thesis using a assms by (simp add: su_inv_def)
qed

lemma inv_close_ip: "su_inv b us \<Longrightarrow> su_inv b (close_sessions_for_ip ip us)"
  by (rule inv_table [of b us]) (auto simp: close_ip_parts close_ip_sessions)

lemma inv_drop_associations: "su_inv b us \<Longrightarrow> su_inv b (drop_associations ips us)"
proof (induction ips arbitrary: us)
  case (Cons ip ips)
  show ?case using Cons.IH [OF inv_unmap [OF Cons.prems]] Cons.IH [OF Cons.prems] by simp
qed simp

lemma inv_cleanup:
  assumes "su_inv b us"
  shows "su_inv b (cleanup_udp_state now us)"
proof -
  let ?us = "drop_associations (idle_ips now (fst us)) us"
  have i: "su_inv b ?us" by (rule inv_drop_associations [OF assms])
  have "set (keys (ut_sessions (fst (udp_cleanup now (su_table (fst ?us), snd ?us))))) \<subseteq> set (keys (ut_sessions (su_table (fst ?us))))"
    using udp_cleanup_keys [of now "(su_table (fst ?us), snd ?us)"] by (simp only: fst_conv)
  then have "su_inv b (with_table (udp_cleanup now) ?us)"
    by - (rule inv_table [OF i], simp_all only: with_table_parts)
  then show ?thesis by (cases us) (simp add: cleanup_udp_state_def)
qed

lemma response_parts:
  "su_map (fst (snd (udp_relay_response ok now j us))) = su_map (fst us)"
  "su_store (fst (snd (udp_relay_response ok now j us))) = su_store (fst us)"
  "su_controls (fst (snd (udp_relay_response ok now j us))) = su_controls (fst us)"
  "su_table (fst (snd (udp_relay_response ok now j us))) =
     fst (snd (udp_respond (\<lambda>k. encode_udp_response (fst (su_tasks (fst us) ! j))) (\<lambda>k. snd (su_tasks (fst us) ! j)) ok now j (su_table (fst us), snd us)))"
  by (cases us; auto simp: udp_relay_response_def split: prod.split)+

lemma inv_response: "su_inv b us \<Longrightarrow> su_inv b (snd (udp_relay_response ok now j us))"
  by (rule inv_table [of b us], assumption)
     (use udp_respond_keys [of _ _ ok now j "(su_table (fst us), snd us)"] in \<open>simp_all only: response_parts fst_conv\<close>)

text \<open>A relayed datagram: only the session it opens is new.\<close>

lemma relay_parts:
  assumes "map_of (su_map u) (sk_ip ca) = Some n" and us': "us' = udp_relay_packet tv fs mw q now secs uuid ca packet (u, st)"
  shows "su_map (fst us') = su_map u \<and> su_controls (fst us') = su_controls u \<and>
    su_store (fst us') = (su_store u)[n := (su_store u ! n)\<lparr>an_last_seen := secs\<rparr>] \<and>
    (\<exists>target. set (keys (ut_sessions (su_table (fst us')))) \<subseteq>
       insert \<lparr>ky_client_id = an_client_id (su_store u ! n), ky_client_addr = ca, ky_target = target\<rparr>
         (set (keys (ut_sessions (su_table u)))))"
proof -
  let ?a = "su_store u ! n"
  let ?u1 = "u\<lparr>su_store := (su_store u)[n := ?a\<lparr>an_last_seen := secs\<rparr>]\<rparr>"
  let ?route = "\<lparr>sr_tunnel_id = an_udp_tunnel_id ?a, sr_client_id = an_client_id ?a\<rparr>"
  let ?key = "\<lambda>ta. \<lparr>ky_client_id = an_client_id ?a, ky_client_addr = ca, ky_target = socks_target ta\<rparr>"
  show ?thesis
  proof (cases "parse_udp_packet packet")
    case (Inl e)
    then show ?thesis using assms by (auto simp: udp_relay_packet_def Let_def)
  next
    case (Inr tp)
    obtain ta data where tp: "tp = (ta, data)" by force
    show ?thesis
    proof (cases "udp_writer secs (?key ta) (su_table u)")
      case (Some wt)
      obtain w t1 where wt: "wt = (w, t1)" by (cases wt)
      have t1: "ut_sessions t1 = ut_sessions (su_table u)" using Some wt by (auto simp: udp_writer_def split: option.splits)
      have "us' = with_table (udp_send ?route (?key ta) w data) (?u1\<lparr>su_table := t1\<rparr>, st)"
        using assms Inr tp Some wt by (simp add: udp_relay_packet_def Let_def)
      then show ?thesis using udp_send_keys [of ?route "?key ta" w data "(t1, st)"] t1 by (auto simp: with_table_parts)
    next
      case None
      obtain res st1 where o: "proxy_open_stream tv fs mw q now uuid ?route Udp (socks_target ta) (socket_to_string ca) st = (res, st1)" by force
      show ?thesis
      proof (cases res)
        case (Inl e)
        then show ?thesis using assms Inr tp None o by (auto simp: udp_relay_packet_def Let_def)
      next
        case opened: (Inr stream)
        let ?i = "case map_of (app_clients st) (an_client_id ?a) of Some conn \<Rightarrow> cn_mux conn | None \<Rightarrow> 0"
        have "us' = with_table (udp_send ?route (?key ta) (?i, ms_id stream) data)
           (with_table (udp_insert secs (?key ta) ?i stream None) (?u1\<lparr>su_tasks := su_tasks ?u1 @ [(ta, ?route)]\<rparr>, st1))"
          using assms Inr tp None o opened by (simp add: udp_relay_packet_def Let_def)
        then show ?thesis
          using udp_send_keys [of ?route "?key ta" "(?i, ms_id stream)" data "udp_insert secs (?key ta) ?i stream None (su_table u, st1)"]
            udp_insert_keys [of secs "?key ta" ?i stream None "(su_table u, st1)"]
          by (auto simp: with_table_parts)
      qed
    qed
  qed
qed

lemma inv_relay: "su_inv b us \<Longrightarrow> su_inv b (udp_relay_packet tv fs mw q now secs uuid ca packet us)"
proof (cases us)
  case (Pair u st)
  assume i: "su_inv b us"
  show ?thesis
  proof (cases "map_of (su_map u) (sk_ip ca)")
    case None
    then show ?thesis using Pair i by (simp add: udp_relay_packet_def)
  next
    case (Some n)
    note p = relay_parts [OF Some refl, of tv fs mw q now secs uuid packet st]
    obtain target where k: "set (keys (ut_sessions (su_table (fst (udp_relay_packet tv fs mw q now secs uuid ca packet (u, st)))))) \<subseteq>
       insert \<lparr>ky_client_id = an_client_id (su_store u ! n), ky_client_addr = ca, ky_target = target\<rparr>
         (set (keys (ut_sessions (su_table u))))" using p by blast
    have f: "an_client_id ((su_store u)[n := (su_store u ! n)\<lparr>an_last_seen := secs\<rparr>] ! i) = an_client_id (su_store u ! i)"
      "an_refs ((su_store u)[n := (su_store u ! n)\<lparr>an_last_seen := secs\<rparr>] ! i) = an_refs (su_store u ! i)" for i
      by (rule upd_field [where g = "\<lambda>a. a\<lparr>an_last_seen := secs\<rparr>"], simp)+
    show ?thesis unfolding Pair
      by (rule inv_new_session [OF i [unfolded Pair], where n = n and k = "\<lparr>ky_client_id = an_client_id (su_store u ! n), ky_client_addr = ca, ky_target = target\<rparr>"])
         (use Some k p f in \<open>simp_all add: key_ip_def\<close>)
  qed
qed

text \<open>A new control connection, and the end of one.\<close>

lemma holders_append: "su_controls u' = su_controls u @ [c] \<Longrightarrow> holders i u' = holders i u + (if ct_assoc c = i then 1 else 0)"
  by (simp add: holders_def)

lemma holders_remove:
  assumes "c \<in> set (su_controls u)" "su_controls u' = remove1 c (su_controls u)"
  shows "holders i u = holders i u' + (if ct_assoc c = i then 1 else 0)"
proof -
  obtain xs ys where "su_controls u = xs @ c # ys" "c \<notin> set xs" using split_list_first [OF assms(1)] by blast
  then show ?thesis using assms(2) by (simp add: holders_def remove1_append)
qed

lemma entry_parts:
  assumes "assoc_inv u" and "associate_entry now auth ip u = (i, u1)"
  shows "su_controls u1 = su_controls u" "su_table u1 = su_table u" "map_of (su_map u1) ip = Some i" "i < length (su_store u1)"
    "length (su_store u) \<le> length (su_store u1)" "distinct (keys (su_map u1))"
    "\<And>ip'. ip' \<noteq> ip \<Longrightarrow> map_of (su_map u1) ip' = map_of (su_map u) ip'"
    "map_of (su_map u) ip = Some i \<or> map_of (su_map u) ip = None \<and> i = length (su_store u)"
    "\<And>j. j \<noteq> i \<Longrightarrow> j < length (su_store u) \<Longrightarrow> su_store u1 ! j = su_store u ! j"
    "map_of (su_map u) ip = Some i \<Longrightarrow> an_client_id (su_store u1 ! i) = an_client_id (su_store u ! i) \<and> an_refs (su_store u1 ! i) = an_refs (su_store u ! i) + 1"
    "map_of (su_map u) ip = None \<Longrightarrow> an_refs (su_store u1 ! i) = 1 \<and> an_client_id (su_store u1 ! i) = au_client_id auth \<and> an_udp_tunnel_id (su_store u1 ! i) = udp_tunnel_id auth"
  using assms by (auto simp: associate_entry_def assoc_inv_def Let_def nth_append split: option.splits)

lemma inv_entry:
  assumes "su_inv b (u, st)" and "associate_entry now auth ip u = (i, u1)" and "length (su_controls u) + 1 < 2 ^ 64"
    and "ct_assoc c = i" "ct_ip c = ip"
  shows "su_inv b (u1\<lparr>su_controls := su_controls u1 @ [c]\<rparr>, st')" and "su_inv False (u1, st')"
proof -
  have ai: "assoc_inv u" and si: "sessions_inv u" using assms(1) by (simp_all add: su_inv_def)
  note p = entry_parts [OF ai assms(2)]
  have fresh: "ct_assoc c' \<noteq> i" if "map_of (su_map u) ip = None" "c' \<in> set (su_controls u)" for c'
    using p(8) that ai by (auto simp: assoc_inv_def)
  have m: "map_of (su_map u1) ip' = Some j \<longleftrightarrow> (if ip' = ip then j = i else map_of (su_map u) ip' = Some j)" for ip' j
    using p(3,7) by auto
  have lt: "j < length (su_store u)" if "map_of (su_map u) ip' = Some j" for ip' j using ai that by (auto simp: assoc_inv_def)
  have other: "j \<noteq> i" if "map_of (su_map u) ip' = Some j" "ip' \<noteq> ip" for ip' j
    using p(8) that lt [OF that(1)] ai by (auto simp: assoc_inv_def)
  have a: "assoc_inv (u1\<lparr>su_controls := cs\<rparr>)" if cs: "set cs \<subseteq> insert c (set (su_controls u))" "length cs < 2 ^ 64" for cs
    unfolding assoc_inv_def
  proof (intro conjI allI impI ballI)
    show "distinct (keys (su_map (u1\<lparr>su_controls := cs\<rparr>)))" using p(6) by simp
    show "length (su_controls (u1\<lparr>su_controls := cs\<rparr>)) < 2 ^ 64" using cs(2) by simp
    show "j < length (su_store (u1\<lparr>su_controls := cs\<rparr>))" if "map_of (su_map (u1\<lparr>su_controls := cs\<rparr>)) ip' = Some j" for ip' j
      using that m [of ip' j] p(4,5) lt [of ip' j] by (auto split: if_splits)
    show "ct_assoc x < length (su_store (u1\<lparr>su_controls := cs\<rparr>))" if "x \<in> set (su_controls (u1\<lparr>su_controls := cs\<rparr>))" for x
      using that cs(1) p(4,5) assms(4) ai by (fastforce simp: assoc_inv_def)
    show "ct_ip x = ip'" if "x \<in> set (su_controls (u1\<lparr>su_controls := cs\<rparr>))" "map_of (su_map (u1\<lparr>su_controls := cs\<rparr>)) ip' = Some (ct_assoc x)" for x ip'
    proof (cases "x = c")
      case True
      then show ?thesis using that(2) m [of ip' i] other [of ip' i] assms(4,5) by (auto split: if_splits)
    next
      case False
      then have x: "x \<in> set (su_controls u)" using that(1) cs(1) by auto
      then have "map_of (su_map u) ip' = Some (ct_assoc x)"
        using that(2) m [of ip' "ct_assoc x"] p(8) fresh [OF _ x] by (auto split: if_splits)
      then show ?thesis using ai x by (simp add: assoc_inv_def)
    qed
    show "ip1 = ip2" if "map_of (su_map (u1\<lparr>su_controls := cs\<rparr>)) ip1 = Some j" "map_of (su_map (u1\<lparr>su_controls := cs\<rparr>)) ip2 = Some j" for ip1 ip2 j
      using that m [of ip1 j] m [of ip2 j] other [of ip1 j] other [of ip2 j] ai by (auto simp: assoc_inv_def split: if_splits)
  qed
  have s: "sessions_inv (u1\<lparr>su_controls := cs\<rparr>)" for cs
    unfolding sessions_inv_def
  proof
    fix k
    assume "k \<in> set (keys (ut_sessions (su_table (u1\<lparr>su_controls := cs\<rparr>))))"
    then obtain j where j: "map_of (su_map u) (key_ip k) = Some j" "an_client_id (su_store u ! j) = ky_client_id k"
      using si p(2) by (auto simp: sessions_inv_def)
    then show "\<exists>i. map_of (su_map (u1\<lparr>su_controls := cs\<rparr>)) (key_ip k) = Some i \<and> an_client_id (su_store (u1\<lparr>su_controls := cs\<rparr>) ! i) = ky_client_id k"
      using m [of "key_ip k" j] p(8,9,10) lt [OF j(1)] other [OF j(1)] by (cases "key_ip k = ip") auto
  qed
  have r: "refs_inv (u1\<lparr>su_controls := su_controls u1 @ [c]\<rparr>)" if ri: "refs_inv u"
    unfolding refs_inv_def
  proof (intro allI impI)
    fix ip' j
    assume "map_of (su_map (u1\<lparr>su_controls := su_controls u1 @ [c]\<rparr>)) ip' = Some j"
    then have mj: "if ip' = ip then j = i else map_of (su_map u) ip' = Some j" using m by simp
    have h: "holders j (u1\<lparr>su_controls := su_controls u1 @ [c]\<rparr>) = holders j u + (if j = i then 1 else 0)"
      by (subst holders_append [of _ u c]) (use p(1) assms(4) in auto)
    have "holders i u = 0" if "map_of (su_map u) ip = None" using fresh [OF that] by (auto simp: holders_def filter_empty_conv)
    then show "an_refs (su_store (u1\<lparr>su_controls := su_controls u1 @ [c]\<rparr>) ! j) = of_nat (holders j (u1\<lparr>su_controls := su_controls u1 @ [c]\<rparr>)) \<and>
        0 < holders j (u1\<lparr>su_controls := su_controls u1 @ [c]\<rparr>)"
      using mj h ri p(8-11) other [of ip' j] lt [of ip' j] by (cases "ip' = ip") (auto simp: refs_inv_def)
  qed
  show "su_inv b (u1\<lparr>su_controls := su_controls u1 @ [c]\<rparr>, st')"
    using a [of "su_controls u1 @ [c]"] s [of "su_controls u1 @ [c]"] r assms(1,3) p(1) by (simp add: su_inv_def)
  show "su_inv False (u1, st')"
    using a [of "su_controls u"] s [of "su_controls u"] assms(3) by (auto simp: su_inv_def simp flip: p(1))
qed

lemma inv_associate:
  assumes "su_inv b us" and "Suc (length (su_controls (fst us))) < 2 ^ 64" and "write_ok \<or> \<not> b"
  shows "su_inv b (snd (snd (handle_udp_associate now sid write_ok ra ua atyp auth reader us)))"
proof (cases us)
  case (Pair u st)
  obtain i u1 where e: "associate_entry now auth (sk_ip ra) u = (i, u1)" by force
  note ie = inv_entry [OF assms(1) [unfolded Pair] e, where c = "\<lparr>ct_ip = sk_ip ra, ct_assoc = i, ct_guard = g\<rparr>" for g]
  show ?thesis
  proof (cases b)
    case True
    then show ?thesis using assms ie(1) Pair e
      by (auto simp: handle_udp_associate_def Let_def split: sum.split prod.split)
  next
    case False
    then show ?thesis using assms ie Pair e
      by (auto simp: handle_udp_associate_def Let_def split: sum.split prod.split)
  qed
qed

text \<open>Fewer connections; the counters and the map follow them unless something failed.\<close>

lemma assoc_inv_fewer:
  assumes "assoc_inv u" "set (su_controls u') \<subseteq> set (su_controls u)" "length (su_controls u') \<le> length (su_controls u)"
    and "su_map u' = su_map u" "length (su_store u') = length (su_store u)"
  shows "assoc_inv u'"
proof -
  have "length (su_controls u') < 2 ^ 64" using assms(1,3) by (simp add: assoc_inv_def)
  then show ?thesis using assms(1,2) unfolding assoc_inv_def assms(4,5) by blast
qed

lemma remove_control: "assoc_inv u \<Longrightarrow> su_controls u' = remove1 c (su_controls u) \<Longrightarrow> su_map u' = su_map u \<Longrightarrow>
    length (su_store u') = length (su_store u) \<Longrightarrow> assoc_inv u'"
  by (rule assoc_inv_fewer [of u]) (simp_all add: set_remove1_subset length_remove1)

lemma inv_error: "su_inv b us \<Longrightarrow> su_inv False (udp_associate_error c us)"
  using remove_control [of "fst us" "fst (udp_associate_error c us)" c]
  by (simp add: su_inv_def udp_associate_error_def control_closed_parts sessions_inv_def)

definition release :: "control \<Rightarrow> socks_udp \<Rightarrow> socks_udp" where
  "release c u =
     u\<lparr>su_store := (su_store u)[ct_assoc c := (su_store u ! ct_assoc c)\<lparr>an_refs := an_refs (su_store u ! ct_assoc c) - 1\<rparr>],
       su_controls := remove1 c (su_controls u)\<rparr>"

lemma inv_release:
  assumes "su_inv b (u, st)" and cu: "c \<in> set (su_controls u)"
    and last: "an_refs (su_store u ! ct_assoc c) = 1 \<Longrightarrow> \<forall>ip. map_of (su_map u) ip \<noteq> Some (ct_assoc c)"
  shows "su_inv b (release c u, st)"
proof -
  let ?i = "ct_assoc c"
  have ai: "assoc_inv u" and si: "sessions_inv u" using assms(1) by (simp_all add: su_inv_def)
  have lt: "?i < length (su_store u)" using ai cu by (simp add: assoc_inv_def)
  have a2: "assoc_inv (release c u)" by (rule remove_control [OF ai]) (simp_all add: release_def)
  have "an_client_id (su_store (release c u) ! j) = an_client_id (su_store u ! j)" for j
    by (simp add: release_def, rule upd_field [where g = "\<lambda>a. a\<lparr>an_refs := an_refs a - 1\<rparr>"], simp)
  then have s2: "sessions_inv (release c u)" using si by (simp add: sessions_inv_def) (simp add: release_def)
  have h: "holders j u = holders j (release c u) + (if ?i = j then 1 else 0)" for j
    by (rule holders_remove [OF cu]) (simp add: release_def)
  have "refs_inv (release c u)" if ri: "refs_inv u"
    unfolding refs_inv_def
  proof (intro allI impI)
    fix ip j
    assume "map_of (su_map (release c u)) ip = Some j"
    then have mj: "map_of (su_map u) ip = Some j" by (simp add: release_def)
    have r: "an_refs (su_store u ! j) = of_nat (holders j u)" "0 < holders j u" using ri mj by (simp_all add: refs_inv_def)
    show "an_refs (su_store (release c u) ! j) = of_nat (holders j (release c u)) \<and> 0 < holders j (release c u)"
    proof (cases "j = ?i")
      case True
      then have "holders ?i u \<noteq> 1" using last r mj by auto
      moreover have "an_refs (su_store (release c u) ! j) = of_nat (holders j u) - 1"
        using r(1) lt True by (simp add: release_def)
      ultimately show ?thesis using r(2) h [of j] True by simp
    qed (use r h [of j] in \<open>simp add: release_def\<close>)
  qed
  then show ?thesis using assms(1) a2 s2 by (simp add: su_inv_def)
qed

lemma inv_end:
  assumes "su_inv b us" and c: "c \<in> set (su_controls (fst us))"
  shows "su_inv b (udp_associate_end c us)"
proof (cases us)
  case (Pair u st)
  let ?i = "ct_assoc c" and ?ip = "ct_ip c"
  have i: "su_inv b (u, st)" "assoc_inv u" "c \<in> set (su_controls u)" using assms Pair by (simp_all add: su_inv_def)
  have own: "ip = ?ip" if "map_of (su_map u) ip = Some ?i" for ip using i(2,3) that by (auto simp: assoc_inv_def)
  have fin: "su_inv b (udp_associate_end c (u, st))"
    if v: "su_inv b (v, st')" "su_controls v = su_controls u" "su_store v = su_store u"
      and last: "an_refs (su_store u ! ?i) = 1 \<Longrightarrow> \<forall>ip. map_of (su_map v) ip \<noteq> Some ?i"
      and "su_map (fst (udp_associate_end c (u, st))) = su_map v"
      "ut_sessions (su_table (fst (udp_associate_end c (u, st)))) = ut_sessions (su_table v)" for v st'
  proof (rule inv_table)
    show "su_inv b (release c v, st')" by (rule inv_release [OF v(1)]) (use v(2,3) i(3) last in simp_all)
  qed (use that in \<open>simp_all add: udp_associate_end_def Let_def control_closed_parts close_ip_parts release_def\<close>)
  consider (more) "an_refs (su_store u ! ?i) \<noteq> 1"
    | (mapped) "an_refs (su_store u ! ?i) = 1" "map_of (su_map u) ?ip = Some ?i"
    | (gone) "an_refs (su_store u ! ?i) = 1" "map_of (su_map u) ?ip \<noteq> Some ?i" by blast
  then have "su_inv b (udp_associate_end c (u, st))"
  proof cases
    case more
    then show ?thesis by (intro fin [OF i(1)]) (simp_all add: udp_associate_end_def Let_def control_closed_parts)
  next
    case mapped
    let ?us = "close_sessions_for_ip ?ip (u\<lparr>su_map := AList.delete ?ip (su_map u)\<rparr>, st)"
    have us: "su_inv b (fst ?us, snd ?us)" using inv_unmap [OF i(1), of ?ip] by simp
    have nomap: "map_of (AList.delete ?ip (su_map u)) ip \<noteq> Some ?i" for ip by (cases "ip = ?ip") (auto dest: own)
    show ?thesis
      by (rule fin [OF us]) (use mapped nomap in \<open>simp_all add: udp_associate_end_def Let_def control_closed_parts close_ip_parts close_ip_sessions del: map_of_delete\<close>)
  next
    case gone
    let ?us = "close_sessions_for_ip ?ip (u, st)"
    have us: "su_inv b (fst ?us, snd ?us)" using inv_close_ip [OF i(1), of ?ip] by simp
    have nomap: "map_of (su_map u) ip \<noteq> Some ?i" for ip using gone(2) own by blast
    show ?thesis
      by (rule fin [OF us]) (use gone nomap in \<open>simp_all add: udp_associate_end_def Let_def control_closed_parts close_ip_parts close_ip_sessions del: map_of_delete\<close>)
  qed
  then show ?thesis using Pair by simp
qed

lemma su_step_inv: "su_inv b us \<Longrightarrow> su_step b us us' \<Longrightarrow> su_inv b us'"
proof (rotate_tac, induction rule: su_step.induct)
  case (other u st st')
  then show ?case by (simp add: su_inv_def)
next
  case (broken c us)
  then show ?case using inv_error [of b us c] by (auto simp: su_inv_def)
qed (auto intro: inv_associate inv_touch inv_end inv_relay inv_response inv_cleanup)

definition su_init :: "socks_udp \<times> app_state \<Rightarrow> bool" where
  "su_init us \<longleftrightarrow> fst us = socks_udp_new"

interpretation su_sys: invariant_system su_init "su_step b" "su_inv b"
proof
  show "su_inv b s" if "su_init s" for s
    using that by (simp add: su_init_def su_inv_defs sessions_inv_def socks_udp_new_def udp_table_new_def)
qed (rule su_step_inv)

section \<open>The answering tasks\<close>

text \<open>A task's address comes from a packet, and it is the target of the task's key.\<close>

definition task_ok :: "session_key \<Rightarrow> socks_addr \<times> stream_route \<Rightarrow> bool" where
  "task_ok k task \<longleftrightarrow> ky_target k = socks_target (fst task) \<and> (\<exists>p data. parse_udp_packet p = Inr (fst task, data))"

definition task_keys :: "'k udp_table \<Rightarrow> 'k list" where
  "task_keys t = map rs_key (ut_responders t)"

definition tasks_inv :: "socks_udp \<times> app_state \<Rightarrow> bool" where
  "tasks_inv us \<longleftrightarrow> list_all2 task_ok (task_keys (su_table (fst us))) (su_tasks (fst us))"

lemma task_keys_ops:
  "task_keys (fst (udp_remove k ts)) = task_keys (fst ts)"
  "task_keys (fst (udp_send route k w data ts)) = task_keys (fst ts)"
  "task_keys (fst (udp_close_keys ks ts)) = task_keys (fst ts)"
  "task_keys (fst (udp_insert now k i stream g ts)) = task_keys (fst ts) @ [k]"
  by (simp_all add: task_keys_def udp_send_def udp_insert_def Let_def case_prod_beta split: sum.split)

lemma map_key_done: "map rs_key (xs[j := (xs ! j)\<lparr>rs_done := True\<rparr>]) = map rs_key xs"
  by (rule nth_equalityI) (simp_all add: upd_field [where f = rs_key and g = "\<lambda>r. r\<lparr>rs_done := True\<rparr>"])

lemma task_keys_respond: "task_keys (fst (snd (udp_respond encode route ok now j ts))) = task_keys (fst ts)"
  by (cases ts) (auto simp: task_keys_def udp_respond_def udp_respond_end_def Let_def map_key_done
      split: prod.splits recv.splits sum.splits)

lemma tasks_inv_cong:
  "tasks_inv us \<Longrightarrow> task_keys (su_table (fst us')) = task_keys (su_table (fst us)) \<Longrightarrow> su_tasks (fst us') = su_tasks (fst us) \<Longrightarrow> tasks_inv us'"
  by (simp add: tasks_inv_def)

lemma with_table_tasks: "su_tasks (fst (with_table f us)) = su_tasks (fst us)"
  by (cases us) (auto simp: with_table_def split: prod.split)

lemma close_ip_tasks:
  "task_keys (su_table (fst (close_sessions_for_ip ip us))) = task_keys (su_table (fst us))"
  "su_tasks (fst (close_sessions_for_ip ip us)) = su_tasks (fst us)"
  by (cases us; simp add: close_sessions_for_ip_def with_table_parts with_table_tasks task_keys_ops)+

lemma drop_associations_tasks:
  "task_keys (su_table (fst (drop_associations ips us))) = task_keys (su_table (fst us)) \<and>
   su_tasks (fst (drop_associations ips us)) = su_tasks (fst us)"
  by (induction ips arbitrary: us) (simp_all add: close_ip_tasks)

lemma end_tasks:
  "task_keys (su_table (fst (udp_associate_end c us))) = task_keys (su_table (fst us))"
  "su_tasks (fst (udp_associate_end c us)) = su_tasks (fst us)"
  by (cases us; simp add: udp_associate_end_def control_closed_def Let_def case_prod_beta close_ip_tasks)+

lemma associate_tasks:
  "task_keys (su_table (fst (snd (snd (handle_udp_associate now sid wok ra ua atyp auth reader us))))) = task_keys (su_table (fst us))"
  "su_tasks (fst (snd (snd (handle_udp_associate now sid wok ra ua atyp auth reader us)))) = su_tasks (fst us)"
  by (cases us; auto simp: handle_udp_associate_def associate_entry_def Let_def split: sum.split prod.split option.split)+

lemma task_ok_new: "parse_udp_packet p = Inr (a, data) \<Longrightarrow> ky_target k = socks_target a \<Longrightarrow> task_ok k (a, r)"
  by (auto simp: task_ok_def)

lemma relay_tasks: "tasks_inv us \<Longrightarrow> tasks_inv (udp_relay_packet tv fs mw q now secs uuid ca packet us)"
proof (cases us)
  case (Pair u st)
  assume i: "tasks_inv us"
  have "task_keys t1 = task_keys t" if "udp_writer secs k t = Some (w, t1)" for k w and t t1 :: "session_key udp_table"
    using that by (auto simp: udp_writer_def task_keys_def split: option.splits)
  then show ?thesis
    using i Pair
    by (auto simp: tasks_inv_def udp_relay_packet_def Let_def with_table_parts with_table_tasks task_keys_ops
        split: option.split sum.split prod.split intro!: list_all2_appendI intro: task_ok_new)
qed

lemma su_step_tasks: "tasks_inv us \<Longrightarrow> su_step b us us' \<Longrightarrow> tasks_inv us'"
proof (rotate_tac, induction rule: su_step.induct)
  case (touch c u st now)
  then show ?case by (auto simp: tasks_inv_def touch_association_def split: option.split)
next
  case (broken c us)
  then show ?case by (cases us) (simp add: tasks_inv_def udp_associate_error_def control_closed_def)
next
  case (respond j us ok now)
  have "su_tasks (fst (snd (udp_relay_response ok now j us))) = su_tasks (fst us)"
    by (cases us) (auto simp: udp_relay_response_def split: prod.split)
  then show ?case using respond by (simp add: tasks_inv_def response_parts task_keys_respond)
next
  case (clean us now)
  then show ?case
    by (cases us) (simp add: tasks_inv_def cleanup_udp_state_def with_table_parts with_table_tasks udp_cleanup_def case_prod_beta
        task_keys_ops drop_associations_tasks)
qed (simp_all add: tasks_inv_def associate_tasks end_tasks relay_tasks [unfolded tasks_inv_def])

interpretation task_sys: invariant_system su_init "su_step b" tasks_inv
proof
  show "tasks_inv s" if "su_init s" for s
    using that by (simp add: su_init_def tasks_inv_def socks_udp_new_def udp_table_new_def task_keys_def)
qed (rule su_step_tasks)

section \<open>Where the relay is not exact\<close>

text \<open>
  A control connection that ends with a read error does not give its association back: the
  map and the counters stay as they are, so the association outlives its last connection.
\<close>

lemma broken_control_keeps_association:
  "su_map (fst (udp_associate_error c us)) = su_map (fst us) \<and> su_store (fst (udp_associate_error c us)) = su_store (fst us) \<and>
   su_controls (fst (udp_associate_error c us)) = remove1 c (su_controls (fst us))"
  by (simp add: udp_associate_error_def control_closed_parts)

text \<open>A second user behind the same address is served under the first one's account and client.\<close>

lemma second_account_uses_first:
  assumes "map_of (su_map u) ip = Some i" and "associate_entry now auth ip u = (j, u')"
  shows "j = i \<and> an_client_id (su_store u' ! i) = an_client_id (su_store u ! i) \<and>
    an_udp_tunnel_id (su_store u' ! i) = an_udp_tunnel_id (su_store u ! i)"
  using assms
  by (auto simp: associate_entry_def Let_def
      intro!: upd_field [where g = "\<lambda>a. a\<lparr>an_refs := an_refs a + 1, an_last_seen := now\<rparr>"])

section \<open>Properties\<close>

text \<open>
  C21: The relay serves only clients with an open control connection. In every state reached
  without failing control connections, a datagram from an address that holds no control
  connection changes nothing, and there is no session of that address; every session goes to
  the client of the association under which its address is registered, and that association
  counts exactly the control connections that hold it.
\<close>

theorem udp_relay_needs_control:
  assumes "reachable su_init (su_step True) (u, st)"
  shows "((\<forall>c \<in> set (su_controls u). ct_ip c \<noteq> sk_ip ca) \<longrightarrow>
            udp_relay_packet to_vec from_slice meanwhile q now secs uuid ca packet (u, st) = (u, st) \<and>
            (\<forall>k \<in> set (keys (ut_sessions (su_table u))). key_ip k \<noteq> sk_ip ca)) \<and>
         (\<forall>k \<in> set (keys (ut_sessions (su_table u))).
            \<exists>i. map_of (su_map u) (key_ip k) = Some i \<and> an_client_id (su_store u ! i) = ky_client_id k \<and>
                an_refs (su_store u ! i) = of_nat (length (filter (\<lambda>c. ct_assoc c = i) (su_controls u))))"
proof -
  have inv: "assoc_inv u" "sessions_inv u" "refs_inv u" using su_sys.reachable_inv [OF assms] by (simp_all add: su_inv_def)
  have held: "\<exists>c \<in> set (su_controls u). ct_ip c = ip" if m: "map_of (su_map u) ip = Some i" for ip i
  proof -
    have "0 < holders i u" using inv(3) m by (simp add: refs_inv_def)
    then obtain c where "c \<in> set (su_controls u)" "ct_assoc c = i" by (auto simp: holders_def filter_empty_conv)
    then show ?thesis using inv(1) m unfolding assoc_inv_def by blast
  qed
  have "\<forall>k \<in> set (keys (ut_sessions (su_table u))).
            \<exists>i. map_of (su_map u) (key_ip k) = Some i \<and> an_client_id (su_store u ! i) = ky_client_id k \<and>
                an_refs (su_store u ! i) = of_nat (length (filter (\<lambda>c. ct_assoc c = i) (su_controls u)))"
    using inv(2,3) unfolding sessions_inv_def refs_inv_def holders_def by meson
  moreover have "udp_relay_packet to_vec from_slice meanwhile q now secs uuid ca packet (u, st) = (u, st) \<and>
      (\<forall>k \<in> set (keys (ut_sessions (su_table u))). key_ip k \<noteq> sk_ip ca)"
    if "\<forall>c \<in> set (su_controls u). ct_ip c \<noteq> sk_ip ca"
  proof -
    have none: "map_of (su_map u) (sk_ip ca) = None" using held [of "sk_ip ca"] that by (cases "map_of (su_map u) (sk_ip ca)") auto
    then have "\<forall>k \<in> set (keys (ut_sessions (su_table u))). key_ip k \<noteq> sk_ip ca"
      using inv(2) unfolding sessions_inv_def by fastforce
    then show ?thesis using none by (simp add: udp_relay_packet_def)
  qed
  ultimately show ?thesis by blast
qed

text \<open>A client that has associated, and has opened a session by its first datagram.\<close>

definition demo_auth :: socks_auth where
  "demo_auth = \<lparr>au_client_id = ''c1'', au_account_id = None\<rparr>"

definition demo_associated :: "socks_udp \<times> app_state" where
  "demo_associated =
     snd (snd (handle_udp_associate 5 ''s9'' True demo_peer demo_peer ATYP_IPV4 demo_auth [0, 0, 0, 0, 0, 0] (socks_udp_new, demo_udp_state)))"

definition demo_relayed :: "socks_udp \<times> app_state" where
  "demo_relayed =
     udp_relay_packet (\<lambda>_. Inr [2]) (\<lambda>_. Inr OpenResponse_ok) demo_accept (\<lambda>_. True) 5 5 ''u1'' demo_peer
       [0, 0, 0, 1, 8, 8, 8, 8, 0, 53, 7] demo_associated"

lemma demo_reachable:
  "reachable su_init (su_step b) demo_associated" "reachable su_init (su_step b) demo_relayed"
proof -
  show 1: "reachable su_init (su_step b) demo_associated"
    unfolding demo_associated_def
    by (rule reach_step [OF reach_init]) (auto simp: su_init_def socks_udp_new_def intro!: associate)
  show "reachable su_init (su_step b) demo_relayed"
    unfolding demo_relayed_def by (rule reach_step [OF 1]) (rule relay)
qed

lemma demo_associated_eq:
  "su_controls (fst demo_associated) = [\<lparr>ct_ip = IpV4 (10, 0, 0, 1), ct_assoc = 0, ct_guard = \<lparr>pg_id = None, pg_shutdown = 0\<rparr>\<rparr>]"
  by (simp add: demo_associated_def handle_udp_associate_def read_socks_addr_def read_socks_host_def ATYP_IPV4_def read_exact_def
      read_u16_def associate_entry_def socks_udp_new_def Let_def demo_peer_def register_proxy_def demo_auth_def demo_udp_state_def
      ClientConnection_new_def demo_state_def AppState_new_def ProxyManager_new_def)

theorem udp_relay_needs_control_witness:
  "udp_relay_packet (\<lambda>_. Inr [2]) (\<lambda>_. Inr OpenResponse_ok) demo_accept (\<lambda>_. True) 5 5 ''u1'' \<lparr>sk_ip = IpV4 (10, 0, 0, 2), sk_port = 1\<rparr>
     [0, 0, 0, 1, 8, 8, 8, 8, 0, 53, 7] demo_associated = demo_associated \<and>
   length (su_controls (fst demo_associated)) = 1"
proof -
  have r: "reachable su_init (su_step True) (fst demo_associated, snd demo_associated)" using demo_reachable by simp
  show ?thesis
    using udp_relay_needs_control [OF r, of "\<lparr>sk_ip = IpV4 (10, 0, 0, 2), sk_port = 1\<rparr>" "\<lambda>_. Inr [2]" "\<lambda>_. Inr OpenResponse_ok" demo_accept
        "\<lambda>_. True" 5 5 "''u1''" "[0, 0, 0, 1, 8, 8, 8, 8, 0, 53, 7]"]
    by (simp add: demo_associated_eq)
qed

text \<open>
  C36: Answers are labelled with their target. In every state that can be reached, also after
  failures, an answering task that has data sends the client of its session one packet, which
  a SOCKS5 client reads as exactly that data from exactly the target the session was opened
  for; it never fails to write such a packet, and it sends nothing else.
\<close>

theorem udp_answers_labelled:
  assumes "reachable su_init (su_step b) (u, st)" and "j < length (ut_responders (su_table u))"
  shows "case fst (udp_relay_response send_ok now j (u, st)) of
           None \<Rightarrow> rs_done (ut_responders (su_table u) ! j) \<or> \<not> send_ok \<or>
             (\<forall>data. fst (recv_data (rs_stream (ut_responders (su_table u) ! j))
                            (app_muxes st ! rs_mux (ut_responders (su_table u) ! j))) \<noteq> Got data)
         | Some (key, packet) \<Rightarrow>
             key = rs_key (ut_responders (su_table u) ! j) \<and>
             (\<exists>a data. fst (recv_data (rs_stream (ut_responders (su_table u) ! j))
                              (app_muxes st ! rs_mux (ut_responders (su_table u) ! j))) = Got data \<and>
                parse_udp_packet packet = Inr (a, data) \<and> socks_target a = ky_target key)"
proof -
  let ?r = "ut_responders (su_table u) ! j" and ?a = "fst (su_tasks u ! j)"
  have "list_all2 task_ok (task_keys (su_table u)) (su_tasks u)" using task_sys.reachable_inv [OF assms(1)] by (simp add: tasks_inv_def)
  then have ok: "task_ok (rs_key ?r) (su_tasks u ! j)" using assms(2) list_all2_nthD [of task_ok _ _ j] by (fastforce simp: task_keys_def)
  obtain p d0 where p: "parse_udp_packet p = Inr (?a, d0)" and t: "ky_target (rs_key ?r) = socks_target ?a"
    using ok by (auto simp: task_ok_def)
  obtain hb where hb: "host_coded (sa_atyp ?a) hb (sa_host ?a)" using p by (auto simp: parse_udp_packet_iff)
  define reply where "reply d = [0, 0, 0, sa_atyp ?a] @ hb @ u16_to_be (sa_port ?a) @ d" for d
  have enc: "encode_udp_response ?a d = Inr (reply d)" "parse_udp_packet (reply d) = Inr (?a, d)" for d
    using host_coded_bytes [OF hb] hb by (auto simp: reply_def parse_udp_packet_iff)
  show ?thesis
    using t enc by (auto simp: udp_relay_response_def udp_respond_def Let_def split: prod.split recv.split)
qed

definition demo_answered :: "socks_udp \<times> app_state" where
  "demo_answered = (fst demo_relayed, set_mux 0 (chan_send 0 [42] (app_muxes (snd demo_relayed) ! 0)) (snd demo_relayed))"

lemma demo_packet:
  "parse_udp_packet [0, 0, 0, 1, 8, 8, 8, 8, 0, 53, 7] =
     Inr (\<lparr>sa_host = ipv4_to_string (8, 8, 8, 8), sa_port = 53, sa_atyp = 1\<rparr>, [7])"
  by (simp add: parse_udp_packet_def parse_udp_addr_def parse_udp_host_def ATYP_IPV4_def ipv4_from_octets_def u16_from_be_def Let_def
      del: ipv4_to_string.simps)

lemma demo_associated_parts:
  "demo_associated =
     (\<lparr>su_store = [\<lparr>an_refs = 1, an_last_seen = 5, an_client_id = ''c1'', an_udp_tunnel_id = ''socks5-udp''\<rparr>],
       su_map = [(IpV4 (10, 0, 0, 1), 0)], su_table = udp_table_new, su_tasks = [], su_controls = su_controls (fst demo_associated)\<rparr>,
      demo_udp_state\<lparr>app_proxies := app_proxies (snd demo_associated)\<rparr>)"
  by (simp add: demo_associated_def handle_udp_associate_def read_socks_addr_def read_socks_host_def ATYP_IPV4_def read_exact_def
      read_u16_def associate_entry_def socks_udp_new_def Let_def demo_peer_def demo_auth_def udp_tunnel_id_def split: prod.split)

theorem udp_answers_labelled_witness:
  "\<exists>key packet a. fst (udp_relay_response True 6 0 demo_answered) = Some (key, packet) \<and>
     ky_client_addr key = demo_peer \<and> parse_udp_packet packet = Inr (a, [42]) \<and> socks_target a = ky_target key"
proof -
  have "su_step b demo_relayed demo_answered" for b
    using other [of b "fst demo_relayed" "snd demo_relayed"] by (simp add: demo_answered_def)
  then have r: "reachable su_init (su_step True) (fst demo_answered, snd demo_answered)"
    using reach_step [OF demo_reachable(2)] by simp
  obtain cs pr where da: "demo_associated =
     (\<lparr>su_store = [\<lparr>an_refs = 1, an_last_seen = 5, an_client_id = ''c1'', an_udp_tunnel_id = ''socks5-udp''\<rparr>],
       su_map = [(IpV4 (10, 0, 0, 1), 0)], su_table = udp_table_new, su_tasks = [], su_controls = cs\<rparr>,
      demo_udp_state\<lparr>app_proxies := pr\<rparr>)"
    using demo_associated_parts by blast
  have eq: "ut_responders (su_table (fst demo_answered)) =
      [\<lparr>rs_key = \<lparr>ky_client_id = ''c1'', ky_client_addr = demo_peer, ky_target = socks_target \<lparr>sa_host = ipv4_to_string (8, 8, 8, 8), sa_port = 53, sa_atyp = 1\<rparr>\<rparr>,
        rs_mux = 0, rs_stream = \<lparr>ms_id = 1, inbound_rx = 0\<rparr>, rs_last_seen = 0, rs_done = False\<rparr>] \<and>
     fst (recv_data \<lparr>ms_id = 1, inbound_rx = 0\<rparr> (app_muxes (snd demo_answered) ! 0)) = Got [42]"
    by (simp add: demo_answered_def demo_relayed_def da udp_relay_packet_def demo_packet udp_writer_def Let_def
        udp_table_new_def proxy_open_stream_def demo_udp_state_def ClientConnection_new_def demo_state_def AppState_new_def
        open_stream_def next_stream_id_def chan_new_def streams_insert_def streams_remove_def writer_send_def mux_new_def recv_data_def demo_accept_def
        chan_send_def set_mux_def OpenResponse_ok_def udp_insert_def udp_remove_def udp_send_def send_data_def record_open_def
        with_table_def demo_peer_def recorder_add_def del: ipv4_to_string.simps)
  show ?thesis
    using udp_answers_labelled [OF r, of 0 True 6] eq
    by (auto split: option.splits)
qed

end
