(* ===== verification/Http_Proxy.thy ===== *)
theory Http_Proxy
  imports Socks5
begin

text \<open>
  The HTTP proxy, \<^verbatim>\<open>crates/rps-controller/src/proxy_http.rs\<close>: reading the header, basic
  authentication, the target of a request and the rewriting of its first line. A connection
  is the list of what its calls of \<^verbatim>\<open>read\<close> return, each at most 1024 bytes; after the last
  one the client has closed it. \<open>decode\<close> is \<^verbatim>\<open>BASE64.decode\<close> of the base64 library.
\<close>

definition MAX_HEADER :: nat where "MAX_HEADER = 64 * 1024"

record http_proxy_auth =
  hp_route :: stream_route
  hp_account_id :: "string option"

definition proxy_route :: "proxy_listen_config \<Rightarrow> stream_route" where
  "proxy_route proxy = \<lparr>sr_tunnel_id = ''http-proxy'', sr_client_id = pl_client_id proxy\<rparr>"

section \<open>Strings\<close>

text \<open>\<^verbatim>\<open>split_whitespace\<close>: how many bytes of white space a string starts with, and its words.\<close>

definition ws_len :: "string \<Rightarrow> nat" where
  "ws_len s =
     (case s of
        [] \<Rightarrow> 0
      | a # r \<Rightarrow>
          if ws1 a then 1
          else (case r of
                  [] \<Rightarrow> 0
                | b # r2 \<Rightarrow>
                    if ws2 a b then 2
                    else (case r2 of [] \<Rightarrow> 0 | c # r3 \<Rightarrow> if ws3 a b c then 3 else 0)))"

fun take_word :: "string \<Rightarrow> string" where
  "take_word [] = []"
| "take_word (a # r) = (if ws_len (a # r) > 0 then [] else a # take_word r)"

lemma take_word_drop: "\<exists>r. s = take_word s @ r"
  by (induction s) auto

function split_whitespace :: "string \<Rightarrow> string list" where
  "split_whitespace s =
     (if s = [] then []
      else if ws_len s > 0 then split_whitespace (drop (ws_len s) s)
      else take_word s # split_whitespace (drop (length (take_word s)) s))"
  by pat_completeness auto
termination
proof (relation "measure length")
  fix s :: string
  show "(drop (ws_len s) s, s) \<in> measure length" if "s \<noteq> []" "ws_len s > 0" using that by simp
  show "(drop (length (take_word s)) s, s) \<in> measure length" if "s \<noteq> []" "\<not> ws_len s > 0"
    using that by (cases s) auto
qed simp

declare split_whitespace.simps [simp del]

definition before :: "char \<Rightarrow> string \<Rightarrow> string" where
  "before c s = takeWhile (\<lambda>x. x \<noteq> c) s"

definition from_char :: "char \<Rightarrow> string \<Rightarrow> string" where
  "from_char c s = dropWhile (\<lambda>x. x \<noteq> c) s"

section \<open>The header\<close>

fun read_header :: "bytes list \<Rightarrow> bytes \<Rightarrow> error + bytes \<times> bytes list" where
  "read_header [] header = Inl (Bail ''connection closed before http header'')"
| "read_header (buf # reads) header =
     (if buf = [] then Inl (Bail ''connection closed before http header'')
      else let header1 = header @ buf
           in if sublist (as_bytes (crlf @ crlf)) header1 then Inr (header1, reads)
              else if length header1 > MAX_HEADER then Inl (Bail ''http header too large'')
              else read_header reads header1)"

definition is_proxy_auth :: "string \<Rightarrow> bool" where
  "is_proxy_auth name = eq_ignore_ascii_case name ''Proxy-Authorization''"

fun parse_auth_lines :: "(string \<Rightarrow> bytes option) \<Rightarrow> string list \<Rightarrow> (string \<times> string) option" where
  "parse_auth_lines decode [] = None"
| "parse_auth_lines decode (line # lines) =
     (case split_once (CHR '':'') line of
        None \<Rightarrow> parse_auth_lines decode lines
      | Some (name, val) \<Rightarrow>
          if \<not> is_proxy_auth name then parse_auth_lines decode lines
          else (case str_strip_prefix ''Basic '' (trim val) of
                  None \<Rightarrow> None
                | Some encoded \<Rightarrow>
                    (case decode encoded of
                       None \<Rightarrow> None
                     | Some raw \<Rightarrow>
                         (case from_utf8 raw of
                            Inl e \<Rightarrow> None
                          | Inr decoded \<Rightarrow> split_once (CHR '':'') decoded))))"

definition parse_basic_proxy_auth :: "(string \<Rightarrow> bytes option) \<Rightarrow> string \<Rightarrow> (string \<times> string) option" where
  "parse_basic_proxy_auth decode header = parse_auth_lines decode (str_lines header)"

definition authenticated_route ::
  "(string \<Rightarrow> bytes option) \<Rightarrow> stmts \<Rightarrow> int \<Rightarrow> stream_route \<Rightarrow> string \<Rightarrow> app_state \<Rightarrow> (error + http_proxy_auth option) \<times> app_state" where
  "authenticated_route decode q now fallback header st =
     (case has_enabled_proxy_accounts q ''http'' (app_db st) of
        Inl e \<Rightarrow> (Inl e, st)
      | Inr enabled \<Rightarrow>
          if \<not> enabled then (Inr (Some \<lparr>hp_route = fallback, hp_account_id = None\<rparr>), st)
          else (case parse_basic_proxy_auth decode header of
                  None \<Rightarrow> (Inr None, st)
                | Some (username, password) \<Rightarrow>
                    (case find_enabled_proxy_account (\<lambda>i. q (Suc i)) ''http'' username password (app_db st) of
                       Inl e \<Rightarrow> (Inl e, st)
                     | Inr None \<Rightarrow> (Inr None, st)
                     | Inr (Some account) \<Rightarrow>
                         let (ok, e1) = allowed now (proxy_account_key (pa_id account)) (app_policy st);
                             st1 = st\<lparr>app_policy := e1\<rparr>
                         in if \<not> ok then (Inr None, st1)
                            else (Inr (Some \<lparr>hp_route = \<lparr>sr_tunnel_id = ''http-proxy:'' @ pa_id account,
                                                        sr_client_id = pa_client_id account\<rparr>,
                                            hp_account_id = Some (pa_id account)\<rparr>), st1))))"

section \<open>The request\<close>

definition with_default_port :: "string \<Rightarrow> u16 \<Rightarrow> string" where
  "with_default_port host port =
     (if CHR '':'' \<in> set host then host else host @ '':'' @ dec_string (unat port))"

fun host_line :: "string list \<Rightarrow> error + string" where
  "host_line [] = Inl (Bail ''http proxy target not found'')"
| "host_line (line # lines) =
     (case str_strip_prefix ''Host:'' line of
        Some host \<Rightarrow> Inr (with_default_port (trim host) 80)
      | None \<Rightarrow>
          (case str_strip_prefix ''host:'' line of
             Some host \<Rightarrow> Inr (with_default_port (trim host) 80)
           | None \<Rightarrow> host_line lines))"

definition http_target :: "string \<Rightarrow> string \<Rightarrow> error + string" where
  "http_target uri header =
     (case str_strip_prefix ''http://'' uri of
        Some rest \<Rightarrow> Inr (with_default_port (before (CHR ''/'') rest) 80)
      | None \<Rightarrow>
          (case str_strip_prefix ''https://'' uri of
             Some rest \<Rightarrow> Inr (with_default_port (before (CHR ''/'') rest) 443)
           | None \<Rightarrow> host_line (str_lines header)))"

definition auth_line :: "string \<Rightarrow> bool" where
  "auth_line line = (case split_once (CHR '':'') line of Some (name, _) \<Rightarrow> is_proxy_auth name | None \<Rightarrow> False)"

definition strip_proxy_headers :: "string \<Rightarrow> string" where
  "strip_proxy_headers header = join crlf (filter (\<lambda>line. \<not> auth_line line) (split_crlf header))"

fun split_once_crlf :: "string \<Rightarrow> (string \<times> string) option" where
  "split_once_crlf [] = None"
| "split_once_crlf [x] = None"
| "split_once_crlf (x # y # ys) =
     (if x = CR \<and> y = LF then Some ([], ys)
      else (case split_once_crlf (y # ys) of None \<Rightarrow> None | Some (a, b) \<Rightarrow> Some (x # a, b)))"

definition origin_path :: "string \<Rightarrow> string" where
  "origin_path uri =
     (let path = (case str_strip_prefix ''http://'' uri of
                    Some rest \<Rightarrow> from_char (CHR ''/'') rest
                  | None \<Rightarrow>
                      (case str_strip_prefix ''https://'' uri of
                         Some rest \<Rightarrow> from_char (CHR ''/'') rest
                       | None \<Rightarrow> uri))
      in if path = [] then ''/'' else path)"

definition rewrite_absolute_form :: "string \<Rightarrow> string \<Rightarrow> string \<Rightarrow> string \<Rightarrow> bytes" where
  "rewrite_absolute_form http_method uri version header =
     as_bytes (http_method @ '' '' @ origin_path uri @ '' '' @ version @ crlf @
       strip_proxy_headers (case split_once_crlf header of Some (_, rest) \<Rightarrow> rest | None \<Rightarrow> crlf))"

text \<open>The method, the URI and the version of the first line.\<close>

definition request_parts :: "string \<Rightarrow> string \<times> string \<times> string" where
  "request_parts header =
     (let parts = split_whitespace (hd (split_crlf header))
      in (if 0 < length parts then parts ! 0 else [],
          if 1 < length parts then parts ! 1 else [],
          if 2 < length parts then parts ! 2 else ''HTTP/1.1''))"

definition auth_required :: bytes where
  "auth_required =
     as_bytes (''HTTP/1.1 407 Proxy Authentication Required'' @ crlf @
       ''Proxy-Authenticate: Basic realm='' @ [CHR 0x22] @ ''rps'' @ [CHR 0x22] @ crlf @ ''Content-Length: 0'' @ crlf @ crlf)"

definition connection_established :: bytes where
  "connection_established = as_bytes (''HTTP/1.1 200 Connection Established'' @ crlf @ crlf)"

text \<open>
  \<^verbatim>\<open>handle_http_proxy\<close> until the pipe starts: the bytes written to the client, and the pooled
  connection, the guard, the route that records and the data the pipe sends first.
\<close>

record http_session =
  hs_stream :: duplex
  hs_guard :: proxy_guard
  hs_route :: stream_route
  hs_initial :: "bytes option"
  hs_reads :: "bytes list"

definition handle_http_proxy ::
  "(string \<Rightarrow> bytes option) \<Rightarrow> (open_request \<Rightarrow> string + bytes) \<Rightarrow> (bytes \<Rightarrow> string + open_response) \<Rightarrow> stmts \<Rightarrow> int \<Rightarrow> string \<Rightarrow> string
     \<Rightarrow> stream_route \<Rightarrow> string \<Rightarrow> bytes list \<Rightarrow> app_state \<Rightarrow> bytes \<times> (error + http_session) \<times> app_state" where
  "handle_http_proxy decode to_vec from_slice q now uuid session_id route remote_addr reads st =
     (case read_header reads [] of Inl e \<Rightarrow> ([], Inl e, st) | Inr (header, reads1) \<Rightarrow>
      case from_utf8 header of Inl e \<Rightarrow> ([], Inl e, st) | Inr header_text \<Rightarrow>
      case authenticated_route decode q now route header_text st of
        (Inl e, st1) \<Rightarrow> ([], Inl e, st1)
      | (Inr None, st1) \<Rightarrow> (auth_required, Inl (Bail ''http proxy authentication failed''), st1)
      | (Inr (Some auth), st1) \<Rightarrow>
          let (g, m1) = register_proxy session_id (hp_account_id auth) (app_proxies st1);
              st2 = st1\<lparr>app_proxies := m1\<rparr>;
              dropped = (\<lambda>s. s\<lparr>app_proxies := drop_proxy_guard g (app_proxies s)\<rparr>);
              (http_method, uri, version) = request_parts header_text
          in if eq_ignore_ascii_case http_method ''CONNECT''
             then (case open_pool_stream to_vec from_slice (\<lambda>i. q (i + 2)) now uuid (hp_route auth) uri remote_addr st2 of
                     (Inl e, st3) \<Rightarrow> ([], Inl e, dropped st3)
                   | (Inr stream, st3) \<Rightarrow>
                       (connection_established,
                        Inr \<lparr>hs_stream = stream, hs_guard = g, hs_route = hp_route auth, hs_initial = None, hs_reads = reads1\<rparr>, st3))
             else (case http_target uri header_text of
                     Inl e \<Rightarrow> ([], Inl e, dropped st2)
                   | Inr target \<Rightarrow>
                       (case open_pool_stream to_vec from_slice (\<lambda>i. q (i + 2)) now uuid (hp_route auth) target remote_addr st2 of
                          (Inl e, st3) \<Rightarrow> ([], Inl e, dropped st3)
                        | (Inr stream, st3) \<Rightarrow>
                            ([], Inr \<lparr>hs_stream = stream, hs_guard = g, hs_route = hp_route auth,
                                      hs_initial = Some (rewrite_absolute_form http_method uri version header_text),
                                      hs_reads = reads1\<rparr>, st3))))"

section \<open>Lemmas on lines\<close>

lemma no_crlf_Cons: "no_crlf (a # b # r) \<longleftrightarrow> \<not> (a = CR \<and> b = LF) \<and> no_crlf (b # r)"
  by (auto simp: no_crlf_def crlf_def sublist_Cons_right)

lemma no_LF_no_crlf: "LF \<notin> set s \<Longrightarrow> no_crlf s"
  by (auto simp: no_crlf_def crlf_def sublist_def)

lemma split_crlf_append: "no_crlf x \<Longrightarrow> split_crlf (x @ crlf @ s) = x # split_crlf s"
proof (induction x rule: split_crlf.induct)
  case (3 a b r)
  then show ?case by (auto simp: no_crlf_Cons)
qed (simp_all add: crlf_def)

lemma split_crlf_single: "no_crlf x \<Longrightarrow> split_crlf x = [x]"
  by (induction x rule: split_crlf.induct) (auto simp: no_crlf_Cons)

lemma split_crlf_join: "xs \<noteq> [] \<Longrightarrow> \<forall>x \<in> set xs. no_crlf x \<Longrightarrow> split_crlf (join crlf xs) = xs"
proof (induction xs)
  case (Cons x xs)
  then show ?case by (cases xs) (simp_all add: split_crlf_single split_crlf_append)
qed simp

lemma split_once_crlf_Some: "split_once_crlf s = Some (a, b) \<Longrightarrow> split_crlf s = a # split_crlf b"
  by (induction s arbitrary: a rule: split_once_crlf.induct) (auto split: if_splits option.splits)

lemma split_once_crlf_None: "split_once_crlf s = None \<Longrightarrow> no_crlf s"
proof (induction s rule: split_once_crlf.induct)
  case (3 x y ys)
  then show ?case by (auto simp: no_crlf_Cons split: if_splits option.splits)
qed (auto simp: no_crlf_def crlf_def sublist_Cons_right)

text \<open>A string with an empty line has an empty line among its lines after the first.\<close>

lemma blank_line:
  assumes "sublist (crlf @ crlf) s"
  shows "[] \<in> set (tl (split_crlf s))"
  using assms
proof (induction s rule: split_crlf.induct)
  case (3 x y ys)
  show ?case
  proof (cases "x = CR \<and> y = LF")
    case True
    show ?thesis
    proof (cases "prefix (crlf @ crlf) (x # y # ys)")
      case True
      then obtain r where "ys = CR # LF # r" using \<open>x = CR \<and> y = LF\<close> by (auto simp: crlf_def prefix_def)
      then show ?thesis using \<open>x = CR \<and> y = LF\<close> by simp
    next
      case False
      then have "sublist (crlf @ crlf) (y # ys)" using "3.prems" by (simp add: sublist_Cons_right)
      moreover have "\<not> prefix (crlf @ crlf) (y # ys)" using True by (auto simp: crlf_def)
      ultimately have "sublist (crlf @ crlf) ys" by (simp add: sublist_Cons_right)
      then have "[] \<in> set (tl (split_crlf ys))" using "3.IH"(1) True by simp
      then show ?thesis using True by (auto dest: list.set_sel(2) [rotated])
    qed
  next
    case False
    then have "sublist (crlf @ crlf) (y # ys)" using "3.prems" by (auto simp: sublist_Cons_right crlf_def)
    then have "[] \<in> set (tl (split_crlf (y # ys)))" using "3.IH"(2) False by blast
    then show ?thesis using False by (auto split: list.splits)
  qed
qed (auto simp: crlf_def sublist_Cons_right)

lemma split_whitespace_words: "w \<in> set (split_whitespace s) \<Longrightarrow> c \<in> set w \<Longrightarrow> \<not> ws1 c"
proof (induction s arbitrary: w rule: split_whitespace.induct)
  case (1 s)
  have tw: "c \<in> set (take_word s) \<Longrightarrow> \<not> ws1 c" for s
    by (induction s) (auto simp: ws_len_def split: if_splits)
  show ?case
  proof (cases "s = [] \<or> ws_len s > 0")
    case True
    then show ?thesis using "1.IH"(1) [of w] "1.prems" split_whitespace.simps [of s] by (auto split: if_splits)
  next
    case False
    then show ?thesis using "1.IH"(2) [of w] "1.prems" split_whitespace.simps [of s] tw by auto
  qed
qed

lemma request_parts_no_LF:
  assumes "request_parts header = (m, uri, v)"
  shows "LF \<notin> set m" "LF \<notin> set uri" "LF \<notin> set v"
proof -
  let ?ws = "split_whitespace (hd (split_crlf header))"
  have "LF \<notin> set w" if "w \<in> set ?ws" for w using split_whitespace_words [OF that, of LF] by (auto simp: ws1_def)
  then have "LF \<notin> set (?ws ! i)" if "i < length ?ws" for i using that by simp
  then show "LF \<notin> set m" "LF \<notin> set uri" "LF \<notin> set v"
    using assms by (auto simp: request_parts_def Let_def split: if_splits)
qed

section \<open>Lemmas on requests\<close>

lemma origin_path_no_LF: "LF \<notin> set uri \<Longrightarrow> LF \<notin> set (origin_path uri)"
  by (auto simp: origin_path_def Let_def from_char_def str_strip_prefix_Some split: option.splits dest!: set_dropWhileD)

lemma rewrite_lines:
  assumes "request_parts header = (m, uri, v)" and "sublist (crlf @ crlf) header"
  shows "\<exists>text. rewrite_absolute_form m uri v header = as_bytes text \<and>
    split_crlf text = (m @ '' '' @ origin_path uri @ '' '' @ v) # filter (\<lambda>line. \<not> auth_line line) (tl (split_crlf header))"
proof -
  have "\<not> no_crlf header" using assms(2) by (auto simp: no_crlf_def dest: sublist_order.order_trans [rotated])
  then obtain first rest where o: "split_once_crlf header = Some (first, rest)"
    using split_once_crlf_None [of header] by (cases "split_once_crlf header") auto
  have tl: "tl (split_crlf header) = split_crlf rest" using split_once_crlf_Some [OF o] by simp
  let ?keep = "filter (\<lambda>line. \<not> auth_line line) (split_crlf rest)"
  have "[] \<in> set ?keep" using blank_line [OF assms(2)] tl by (simp add: auth_line_def)
  then have k: "?keep \<noteq> []" by (auto simp: filter_empty_conv)
  have st: "split_crlf (strip_proxy_headers rest) = ?keep"
    unfolding strip_proxy_headers_def
    by (rule split_crlf_join [OF k]) (auto intro: split_crlf_segment_no_crlf)
  have L: "LF \<notin> set (m @ '' '' @ origin_path uri @ '' '' @ v)"
    using request_parts_no_LF [OF assms(1)] origin_path_no_LF by simp
  have "split_crlf ((m @ '' '' @ origin_path uri @ '' '' @ v) @ crlf @ strip_proxy_headers rest) =
      (m @ '' '' @ origin_path uri @ '' '' @ v) # ?keep"
    by (subst split_crlf_append [OF no_LF_no_crlf [OF L]]) (simp only: st)
  then show ?thesis using o tl unfolding rewrite_absolute_form_def
    by (intro exI [of _ "(m @ '' '' @ origin_path uri @ '' '' @ v) @ crlf @ strip_proxy_headers rest"]) simp
qed

lemma read_header_blank: "read_header reads h = Inr (header, rest) \<Longrightarrow> sublist (as_bytes (crlf @ crlf)) header"
  by (induction reads h rule: read_header.induct) (auto simp: Let_def split: if_splits)

lemma sublist_as_bytes: "sublist (as_bytes a) (as_bytes b) \<longleftrightarrow> sublist a b"
proof
  assume "sublist (as_bytes a) (as_bytes b)"
  then obtain x y where "map byte_of_char b = x @ map byte_of_char a @ y" by (auto simp: sublist_def as_bytes_def)
  then obtain b1 b2 b3 where "b = b1 @ b2 @ b3" "map byte_of_char b2 = map byte_of_char a"
    by (auto simp: map_eq_append_conv append_eq_map_conv)
  then show "sublist a b" using as_bytes_inj by (auto simp: as_bytes_def)
qed (auto simp: sublist_def; blast)

text \<open>The target and the path of an absolute URI.\<close>

lemma absolute_uri:
  assumes "CHR ''/'' \<notin> set authority" and "path = [] \<or> hd path = CHR ''/''"
  shows "http_target (''http://'' @ authority @ path) header = Inr (with_default_port authority 80)"
    and "origin_path (''http://'' @ authority @ path) = (if path = [] then ''/'' else path)"
proof -
  have "before (CHR ''/'') (authority @ path) = authority" "from_char (CHR ''/'') (authority @ path) = path"
    using assms by (cases path; auto simp: before_def from_char_def takeWhile_append dropWhile_append)+
  then show "http_target (''http://'' @ authority @ path) header = Inr (with_default_port authority 80)"
    "origin_path (''http://'' @ authority @ path) = (if path = [] then ''/'' else path)"
    using str_strip_prefix_append [of "''http://''" "authority @ path"]
    by (simp_all add: http_target_def origin_path_def Let_def)
qed

section \<open>Authentication lemmas\<close>

text \<open>
  Who may use the proxy: with an enabled account, only who sends the name and password of one
  that the policy allows, and then under that account; without any, everyone.
\<close>

definition http_admits :: "(string \<Rightarrow> bytes option) \<Rightarrow> int \<Rightarrow> stream_route \<Rightarrow> string \<Rightarrow> app_state \<Rightarrow> http_proxy_auth \<Rightarrow> bool" where
  "http_admits decode now fallback header st auth \<longleftrightarrow>
     (if \<exists>r \<in> set (proxy_accounts (app_db st)). a_kind r = ''http'' \<and> a_enabled r = 1
      then \<exists>r \<in> set (proxy_accounts (app_db st)). a_kind r = ''http'' \<and> a_enabled r = 1 \<and>
             parse_basic_proxy_auth decode header = Some (a_username r, a_password r) \<and>
             fst (allowed now (proxy_account_key (a_id r)) (app_policy st)) \<and>
             auth = \<lparr>hp_route = \<lparr>sr_tunnel_id = ''http-proxy:'' @ a_id r, sr_client_id = a_client_id r\<rparr>, hp_account_id = Some (a_id r)\<rparr>
      else auth = \<lparr>hp_route = fallback, hp_account_id = None\<rparr>)"

lemma http_enabled_iff:
  "has_enabled_proxy_accounts (\<lambda>_. True) ''http'' db = Inr (\<exists>r \<in> set (proxy_accounts db). a_kind r = ''http'' \<and> a_enabled r = 1)"
  by (auto simp: has_enabled_proxy_accounts_def validate_proxy_kind_def count_rows_def filter_empty_conv)

lemma authenticated_route_admits:
  assumes "accounts_readable (app_db st)"
  obtains r e1 where "authenticated_route decode (\<lambda>_. True) now fallback header st = (Inr r, st\<lparr>app_policy := e1\<rparr>)"
    and "\<And>auth. r = Some auth \<longleftrightarrow> http_admits decode now fallback header st auth"
proof (cases "\<exists>r \<in> set (proxy_accounts (app_db st)). a_kind r = ''http'' \<and> a_enabled r = 1")
  case False
  have "has_enabled_proxy_accounts (\<lambda>_. True) ''http'' (app_db st) = Inr False" by (simp only: http_enabled_iff False)
  then have "authenticated_route decode (\<lambda>_. True) now fallback header st =
      (Inr (Some \<lparr>hp_route = fallback, hp_account_id = None\<rparr>), st\<lparr>app_policy := app_policy st\<rparr>)" by (simp add: authenticated_route_def)
  moreover have "Some \<lparr>hp_route = fallback, hp_account_id = None\<rparr> = Some auth \<longleftrightarrow> http_admits decode now fallback header st auth" for auth
    unfolding http_admits_def if_not_P [OF False] by auto
  ultimately show ?thesis by (rule that)
next
  case True
  have e: "has_enabled_proxy_accounts (\<lambda>_. True) ''http'' (app_db st) = Inr True" by (simp only: http_enabled_iff True)
  have inv: "db_inv (app_db st)" using assms by (simp add: accounts_readable_def)
  have kind: "validate_proxy_kind ''http'' = Inr ()" by (simp add: validate_proxy_kind_def)
  show ?thesis
  proof (cases "parse_basic_proxy_auth decode header")
    case None
    then show ?thesis using that [of None "app_policy st"] e True by (auto simp: authenticated_route_def http_admits_def)
  next
    case (Some up)
    obtain u p where up: "up = (u, p)" by force
    note auth = authenticated_route_def e Some up Let_def
    consider (found) r a where "r \<in> set (proxy_accounts (app_db st))" "a_kind r = ''http''" "a_username r = u" "a_password r = p" "a_enabled r = 1"
        "find_enabled_proxy_account (\<lambda>_. True) ''http'' u p (app_db st) = Inr (Some a)" "pa_id a = a_id r" "pa_client_id a = a_client_id r"
      | (none) "\<not> (\<exists>r \<in> set (proxy_accounts (app_db st)). a_kind r = ''http'' \<and> a_username r = u \<and> a_password r = p \<and> a_enabled r = 1)"
        "find_enabled_proxy_account (\<lambda>_. True) ''http'' u p (app_db st) = Inr None"
      using find_account_row [OF inv _ kind, of u p] assms unfolding accounts_readable_def by blast
    then show ?thesis
    proof cases
      case none
      have "\<not> http_admits decode now fallback header st auth" for auth
        using True none(1) Some up by (auto simp: http_admits_def)
      then show ?thesis using that [of None "app_policy st"] none(2) by (auto simp: auth)
    next
      case found
      obtain b e1 where b: "allowed now (proxy_account_key (a_id r)) (app_policy st) = (b, e1)" by force
      let ?auth = "\<lparr>hp_route = \<lparr>sr_tunnel_id = ''http-proxy:'' @ a_id r, sr_client_id = a_client_id r\<rparr>, hp_account_id = Some (a_id r)\<rparr>"
      have same: "x = r" if "x \<in> set (proxy_accounts (app_db st))" "a_kind x = ''http''" "a_username x = u" for x
        using unique_login [OF inv that(1) found(1)] that(2,3) found(2,3) by simp
      have "http_admits decode now fallback header st auth \<longleftrightarrow> b \<and> auth = ?auth" for auth
        unfolding http_admits_def if_P [OF True]
      proof
        assume "\<exists>x \<in> set (proxy_accounts (app_db st)). a_kind x = ''http'' \<and> a_enabled x = 1 \<and>
            parse_basic_proxy_auth decode header = Some (a_username x, a_password x) \<and>
            fst (allowed now (proxy_account_key (a_id x)) (app_policy st)) \<and>
            auth = \<lparr>hp_route = \<lparr>sr_tunnel_id = ''http-proxy:'' @ a_id x, sr_client_id = a_client_id x\<rparr>, hp_account_id = Some (a_id x)\<rparr>"
        then obtain x where x: "x \<in> set (proxy_accounts (app_db st))" "a_kind x = ''http''" "a_username x = u"
          "fst (allowed now (proxy_account_key (a_id x)) (app_policy st))"
          "auth = \<lparr>hp_route = \<lparr>sr_tunnel_id = ''http-proxy:'' @ a_id x, sr_client_id = a_client_id x\<rparr>, hp_account_id = Some (a_id x)\<rparr>"
          using Some up by auto
        then show "b \<and> auth = ?auth" using same [OF x(1-3)] b by simp
      next
        assume "b \<and> auth = ?auth"
        then show "\<exists>x \<in> set (proxy_accounts (app_db st)). a_kind x = ''http'' \<and> a_enabled x = 1 \<and>
            parse_basic_proxy_auth decode header = Some (a_username x, a_password x) \<and>
            fst (allowed now (proxy_account_key (a_id x)) (app_policy st)) \<and>
            auth = \<lparr>hp_route = \<lparr>sr_tunnel_id = ''http-proxy:'' @ a_id x, sr_client_id = a_client_id x\<rparr>, hp_account_id = Some (a_id x)\<rparr>"
          using found(1-5) Some up b by (intro bexI [of _ r]) simp_all
      qed
      moreover have "authenticated_route decode (\<lambda>_. True) now fallback header st =
          (Inr (if b then Some ?auth else None), st\<lparr>app_policy := e1\<rparr>)"
        by (simp add: auth found(6,7,8) b)
      ultimately show ?thesis using that [of "if b then Some ?auth else None" e1] by (auto split: if_splits)
    qed
  qed
qed

section \<open>Where the parsers disagree\<close>

text \<open>
  Credentials are looked for in lines that end at a line feed, and removed from lines that end
  at a carriage return and line feed: after a bare line feed they are accepted and forwarded.
\<close>

definition bare_lf_header :: string where
  "bare_lf_header = ''GET / HTTP/1.1'' @ crlf @ ''A: b'' @ [LF] @ ''Proxy-Authorization: Basic x'' @ crlf @ crlf"

lemma bare_lf_leaks_credentials:
  assumes "decode ''x'' = Some (as_bytes ''u:p'')"
  shows "parse_basic_proxy_auth decode bare_lf_header = Some (''u'', ''p'') \<and>
    strip_proxy_headers (''A: b'' @ [LF] @ ''Proxy-Authorization: Basic x'' @ crlf @ crlf) =
      ''A: b'' @ [LF] @ ''Proxy-Authorization: Basic x'' @ crlf @ crlf"
proof -
  have "trim '' Basic x'' = ''Basic x''" by code_simp
  moreover have "str_lines bare_lf_header = [''GET / HTTP/1.1'', ''A: b'', ''Proxy-Authorization: Basic x'', []]" by code_simp
  moreover have "from_utf8 (as_bytes ''u:p'') = Inr ''u:p''" by code_simp
  moreover have "is_proxy_auth ''Proxy-Authorization''" "\<not> is_proxy_auth ''A''" by code_simp+
  moreover have "strip_proxy_headers (''A: b'' @ [LF] @ ''Proxy-Authorization: Basic x'' @ crlf @ crlf) =
      ''A: b'' @ [LF] @ ''Proxy-Authorization: Basic x'' @ crlf @ crlf" by code_simp
  ultimately show ?thesis using assms by (simp add: parse_basic_proxy_auth_def str_strip_prefix_def)
qed

text \<open>What a \<^verbatim>\<open>CONNECT\<close> client sends in the same packet after its header is read and lost.\<close>

lemma connect_loses_early_data:
  assumes "handle_http_proxy decode to_vec from_slice q now uuid sid route ra [as_bytes header @ early] st = (out, Inr s, st')"
    and "sublist (crlf @ crlf) header" "from_utf8 (as_bytes header @ early) = Inr ht"
    and "request_parts ht = (m, uri, v)" "eq_ignore_ascii_case m ''CONNECT''"
  shows "hs_initial s = None \<and> hs_reads s = []"
  using assms
  by (auto simp: handle_http_proxy_def Let_def split: sum.splits option.splits prod.splits if_splits)

section \<open>Properties\<close>


text \<open>
  C7: Authentication of HTTP clients. For a header that was read, the request is admitted
  exactly as \<open>http_admits\<close> says: if the database has an enabled account, only with the name and
  password of one that the policy allows, and then under that account's route; otherwise
  under the listener's own. A request that is not admitted is answered with status 407, gets
  no connection and registers no session; a request that is served records on the admitted route.
\<close>

theorem http_admits_exact:
  assumes "accounts_readable (app_db st)" and "read_header reads [] = Inr (header, reads1)" and "from_utf8 header = Inr ht"
  shows "((\<exists>st'. authenticated_route decode (\<lambda>_. True) now route ht st = (Inr (Some auth), st')) \<longleftrightarrow>
            http_admits decode now route ht st auth) \<and>
         (case handle_http_proxy decode to_vec from_slice (\<lambda>_. True) now uuid sid route remote_addr reads st of (out, r, st') \<Rightarrow>
            ((\<forall>auth. \<not> http_admits decode now route ht st auth) \<longrightarrow>
               out = auth_required \<and> \<not> is_ok r \<and> app_pools st' = app_pools st \<and> app_proxies st' = app_proxies st) \<and>
            (\<forall>s. r = Inr s \<longrightarrow> (\<exists>auth. http_admits decode now route ht st auth \<and> hs_route s = hp_route auth)))"
proof -
  obtain r e1 where a: "authenticated_route decode (\<lambda>_. True) now route ht st = (Inr r, st\<lparr>app_policy := e1\<rparr>)"
    and r: "\<And>auth. r = Some auth \<longleftrightarrow> http_admits decode now route ht st auth"
    by (rule authenticated_route_admits [OF assms(1), of decode now route ht], blast)
  show ?thesis
  proof (cases r)
    case None
    then show ?thesis using a r assms(2,3) by (auto simp: handle_http_proxy_def is_ok_def)
  next
    case (Some au)
    then have "http_admits decode now route ht st au" using r by blast
    then show ?thesis using a r assms(2,3) Some
      by (auto simp: handle_http_proxy_def Let_def split: prod.split sum.split)
  qed
qed

text \<open>An example: a request with credentials for the account of the example database.\<close>

definition demo_http :: string where
  "demo_http = ''GET http://a/b HTTP/1.1'' @ crlf @ ''Proxy-Authorization: Basic x'' @ crlf @ ''A: 1'' @ crlf @ crlf"

definition demo_decode :: "string \<Rightarrow> bytes option" where
  "demo_decode s = (if s = ''x'' then Some (as_bytes ''u:p'') else None)"

lemma demo_http_read:
  "read_header [as_bytes demo_http] [] = Inr (as_bytes demo_http, [])" "from_utf8 (as_bytes demo_http) = Inr demo_http"
  "parse_basic_proxy_auth demo_decode demo_http = Some (''u'', ''p'')"
  "request_parts demo_http = (''GET'', ''http://a/b'', ''HTTP/1.1'')"
  by code_simp+

definition demo_http_auth :: http_proxy_auth where
  "demo_http_auth = \<lparr>hp_route = \<lparr>sr_tunnel_id = ''http-proxy:a1'', sr_client_id = ''c1''\<rparr>, hp_account_id = Some ''a1''\<rparr>"

lemma demo_pool_readable: "accounts_readable (app_db demo_pool_state)"
proof -
  have "app_db demo_pool_state = demo_db2" by (simp add: demo_pool_state_def demo_state_def AppState_new_def)
  moreover have "db_inv demo_db2"
    unfolding demo_db2_def demo_db_def by (intro inv_create_tunnel inv_create_proxy_account) simp
  ultimately show ?thesis unfolding accounts_readable_def by (simp add: demo_db2_rows account_row_of_def)
qed

lemma demo_http_admitted: "http_admits demo_decode 5 demo_route demo_http demo_pool_state auth \<longleftrightarrow> auth = demo_http_auth"
proof -
  have "app_db demo_pool_state = demo_db2" "app_policy demo_pool_state = PolicyEnforcer_channel"
    by (simp_all add: demo_pool_state_def demo_state_def AppState_new_def)
  then show ?thesis
    unfolding http_admits_def demo_http_read
    by (auto simp: demo_db2_rows account_row_of_def demo_account_def bool_to_i64_def allowed_def PolicyEnforcer_channel_def demo_http_auth_def)
qed

lemma demo_http_served:
  "\<exists>s st'. handle_http_proxy demo_decode (\<lambda>_. Inr [9]) (\<lambda>_. Inr OpenResponse_ok) (\<lambda>_. True) 5 ''u1'' ''s1'' demo_route ''r:1''
     [as_bytes demo_http] demo_pool_state = ([], Inr s, st')"
proof -
  obtain r e1 where a: "authenticated_route demo_decode (\<lambda>_. True) 5 demo_route demo_http demo_pool_state = (Inr r, demo_pool_state\<lparr>app_policy := e1\<rparr>)"
    and r: "\<And>auth. r = Some auth \<longleftrightarrow> http_admits demo_decode 5 demo_route demo_http demo_pool_state auth"
    by (rule authenticated_route_admits [OF demo_pool_readable, of demo_decode 5 demo_route demo_http], blast)
  have ra: "r = Some demo_http_auth" using r demo_http_admitted by blast
  have t: "http_target ''http://a/b'' demo_http = Inr ''a:80''" by code_simp
  note sim = duplex_write_json_def duplex_read_json_def write_json_def read_json_def demo_duplex_def
    MAX_JSON_MESSAGE_LEN_def read_u32_def u32_to_be_def u32_from_be_def read_exact_def OpenResponse_ok_def
  have four: "POOL_ACQUIRE_RETRIES = Suc (Suc 2)" and get: "\<not> eq_ignore_ascii_case ''GET'' ''CONNECT''" by code_simp+
  have open_ok: "\<exists>stream st'. open_pool_stream (\<lambda>_. Inr [9]) (\<lambda>_. Inr OpenResponse_ok) (\<lambda>_. True) 5 ''u1'' (hp_route demo_http_auth) ''a:80'' ''r:1''
      (demo_pool_state\<lparr>app_policy := e1, app_proxies := m1\<rparr>) = (Inr stream, st')" for m1
  proof -
    have loop: "\<exists>d pool1. pool_loop (\<lambda>_. Inr [9]) (\<lambda>_. Inr OpenResponse_ok) (Suc (Suc n)) cid request opened
        [demo_duplex False, demo_duplex True, demo_duplex True] = (Inr d, pool1)" for n cid request opened
      by (simp add: sim)
    let ?st = "demo_pool_state\<lparr>app_policy := e1, app_proxies := m1\<rparr>"
    obtain d pool1 where "pool_loop (\<lambda>_. Inr [9]) (\<lambda>_. Inr OpenResponse_ok) POOL_ACQUIRE_RETRIES (sr_client_id (hp_route demo_http_auth))
        (pool_request (hp_route demo_http_auth) ''a:80'' ''r:1'') (pool_open 0 ?st)
        [demo_duplex False, demo_duplex True, demo_duplex True] = (Inr d, pool1)"
      unfolding four using loop by blast
    moreover have "map_of (app_clients ?st) (sr_client_id (hp_route demo_http_auth)) =
        Some \<lparr>cn_mux = 0, cn_pool = 0, cn_data_session_id = ''s1''\<rparr>"
      "app_pools ?st ! 0 = [demo_duplex False, demo_duplex True, demo_duplex True]"
      by (simp_all add: demo_pool_state_def demo_http_auth_def)
    ultimately show ?thesis by (simp add: open_pool_stream_def Let_def)
  qed
  obtain g m1 where g: "register_proxy ''s1'' (hp_account_id demo_http_auth) (app_proxies demo_pool_state) = (g, m1)" by force
  obtain stream st' where "open_pool_stream (\<lambda>_. Inr [9]) (\<lambda>_. Inr OpenResponse_ok) (\<lambda>_. True) 5 ''u1'' (hp_route demo_http_auth) ''a:80'' ''r:1''
      (demo_pool_state\<lparr>app_policy := e1, app_proxies := m1\<rparr>) = (Inr stream, st')" using open_ok by blast
  then show ?thesis
    using a ra t get g by (simp add: handle_http_proxy_def demo_http_read Let_def del: read_header.simps)
qed


theorem http_admits_exact_witness:
  "(\<exists>st'. authenticated_route demo_decode (\<lambda>_. True) 5 demo_route demo_http demo_pool_state = (Inr (Some demo_http_auth), st')) \<and>
   (\<exists>s st'. handle_http_proxy demo_decode (\<lambda>_. Inr [9]) (\<lambda>_. Inr OpenResponse_ok) (\<lambda>_. True) 5 ''u1'' ''s1'' demo_route ''r:1''
     [as_bytes demo_http] demo_pool_state = ([], Inr s, st') \<and> hs_route s = hp_route demo_http_auth)"
proof -
  obtain s st' where s: "handle_http_proxy demo_decode (\<lambda>_. Inr [9]) (\<lambda>_. Inr OpenResponse_ok) (\<lambda>_. True) 5 ''u1'' ''s1'' demo_route ''r:1''
     [as_bytes demo_http] demo_pool_state = ([], Inr s, st')" using demo_http_served by blast
  show ?thesis
    using http_admits_exact [OF demo_pool_readable demo_http_read(1,2), of demo_decode 5 demo_route demo_http_auth "\<lambda>_. Inr [9]"
        "\<lambda>_. Inr OpenResponse_ok" "''u1''" "''s1''" "''r:1''"] s
    by (auto simp: demo_http_admitted)
qed

end
