(* ===== verification/Listeners.thy ===== *)
theory Listeners
  imports Socks5_Udp Http_Proxy
begin

text \<open>
  The loops that accept connections: \<^verbatim>\<open>run_accept_loop\<close> of a TCP tunnel
  (\<^verbatim>\<open>proxy_tcp.rs\<close>), and \<^verbatim>\<open>run_inner\<close> of the bridge (\<^verbatim>\<open>bridge.rs\<close>), the HTTP proxy
  (\<^verbatim>\<open>proxy_http.rs\<close>) and the SOCKS5 proxy (\<^verbatim>\<open>proxy_socks5.rs\<close>), which also settles the address
  that UDP clients are told. What the operating system answers to \<^verbatim>\<open>bind\<close> and \<^verbatim>\<open>accept\<close>
  is an argument. The lemmas show which connections are served, and that every loop ends with
  the first \<^verbatim>\<open>accept\<close> that fails.
\<close>

section \<open>Parsing a socket address\<close>

text \<open>\<^verbatim>\<open>str::parse\<close> of a \<^verbatim>\<open>SocketAddr\<close>; the scope of an IPv6 address is read and not kept.\<close>

definition read_port :: "string \<Rightarrow> (u16 \<times> string) option" where
  "read_port s =
     (case read_given_char CHR '':'' s of
        None \<Rightarrow> None
      | Some s1 \<Rightarrow> map_option (\<lambda>(n, rest). (of_nat n, rest)) (read_number 10 65535 (length s1) True s1))"

definition skip_scope_id :: "string \<Rightarrow> string" where
  "skip_scope_id s =
     (case read_given_char CHR ''%'' s of
        None \<Rightarrow> s
      | Some s1 \<Rightarrow> (case read_number 10 (2 ^ 32 - 1) (length s1) True s1 of None \<Rightarrow> s | Some (n, rest) \<Rightarrow> rest))"

definition read_socket_addr_v4 :: "string \<Rightarrow> (socket_addr \<times> string) option" where
  "read_socket_addr_v4 s =
     (case read_ipv4_addr s of
        None \<Rightarrow> None
      | Some (ip, s1) \<Rightarrow> map_option (\<lambda>(port, s2). (\<lparr>sk_ip = IpV4 ip, sk_port = port\<rparr>, s2)) (read_port s1))"

definition read_socket_addr_v6 :: "string \<Rightarrow> (socket_addr \<times> string) option" where
  "read_socket_addr_v6 s =
     (case read_given_char CHR ''['' s of
        None \<Rightarrow> None
      | Some s1 \<Rightarrow>
          (case read_ipv6_addr s1 of
             None \<Rightarrow> None
           | Some (ip, s2) \<Rightarrow>
               (case read_given_char CHR '']'' (skip_scope_id s2) of
                  None \<Rightarrow> None
                | Some s3 \<Rightarrow>
                    map_option (\<lambda>(port, s4). (\<lparr>sk_ip = IpV6 ip, sk_port = port\<rparr>, s4)) (read_port s3))))"

definition socket_addr_parse :: "string \<Rightarrow> socket_addr option" where
  "socket_addr_parse s =
     (case (case read_socket_addr_v4 s of Some r \<Rightarrow> Some r | None \<Rightarrow> read_socket_addr_v6 s) of
        None \<Rightarrow> None
      | Some (addr, rest) \<Rightarrow> if rest = [] then Some addr else None)"

section \<open>Accepting\<close>

datatype 'c accept_event = Incoming 'c | AcceptFailed error | ShutdownChanged

text \<open>
  The loops on what the \<^verbatim>\<open>select!\<close> or \<^verbatim>\<open>accept\<close> returns in turn: the connections for which
  a task was spawned, and the result, if the loop has ended. Only a tunnel has a shutdown
  channel; the other loops never see \<open>ShutdownChanged\<close>.
\<close>

fun run_accept_loop :: "'c accept_event list \<Rightarrow> 'c list \<times> (error + unit) option" where
  "run_accept_loop [] = ([], None)"
| "run_accept_loop (Incoming c # evs) = (let (cs, r) = run_accept_loop evs in (c # cs, r))"
| "run_accept_loop (AcceptFailed e # evs) = ([], Some (Inl e))"
| "run_accept_loop (ShutdownChanged # evs) = ([], Some (Inr ()))"

fun accept_loop :: "'c accept_event list \<Rightarrow> 'c list \<times> (error + unit) option" where
  "accept_loop [] = ([], None)"
| "accept_loop (Incoming c # evs) = (let (cs, r) = accept_loop evs in (c # cs, r))"
| "accept_loop (AcceptFailed e # evs) = ([], Some (Inl e))"
| "accept_loop (ShutdownChanged # evs) = accept_loop evs"

definition bridge_run_inner ::
  "(string \<Rightarrow> error + unit) \<Rightarrow> 'c accept_event list \<Rightarrow> app_state \<Rightarrow> 'c list \<times> (error + unit) option" where
  "bridge_run_inner bind evs st =
     (case bind (bridge_addr (server (app_config st))) of
        Inl e \<Rightarrow> ([], Some (Inl e))
      | Inr _ \<Rightarrow> accept_loop evs)"

definition http_run_inner ::
  "(string \<Rightarrow> error + unit) \<Rightarrow> 'c accept_event list \<Rightarrow> proxy_listen_config
     \<Rightarrow> (stream_route \<times> 'c) list \<times> (error + unit) option" where
  "http_run_inner bind evs proxy =
     (case bind (pl_listen proxy) of
        Inl e \<Rightarrow> ([], Some (Inl e))
      | Inr _ \<Rightarrow> (let (cs, r) = accept_loop evs in (map (Pair (proxy_route proxy)) cs, r)))"

text \<open>The SOCKS5 proxy binds both sockets first; the result has the address for UDP clients.\<close>

definition socks_udp_addr :: "proxy_listen_config \<Rightarrow> socket_addr \<Rightarrow> error + socket_addr" where
  "socks_udp_addr proxy udp_bind_addr =
     (case pl_public_udp_addr proxy of
        Some addr \<Rightarrow>
          (case socket_addr_parse addr of
             None \<Rightarrow> Inl (Bail (''invalid socks5 public_udp_addr '' @ addr @ '': invalid socket address syntax''))
           | Some a \<Rightarrow> Inr a)
      | None \<Rightarrow> Inr udp_bind_addr)"

definition socks_run_inner ::
  "(string \<Rightarrow> error + unit) \<Rightarrow> (string \<Rightarrow> error + socket_addr) \<Rightarrow> 'c accept_event list \<Rightarrow> proxy_listen_config
     \<Rightarrow> (socket_addr \<times> socks_udp) option \<times> 'c list \<times> (error + unit) option" where
  "socks_run_inner bind_tcp bind_udp evs proxy =
     (case bind_tcp (pl_listen proxy) of
        Inl e \<Rightarrow> (None, [], Some (Inl e))
      | Inr _ \<Rightarrow>
          (case bind_udp (pl_listen proxy) of
             Inl e \<Rightarrow> (None, [], Some (Inl e))
           | Inr udp_bind_addr \<Rightarrow>
               (case socks_udp_addr proxy udp_bind_addr of
                  Inl e \<Rightarrow> (None, [], Some (Inl e))
                | Inr udp_addr \<Rightarrow> (Some (udp_addr, socks_udp_new), accept_loop evs))))"

section \<open>Lemmas\<close>

lemma read_port_print: "read_port (CHR '':'' # dec_string (unat (p :: u16))) = Some (p, [])"
proof -
  have p: "unat p \<le> 65535" using unsigned_less [of p, where 'a = nat] by simp
  have "read_digits 10 65535 (length (dec_string (unat p))) 0 0 (dec_string (unat p) @ []) =
      Some (unat p, length (dec_string (unat p)), [])"
    using read_digits_dec [OF p order_refl, of "[]"] by simp
  then show ?thesis by (simp add: read_port_def read_given_char_def read_number_def dec_string_head)
qed

text \<open>The address that the proxy itself would print is read back.\<close>

lemma stops_port: "stops 10 (CHR '':'' # s)"
  by (simp add: stops_def to_digit_def)

lemma socket_addr_parse_v4:
  "sk_ip a = IpV4 ip \<Longrightarrow> socket_addr_parse (socket_to_string a) = Some a"
  by (cases a)
     (simp add: socket_addr_parse_def read_socket_addr_v4_def socket_to_string_def read_ipv4_print stops_port read_port_print)

text \<open>
  A tunnel serves exactly the connections that come before the first failure or the shutdown,
  in order; the other listeners those that come before the first failure, which ends them for
  good: nothing restarts a listener.
\<close>

fun incoming :: "'c accept_event \<Rightarrow> bool" where
  "incoming (Incoming c) = True"
| "incoming _ = False"

fun accepted :: "'c accept_event \<Rightarrow> 'c list" where
  "accepted (Incoming c) = [c]"
| "accepted _ = []"

lemma run_accept_loop_exact:
  "fst (run_accept_loop evs) = concat (map accepted (takeWhile incoming evs))"
  "snd (run_accept_loop evs) =
     (case dropWhile incoming evs of [] \<Rightarrow> None | AcceptFailed e # _ \<Rightarrow> Some (Inl e) | _ \<Rightarrow> Some (Inr ()))"
proof -
  show "fst (run_accept_loop evs) = concat (map accepted (takeWhile incoming evs))"
    by (induction evs rule: run_accept_loop.induct) (simp_all add: case_prod_beta)
  show "snd (run_accept_loop evs) =
      (case dropWhile incoming evs of [] \<Rightarrow> None | AcceptFailed e # _ \<Rightarrow> Some (Inl e) | _ \<Rightarrow> Some (Inr ()))"
    by (induction evs rule: run_accept_loop.induct) (simp_all add: case_prod_beta)
qed

lemma accept_error_stops_listener:
  "accept_loop (evs @ AcceptFailed e # later) = accept_loop (evs @ [AcceptFailed e])"
  by (induction evs rule: accept_loop.induct) simp_all

lemma accept_loop_serves_all:
  assumes "\<And>e. AcceptFailed e \<notin> set evs"
  shows "accept_loop evs = (concat (map accepted evs), None)"
  using assms by (induction evs rule: accept_loop.induct) auto

text \<open>A wrong public address stops the SOCKS5 proxy before it serves anyone, on TCP too.\<close>

lemma socks_run_inner_address:
  assumes "bind_tcp (pl_listen proxy) = Inr ()" and "bind_udp (pl_listen proxy) = Inr here"
    and "pl_public_udp_addr proxy = Some addr"
  shows "case socket_addr_parse addr of
           None \<Rightarrow> fst (socks_run_inner bind_tcp bind_udp evs proxy) = None \<and>
                   fst (snd (socks_run_inner bind_tcp bind_udp evs proxy)) = []
         | Some a \<Rightarrow> socks_run_inner bind_tcp bind_udp evs proxy = (Some (a, socks_udp_new), accept_loop evs)"
  using assms by (auto simp: socks_run_inner_def socks_udp_addr_def split: option.split)

end
