(* ===== verification/Web_Auth.thy ===== *)
theory Web_Auth
  imports Controller
begin

text \<open>
  Authentication of the web console, \<^verbatim>\<open>crates/rps-controller/src/web.rs\<close>: sessions and their
  cookies, login and logout, and the time-based one-time codes. The request's cookie header
  is an optional string, its value if it can be read as one; \<open>hmac\<close> is HMAC-SHA1 of the
  hmac and sha1 libraries, with the error of making a key; \<open>token\<close> is a fresh id and \<open>now\<close> the
  clock in seconds.
\<close>

unbundle bit_operations_syntax

definition SESSION_COOKIE :: string where "SESSION_COOKIE = ''rps_session''"
definition TOTP_STEP_SECS :: int where "TOTP_STEP_SECS = 30"
definition TOTP_DIGITS :: nat where "TOTP_DIGITS = 6"

datatype status_code = StOk | StCreated | StNoContent | StBadRequest | StUnauthorized | StNotFound | StConflict | StInternal

record api_error =
  ae_status :: status_code
  ae_message :: string

definition ApiError_from :: "error \<Rightarrow> api_error" where
  "ApiError_from err =
     (let message = err_string err
      in \<lparr>ae_status = (if str_contains message ''UNIQUE constraint failed'' then StConflict
                       else if str_contains message ''invalid proxy account kind'' then StBadRequest
                       else StInternal),
          ae_message = message\<rparr>)"

section \<open>One-time codes\<close>

definition invalid_secret :: api_error where
  "invalid_secret = \<lparr>ae_status = StBadRequest, ae_message = ''invalid totp secret''\<rparr>"

definition base32_value :: "byte \<Rightarrow> byte option" where
  "base32_value b =
     (if 0x41 \<le> b \<and> b \<le> 0x5A then Some (b - 0x41)
      else if 0x61 \<le> b \<and> b \<le> 0x7A then Some (b - 0x61)
      else if 0x32 \<le> b \<and> b \<le> 0x37 then Some (b - 0x32 + 26)
      else None)"

text \<open>The inner loop: whole bytes leave the accumulator.\<close>

function base32_emit :: "u32 \<Rightarrow> nat \<Rightarrow> bytes \<Rightarrow> nat \<times> bytes" where
  "base32_emit bits bit_count out =
     (if bit_count \<ge> 8
      then base32_emit bits (bit_count - 8) (out @ [ucast (drop_bit (bit_count - 8) bits AND 0xff)])
      else (bit_count, out))"
  by pat_completeness auto
termination
  by (relation "measure (\<lambda>(bits, n, out). n)") auto

declare base32_emit.simps [simp del]

fun base32_loop :: "bytes \<Rightarrow> u32 \<Rightarrow> nat \<Rightarrow> bytes \<Rightarrow> api_error + bytes" where
  "base32_loop [] bits bit_count out = Inr out"
| "base32_loop (b # bs) bits bit_count out =
     (if b = 0x3D then Inr out
      else case base32_value b of
             None \<Rightarrow> Inl invalid_secret
           | Some val \<Rightarrow>
               let bits1 = push_bit 5 bits OR ucast val;
                   (bit_count1, out1) = base32_emit bits1 (bit_count + 5) out
               in base32_loop bs bits1 bit_count1 out1)"

definition decode_base32 :: "string \<Rightarrow> api_error + bytes" where
  "decode_base32 input =
     (case base32_loop (as_bytes input) 0 0 [] of
        Inl e \<Rightarrow> Inl e
      | Inr out \<Rightarrow> if out = [] then Inl invalid_secret else Inr out)"

text \<open>\<^verbatim>\<open>format!("{:06}")\<close>.\<close>

definition pad6 :: "nat \<Rightarrow> string" where
  "pad6 n = (let s = dec_string n in replicate (6 - length s) (CHR ''0'') @ s)"

definition totp_at_step :: "(bytes \<Rightarrow> bytes \<Rightarrow> string + bytes) \<Rightarrow> bytes \<Rightarrow> u64 \<Rightarrow> api_error + string" where
  "totp_at_step hmac secret step =
     (case hmac secret (u64_to_be step) of
        Inl e \<Rightarrow> Inl \<lparr>ae_status = StInternal, ae_message = e\<rparr>
      | Inr digest \<Rightarrow>
          let offset = unat (digest ! 19 AND 0x0f);
              val = (push_bit 24 (ucast (digest ! offset) AND 0x7f) OR push_bit 16 (ucast (digest ! (offset + 1))) OR
                     push_bit 8 (ucast (digest ! (offset + 2))) OR ucast (digest ! (offset + 3)) :: u32)
          in Inr (pad6 (unat (val mod 10 ^ TOTP_DIGITS))))"

definition is_digit_char :: "char \<Rightarrow> bool" where
  "is_digit_char c \<longleftrightarrow> 0x30 \<le> byte_of_char c \<and> byte_of_char c \<le> 0x39"

fun any_step :: "(bytes \<Rightarrow> bytes \<Rightarrow> string + bytes) \<Rightarrow> bytes \<Rightarrow> string \<Rightarrow> u64 list \<Rightarrow> api_error + bool" where
  "any_step hmac secret code [] = Inr False"
| "any_step hmac secret code (step # steps) =
     (case totp_at_step hmac secret step of
        Inl e \<Rightarrow> Inl e
      | Inr c \<Rightarrow> if c = code then Inr True else any_step hmac secret code steps)"

definition verify_totp :: "(bytes \<Rightarrow> bytes \<Rightarrow> string + bytes) \<Rightarrow> int \<Rightarrow> string \<Rightarrow> string \<Rightarrow> api_error + bool" where
  "verify_totp hmac now secret code0 =
     (case decode_base32 secret of
        Inl e \<Rightarrow> Inl e
      | Inr key \<Rightarrow>
          let code = trim code0; now_step = now div TOTP_STEP_SECS
          in if length code \<noteq> TOTP_DIGITS \<or> \<not> list_all is_digit_char code then Inr False
             else any_step hmac key code [of_int (now_step - 1), of_int now_step, of_int (now_step + 1)])"

section \<open>Sessions\<close>

definition auth_config :: "app_state \<Rightarrow> web_auth_config" where
  "auth_config st = web_auth (server (app_config st))"

definition normalized_totp_secret :: "app_state \<Rightarrow> string option" where
  "normalized_totp_secret st =
     (case wa_totp_secret (auth_config st) of
        None \<Rightarrow> None
      | Some secret \<Rightarrow>
          let s = filter (\<lambda>c. c \<noteq> CHR '' '') (trim secret) in if s = [] then None else Some s)"

definition two_factor_enabled :: "app_state \<Rightarrow> bool" where
  "two_factor_enabled st \<longleftrightarrow> normalized_totp_secret st \<noteq> None"

fun cookie_token :: "string list \<Rightarrow> string option" where
  "cookie_token [] = None"
| "cookie_token (cookie # cookies) =
     (case split_once (CHR ''='') (trim cookie) of
        None \<Rightarrow> None
      | Some (name, val) \<Rightarrow> if name = SESSION_COOKIE \<and> val \<noteq> [] then Some val else cookie_token cookies)"

definition session_token :: "string option \<Rightarrow> string option" where
  "session_token cookies = (case cookies of None \<Rightarrow> None | Some c \<Rightarrow> cookie_token (split_ch (CHR '';'') c))"

text \<open>A header value takes the visible bytes, the space and the tab, and every byte above 127.\<close>

definition HeaderValue_from_str :: "string \<Rightarrow> api_error + string" where
  "HeaderValue_from_str s =
     (if list_all (\<lambda>c. (0x20 \<le> byte_of_char c \<and> byte_of_char c \<noteq> 0x7F) \<or> byte_of_char c = 0x09) s then Inr s
      else Inl \<lparr>ae_status = StInternal, ae_message = ''failed to parse header value''\<rparr>)"

definition session_cookie :: "string \<Rightarrow> u64 \<Rightarrow> api_error + string" where
  "session_cookie token ttl_secs =
     HeaderValue_from_str
       (SESSION_COOKIE @ ''='' @ token @ ''; Path=/; Max-Age='' @ dec_string (unat ttl_secs) @ ''; HttpOnly; SameSite=Lax'')"

definition expired_session_cookie :: "api_error + string" where
  "expired_session_cookie = HeaderValue_from_str (SESSION_COOKIE @ ''=; Path=/; Max-Age=0; HttpOnly; SameSite=Lax'')"

text \<open>The user of a request, if it has a session; a session found expired is removed.\<close>

definition authenticated_username :: "int \<Rightarrow> string option \<Rightarrow> app_state \<Rightarrow> string option \<times> app_state" where
  "authenticated_username now cookies st =
     (case session_token cookies of
        None \<Rightarrow> (None, st)
      | Some token \<Rightarrow>
          (case map_of (app_web_sessions st) token of
             None \<Rightarrow> (None, st)
           | Some session \<Rightarrow>
               if ws_expires_at session < now
               then (None, st\<lparr>app_web_sessions := AList.delete token (app_web_sessions st)\<rparr>)
               else (Some (ws_username session), st)))"

definition require_auth :: "int \<Rightarrow> string option \<Rightarrow> app_state \<Rightarrow> (api_error + unit) \<times> app_state" where
  "require_auth now cookies st =
     (if \<not> wa_enabled (auth_config st) then (Inr (), st)
      else case authenticated_username now cookies st of
             (Some u, st1) \<Rightarrow> (Inr (), st1)
           | (None, st1) \<Rightarrow> (Inl \<lparr>ae_status = StUnauthorized, ae_message = ''unauthorized''\<rparr>, st1))"

record login_request =
  lg_username :: string
  lg_password :: string
  lg_otp_code :: "string option"

record login_response =
  lr_authenticated :: bool
  lr_requires_2fa :: bool
  lr_username :: "string option"
  lr_set_cookie :: "string option"

definition wrong_password :: api_error where
  "wrong_password = \<lparr>ae_status = StUnauthorized,
     ae_message = [CHR 0xE7, CHR 0x94, CHR 0xA8, CHR 0xE6, CHR 0x88, CHR 0xB7, CHR 0xE5, CHR 0x90, CHR 0x8D, CHR 0xE6, CHR 0x88, CHR 0x96,
       CHR 0xE5, CHR 0xAF, CHR 0x86, CHR 0xE7, CHR 0xA0, CHR 0x81, CHR 0xE9, CHR 0x94, CHR 0x99, CHR 0xE8, CHR 0xAF, CHR 0xAF]\<rparr>"

definition wrong_code :: api_error where
  "wrong_code = \<lparr>ae_status = StUnauthorized,
     ae_message = [CHR 0xE5, CHR 0x8A, CHR 0xA8, CHR 0xE6, CHR 0x80, CHR 0x81, CHR 0xE9, CHR 0xAA, CHR 0x8C, CHR 0xE8, CHR 0xAF, CHR 0x81,
       CHR 0xE7, CHR 0xA0, CHR 0x81, CHR 0xE9, CHR 0x94, CHR 0x99, CHR 0xE8, CHR 0xAF, CHR 0xAF]\<rparr>"

definition session_ttl :: "app_state \<Rightarrow> u64" where
  "session_ttl st = max (wa_session_ttl_secs (auth_config st)) 60"

text \<open>\<^verbatim>\<open>now_secs() + ttl as i64\<close>, in 64-bit arithmetic that wraps.\<close>

definition session_expiry :: "int \<Rightarrow> app_state \<Rightarrow> int" where
  "session_expiry now st = sint (of_int now + session_ttl st)"

text \<open>What the second factor says: nothing needed, a code is missing, or whether it is right.\<close>

definition second_factor :: "(bytes \<Rightarrow> bytes \<Rightarrow> string + bytes) \<Rightarrow> int \<Rightarrow> login_request \<Rightarrow> app_state \<Rightarrow> (api_error + bool) option" where
  "second_factor hmac now request st =
     (case normalized_totp_secret st of
        None \<Rightarrow> Some (Inr True)
      | Some secret \<Rightarrow>
          (case lg_otp_code request of
             None \<Rightarrow> None
           | Some c \<Rightarrow> if trim c = [] then None else Some (verify_totp hmac now secret (trim c))))"

definition login ::
  "(bytes \<Rightarrow> bytes \<Rightarrow> string + bytes) \<Rightarrow> int \<Rightarrow> string \<Rightarrow> login_request \<Rightarrow> app_state \<Rightarrow> (api_error + login_response) \<times> app_state" where
  "login hmac now token request st =
     (let auth = auth_config st
      in if \<not> wa_enabled auth
         then (Inr \<lparr>lr_authenticated = True, lr_requires_2fa = False, lr_username = Some (wa_username auth), lr_set_cookie = None\<rparr>, st)
         else if lg_username request \<noteq> wa_username auth \<or> lg_password request \<noteq> wa_password auth then (Inl wrong_password, st)
         else case second_factor hmac now request st of
                None \<Rightarrow>
                  (Inr \<lparr>lr_authenticated = False, lr_requires_2fa = True, lr_username = None, lr_set_cookie = None\<rparr>, st)
              | Some (Inl e) \<Rightarrow> (Inl e, st)
              | Some (Inr False) \<Rightarrow> (Inl wrong_code, st)
              | Some (Inr True) \<Rightarrow>
                  (let st1 = st\<lparr>app_web_sessions := AList.update token
                         \<lparr>ws_username = wa_username auth, ws_expires_at = session_expiry now st\<rparr> (app_web_sessions st)\<rparr>
                   in case session_cookie token (session_ttl st) of
                        Inl e \<Rightarrow> (Inl e, st1)
                      | Inr cookie \<Rightarrow>
                          (Inr \<lparr>lr_authenticated = True, lr_requires_2fa = False, lr_username = Some (wa_username auth),
                                lr_set_cookie = Some cookie\<rparr>, st1)))"

record auth_status_response =
  as_authenticated :: bool
  as_username :: "string option"
  as_two_factor_enabled :: bool

definition logout :: "string option \<Rightarrow> app_state \<Rightarrow> (api_error + string \<times> auth_status_response) \<times> app_state" where
  "logout cookies st =
     (let st1 = (case session_token cookies of
                   None \<Rightarrow> st
                 | Some token \<Rightarrow> st\<lparr>app_web_sessions := AList.delete token (app_web_sessions st)\<rparr>)
      in case expired_session_cookie of
           Inl e \<Rightarrow> (Inl e, st1)
         | Inr cookie \<Rightarrow>
             (Inr (cookie, \<lparr>as_authenticated = False, as_username = None, as_two_factor_enabled = two_factor_enabled st\<rparr>), st1))"

definition auth_status :: "int \<Rightarrow> string option \<Rightarrow> app_state \<Rightarrow> auth_status_response \<times> app_state" where
  "auth_status now cookies st =
     (case authenticated_username now cookies st of
        (username, st1) \<Rightarrow>
          (\<lparr>as_authenticated = (username \<noteq> None \<or> \<not> wa_enabled (auth_config st)), as_username = username,
            as_two_factor_enabled = two_factor_enabled st\<rparr>, st1))"

section \<open>Base32 as bits\<close>

text \<open>The reference: every letter is five bits, most significant first, and whole bytes of all the bits are the result.\<close>

definition bits5 :: "byte \<Rightarrow> bool list" where
  "bits5 v = map (bit v) [4, 3, 2, 1, 0]"

definition byte_of_bits :: "bool list \<Rightarrow> byte" where
  "byte_of_bits bs = horner_sum of_bool 2 (rev bs)"

function group8 :: "bool list \<Rightarrow> bytes" where
  "group8 bs = (if length bs < 8 then [] else byte_of_bits (take 8 bs) # group8 (drop 8 bs))"
  by pat_completeness auto
termination by (relation "measure length") auto

declare group8.simps [simp del]

fun base32_values :: "bytes \<Rightarrow> byte list option" where
  "base32_values [] = Some []"
| "base32_values (b # bs) =
     (if b = 0x3D then Some []
      else case base32_value b of
             None \<Rightarrow> None
           | Some v \<Rightarrow> map_option ((#) v) (base32_values bs))"

definition low_bits :: "u32 \<Rightarrow> nat \<Rightarrow> bool list" where
  "low_bits w n = map (bit w) (rev [0..<n])"

lemma base32_value_less: "base32_value b = Some v \<Longrightarrow> v < 32"
proof -
  assume "base32_value b = Some v"
  then have "unat v < 32"
    by (auto simp: base32_value_def word_le_nat_alt unat_sub unat_word_ariths split: if_splits)
  then show ?thesis by (simp add: word_less_nat_alt)
qed

lemma length_low_bits [simp]: "length (low_bits w n) = n"
  by (simp add: low_bits_def)

lemma low_bits_push:
  assumes "v < (32 :: byte)" and "n + 5 \<le> 32"
  shows "low_bits (push_bit 5 w OR ucast v) (n + 5) = low_bits w n @ bits5 v"
proof -
  have hi: "\<not> bit v i" if "5 \<le> i" for i
  proof -
    have "unat v < 2 ^ 5" using assms(1) by (simp add: word_less_nat_alt)
    then have "unat (take_bit 5 v) = unat v" by (simp only: unsigned_take_bit_eq take_bit_nat_eq_self)
    then have "take_bit 5 v = v" by (simp only: word_unat_eq_iff)
    then have "bit v i = bit (take_bit 5 v) i" by simp
    then show ?thesis using that by (simp add: bit_take_bit_iff)
  qed
  have b: "bit (push_bit 5 w OR ucast v) i = (if 5 \<le> i then bit w (i - 5) else bit v i)" if "i < 32" for i
    using that hi [of i] by (auto simp: bit_or_iff bit_push_bit_iff bit_ucast_iff)
  show ?thesis
  proof (rule nth_equalityI)
    show "length (low_bits (push_bit 5 w OR ucast v) (n + 5)) = length (low_bits w n @ bits5 v)" by (simp add: low_bits_def bits5_def)
    fix j
    assume j: "j < length (low_bits (push_bit 5 w OR ucast v) (n + 5))"
    then have j5: "j < n + 5" by (simp add: low_bits_def)
    have l: "low_bits (push_bit 5 w OR ucast v) (n + 5) ! j = bit (push_bit 5 w OR ucast v) (n + 4 - j)"
      using j5 by (simp add: low_bits_def rev_nth add.commute del: upt_Suc)
    show "low_bits (push_bit 5 w OR ucast v) (n + 5) ! j = (low_bits w n @ bits5 v) ! j"
    proof (cases "j < n")
      case True
      then have "5 \<le> n + 4 - j" "n + 4 - j - 5 = n - Suc j" by auto
      then show ?thesis using l b [of "n + 4 - j"] assms(2) True by (simp add: nth_append low_bits_def rev_nth)
    next
      case False
      then have "bits5 v ! (j - n) = bit v (4 - (j - n))" "n + 4 - j = 4 - (j - n)"
        using j5 by (auto simp: bits5_def less_Suc_eq numeral_eq_Suc nth_Cons')
      moreover have "\<not> 5 \<le> n + 4 - j" using False by simp
      ultimately show ?thesis using l b [of "n + 4 - j"] assms(2) False j5 by (simp add: nth_append)
    qed
  qed
qed

lemma mask8: "(0xff :: u32) = mask 8"
  by (simp add: mask_eq_exp_minus_1)

lemma low_bits_byte:
  assumes "8 \<le> n" "n \<le> 32"
  shows "byte_of_bits (take 8 (low_bits w n)) = ucast (drop_bit (n - 8) w AND 0xff)"
proof (rule bit_eqI)
  fix m assume "possible_bit TYPE(8 word) m"
  then have m: "m < 8" by simp
  have l: "length (take 8 (low_bits w n)) = 8" using assms by (simp add: low_bits_def)
  have "bit (byte_of_bits (take 8 (low_bits w n))) m = rev (take 8 (low_bits w n)) ! m"
    using m l by (simp add: byte_of_bits_def bit_horner_sum_bit_word_iff)
  also have "\<dots> = low_bits w n ! (7 - m)" using m l by (simp add: rev_nth)
  also have "\<dots> = bit w (n - 8 + m)"
    using m assms by (simp add: low_bits_def rev_nth)
  also have "\<dots> = bit (ucast (drop_bit (n - 8) w AND 0xff) :: byte) m"
    using m assms by (simp add: mask8 bit_simps)
  finally show "bit (byte_of_bits (take 8 (low_bits w n))) m = bit (ucast (drop_bit (n - 8) w AND 0xff) :: byte) m" .
qed

lemma low_bits_drop: "8 \<le> n \<Longrightarrow> drop 8 (low_bits w n) = low_bits w (n - 8)"
  by (simp add: low_bits_def drop_map drop_rev take_upt)

lemma group8_step:
  "8 \<le> n \<Longrightarrow> n \<le> 32 \<Longrightarrow>
   group8 (low_bits w n @ bs) = ucast (drop_bit (n - 8) w AND 0xff) # group8 (low_bits w (n - 8) @ bs)"
  by (subst group8.simps) (simp add: low_bits_byte low_bits_drop)

text \<open>What stays in the accumulator are its low \<open>bit_count\<close> bits, never a whole byte.\<close>

lemma base32_emit_exact:
  "n \<le> 32 \<Longrightarrow> base32_emit w n out = (m, out') \<Longrightarrow>
   m < 8 \<and> out' @ group8 (low_bits w m @ bs) = out @ group8 (low_bits w n @ bs)"
proof (induction w n out arbitrary: m out' rule: base32_emit.induct)
  case (1 w n out)
  show ?case
  proof (cases "8 \<le> n")
    case True
    then have "base32_emit w (n - 8) (out @ [ucast (drop_bit (n - 8) w AND 0xff)]) = (m, out')"
      using "1.prems" by (simp add: base32_emit.simps [of w n])
    then show ?thesis using "1.IH" [OF True, of m out'] "1.prems"(1) True by (simp add: group8_step)
  next
    case False
    then show ?thesis using "1.prems" by (simp add: base32_emit.simps [of w n])
  qed
qed

lemma base32_loop_exact:
  "n < 8 \<Longrightarrow>
   base32_loop bs w n out =
     (case base32_values bs of
        None \<Rightarrow> Inl invalid_secret
      | Some vs \<Rightarrow> Inr (out @ group8 (low_bits w n @ concat (map bits5 vs))))"
proof (induction bs w n out rule: base32_loop.induct)
  case (1 w n out)
  then show ?case by (simp add: group8.simps low_bits_def)
next
  case (2 b bs w n out)
  show ?case
  proof (cases "b = 0x3D")
    case True
    then show ?thesis using 2 by (simp add: group8.simps low_bits_def)
  next
    case False
    show ?thesis
    proof (cases "base32_value b")
      case None
      then show ?thesis using False by simp
    next
      case (Some v)
      define w1 where "w1 = push_bit 5 w OR ucast v"
      obtain m out1 where e: "base32_emit w1 (n + 5) out = (m, out1)" by force
      have m: "m < 8" and g: "out1 @ group8 (low_bits w1 m @ xs) = out @ group8 (low_bits w1 (n + 5) @ xs)" for xs
        using base32_emit_exact [OF _ e] "2.prems" by auto
      have lb: "low_bits w1 (n + 5) = low_bits w n @ bits5 v"
        using "2.prems" base32_value_less [OF Some] by (simp add: w1_def low_bits_push)
      have "base32_loop bs w1 m out1 = (case base32_values bs of None \<Rightarrow> Inl invalid_secret
          | Some vs \<Rightarrow> Inr (out1 @ group8 (low_bits w1 m @ concat (map bits5 vs))))"
        using "2.IH" [OF False Some w1_def e [symmetric] refl] m by simp
      then show ?thesis using False Some e
        by (simp add: w1_def [symmetric] g lb split: option.splits)
    qed
  qed
qed

text \<open>C38: the TOTP secret decoder, with its 32-bit accumulator that drops bits on the left and its counter,
  computes exactly the Base32 reference: up to the first padding character every byte must be a letter
  of either case or a digit from 2 to 7, the five-bit groups are joined most significant bit first, whole
  bytes are taken from the front and the remaining bits are dropped; a foreign character or an
  empty result is the error \<^verbatim>\<open>invalid totp secret\<close>.\<close>

theorem base32_exact:
  "decode_base32 input =
     (case base32_values (as_bytes input) of
        None \<Rightarrow> Inl invalid_secret
      | Some vs \<Rightarrow>
          let out = group8 (concat (map bits5 vs))
          in if out = [] then Inl invalid_secret else Inr out)"
  by (simp add: decode_base32_def base32_loop_exact [of 0] low_bits_def Let_def split: option.splits)


section \<open>Sessions against a specification\<close>

text \<open>
  The specification keeps, for every token, until when it was granted: a right login
  grants, a logout takes back, and asking changes nothing. The implementation also forgets a
  session when it finds it expired.
\<close>

datatype web_event =
    WLogin int string login_request
  | WLogout "string option"
  | WCheck int "string option"

primrec web_step :: "(bytes \<Rightarrow> bytes \<Rightarrow> string + bytes) \<Rightarrow> web_event \<Rightarrow> app_state \<Rightarrow> app_state" where
  "web_step hmac (WLogin now token request) st = snd (login hmac now token request st)"
| "web_step hmac (WLogout cookies) st = snd (logout cookies st)"
| "web_step hmac (WCheck now cookies) st = snd (require_auth now cookies st)"

definition login_right :: "(bytes \<Rightarrow> bytes \<Rightarrow> string + bytes) \<Rightarrow> int \<Rightarrow> login_request \<Rightarrow> app_state \<Rightarrow> bool" where
  "login_right hmac now request st \<longleftrightarrow>
     wa_enabled (auth_config st) \<and> lg_username request = wa_username (auth_config st) \<and>
     lg_password request = wa_password (auth_config st) \<and> second_factor hmac now request st = Some (Inr True)"

primrec grant_step ::
  "(bytes \<Rightarrow> bytes \<Rightarrow> string + bytes) \<Rightarrow> app_state \<Rightarrow> web_event \<Rightarrow> (string \<rightharpoonup> int) \<Rightarrow> (string \<rightharpoonup> int)" where
  "grant_step hmac st (WLogin now token request) granted =
     (if login_right hmac now request st then granted(token \<mapsto> session_expiry now st) else granted)"
| "grant_step hmac st (WLogout cookies) granted =
     (case session_token cookies of None \<Rightarrow> granted | Some token \<Rightarrow> granted(token := None))"
| "grant_step hmac st (WCheck now cookies) granted = granted"

primrec event_time :: "web_event \<Rightarrow> int option" where
  "event_time (WLogin now token request) = Some now"
| "event_time (WLogout cookies) = None"
| "event_time (WCheck now cookies) = Some now"

definition not_after :: "int \<Rightarrow> web_event list \<Rightarrow> bool" where
  "not_after now es \<longleftrightarrow> (\<forall>e\<in>set es. \<forall>t. event_time e = Some t \<longrightarrow> t \<le> now)"

text \<open>Everything a session decision reads of the state but the sessions is the configuration.\<close>

lemma web_auth_config_only:
  assumes "app_config st' = app_config st"
  shows "auth_config st' = auth_config st" "normalized_totp_secret st' = normalized_totp_secret st"
    "second_factor hmac now request st' = second_factor hmac now request st"
    "session_expiry now st' = session_expiry now st" "session_ttl st' = session_ttl st"
    "login_right hmac now request st' = login_right hmac now request st"
proof -
  show a: "auth_config st' = auth_config st" using assms by (simp add: auth_config_def)
  show b: "normalized_totp_secret st' = normalized_totp_secret st" using a by (simp add: normalized_totp_secret_def)
  show c: "second_factor hmac now request st' = second_factor hmac now request st" using b by (simp add: second_factor_def)
  show d: "session_ttl st' = session_ttl st" using a by (simp add: session_ttl_def)
  show "session_expiry now st' = session_expiry now st" using d by (simp add: session_expiry_def)
  show "login_right hmac now request st' = login_right hmac now request st" using a c by (simp add: login_right_def)
qed

lemma login_sessions:
  "app_web_sessions (snd (login hmac now token request st)) =
     (if login_right hmac now request st
      then AList.update token \<lparr>ws_username = wa_username (auth_config st), ws_expires_at = session_expiry now st\<rparr> (app_web_sessions st)
      else app_web_sessions st)"
  by (auto simp: login_def login_right_def Let_def split: option.splits sum.splits bool.splits)

lemma check_sessions:
  "app_web_sessions (snd (require_auth now cookies st)) = app_web_sessions st \<or>
   (\<exists>token session. session_token cookies = Some token \<and> map_of (app_web_sessions st) token = Some session \<and>
      ws_expires_at session < now \<and> app_web_sessions (snd (require_auth now cookies st)) = AList.delete token (app_web_sessions st))"
  by (auto simp: require_auth_def authenticated_username_def split: option.splits if_splits prod.splits)

lemma web_step_config [simp]: "app_config (web_step hmac e st) = app_config st"
  by (cases e) (auto simp: login_def logout_def require_auth_def authenticated_username_def Let_def
      split: option.splits sum.splits bool.splits prod.splits if_splits)

text \<open>The simulation at clock \<open>t\<close>: the implementation's sessions are granted ones, and it lacks only expired ones.\<close>

definition session_match :: "int \<Rightarrow> string \<Rightarrow> web_session option \<Rightarrow> int option \<Rightarrow> bool" where
  "session_match t user s g \<longleftrightarrow>
     (case s of
        Some s \<Rightarrow> g = Some (ws_expires_at s) \<and> ws_username s = user
      | None \<Rightarrow> (case g of None \<Rightarrow> True | Some e \<Rightarrow> e < t))"

definition sessions_match :: "int \<Rightarrow> app_state \<Rightarrow> (string \<rightharpoonup> int) \<Rightarrow> bool" where
  "sessions_match t st granted \<longleftrightarrow>
     (\<forall>token. session_match t (wa_username (auth_config st)) (map_of (app_web_sessions st) token) (granted token))"

lemma session_match_simps [simp]:
  "session_match t user None None"
  "session_match t user None (Some e) \<longleftrightarrow> e < t"
  "session_match t user (Some s) g \<longleftrightarrow> g = Some (ws_expires_at s) \<and> ws_username s = user"
  by (simp_all add: session_match_def)

lemma sessions_matchD:
  "sessions_match t st granted \<Longrightarrow>
   session_match t (wa_username (auth_config st)) (map_of (app_web_sessions st) token) (granted token)"
  by (simp add: sessions_match_def)

lemma sessions_match_step:
  assumes m: "sessions_match t st granted" and l: "\<And>u. event_time e = Some u \<Longrightarrow> u \<le> t"
  shows "sessions_match t (web_step hmac e st) (grant_step hmac st e granted)"
proof -
  have c: "auth_config (web_step hmac e st) = auth_config st" by (rule web_auth_config_only(1)) simp
  have "session_match t (wa_username (auth_config st)) (map_of (app_web_sessions (web_step hmac e st)) token)
      (grant_step hmac st e granted token)" for token
  proof (cases e)
    case (WLogin now tok request)
    then show ?thesis using sessions_matchD [OF m, of token] by (simp add: login_sessions update_conv)
  next
    case (WLogout cookies)
    then show ?thesis using sessions_matchD [OF m, of token]
      by (simp add: logout_def Let_def delete_conv split: option.split sum.split)
  next
    case (WCheck now cookies)
    then have le: "now \<le> t" using l by simp
    from check_sessions [of now cookies st] show ?thesis
    proof (elim disjE exE conjE, goal_cases)
      case 1
      then show ?case using WCheck sessions_matchD [OF m, of token] by simp
    next
      case (2 tok s)
      then show ?case using WCheck le sessions_matchD [OF m, of token] by (cases "token = tok") (simp_all add: delete_conv)
    qed
  qed
  then show ?thesis by (simp add: sessions_match_def c)
qed

lemma sessions_match_fold:
  "not_after t es \<Longrightarrow> app_config st = app_config st0 \<Longrightarrow> sessions_match t st granted \<Longrightarrow>
   sessions_match t (fold (web_step hmac) es st) (fold (grant_step hmac st0) es granted)"
proof (induction es arbitrary: st granted)
  case Nil
  then show ?case by simp
next
  case (Cons e es)
  have g: "grant_step hmac st0 e granted = grant_step hmac st e granted"
    using Cons.prems(2) by (cases e) (simp_all add: web_auth_config_only [of st st0] split: option.split)
  have "sessions_match t (web_step hmac e st) (grant_step hmac st e granted)"
    using Cons.prems by (intro sessions_match_step) (auto simp: not_after_def)
  then show ?case using Cons by (simp add: g not_after_def)
qed

lemma fold_web_step_config: "app_config (fold (web_step hmac) es st) = app_config st"
  by (induction es arbitrary: st) simp_all

lemma authenticated_match:
  assumes "sessions_match now st granted" and "session_token cookies = Some token"
  shows "fst (authenticated_username now cookies st) =
     (case granted token of
        None \<Rightarrow> None
      | Some e \<Rightarrow> if now \<le> e then Some (wa_username (auth_config st)) else None)"
  using sessions_matchD [OF assms(1), of token] assms(2)
  by (cases "map_of (app_web_sessions st) token"; cases "granted token") (auto simp: authenticated_username_def)

text \<open>C12: the session store implements the specification of granted sessions. After any history of
  logins, logouts and requests on a controller that starts with no session, none of them later than
  the present, a request is answered as the configured user exactly if its cookie's token was granted by a
  login with the right name, password and second factor, was not taken back by a logout since, and its
  time is not over; without a token it is answered as nobody. With authentication on, the
  guard of the handlers lets exactly these requests pass. Forgetting expired sessions is not observable.\<close>

theorem sessions_refine_grants:
  assumes "app_web_sessions st0 = []" and "not_after now es"
    and "st = fold (web_step hmac) es st0" and "granted = fold (grant_step hmac st0) es (\<lambda>_. None)"
  shows "fst (authenticated_username now cookies st) =
       (case session_token cookies of
          None \<Rightarrow> None
        | Some token \<Rightarrow>
            (case granted token of
               None \<Rightarrow> None
             | Some e \<Rightarrow> if now \<le> e then Some (wa_username (auth_config st0)) else None))
     \<and> (wa_enabled (auth_config st0) \<longrightarrow>
          (fst (require_auth now cookies st) = Inr () \<longleftrightarrow>
             (\<exists>token e. session_token cookies = Some token \<and> granted token = Some e \<and> now \<le> e)))"
proof -
  have c: "auth_config st = auth_config st0" unfolding assms(3) by (rule web_auth_config_only(1)) (rule fold_web_step_config)
  have "sessions_match now st0 (\<lambda>_. None)" using assms(1) by (simp add: sessions_match_def)
  then have m: "sessions_match now st granted" using assms(2-4) by (simp add: sessions_match_fold)
  have f: "fst (authenticated_username now cookies st) =
       (case session_token cookies of
          None \<Rightarrow> None
        | Some token \<Rightarrow>
            (case granted token of
               None \<Rightarrow> None
             | Some e \<Rightarrow> if now \<le> e then Some (wa_username (auth_config st0)) else None))"
  proof (cases "session_token cookies")
    case None
    then show ?thesis by (simp add: authenticated_username_def)
  next
    case (Some token)
    then show ?thesis unfolding authenticated_match [OF m Some] c by simp
  qed
  have r: "wa_enabled (auth_config st) \<Longrightarrow>
      fst (require_auth now cookies st) = Inr () \<longleftrightarrow> fst (authenticated_username now cookies st) \<noteq> None"
    by (simp add: require_auth_def split: prod.split option.split)
  show ?thesis using f r c by (auto split: option.splits if_splits)
qed


text \<open>An hour's session of the default account: it is accepted until its expiry, not after a logout.\<close>

definition demo_web_state :: app_state where
  "demo_web_state = demo_state\<lparr>app_config := demo_config\<lparr>server := (server demo_config)\<lparr>web_auth :=
     \<lparr>wa_enabled = True, wa_username = ''admin'', wa_password = ''pw'', wa_totp_secret = None, wa_session_ttl_secs = 3600\<rparr>\<rparr>\<rparr>\<rparr>"

definition demo_login :: login_request where
  "demo_login = \<lparr>lg_username = ''admin'', lg_password = ''pw'', lg_otp_code = None\<rparr>"

definition demo_cookie :: "string option" where
  "demo_cookie = Some ''theme=dark; rps_session=t1''"

definition no_hmac :: "bytes \<Rightarrow> bytes \<Rightarrow> string + bytes" where
  "no_hmac key msg = Inl ''unused''"

definition demo_history1 :: "web_event list" where
  "demo_history1 = [WLogin 1000 ''t1'' demo_login, WLogin 2000 ''t2'' demo_login, WLogout (Some ''rps_session=t2'')]"

definition demo_history2 :: "web_event list" where
  "demo_history2 = [WLogin 1000 ''t1'' demo_login, WCheck 4601 demo_cookie]"

theorem sessions_refine_grants_witness:
  "fst (authenticated_username 4000 demo_cookie (fold (web_step no_hmac) demo_history1 demo_web_state)) = Some ''admin''
   \<and> fst (require_auth 4601 demo_cookie (fold (web_step no_hmac) demo_history2 demo_web_state)) \<noteq> Inr ()"
proof -
  have n: "app_web_sessions demo_web_state = []" by (simp add: demo_web_state_def demo_state_def AppState_new_def)
  have e: "not_after 4000 demo_history1" "not_after 4601 demo_history2"
    by (simp_all add: not_after_def demo_history1_def demo_history2_def)
  have g: "fold (grant_step no_hmac demo_web_state) demo_history1 (\<lambda>_. None) ''t1'' = Some 4600"
      "fold (grant_step no_hmac demo_web_state) demo_history2 (\<lambda>_. None) ''t1'' = Some 4600" by code_simp+
  have t: "session_token demo_cookie = Some ''t1''" by code_simp
  have u: "wa_username (auth_config demo_web_state) = ''admin''" "wa_enabled (auth_config demo_web_state)"
    by (simp_all add: auth_config_def demo_web_state_def)
  show ?thesis
    using sessions_refine_grants [OF n e(1) refl refl, of demo_cookie no_hmac]
      sessions_refine_grants [OF n e(2) refl refl, of demo_cookie no_hmac]
    by (simp add: t g u)
qed

section \<open>Cookies\<close>

text \<open>The cookie a login sets is the one the guard reads back.\<close>

lemma session_cookie_read_back:
  assumes "token \<noteq> []" and "\<And>c. c \<in> set token \<Longrightarrow> graphic c \<and> c \<noteq> CHR '';''"
  shows "session_token (Some (SESSION_COOKIE @ ''='' @ token)) = Some token"
proof -
  have "split_ch (CHR '';'') (SESSION_COOKIE @ ''='' @ token) = [SESSION_COOKIE @ ''='' @ token]"
    using assms(2) by (intro split_ch_no_sep) (auto simp: SESSION_COOKIE_def)
  moreover have "trim (SESSION_COOKIE @ ''='' @ token) = SESSION_COOKIE @ ''='' @ token"
    using assms by (intro trim_graphic_ends) (auto simp: SESSION_COOKIE_def graphic_def byte_of_char_def)
  ultimately show ?thesis using assms(1) by (simp add: session_token_def SESSION_COOKIE_def)
qed

section \<open>Two corner cases\<close>

text \<open>A cookie without \<^verbatim>\<open>=\<close> before the session's hides the session.\<close>

lemma bare_cookie_hides_session:
  "session_token (Some ''consent; rps_session=t1'') = None" "session_token (Some ''rps_session=t1; consent'') = Some ''t1''"
  by code_simp+

text \<open>A life time of \<^verbatim>\<open>u64::MAX\<close> seconds, converted to a signed number, is over before the login returns.\<close>

lemma longest_session_is_over:
  "wa_session_ttl_secs (auth_config st) = - 1 \<Longrightarrow> session_expiry 1000 st = 999"
proof -
  assume "wa_session_ttl_secs (auth_config st) = - 1"
  then have "session_ttl st = - 1" by (simp add: session_ttl_def max_absorb1)
  then show ?thesis by (simp add: session_expiry_def)
qed

end
