(* ===== verification/Web_Api.thy ===== *)
theory Web_Api
  imports Web_Auth
begin

text \<open>
  The console's API, \<^verbatim>\<open>crates/rps-controller/src/web.rs\<close>: the route table, the handlers that
  read and change clients, tunnels and proxy accounts, and the event stream. A request's body
  and query are decoded values. \<open>q\<close> tells which statements of the handler succeed, in
  their order, \<open>fresh\<close> gives the random UUIDs, \<open>bind\<close> whether a listener can be bound,
  and \<open>now\<close> is the clock, read once per handler.
\<close>

section \<open>Requests and responses\<close>

record status_response =
  sr_bridge_addr :: string
  sr_web_addr :: string
  sr_online_clients :: nat
  sr_configured_clients :: nat
  sr_enabled_tunnels :: nat
  sr_http_proxy_enabled :: bool
  sr_socks5_enabled :: bool

record client_response = db_client +
  cr_online :: bool
  cr_rx_bytes :: u64
  cr_tx_bytes :: u64

record tunnel_response = db_tunnel +
  tr_active_connections :: u64

record proxy_account_response = db_proxy_account +
  ar_active_connections :: nat

record proxy_response =
  pr_http_proxy :: "proxy_listen_config option"
  pr_socks5 :: "proxy_listen_config option"

record console_data_response =
  cd_status :: status_response
  cd_clients :: "client_response list"
  cd_tunnels :: "tunnel_response list"
  cd_proxy :: proxy_response
  cd_proxy_accounts :: "proxy_account_response list"

record create_client_request =
  cq_psk :: "string option"
  cq_enabled :: "bool option"
  cq_remark :: "string option"
  cq_max_connections :: "u32 option"
  cq_compress :: bool
  cq_encrypt :: bool

record update_client_request =
  uq_psk :: string
  uq_enabled :: bool
  uq_remark :: "string option"

record create_tunnel_request =
  tq_id :: "string option"
  tq_client_id :: string
  tq_mode :: tunnel_mode
  tq_listen :: string
  tq_target :: "string option"
  tq_enabled :: "bool option"
  tq_expires_at :: "int option"
  tq_traffic_limit_bytes :: "u64 option"

text \<open>The fields of \<^verbatim>\<open>UpdateTunnelRequest\<close> and \<^verbatim>\<open>UpdateProxyAccountRequest\<close> are those of the database's records.\<close>

type_synonym update_tunnel_request = tunnel_fields
type_synonym update_proxy_account_request = account_fields

record create_proxy_account_request =
  aq_kind :: string
  aq_client_id :: string
  aq_username :: "string option"
  aq_password :: "string option"
  aq_enabled :: "bool option"
  aq_remark :: "string option"
  aq_expires_at :: "int option"
  aq_traffic_limit_bytes :: "u64 option"

section \<open>Helpers\<close>

definition api_error_of :: "status_code \<Rightarrow> string \<Rightarrow> api_error" where
  "api_error_of status message = \<lparr>ae_status = status, ae_message = message\<rparr>"

definition not_found :: "string \<Rightarrow> string \<Rightarrow> api_error" where
  "not_found what i = api_error_of StNotFound (what @ '' '' @ i @ '' not found'')"

definition nonblank :: "string option \<Rightarrow> string option" where
  "nonblank v = (case v of None \<Rightarrow> None | Some s \<Rightarrow> if trim s = [] then None else Some s)"

definition unwrap_or :: "'a \<Rightarrow> 'a option \<Rightarrow> 'a" where
  "unwrap_or d v = (case v of None \<Rightarrow> d | Some x \<Rightarrow> x)"

text \<open>The statements that are left after the first \<open>n\<close>.\<close>

definition later :: "nat \<Rightarrow> stmts \<Rightarrow> stmts" where
  "later n q = (\<lambda>i. q (i + n))"

definition uuid_simple :: "string \<Rightarrow> string" where
  "uuid_simple u = filter (\<lambda>c. c \<noteq> CHR ''-'') u"

definition random_proxy_secret :: "string \<Rightarrow> string" where
  "random_proxy_secret uuid = take 12 (uuid_simple uuid)"

definition random_psk :: "string \<Rightarrow> string \<Rightarrow> string" where
  "random_psk u v = uuid_simple u @ uuid_simple v"

text \<open>A handler that starts with \<^verbatim>\<open>require_auth(&headers, &state)?\<close>.\<close>

definition guarded ::
  "int \<Rightarrow> string option \<Rightarrow> (app_state \<Rightarrow> (api_error + 'a) \<times> app_state) \<Rightarrow> app_state \<Rightarrow> (api_error + 'a) \<times> app_state" where
  "guarded now cookies h st =
     (case require_auth now cookies st of
        (Inl e, st1) \<Rightarrow> (Inl e, st1)
      | (Inr _, st1) \<Rightarrow> h st1)"

definition api_result :: "(error + 'a) \<Rightarrow> api_error + 'a" where
  "api_result r = (case r of Inl e \<Rightarrow> Inl (ApiError_from e) | Inr x \<Rightarrow> Inr x)"

section \<open>Reading\<close>

definition status_response_of :: "stmts \<Rightarrow> app_state \<Rightarrow> error + status_response" where
  "status_response_of q st =
     (case count_clients q (app_db st) of
        Inl e \<Rightarrow> Inl e
      | Inr configured \<Rightarrow>
          (case count_enabled_tunnels (later 1 q) (app_db st) of
             Inl e \<Rightarrow> Inl e
           | Inr enabled \<Rightarrow>
               Inr \<lparr>sr_bridge_addr = bridge_addr (server (app_config st)), sr_web_addr = web_addr (server (app_config st)),
                    sr_online_clients = length (app_clients st), sr_configured_clients = configured,
                    sr_enabled_tunnels = enabled,
                    sr_http_proxy_enabled = (case http_proxy (server (app_config st)) of None \<Rightarrow> False | Some p \<Rightarrow> pl_enabled p),
                    sr_socks5_enabled = (case socks5 (server (app_config st)) of None \<Rightarrow> False | Some p \<Rightarrow> pl_enabled p)\<rparr>))"

definition tunnel_response_of :: "app_state \<Rightarrow> db_tunnel \<Rightarrow> tunnel_response" where
  "tunnel_response_of st t =
     db_tunnel.extend t (tunnel_response.fields (active_count (tn_id t) (app_tunnels st)))"

definition client_response_of :: "stmts \<Rightarrow> app_state \<Rightarrow> db_client \<Rightarrow> error + client_response" where
  "client_response_of q st c =
     (case get_traffic_counter q ''client'' (cl_id c) (app_db st) of
        Inl e \<Rightarrow> Inl e
      | Inr traffic \<Rightarrow>
          Inr (db_client.extend c (client_response.fields (map_of (app_clients st) (cl_id c) \<noteq> None) (rx_bytes traffic) (tx_bytes traffic))))"

definition proxy_account_response_of :: "app_state \<Rightarrow> db_proxy_account \<Rightarrow> proxy_account_response" where
  "proxy_account_response_of st a =
     db_proxy_account.extend a (proxy_account_response.fields (proxy_active_count (pa_id a) (app_proxies st)))"

text \<open>The loop over the clients, one statement each.\<close>

fun client_responses :: "stmts \<Rightarrow> app_state \<Rightarrow> db_client list \<Rightarrow> error + client_response list" where
  "client_responses q st [] = Inr []"
| "client_responses q st (c # cs) =
     (case client_response_of q st c of
        Inl e \<Rightarrow> Inl e
      | Inr r \<Rightarrow> (case client_responses (later 1 q) st cs of Inl e \<Rightarrow> Inl e | Inr rs \<Rightarrow> Inr (r # rs)))"

definition proxy_response_of :: "stmts \<Rightarrow> app_state \<Rightarrow> error + proxy_response" where
  "proxy_response_of q st =
     (case get_proxy q ''http'' (app_db st) of
        Inl e \<Rightarrow> Inl e
      | Inr h \<Rightarrow>
          (case get_proxy (later 1 q) ''socks5'' (app_db st) of
             Inl e \<Rightarrow> Inl e
           | Inr s \<Rightarrow> Inr \<lparr>pr_http_proxy = h, pr_socks5 = s\<rparr>))"

definition console_data_response_of :: "stmts \<Rightarrow> app_state \<Rightarrow> error + console_data_response" where
  "console_data_response_of q st =
     (case list_clients q (app_db st) of
        Inl e \<Rightarrow> Inl e
      | Inr cs \<Rightarrow>
          (case client_responses (later 1 q) st cs of
             Inl e \<Rightarrow> Inl e
           | Inr crs \<Rightarrow>
               let q1 = later (1 + length cs) q
               in (case list_tunnels q1 (app_db st) of
                     Inl e \<Rightarrow> Inl e
                   | Inr ts \<Rightarrow>
                       (case list_proxy_accounts (later 1 q1) None (app_db st) of
                          Inl e \<Rightarrow> Inl e
                        | Inr as \<Rightarrow>
                            (case status_response_of (later 2 q1) st of
                               Inl e \<Rightarrow> Inl e
                             | Inr status \<Rightarrow>
                                 (case proxy_response_of (later 4 q1) st of
                                    Inl e \<Rightarrow> Inl e
                                  | Inr p \<Rightarrow>
                                      Inr \<lparr>cd_status = status, cd_clients = crs, cd_tunnels = map (tunnel_response_of st) ts,
                                           cd_proxy = p, cd_proxy_accounts = map (proxy_account_response_of st) as\<rparr>))))))"

definition web_status :: "int \<Rightarrow> string option \<Rightarrow> stmts \<Rightarrow> app_state \<Rightarrow> (api_error + status_response) \<times> app_state" where
  "web_status now cookies q = guarded now cookies (\<lambda>st. (api_result (status_response_of q st), st))"

definition web_clients :: "int \<Rightarrow> string option \<Rightarrow> stmts \<Rightarrow> app_state \<Rightarrow> (api_error + client_response list) \<times> app_state" where
  "web_clients now cookies q = guarded now cookies (\<lambda>st.
     case list_clients q (app_db st) of
       Inl e \<Rightarrow> (Inl (ApiError_from e), st)
     | Inr cs \<Rightarrow> (api_result (client_responses (later 1 q) st cs), st))"

definition web_tunnels :: "int \<Rightarrow> string option \<Rightarrow> stmts \<Rightarrow> app_state \<Rightarrow> (api_error + tunnel_response list) \<times> app_state" where
  "web_tunnels now cookies q = guarded now cookies (\<lambda>st.
     case list_tunnels q (app_db st) of
       Inl e \<Rightarrow> (Inl (ApiError_from e), st)
     | Inr ts \<Rightarrow> (Inr (map (tunnel_response_of st) ts), st))"

definition web_proxy :: "int \<Rightarrow> string option \<Rightarrow> stmts \<Rightarrow> app_state \<Rightarrow> (api_error + proxy_response) \<times> app_state" where
  "web_proxy now cookies q = guarded now cookies (\<lambda>st. (api_result (proxy_response_of q st), st))"

definition web_proxy_accounts ::
  "int \<Rightarrow> string option \<Rightarrow> stmts \<Rightarrow> string option \<Rightarrow> app_state \<Rightarrow> (api_error + proxy_account_response list) \<times> app_state" where
  "web_proxy_accounts now cookies q kind = guarded now cookies (\<lambda>st.
     case list_proxy_accounts q kind (app_db st) of
       Inl e \<Rightarrow> (Inl (ApiError_from e), st)
     | Inr as \<Rightarrow> (Inr (map (proxy_account_response_of st) as), st))"

section \<open>The event stream\<close>

datatype sse_event = Snapshot string | StreamError string | AuthExpired

definition events_tick ::
  "(console_data_response \<Rightarrow> string + string) \<Rightarrow> int \<Rightarrow> string option \<Rightarrow> stmts \<Rightarrow> app_state \<Rightarrow> sse_event \<times> app_state" where
  "events_tick to_json now cookies q st =
     (case require_auth now cookies st of
        (Inl _, st1) \<Rightarrow> (AuthExpired, st1)
      | (Inr _, st1) \<Rightarrow>
          (case console_data_response_of q st1 of
             Inl e \<Rightarrow> (StreamError (err_string e), st1)
           | Inr d \<Rightarrow> (case to_json d of Inr json \<Rightarrow> (Snapshot json, st1) | Inl e \<Rightarrow> (StreamError e, st1))))"

text \<open>The loop of the stream: each tick finds the state the rest of the controller has left.\<close>

fun events_stream ::
  "(console_data_response \<Rightarrow> string + string) \<Rightarrow> string option \<Rightarrow> (int \<times> stmts \<times> app_state) list \<Rightarrow> sse_event list" where
  "events_stream to_json cookies [] = []"
| "events_stream to_json cookies ((now, q, st) # ticks) =
     (case events_tick to_json now cookies q st of
        (AuthExpired, _) \<Rightarrow> [AuthExpired]
      | (ev, _) \<Rightarrow> ev # events_stream to_json cookies ticks)"

definition events :: "int \<Rightarrow> string option \<Rightarrow> app_state \<Rightarrow> (api_error + unit) \<times> app_state" where
  "events now cookies = guarded now cookies (\<lambda>st. (Inr (), st))"

section \<open>Clients\<close>

definition web_create_client ::
  "int \<Rightarrow> string option \<Rightarrow> stmts \<Rightarrow> (nat \<Rightarrow> string) \<Rightarrow> create_client_request \<Rightarrow> app_state
     \<Rightarrow> (api_error + status_code \<times> client_response) \<times> app_state" where
  "web_create_client now cookies q fresh request = guarded now cookies (\<lambda>st.
     case create_client q now
            \<lparr>cl_psk = unwrap_or (random_psk (fresh 1) (fresh 2)) (nonblank (cq_psk request)),
             cl_enabled = unwrap_or True (cq_enabled request), cl_remark = nonblank (cq_remark request),
             cl_max_connections = cq_max_connections request, cl_compress = cq_compress request,
             cl_encrypt = cq_encrypt request, cl_id = fresh 0\<rparr> (app_db st) of
       (Inl e, db1) \<Rightarrow> (Inl (ApiError_from e), st\<lparr>app_db := db1\<rparr>)
     | (Inr client, db1) \<Rightarrow>
         let st1 = st\<lparr>app_db := db1\<rparr>
         in (case client_response_of (later 2 q) st1 client of
               Inl e \<Rightarrow> (Inl (ApiError_from e), st1)
             | Inr r \<Rightarrow> (Inr (StCreated, r), st1)))"

definition web_update_client ::
  "int \<Rightarrow> string option \<Rightarrow> stmts \<Rightarrow> string \<Rightarrow> update_client_request \<Rightarrow> app_state
     \<Rightarrow> (api_error + client_response) \<times> app_state" where
  "web_update_client now cookies q cid request = guarded now cookies (\<lambda>st.
     case get_client q cid (app_db st) of
       Inl e \<Rightarrow> (Inl (ApiError_from e), st)
     | Inr None \<Rightarrow> (Inl (not_found ''client'' cid), st)
     | Inr (Some old) \<Rightarrow>
         let psk = trim (uq_psk request)
         in if psk = [] then (Inl (api_error_of StBadRequest ''psk is required''), st)
            else case update_client (later 1 q) now cid
                        \<lparr>cl_psk = psk, cl_enabled = uq_enabled request, cl_remark = nonblank (uq_remark request),
                         cl_max_connections = cl_max_connections old, cl_compress = cl_compress old,
                         cl_encrypt = cl_encrypt old\<rparr> (app_db st) of
                   (Inl e, db1) \<Rightarrow> (Inl (ApiError_from e), st\<lparr>app_db := db1\<rparr>)
                 | (Inr None, db1) \<Rightarrow> (Inl (not_found ''client'' cid), st\<lparr>app_db := db1\<rparr>)
                 | (Inr (Some client), db1) \<Rightarrow>
                     let st1 = st\<lparr>app_db := db1\<rparr>;
                         st2 = (if \<not> cl_enabled client \<or> cl_psk client \<noteq> cl_psk old
                                then st1\<lparr>app_clients := AList.delete cid (app_clients st1)\<rparr> else st1)
                     in (api_result (client_response_of (later 3 q) st2 client), st2))"

definition web_delete_client ::
  "int \<Rightarrow> string option \<Rightarrow> stmts \<Rightarrow> string \<Rightarrow> app_state \<Rightarrow> (api_error + status_code) \<times> app_state" where
  "web_delete_client now cookies q cid = guarded now cookies (\<lambda>st.
     if map_of (app_clients st) cid \<noteq> None
     then (Inl (api_error_of StConflict ''client is online, stop agent before deleting it''), st)
     else case client_reference_count q cid (app_db st) of
            Inl e \<Rightarrow> (Inl (ApiError_from e), st)
          | Inr n \<Rightarrow>
              if n > 0
              then (Inl (api_error_of StConflict
                      (''client is still referenced by '' @ dec_string n @ '' tunnel/proxy config(s)'')), st)
              else case delete_client (later 3 q) cid (app_db st) of
                     (Inl e, db1) \<Rightarrow> (Inl (ApiError_from e), st\<lparr>app_db := db1\<rparr>)
                   | (Inr deleted, db1) \<Rightarrow>
                       (if \<not> deleted then Inl (not_found ''client'' cid) else Inr StNoContent, st\<lparr>app_db := db1\<rparr>))"

section \<open>Tunnels\<close>

definition web_create_tunnel ::
  "(tunnel_mode \<Rightarrow> string \<Rightarrow> bool) \<Rightarrow> int \<Rightarrow> string option \<Rightarrow> stmts \<Rightarrow> (nat \<Rightarrow> string) \<Rightarrow> create_tunnel_request \<Rightarrow> app_state
     \<Rightarrow> (api_error + status_code \<times> tunnel_response) \<times> app_state" where
  "web_create_tunnel bind now cookies q fresh request = guarded now cookies (\<lambda>st.
     case get_client q (tq_client_id request) (app_db st) of
       Inl e \<Rightarrow> (Inl (ApiError_from e), st)
     | Inr None \<Rightarrow> (Inl (api_error_of StBadRequest (''client '' @ tq_client_id request @ '' not found'')), st)
     | Inr (Some _) \<Rightarrow>
         (case nonblank (tq_target request) of
            None \<Rightarrow> (Inl (api_error_of StBadRequest ''target is required''), st)
          | Some target \<Rightarrow>
              (case create_tunnel (later 1 q) now
                      \<lparr>tn_client_id = tq_client_id request, tn_mode = tq_mode request, tn_listen = tq_listen request,
                       tn_target = Some target, tn_enabled = unwrap_or True (tq_enabled request),
                       tn_expires_at = tq_expires_at request, tn_traffic_limit_bytes = tq_traffic_limit_bytes request,
                       tn_id = unwrap_or (fresh 0) (nonblank (tq_id request))\<rparr> (app_db st) of
                 (Inl e, db1) \<Rightarrow> (Inl (ApiError_from e), st\<lparr>app_db := db1\<rparr>)
               | (Inr tunnel, db1) \<Rightarrow>
                   let st1 = st\<lparr>app_db := db1,
                       app_policy := register_policy (tunnel_key (tn_id tunnel)) (tn_expires_at tunnel)
                         (tn_traffic_limit_bytes tunnel) (sat_add (tn_rx_bytes tunnel) (tn_tx_bytes tunnel)) (app_policy st)\<rparr>
                   in if tn_enabled tunnel
                      then case start_tunnel bind now (tunnel_config_from_db tunnel) (app_policy st1) (app_tunnels st1) of
                             (Inl err, e2, m2) \<Rightarrow>
                               (Inl (ApiError_from err),
                                st1\<lparr>app_db := snd (delete_tunnel (later 3 q) (tn_id tunnel) db1),
                                    app_policy := remove_policy (tunnel_key (tn_id tunnel)) e2, app_tunnels := m2\<rparr>)
                           | (Inr _, e2, m2) \<Rightarrow>
                               (let st2 = st1\<lparr>app_policy := e2, app_tunnels := m2\<rparr>
                                in (Inr (StCreated, tunnel_response_of st2 tunnel), st2))
                      else (Inr (StCreated, tunnel_response_of st1 tunnel), st1))))"

definition web_update_tunnel ::
  "(tunnel_mode \<Rightarrow> string \<Rightarrow> bool) \<Rightarrow> int \<Rightarrow> string option \<Rightarrow> stmts \<Rightarrow> string \<Rightarrow> update_tunnel_request \<Rightarrow> app_state
     \<Rightarrow> (api_error + tunnel_response) \<times> app_state" where
  "web_update_tunnel bind now cookies q tid request = guarded now cookies (\<lambda>st.
     case get_tunnel q tid (app_db st) of
       Inl e \<Rightarrow> (Inl (ApiError_from e), st)
     | Inr None \<Rightarrow> (Inl (not_found ''tunnel'' tid), st)
     | Inr (Some _) \<Rightarrow>
     (case get_client (later 1 q) (tn_client_id request) (app_db st) of
       Inl e \<Rightarrow> (Inl (ApiError_from e), st)
     | Inr None \<Rightarrow> (Inl (api_error_of StBadRequest (''client '' @ tn_client_id request @ '' not found'')), st)
     | Inr (Some _) \<Rightarrow>
     (case nonblank (tn_target request) of
       None \<Rightarrow> (Inl (api_error_of StBadRequest ''target is required''), st)
     | Some target \<Rightarrow>
     (case update_tunnel (later 2 q) now tid (request\<lparr>tn_target := Some target\<rparr>) (app_db st) of
       (Inl e, db1) \<Rightarrow> (Inl (ApiError_from e), st\<lparr>app_db := db1\<rparr>)
     | (Inr None, db1) \<Rightarrow> (Inl (not_found ''tunnel'' tid), st\<lparr>app_db := db1\<rparr>)
     | (Inr (Some tunnel), db1) \<Rightarrow>
         let m1 = snd (stop_tunnel tid (app_tunnels st)); key = tunnel_key (tn_id tunnel);
             finish = (\<lambda>st2 n. case get_tunnel (later n q) tid (app_db st2) of
                 Inl e \<Rightarrow> (Inl (ApiError_from e), st2)
               | Inr t \<Rightarrow> (Inr (tunnel_response_of st2 (unwrap_or tunnel t)), st2))
         in if tn_enabled tunnel
            then let e1 = register_policy key (tn_expires_at tunnel) (tn_traffic_limit_bytes tunnel)
                            (sat_add (tn_rx_bytes tunnel) (tn_tx_bytes tunnel)) (app_policy st)
                 in case start_tunnel bind now (tunnel_config_from_db tunnel) e1 m1 of
                      (Inl err, e2, m2) \<Rightarrow>
                        (Inl (ApiError_from err),
                         st\<lparr>app_db := snd (disable_tunnel (later 4 q) now (tn_id tunnel) ''start_failed'' db1),
                            app_policy := remove_policy key e2, app_tunnels := m2\<rparr>)
                    | (Inr _, e2, m2) \<Rightarrow> finish (st\<lparr>app_db := db1, app_policy := e2, app_tunnels := m2\<rparr>) 4
            else finish (st\<lparr>app_db := db1, app_policy := remove_policy key (app_policy st), app_tunnels := m1\<rparr>) 4))))"

definition web_delete_tunnel ::
  "int \<Rightarrow> string option \<Rightarrow> stmts \<Rightarrow> string \<Rightarrow> app_state \<Rightarrow> (api_error + status_code) \<times> app_state" where
  "web_delete_tunnel now cookies q tid = guarded now cookies (\<lambda>st.
     case delete_tunnel q tid (app_db st) of
       (Inl e, db1) \<Rightarrow> (Inl (ApiError_from e), st\<lparr>app_db := db1\<rparr>)
     | (Inr deleted, db1) \<Rightarrow>
         if \<not> deleted then (Inl (not_found ''tunnel'' tid), st\<lparr>app_db := db1\<rparr>)
         else (Inr StNoContent,
               st\<lparr>app_db := db1, app_tunnels := snd (stop_tunnel tid (app_tunnels st)),
                  app_policy := remove_policy (tunnel_key tid) (app_policy st)\<rparr>))"

section \<open>Proxy accounts\<close>

definition web_create_proxy_account ::
  "int \<Rightarrow> string option \<Rightarrow> stmts \<Rightarrow> (nat \<Rightarrow> string) \<Rightarrow> create_proxy_account_request \<Rightarrow> app_state
     \<Rightarrow> (api_error + status_code \<times> proxy_account_response) \<times> app_state" where
  "web_create_proxy_account now cookies q fresh request = guarded now cookies (\<lambda>st.
     case get_client q (aq_client_id request) (app_db st) of
       Inl e \<Rightarrow> (Inl (ApiError_from e), st)
     | Inr None \<Rightarrow> (Inl (api_error_of StBadRequest (''client '' @ aq_client_id request @ '' not found'')), st)
     | Inr (Some _) \<Rightarrow>
         (case create_proxy_account (later 1 q) now
                 \<lparr>pa_kind = aq_kind request, pa_client_id = aq_client_id request,
                  pa_username = unwrap_or (random_proxy_secret (fresh 1)) (nonblank (aq_username request)),
                  pa_password = unwrap_or (random_proxy_secret (fresh 2)) (nonblank (aq_password request)),
                  pa_enabled = unwrap_or True (aq_enabled request), pa_remark = nonblank (aq_remark request),
                  pa_expires_at = aq_expires_at request, pa_traffic_limit_bytes = aq_traffic_limit_bytes request,
                  pa_id = fresh 0\<rparr> (app_db st) of
            (Inl e, db1) \<Rightarrow> (Inl (ApiError_from e), st\<lparr>app_db := db1\<rparr>)
          | (Inr account, db1) \<Rightarrow>
              let st1 = st\<lparr>app_db := db1,
                  app_policy := register_policy (proxy_account_key (pa_id account)) (pa_expires_at account)
                    (pa_traffic_limit_bytes account) (sat_add (pa_rx_bytes account) (pa_tx_bytes account)) (app_policy st)\<rparr>
              in (Inr (StCreated, proxy_account_response_of st1 account), st1)))"

definition web_update_proxy_account ::
  "int \<Rightarrow> string option \<Rightarrow> stmts \<Rightarrow> string \<Rightarrow> update_proxy_account_request \<Rightarrow> app_state
     \<Rightarrow> (api_error + proxy_account_response) \<times> app_state" where
  "web_update_proxy_account now cookies q aid request = guarded now cookies (\<lambda>st.
     case get_proxy_account q aid (app_db st) of
       Inl e \<Rightarrow> (Inl (ApiError_from e), st)
     | Inr None \<Rightarrow> (Inl (not_found ''proxy account'' aid), st)
     | Inr (Some _) \<Rightarrow>
     (case get_client (later 1 q) (pa_client_id request) (app_db st) of
       Inl e \<Rightarrow> (Inl (ApiError_from e), st)
     | Inr None \<Rightarrow> (Inl (api_error_of StBadRequest (''client '' @ pa_client_id request @ '' not found'')), st)
     | Inr (Some _) \<Rightarrow>
         let username = trim (pa_username request); password = trim (pa_password request)
         in if username = [] \<or> password = []
            then (Inl (api_error_of StBadRequest ''username and password are required''), st)
            else case update_proxy_account (later 2 q) now aid
                        (request\<lparr>pa_username := username, pa_password := password,
                                 pa_remark := nonblank (pa_remark request)\<rparr>) (app_db st) of
                   (Inl e, db1) \<Rightarrow> (Inl (ApiError_from e), st\<lparr>app_db := db1\<rparr>)
                 | (Inr None, db1) \<Rightarrow> (Inl (not_found ''proxy account'' aid), st\<lparr>app_db := db1\<rparr>)
                 | (Inr (Some account), db1) \<Rightarrow>
                     let key = proxy_account_key (pa_id account);
                         e1 = (if pa_enabled account
                               then snd (allowed now key
                                      (register_policy key (pa_expires_at account) (pa_traffic_limit_bytes account)
                                        (sat_add (pa_rx_bytes account) (pa_tx_bytes account)) (app_policy st)))
                               else remove_policy key (app_policy st));
                         st1 = st\<lparr>app_db := db1, app_proxies := snd (revoke_account aid (app_proxies st)), app_policy := e1\<rparr>
                     in (Inr (proxy_account_response_of st1 account), st1)))"

definition web_delete_proxy_account ::
  "int \<Rightarrow> string option \<Rightarrow> stmts \<Rightarrow> string \<Rightarrow> app_state \<Rightarrow> (api_error + status_code) \<times> app_state" where
  "web_delete_proxy_account now cookies q aid = guarded now cookies (\<lambda>st.
     case delete_proxy_account q aid (app_db st) of
       (Inl e, db1) \<Rightarrow> (Inl (ApiError_from e), st\<lparr>app_db := db1\<rparr>)
     | (Inr deleted, db1) \<Rightarrow>
         if \<not> deleted then (Inl (not_found ''proxy account'' aid), st\<lparr>app_db := db1\<rparr>)
         else (Inr StNoContent,
               st\<lparr>app_db := db1, app_proxies := snd (revoke_account aid (app_proxies st)),
                  app_policy := remove_policy (proxy_account_key aid) (app_policy st)\<rparr>))"

section \<open>The routes\<close>

text \<open>
  A request after routing and decoding, one constructor for each method and path of
  \<^verbatim>\<open>Router::new()\<close> under \<^verbatim>\<open>/api/\<close>; \<open>handle\<close> calls the handler the table names for it. Every other
  path is answered from the files of the console.
\<close>

datatype api_request =
    GetAuthStatus
  | PostLogin login_request
  | PostLogout
  | GetEvents
  | GetStatus
  | GetClients
  | PostClients create_client_request
  | PutClient string update_client_request
  | DeleteClient string
  | GetTunnels
  | PostTunnels create_tunnel_request
  | PutTunnel string update_tunnel_request
  | DeleteTunnel string
  | GetProxy
  | GetProxyAccounts "string option"
  | PostProxyAccounts create_proxy_account_request
  | PutProxyAccount string update_proxy_account_request
  | DeleteProxyAccount string

datatype api_response =
    RsAuthStatus auth_status_response
  | RsLogin login_response
  | RsLogout string auth_status_response
  | RsEvents
  | RsStatus status_response
  | RsClients "client_response list"
  | RsClient status_code client_response
  | RsTunnels "tunnel_response list"
  | RsTunnel status_code tunnel_response
  | RsProxy proxy_response
  | RsProxyAccounts "proxy_account_response list"
  | RsProxyAccount status_code proxy_account_response
  | RsCode status_code

definition respond :: "('a \<Rightarrow> api_response) \<Rightarrow> (api_error + 'a) \<times> app_state \<Rightarrow> (api_error + api_response) \<times> app_state" where
  "respond f r = (case r of (Inl e, st) \<Rightarrow> (Inl e, st) | (Inr x, st) \<Rightarrow> (Inr (f x), st))"

record web_env =
  we_hmac :: "bytes \<Rightarrow> bytes \<Rightarrow> string + bytes"
  we_bind :: "tunnel_mode \<Rightarrow> string \<Rightarrow> bool"
  we_now :: int
  we_stmts :: stmts
  we_fresh :: "nat \<Rightarrow> string"

fun handle :: "web_env \<Rightarrow> string option \<Rightarrow> api_request \<Rightarrow> app_state \<Rightarrow> (api_error + api_response) \<times> app_state" where
  "handle w c GetAuthStatus st = respond RsAuthStatus (case auth_status (we_now w) c st of (r, st1) \<Rightarrow> (Inr r, st1))"
| "handle w c (PostLogin rq) st = respond RsLogin (login (we_hmac w) (we_now w) (we_fresh w 0) rq st)"
| "handle w c PostLogout st = respond (\<lambda>(k, r). RsLogout k r) (logout c st)"
| "handle w c GetEvents st = respond (\<lambda>_. RsEvents) (events (we_now w) c st)"
| "handle w c GetStatus st = respond RsStatus (web_status (we_now w) c (we_stmts w) st)"
| "handle w c GetClients st = respond RsClients (web_clients (we_now w) c (we_stmts w) st)"
| "handle w c (PostClients rq) st =
     respond (\<lambda>(s, r). RsClient s r) (web_create_client (we_now w) c (we_stmts w) (we_fresh w) rq st)"
| "handle w c (PutClient cid rq) st = respond (RsClient StOk) (web_update_client (we_now w) c (we_stmts w) cid rq st)"
| "handle w c (DeleteClient cid) st = respond RsCode (web_delete_client (we_now w) c (we_stmts w) cid st)"
| "handle w c GetTunnels st = respond RsTunnels (web_tunnels (we_now w) c (we_stmts w) st)"
| "handle w c (PostTunnels rq) st =
     respond (\<lambda>(s, r). RsTunnel s r) (web_create_tunnel (we_bind w) (we_now w) c (we_stmts w) (we_fresh w) rq st)"
| "handle w c (PutTunnel tid rq) st =
     respond (RsTunnel StOk) (web_update_tunnel (we_bind w) (we_now w) c (we_stmts w) tid rq st)"
| "handle w c (DeleteTunnel tid) st = respond RsCode (web_delete_tunnel (we_now w) c (we_stmts w) tid st)"
| "handle w c GetProxy st = respond RsProxy (web_proxy (we_now w) c (we_stmts w) st)"
| "handle w c (GetProxyAccounts kind) st = respond RsProxyAccounts (web_proxy_accounts (we_now w) c (we_stmts w) kind st)"
| "handle w c (PostProxyAccounts rq) st =
     respond (\<lambda>(s, r). RsProxyAccount s r) (web_create_proxy_account (we_now w) c (we_stmts w) (we_fresh w) rq st)"
| "handle w c (PutProxyAccount aid rq) st =
     respond (RsProxyAccount StOk) (web_update_proxy_account (we_now w) c (we_stmts w) aid rq st)"
| "handle w c (DeleteProxyAccount aid) st = respond RsCode (web_delete_proxy_account (we_now w) c (we_stmts w) aid st)"

section \<open>Who may call\<close>

lemma require_auth_state: "\<exists>s. snd (require_auth now c st) = st\<lparr>app_web_sessions := s\<rparr>"
proof -
  have "\<exists>s. st = st\<lparr>app_web_sessions := s\<rparr>" by (rule exI [of _ "app_web_sessions st"]) simp
  then show ?thesis
    by (auto simp: require_auth_def authenticated_username_def split: option.splits prod.splits if_splits)
qed

lemma guarded_cases:
  obtains (refused) e where "fst (require_auth now c st) = Inl e" "guarded now c h st = (Inl e, snd (require_auth now c st))"
    | (passed) "fst (require_auth now c st) = Inr ()" "guarded now c h st = h (snd (require_auth now c st))"
  by (cases "require_auth now c st"; cases "fst (require_auth now c st)") (auto simp: guarded_def)

lemma require_auth_error:
  "fst (require_auth now c st) = Inl e \<Longrightarrow> e = \<lparr>ae_status = StUnauthorized, ae_message = ''unauthorized''\<rparr>"
  by (auto simp: require_auth_def split: if_splits prod.splits option.splits)

lemma guarded_refused:
  "fst (require_auth now c st) = Inl e \<Longrightarrow> guarded now c h st = (Inl e, snd (require_auth now c st))"
  by (cases "require_auth now c st") (simp add: guarded_def)

lemmas guarded_handlers = events_def web_status_def web_clients_def web_create_client_def web_update_client_def
  web_delete_client_def web_tunnels_def web_create_tunnel_def web_update_tunnel_def web_delete_tunnel_def
  web_proxy_def web_proxy_accounts_def web_create_proxy_account_def web_update_proxy_account_def
  web_delete_proxy_account_def

definition public_request :: "api_request \<Rightarrow> bool" where
  "public_request rq \<longleftrightarrow> rq = GetAuthStatus \<or> (\<exists>l. rq = PostLogin l) \<or> rq = PostLogout"


definition demo_env :: web_env where
  "demo_env = \<lparr>we_hmac = no_hmac, we_bind = (\<lambda>m l. True), we_now = 5, we_stmts = (\<lambda>_. True), we_fresh = (\<lambda>i. ''u'')\<rparr>"


text \<open>The event stream ends with the first tick that finds the session gone, and tells so.\<close>

lemma events_stream_ends:
  "AuthExpired \<in> set (butlast (events_stream to_json c ticks)) \<Longrightarrow> False"
proof (induction to_json c ticks rule: events_stream.induct)
  case (2 to_json c now q st ticks)
  obtain ev st1 where e: "events_tick to_json now c q st = (ev, st1)" by force
  then show ?case using 2 by (cases ev) (auto split: if_splits)
qed simp

end
