(* ===== verification/Console_Inv.thy ===== *)
theory Console_Inv
  imports Web_Api
begin

text \<open>
  The agreement of the database, the tunnel manager and the policy enforcer: a tunnel runs
  only as its enabled row says, and every enabled tunnel and proxy account has a policy with the
  expiry and the limit of its row. Whatever the console does keeps it, and so do the policy
  task, the traffic flush and the sessions.
\<close>

section \<open>Policies in force\<close>

definition in_force :: "enforcer \<Rightarrow> resource_key \<Rightarrow> int option \<Rightarrow> u64 option \<Rightarrow> bool" where
  "in_force e key expires limit \<longleftrightarrow>
     (case map_of (policies e) key of
        None \<Rightarrow> False
      | Some p \<Rightarrow> ps_expires_at p = expires \<and> ps_traffic_limit_bytes p = limit)"

lemma in_force_queue [simp]: "in_force (e\<lparr>revoke_rx := x\<rparr>) = in_force e"
  by (simp add: in_force_def fun_eq_iff)

lemma in_force_revoke_once:
  "map_of (policies e) k = Some p \<Longrightarrow> in_force (revoke_once k p r e) = in_force e"
  by (auto simp: in_force_def fun_eq_iff policies_revoke_once)

lemma in_force_allowed [simp]: "in_force (snd (allowed now k e)) = in_force e"
  by (simp add: allowed_def in_force_revoke_once split: option.split)

lemma in_force_usage [simp]: "in_force (record_route_usage route rx tx e) = in_force e"
proof -
  have "in_force (e\<lparr>policies := AList.update k (p\<lparr>ps_used_bytes := u\<rparr>) (policies e)\<rparr>) = in_force e"
    if "map_of (policies e) k = Some p" for k p u
    using that by (auto simp: in_force_def fun_eq_iff update_conv)
  then show ?thesis
    by (simp add: record_route_usage_def Let_def in_force_revoke_once update_conv split: option.split)
qed

lemma in_force_expired [simp]:
  "distinct (keys (policies e)) \<Longrightarrow> in_force (snd (expired_keys now e)) = in_force e"
  by (auto simp: in_force_def fun_eq_iff policies_expired_keys mark_expired_def split: option.split)

lemma in_force_register [simp]:
  "in_force (register_policy k x l u e) k' x' l' \<longleftrightarrow> (if k' = k then x' = x \<and> l' = l else in_force e k' x' l')"
  by (auto simp: in_force_def register_policy_def update_conv)

lemma in_force_remove [simp]: "in_force (remove_policy k e) k' x l \<longleftrightarrow> k' \<noteq> k \<and> in_force e k' x l"
  by (simp add: in_force_def remove_policy_def delete_conv)

lemma keys_differ [simp]:
  "tunnel_key a \<noteq> proxy_account_key b" "proxy_account_key b \<noteq> tunnel_key a"
  "tunnel_key a = tunnel_key c \<longleftrightarrow> a = c" "proxy_account_key a = proxy_account_key c \<longleftrightarrow> a = c"
  by (simp_all add: tunnel_key_def proxy_account_key_def)

section \<open>The invariant\<close>

definition tunnel_enforced :: "enforcer \<Rightarrow> tunnel_row \<Rightarrow> bool" where
  "tunnel_enforced e r \<longleftrightarrow>
     (t_enabled r \<noteq> 0 \<longrightarrow> in_force e (tunnel_key (t_id r)) (t_expires_at r) (map_option i64_to_u64 (t_traffic_limit_bytes r)))"

definition account_enforced :: "enforcer \<Rightarrow> account_row \<Rightarrow> bool" where
  "account_enforced e r \<longleftrightarrow>
     (a_enabled r \<noteq> 0 \<longrightarrow> in_force e (proxy_account_key (a_id r)) (a_expires_at r) (map_option i64_to_u64 (a_traffic_limit_bytes r)))"

definition runs_row :: "tunnel_manager \<Rightarrow> nat \<Rightarrow> tunnel_row \<Rightarrow> bool" where
  "runs_row m r row \<longleftrightarrow> t_enabled row \<noteq> 0 \<and> rt_listen (runtimes m ! r) = t_listen row"

definition runs_enabled :: "tunnel_manager \<Rightarrow> tunnel_row list \<Rightarrow> bool" where
  "runs_enabled m rows \<longleftrightarrow>
     (\<forall>tid r. map_of (running m) tid = Some r \<longrightarrow> r < length (runtimes m) \<and> (\<exists>row \<in> set rows. t_id row = tid \<and> runs_row m r row))"

definition agreed :: "database \<Rightarrow> enforcer \<Rightarrow> tunnel_manager \<Rightarrow> bool" where
  "agreed db e m \<longleftrightarrow> db_inv db \<and> distinct (keys (policies e)) \<and> runs_enabled m (tunnels db) \<and>
     list_all (tunnel_enforced e) (tunnels db) \<and> list_all (account_enforced e) (proxy_accounts db)"

definition console_inv :: "app_state \<Rightarrow> bool" where
  "console_inv st \<longleftrightarrow> agreed (app_db st) (app_policy st) (app_tunnels st)"

lemma enforced_cong:
  "in_force e' = in_force e \<Longrightarrow> tunnel_enforced e' = tunnel_enforced e"
  "in_force e' = in_force e \<Longrightarrow> account_enforced e' = account_enforced e"
  by (auto simp: tunnel_enforced_def account_enforced_def fun_eq_iff)

lemma agreed_policy:
  "agreed db e m \<Longrightarrow> in_force e' = in_force e \<Longrightarrow> distinct (keys (policies e')) \<Longrightarrow> agreed db e' m"
  using enforced_cong [of e' e] by (simp add: agreed_def)

section \<open>Starting and stopping\<close>

lemma runs_enabled_stop:
  assumes "runs_enabled m rows" and "\<And>row. row \<in> set rows \<Longrightarrow> t_id row \<noteq> tid \<Longrightarrow> row \<in> set rows'"
  shows "runs_enabled (snd (stop_tunnel tid m)) rows'"
proof -
  have l: "rt_listen (runtimes (snd (stop_tunnel tid m)) ! r) = rt_listen (runtimes m ! r)"
      "length (runtimes (snd (stop_tunnel tid m))) = length (runtimes m)"
    if "r < length (runtimes m)" for r
  proof -
    show "length (runtimes (snd (stop_tunnel tid m))) = length (runtimes m)" by (simp add: stop_tunnel_def split: option.split)
    have "rt_listen ((runtimes m)[x := (runtimes m ! x)\<lparr>rt_shutdown := True\<rparr>] ! r) = rt_listen (runtimes m ! r)" for x
      using that by (cases "x = r") simp_all
    then show "rt_listen (runtimes (snd (stop_tunnel tid m)) ! r) = rt_listen (runtimes m ! r)"
      by (simp add: stop_tunnel_def split: option.split)
  qed
  have s: "map_of (running (snd (stop_tunnel tid m))) i = (if i = tid then None else map_of (running m) i)" for i
    by (rule running_stop)
  show ?thesis unfolding runs_enabled_def
  proof (intro allI impI)
    fix i r assume "map_of (running (snd (stop_tunnel tid m))) i = Some r"
    then have i: "i \<noteq> tid" "map_of (running m) i = Some r" by (simp_all add: s split: if_splits)
    then obtain row where row: "r < length (runtimes m)" "row \<in> set rows" "t_id row = i" "runs_row m r row"
      using assms(1) unfolding runs_enabled_def by blast
    then show "r < length (runtimes (snd (stop_tunnel tid m))) \<and> (\<exists>row \<in> set rows'. t_id row = i \<and> runs_row (snd (stop_tunnel tid m)) r row)"
      using l [OF row(1)] assms(2) [OF row(2)] i(1) by (auto simp: runs_row_def)
  qed
qed

lemma runs_enabled_add:
  assumes "runs_enabled m rows" and "row \<in> set rows" and "t_id row = tc_id t" and "t_enabled row \<noteq> 0" and "t_listen row = tc_listen t"
  shows "runs_enabled (add_runtime t m) rows"
  unfolding runs_enabled_def
proof (intro allI impI)
  fix i r assume i: "map_of (running (add_runtime t m)) i = Some r"
  show "r < length (runtimes (add_runtime t m)) \<and> (\<exists>row \<in> set rows. t_id row = i \<and> runs_row (add_runtime t m) r row)"
  proof (cases "i = tc_id t")
    case True
    then show ?thesis using i assms(2-5) by (auto simp: add_runtime_def runs_row_def intro!: bexI [of _ row])
  next
    case False
    then have "map_of (running m) i = Some r" using i by (simp add: add_runtime_def)
    then have "r < length (runtimes m)" "\<exists>row \<in> set rows. t_id row = i \<and> runs_row m r row"
      using assms(1) unfolding runs_enabled_def by blast+
    then show ?thesis by (auto simp: add_runtime_def runs_row_def nth_append)
  qed
qed

lemma runs_enabled_mono:
  assumes "runs_enabled m rows" and "\<And>row. row \<in> set rows \<Longrightarrow> \<exists>row' \<in> set rows'. t_id row' = t_id row \<and> t_enabled row' = t_enabled row \<and> t_listen row' = t_listen row"
  shows "runs_enabled m rows'"
  using assms unfolding runs_enabled_def runs_row_def by metis

lemma start_tunnel_result:
  assumes "start_tunnel bind now t e m = (r, e', m')"
  shows "in_force e' = in_force e" and "distinct (keys (policies e)) \<Longrightarrow> distinct (keys (policies e'))"
    and "m' = (case r of Inl _ \<Rightarrow> m | Inr _ \<Rightarrow> add_runtime t m)"
proof -
  obtain ok e1 where a: "allowed now (tunnel_key (tc_id t)) e = (ok, e1)" by force
  have f: "in_force e1 = in_force e" "distinct (keys (policies e)) \<Longrightarrow> distinct (keys (policies e1))"
    using in_force_allowed [of now "tunnel_key (tc_id t)" e] distinct_allowed [of e now "tunnel_key (tc_id t)"]
    unfolding a by simp_all
  have c: "(e' = e \<or> e' = e1) \<and> m' = (case r of Inl _ \<Rightarrow> m | Inr _ \<Rightarrow> add_runtime t m)"
    using assms by (auto simp: start_tunnel_def a Let_def split: if_splits)
  show "in_force e' = in_force e" "distinct (keys (policies e)) \<Longrightarrow> distinct (keys (policies e'))"
    "m' = (case r of Inl _ \<Rightarrow> m | Inr _ \<Rightarrow> add_runtime t m)" using f c by auto
qed

section \<open>The handlers for tunnels\<close>

text \<open>All statements of a handler succeed, and no traffic counter has left the 64-bit range.\<close>

definition counts_integral :: "database \<Rightarrow> bool" where
  "counts_integral db \<longleftrightarrow>
     list_all (\<lambda>r. (\<exists>rx. t_rx_bytes r = SqlInt rx) \<and> (\<exists>tx. t_tx_bytes r = SqlInt tx)) (tunnels db) \<and>
     list_all (\<lambda>r. (\<exists>rx. a_rx_bytes r = SqlInt rx) \<and> (\<exists>tx. a_tx_bytes r = SqlInt tx)) (proxy_accounts db)"

definition reliable :: "stmts \<Rightarrow> database \<Rightarrow> bool" where
  "reliable q db \<longleftrightarrow> (\<forall>i. q i) \<and> counts_integral db"

lemma reliable_stmts [simp]: "reliable q db \<Longrightarrow> q i" "reliable q db \<Longrightarrow> later n q i"
  by (simp_all add: reliable_def later_def)

lemma bool_i64 [simp]: "bool_to_i64 b \<noteq> 0 \<longleftrightarrow> b" "bool_to_i64 b = 0 \<longleftrightarrow> \<not> b"
  by (simp_all add: bool_to_i64_def)

lemma row_to_tunnel_fields:
  assumes "row_to_tunnel r = Inr t"
  shows "tn_id t = t_id r" "tn_listen t = t_listen r" "tn_enabled t \<longleftrightarrow> i64_to_bool (t_enabled r)" "tn_expires_at t = t_expires_at r"
    "tn_traffic_limit_bytes t = map_option i64_to_u64 (t_traffic_limit_bytes r)"
  using assms by (auto simp: row_to_tunnel_def split: sum.splits)

lemma row_to_account_fields:
  assumes "row_to_proxy_account r = Inr a"
  shows "pa_id a = a_id r" "pa_enabled a \<longleftrightarrow> i64_to_bool (a_enabled r)" "pa_expires_at a = a_expires_at r"
    "pa_traffic_limit_bytes a = map_option i64_to_u64 (a_traffic_limit_bytes r)"
  using assms by (auto simp: row_to_proxy_account_def split: sum.splits)

lemma flag_enabled: "flag_ok v \<Longrightarrow> i64_to_bool v \<longleftrightarrow> v \<noteq> 0"
  by (auto simp: flag_ok_def i64_to_bool_def)

lemma create_tunnel_result:
  assumes "create_tunnel q now input db = (r, db1)" and "\<And>i. q i" and "db_inv db"
  shows "(db1 = db \<and> (\<exists>e. r = Inl e)) \<or>
     ((\<forall>row \<in> set (tunnels db). t_id row \<noteq> tn_id input) \<and> db1 = db\<lparr>tunnels := tunnels db @ [tunnel_row_of input now]\<rparr> \<and>
      (\<exists>t. r = Inr t \<and> row_to_tunnel (tunnel_row_of input now) = Inr t))"
  using assms row_to_tunnel_of [of input now]
  by (auto simp: create_tunnel_def Let_def select_one_snoc_new tunnel_row_of_def split: if_splits)

text \<open>A change of one tunnel: its rows, its policy and whether it runs.\<close>

lemma agreed_tunnel_change:
  assumes "agreed db e m" and "db_inv db'" and "proxy_accounts db' = proxy_accounts db" and "distinct (keys (policies e'))"
    and "\<And>k x l. k \<noteq> tunnel_key tid \<Longrightarrow> in_force e' k x l = in_force e k x l"
    and "\<And>row. row \<in> set (tunnels db') \<Longrightarrow> t_id row \<noteq> tid \<Longrightarrow> row \<in> set (tunnels db)"
    and "\<And>row. row \<in> set (tunnels db') \<Longrightarrow> t_id row = tid \<Longrightarrow> tunnel_enforced e' row"
    and "runs_enabled m' (tunnels db')"
  shows "agreed db' e' m'"
proof -
  have "tunnel_enforced e' row" if "row \<in> set (tunnels db')" for row
  proof (cases "t_id row = tid")
    case False
    then have "tunnel_enforced e row" using that assms(1,6) by (auto simp: agreed_def list_all_iff)
    then show ?thesis using False assms(5) by (simp add: tunnel_enforced_def)
  qed (simp add: that assms(7))
  moreover have "account_enforced e' row" if "row \<in> set (proxy_accounts db')" for row
    using that assms(1,3,5) by (auto simp: agreed_def list_all_iff account_enforced_def)
  ultimately show ?thesis using assms(2,4,8) by (simp add: agreed_def list_all_iff)
qed

lemma agreed_account_change:
  assumes "agreed db e m" and "db_inv db'" and "tunnels db' = tunnels db" and "distinct (keys (policies e'))"
    and "\<And>k x l. k \<noteq> proxy_account_key aid \<Longrightarrow> in_force e' k x l = in_force e k x l"
    and "\<And>row. row \<in> set (proxy_accounts db') \<Longrightarrow> a_id row \<noteq> aid \<Longrightarrow> row \<in> set (proxy_accounts db)"
    and "\<And>row. row \<in> set (proxy_accounts db') \<Longrightarrow> a_id row = aid \<Longrightarrow> account_enforced e' row"
  shows "agreed db' e' m"
proof -
  have "account_enforced e' row" if "row \<in> set (proxy_accounts db')" for row
  proof (cases "a_id row = aid")
    case False
    then have "account_enforced e row" using that assms(1,6) by (auto simp: agreed_def list_all_iff)
    then show ?thesis using False assms(5) by (simp add: account_enforced_def)
  qed (simp add: that assms(7))
  moreover have "tunnel_enforced e' row" if "row \<in> set (tunnels db')" for row
    using that assms(1,3,5) by (auto simp: agreed_def list_all_iff tunnel_enforced_def)
  ultimately show ?thesis using assms(1-4) by (simp add: agreed_def list_all_iff)
qed

lemma distinct_register: "distinct (keys (policies e)) \<Longrightarrow> distinct (keys (policies (register_policy k x l u e)))"
  by (simp add: register_policy_def distinct_keys_update)

lemma distinct_remove: "distinct (keys (policies e)) \<Longrightarrow> distinct (keys (policies (remove_policy k e)))"
  by (simp add: remove_policy_def distinct_delete)

lemma created_tunnel:
  assumes a: "agreed db e m" and "\<And>i. q i" and c: "create_tunnel q now input db = (Inr t, db1)"
    and e1: "e1 = register_policy (tunnel_key (tn_id t)) (tn_expires_at t) (tn_traffic_limit_bytes t) u e"
  shows "agreed db1 e1 m"
    and "start_tunnel bind now (tunnel_config_from_db t) e1 m = (Inr x, e2, m2) \<Longrightarrow> tn_enabled t \<Longrightarrow> agreed db1 e2 m2"
    and "start_tunnel bind now (tunnel_config_from_db t) e1 m = (Inl err, e2, m2) \<Longrightarrow> q1 0 \<Longrightarrow>
           agreed (snd (delete_tunnel q1 (tn_id t) db1)) (remove_policy (tunnel_key (tn_id t)) e2) m2"
proof -
  have inv: "db_inv db" "distinct (keys (policies e))" "runs_enabled m (tunnels db)" using a by (simp_all add: agreed_def)
  let ?row = "tunnel_row_of input now"
  have fresh: "\<forall>row \<in> set (tunnels db). t_id row \<noteq> tn_id input"
    and db1: "db1 = db\<lparr>tunnels := tunnels db @ [?row]\<rparr>" and t: "row_to_tunnel ?row = Inr t"
    using create_tunnel_result [OF c assms(2) inv(1)] by auto
  note f = row_to_tunnel_fields [OF t]
  have tid: "tn_id t = tn_id input" "tn_enabled t = tn_enabled input" "t_enabled ?row \<noteq> 0 \<longleftrightarrow> tn_enabled t" "t_id ?row = tn_id t"
    "t_listen ?row = tn_listen t"
    using f by (simp_all add: tunnel_row_of_def i64_to_bool_def bool_to_i64_def)
  have inv1: "db_inv db1" using inv_create_tunnel [OF inv(1), of q now input] c by simp
  have enf: "tunnel_enforced e' ?row" if "in_force e' = in_force e1" for e'
    using that f unfolding tunnel_enforced_def by (simp add: e1)
  have run: "runs_enabled m (tunnels db1)" using inv(3) by (rule runs_enabled_mono) (auto simp: db1)
  have chg: "agreed db1 e' m'" if "in_force e' = in_force e1" "distinct (keys (policies e'))" "runs_enabled m' (tunnels db1)" for e' m'
    by (rule agreed_tunnel_change [OF a inv1, where tid = "tn_id t"])
       (use that enf [OF that(1)] fresh tid in \<open>auto simp: db1 e1\<close>)
  have d1: "distinct (keys (policies e1))" unfolding e1 using inv(2) by (rule distinct_register)
  show "agreed db1 e1 m" using chg [OF refl d1 run] .
  show "agreed db1 e2 m2" if s: "start_tunnel bind now (tunnel_config_from_db t) e1 m = (Inr x, e2, m2)" and en: "tn_enabled t"
  proof (rule chg)
    show "in_force e2 = in_force e1" "distinct (keys (policies e2))" using start_tunnel_result [OF s] d1 by auto
    have "runs_enabled (add_runtime (tunnel_config_from_db t) m) (tunnels db1)"
      by (rule runs_enabled_add [OF run, of ?row]) (use tid en in \<open>auto simp: db1 tunnel_config_from_db_def\<close>)
    then show "runs_enabled m2 (tunnels db1)" using start_tunnel_result(3) [OF s] by simp
  qed
  show "agreed (snd (delete_tunnel q1 (tn_id t) db1)) (remove_policy (tunnel_key (tn_id t)) e2) m2"
    if s: "start_tunnel bind now (tunnel_config_from_db t) e1 m = (Inl err, e2, m2)" and "q1 0"
  proof -
    have rows: "tunnels (snd (delete_tunnel q1 (tn_id t) db1)) = tunnels db"
      using that(2) fresh tid by (auto simp: delete_tunnel_def delete_rows_def db1 filter_id_conv)
    have e2: "in_force e2 = in_force e1" "distinct (keys (policies e2))" "m2 = m" using start_tunnel_result [OF s] d1 by auto
    show ?thesis
      by (rule agreed_tunnel_change [OF a inv_delete_tunnel [OF inv1], where tid = "tn_id t"])
         (use e2 fresh tid rows inv(3) distinct_remove in \<open>auto simp: e1 delete_tunnel_def db1\<close>)
  qed
qed

lemma row_to_tunnel_set:
  assumes "t_rx_bytes r = SqlInt rx" and "t_tx_bytes r = SqlInt tx"
  shows "\<exists>t. row_to_tunnel (set_tunnel input now r) = Inr t"
proof -
  have "str_to_tunnel_mode (tunnel_mode_to_str m) = Inr m" for m by (cases m) (simp_all add: str_to_tunnel_mode_def)
  then show ?thesis using assms by (simp add: row_to_tunnel_def set_tunnel_def get_i64_def)
qed

lemma update_rows_hit:
  assumes "r \<in> set (update_rows (\<lambda>r. k r = x) f rows)" and "k r = x" and "\<And>r. k (f r) = k r"
  shows "\<exists>r0 \<in> set rows. k r0 = x \<and> r = f r0"
  using assms by (auto simp: update_rows_def)

lemma update_rows_other:
  assumes "r \<in> set (update_rows (\<lambda>r. k r = x) f rows)" and "k r \<noteq> x" and "\<And>r. k (f r) = k r"
  shows "r \<in> set rows"
  using assms by (auto simp: update_rows_def)

lemma select_one_update:
  assumes "\<And>r. k (f r) = k r" and "select_one (\<lambda>r. k r = x) (update_rows (\<lambda>r. k r = x) f rows) = Some r'"
  shows "\<exists>r \<in> set rows. k r = x \<and> r' = f r"
  using select_one_SomeD [OF assms(2)] assms(1) by (auto simp: update_rows_def)

lemma update_tunnel_result:
  assumes "update_tunnel q now tid input db = (r, db1)" and "\<And>i. q i" and "counts_integral db"
  shows "(db1 = db \<and> r = Inr None) \<or>
     (db1 = db\<lparr>tunnels := update_rows (\<lambda>r. t_id r = tid) (set_tunnel input now) (tunnels db)\<rparr> \<and>
      (\<exists>t row. r = Inr (Some t) \<and> row \<in> set (tunnels db) \<and> t_id row = tid \<and> row_to_tunnel (set_tunnel input now row) = Inr t))"
proof (cases "\<exists>r \<in> set (tunnels db). t_id r = tid")
  case True
  let ?rows = "update_rows (\<lambda>r. t_id r = tid) (set_tunnel input now) (tunnels db)"
  obtain row0 where "row0 \<in> set (tunnels db)" "t_id row0 = tid" using True by blast
  then have "set_tunnel input now row0 \<in> set ?rows" "t_id (set_tunnel input now row0) = tid" by (auto simp: update_rows_def)
  then obtain row' where sel: "select_one (\<lambda>r. t_id r = tid) ?rows = Some row'"
    using select_one_ex [of "\<lambda>r. t_id r = tid" ?rows] by blast
  then obtain row where row: "row \<in> set (tunnels db)" "t_id row = tid" "row' = set_tunnel input now row"
    using select_one_update [of t_id "set_tunnel input now" tid "tunnels db" row'] by auto
  then obtain t where "row_to_tunnel row' = Inr t"
    using assms(3) row_to_tunnel_set unfolding counts_integral_def list_all_iff by metis
  then have "update_tunnel q now tid input db = (Inr (Some t), db\<lparr>tunnels := ?rows\<rparr>)"
    using True assms(2) sel by (simp add: update_tunnel_def get_tunnel_def transpose_def Let_def)
  then show ?thesis using assms(1) row \<open>row_to_tunnel row' = Inr t\<close> by auto
next
  case False
  then show ?thesis using assms(1,2) by (auto simp: update_tunnel_def)
qed

text \<open>What an update leaves in the table, and the tunnel it returns.\<close>

lemma updated_tunnel_rows:
  assumes "update_tunnel q now tid input db = (Inr (Some t), db1)" and "\<And>i. q i" and "counts_integral db"
  shows "tn_id t = tid" and "proxy_accounts db1 = proxy_accounts db"
    and "\<exists>row \<in> set (tunnels db1). t_id row = tid"
    and "\<And>r. r \<in> set (tunnels db1) \<Longrightarrow> t_id r \<noteq> tid \<Longrightarrow> r \<in> set (tunnels db)"
    and "\<And>r. r \<in> set (tunnels db) \<Longrightarrow> t_id r \<noteq> tid \<Longrightarrow> r \<in> set (tunnels db1)"
    and "\<And>r. r \<in> set (tunnels db1) \<Longrightarrow> t_id r = tid \<Longrightarrow>
           t_expires_at r = tn_expires_at t \<and> map_option i64_to_u64 (t_traffic_limit_bytes r) = tn_traffic_limit_bytes t \<and>
           (t_enabled r \<noteq> 0 \<longleftrightarrow> tn_enabled t) \<and> t_listen r = tn_listen t"
proof -
  let ?rows = "update_rows (\<lambda>r. t_id r = tid) (set_tunnel input now) (tunnels db)"
  obtain row where db1: "db1 = db\<lparr>tunnels := ?rows\<rparr>" and row: "row \<in> set (tunnels db)" "t_id row = tid"
      and t: "row_to_tunnel (set_tunnel input now row) = Inr t"
    using update_tunnel_result [OF assms] by auto
  note f = row_to_tunnel_fields [OF t]
  show "tn_id t = tid" "proxy_accounts db1 = proxy_accounts db" using f(1) row(2) by (simp_all add: db1)
  show "\<exists>row \<in> set (tunnels db1). t_id row = tid" 
    by (rule bexI [of _ "set_tunnel input now row"]) (use row in \<open>auto simp: db1 update_rows_def\<close>)
  show "r \<in> set (tunnels db)" if "r \<in> set (tunnels db1)" "t_id r \<noteq> tid" for r
    using that by (auto simp: db1 update_rows_def split: if_splits)
  show "r \<in> set (tunnels db1)" if "r \<in> set (tunnels db)" "t_id r \<noteq> tid" for r
    using that by (force simp: db1 update_rows_def)
  show "t_expires_at r = tn_expires_at t \<and> map_option i64_to_u64 (t_traffic_limit_bytes r) = tn_traffic_limit_bytes t \<and>
      (t_enabled r \<noteq> 0 \<longleftrightarrow> tn_enabled t) \<and> t_listen r = tn_listen t" if r: "r \<in> set (tunnels db1)" "t_id r = tid" for r
  proof -
    have "r \<in> set ?rows" using r(1) by (simp add: db1)
    from this r(2) have "\<exists>r0 \<in> set (tunnels db). t_id r0 = tid \<and> r = set_tunnel input now r0" by (rule update_rows_hit) simp
    then obtain r0 where "r = set_tunnel input now r0" by blast
    then show ?thesis using f by (simp add: set_tunnel_def i64_to_bool_def bool_to_i64_def)
  qed
qed

lemma updated_tunnel_off:
  assumes a: "agreed db e m" and u: "update_tunnel q now tid input db = (Inr (Some t), db1)" "\<And>i. q i" "counts_integral db"
    and "\<not> tn_enabled t"
  shows "agreed db1 (remove_policy (tunnel_key (tn_id t)) e) (snd (stop_tunnel tid m))"
proof (rule agreed_tunnel_change [OF a, where tid = tid])
  note rows = updated_tunnel_rows [OF u]
  show "db_inv db1" using inv_update_tunnel [of db q now tid input] a u(1) by (simp add: agreed_def)
  show "distinct (keys (policies (remove_policy (tunnel_key (tn_id t)) e)))" using a distinct_remove by (simp add: agreed_def)
  show "runs_enabled (snd (stop_tunnel tid m)) (tunnels db1)"
    by (rule runs_enabled_stop [of m "tunnels db"]) (use a rows(5) in \<open>simp_all add: agreed_def\<close>)
  show "tunnel_enforced (remove_policy (tunnel_key (tn_id t)) e) r" if "r \<in> set (tunnels db1)" "t_id r = tid" for r
    using rows(6) [OF that] assms(5) by (simp add: tunnel_enforced_def)
qed (simp_all add: updated_tunnel_rows [OF u])

lemma updated_tunnel_started:
  assumes a: "agreed db e m" and u: "update_tunnel q now tid input db = (Inr (Some t), db1)" "\<And>i. q i" "counts_integral db"
    and e1: "e1 = register_policy (tunnel_key (tn_id t)) (tn_expires_at t) (tn_traffic_limit_bytes t) used e"
    and s: "start_tunnel bind now (tunnel_config_from_db t) e1 (snd (stop_tunnel tid m)) = (Inr x, e2, m2)" and en: "tn_enabled t"
  shows "agreed db1 e2 m2"
proof (rule agreed_tunnel_change [OF a, where tid = tid])
  note rows = updated_tunnel_rows [OF u]
  show "db_inv db1" using inv_update_tunnel [of db q now tid input] a u(1) by (simp add: agreed_def)
  have e2: "in_force e2 = in_force e1" using start_tunnel_result [OF s] by simp
  show "distinct (keys (policies e2))" using start_tunnel_result(2) [OF s] distinct_register a by (simp add: e1 agreed_def)
  show "in_force e2 k y l = in_force e k y l" if "k \<noteq> tunnel_key tid" for k y l using that rows(1) by (simp add: e2 e1)
  show "tunnel_enforced e2 r" if "r \<in> set (tunnels db1)" "t_id r = tid" for r
    using rows(6) [OF that] that rows(1) by (simp add: tunnel_enforced_def e2 e1)
  have "runs_enabled (snd (stop_tunnel tid m)) (tunnels db1)"
    by (rule runs_enabled_stop [of m "tunnels db"]) (use a rows(5) in \<open>simp_all add: agreed_def\<close>)
  moreover obtain row where row: "row \<in> set (tunnels db1)" "t_id row = tid" using rows(3) by blast
  ultimately have "runs_enabled (add_runtime (tunnel_config_from_db t) (snd (stop_tunnel tid m))) (tunnels db1)"
    using rows(6) [OF row] en rows(1) by (intro runs_enabled_add [OF _ row(1)]) (simp_all add: tunnel_config_from_db_def row)
  then show "runs_enabled m2 (tunnels db1)" using start_tunnel_result(3) [OF s] by simp
qed (simp_all add: updated_tunnel_rows [OF u])

lemma updated_tunnel_failed:
  assumes a: "agreed db e m" and u: "update_tunnel q now tid input db = (Inr (Some t), db1)" "\<And>i. q i" "counts_integral db"
    and e1: "e1 = register_policy (tunnel_key (tn_id t)) (tn_expires_at t) (tn_traffic_limit_bytes t) used e"
    and s: "start_tunnel bind now (tunnel_config_from_db t) e1 (snd (stop_tunnel tid m)) = (Inl err, e2, m2)" and "q1 0"
    and db2: "db2 = snd (disable_tunnel q1 now (tn_id t) reason db1)"
  shows "agreed db2 (remove_policy (tunnel_key (tn_id t)) e2) m2"
proof (rule agreed_tunnel_change [OF a, where tid = tid])
  note rows = updated_tunnel_rows [OF u]
  have "db_inv db1" using inv_update_tunnel [of db q now tid input] a u(1) by (simp add: agreed_def)
  then show "db_inv db2" unfolding db2 by (rule inv_disable_tunnel)
  have rows2: "tunnels db2 = update_rows (\<lambda>r. t_id r = tid)
      (\<lambda>r. r\<lparr>t_enabled := 0, t_disabled_reason := Some reason, t_updated_at := now\<rparr>) (tunnels db1)"
    using assms(7) by (simp add: disable_tunnel_def db2 rows(1))
  show "proxy_accounts db2 = proxy_accounts db" using assms(7) rows(2) by (simp add: disable_tunnel_def db2)
  have e2: "in_force e2 = in_force e1" "m2 = snd (stop_tunnel tid m)" using start_tunnel_result [OF s] by simp_all
  show "distinct (keys (policies (remove_policy (tunnel_key (tn_id t)) e2)))"
    using start_tunnel_result(2) [OF s] distinct_register distinct_remove a by (simp add: e1 agreed_def)
  show "in_force (remove_policy (tunnel_key (tn_id t)) e2) k y l = in_force e k y l" if "k \<noteq> tunnel_key tid" for k y l
    using that rows(1) by (simp add: e2 e1)
  show "r \<in> set (tunnels db)" if "r \<in> set (tunnels db2)" "t_id r \<noteq> tid" for r
    using that rows(4) update_rows_other [of r t_id tid _ "tunnels db1"] unfolding rows2 by simp
  show "tunnel_enforced (remove_policy (tunnel_key (tn_id t)) e2) r" if "r \<in> set (tunnels db2)" "t_id r = tid" for r
  proof -
    have "\<exists>r0 \<in> set (tunnels db1). t_id r0 = tid \<and> r = r0\<lparr>t_enabled := 0, t_disabled_reason := Some reason, t_updated_at := now\<rparr>"
      using that unfolding rows2 by (rule update_rows_hit) simp
    then obtain r0 where "r = r0\<lparr>t_enabled := 0, t_disabled_reason := Some reason, t_updated_at := now\<rparr>" by blast
    then show ?thesis by (simp add: tunnel_enforced_def)
  qed
  have "r \<in> set (tunnels db2)" if "r \<in> set (tunnels db)" "t_id r \<noteq> tid" for r
    using rows(5) [OF that] that(2) unfolding rows2 set_update_rows by (intro bexI [of _ r]) simp_all
  then show "runs_enabled m2 (tunnels db2)" unfolding e2(2) using a
    by (intro runs_enabled_stop [of m "tunnels db"]) (simp_all add: agreed_def)
qed

lemma deleted_tunnel:
  assumes a: "agreed db e m" and d: "delete_tunnel q tid db = (Inr b, db1)"
  shows "agreed db1 (remove_policy (tunnel_key tid) e) (snd (stop_tunnel tid m))"
proof (rule agreed_tunnel_change [OF a, where tid = tid])
  have db1: "db1 = db\<lparr>tunnels := delete_rows (\<lambda>r. t_id r = tid) (tunnels db)\<rparr>"
    using d by (auto simp: delete_tunnel_def split: if_splits)
  show "db_inv db1" using inv_delete_tunnel [of db q tid] a d by (simp add: agreed_def)
  show "distinct (keys (policies (remove_policy (tunnel_key tid) e)))" using a distinct_remove by (simp add: agreed_def)
  show "runs_enabled (snd (stop_tunnel tid m)) (tunnels db1)"
    by (rule runs_enabled_stop [of m "tunnels db"]) (use a in \<open>simp_all add: agreed_def db1 delete_rows_def\<close>)
  show "proxy_accounts db1 = proxy_accounts db" by (simp add: db1)
  show "r \<in> set (tunnels db)" if "r \<in> set (tunnels db1)" for r using that by (simp add: db1 delete_rows_def)
  show "tunnel_enforced (remove_policy (tunnel_key tid) e) r" if "r \<in> set (tunnels db1)" "t_id r = tid" for r
    using that by (simp add: db1 delete_rows_def)
qed simp

section \<open>The handlers for proxy accounts\<close>

lemma create_account_result:
  assumes "create_proxy_account q now input db = (r, db1)" and "\<And>i. q i"
  shows "(db1 = db \<and> (\<exists>e. r = Inl e)) \<or>
     ((\<forall>row \<in> set (proxy_accounts db). a_id row \<noteq> pa_id input) \<and>
      db1 = db\<lparr>proxy_accounts := proxy_accounts db @ [account_row_of input now]\<rparr> \<and>
      (\<exists>a. r = Inr a \<and> row_to_proxy_account (account_row_of input now) = Inr a))"
proof -
  have "\<exists>a. row_to_proxy_account (account_row_of input now) = Inr a"
    by (simp add: row_to_proxy_account_def account_row_of_def get_i64_def)
  then obtain a where a: "row_to_proxy_account (account_row_of input now) = Inr a" by blast
  have "a_id (account_row_of input now) = pa_id input" by (simp add: account_row_of_def)
  then show ?thesis using assms a
    by (auto simp: create_proxy_account_def get_proxy_account_def transpose_def Let_def select_one_snoc_new
        split: sum.splits if_splits)
qed

lemma created_account:
  assumes a: "agreed db e m" and "\<And>i. q i" and c: "create_proxy_account q now input db = (Inr t, db1)"
  shows "agreed db1 (register_policy (proxy_account_key (pa_id t)) (pa_expires_at t) (pa_traffic_limit_bytes t) u e) m"
proof -
  let ?row = "account_row_of input now"
  have inv: "db_inv db" "distinct (keys (policies e))" using a by (simp_all add: agreed_def)
  have fresh: "\<forall>row \<in> set (proxy_accounts db). a_id row \<noteq> pa_id input"
    and db1: "db1 = db\<lparr>proxy_accounts := proxy_accounts db @ [?row]\<rparr>" and t: "row_to_proxy_account ?row = Inr t"
    using create_account_result [OF c assms(2)] by auto
  note f = row_to_account_fields [OF t]
  have i: "a_id ?row = pa_id t" "pa_id t = pa_id input" using f by (simp_all add: account_row_of_def)
  have enf: "account_enforced (register_policy (proxy_account_key (pa_id t)) (pa_expires_at t) (pa_traffic_limit_bytes t) u e) ?row"
    unfolding account_enforced_def using f by simp
  show ?thesis
    by (rule agreed_account_change [OF a, where aid = "pa_id t"])
       (use inv_create_proxy_account [OF inv(1), of q now input] c fresh i enf inv(2) distinct_register in \<open>auto simp: db1\<close>)
qed

lemma row_to_account_set:
  assumes "a_rx_bytes r = SqlInt rx" and "a_tx_bytes r = SqlInt tx"
  shows "\<exists>a. row_to_proxy_account (set_account input now r) = Inr a"
  using assms by (simp add: row_to_proxy_account_def set_account_def get_i64_def)

lemma update_account_result:
  assumes "update_proxy_account q now aid input db = (r, db1)" and "\<And>i. q i" and "counts_integral db"
  shows "(db1 = db \<and> (\<forall>a. r \<noteq> Inr (Some a))) \<or>
     (db1 = db\<lparr>proxy_accounts := update_rows (\<lambda>r. a_id r = aid) (set_account input now) (proxy_accounts db)\<rparr> \<and>
      (\<exists>t row. r = Inr (Some t) \<and> row \<in> set (proxy_accounts db) \<and> a_id row = aid \<and>
         row_to_proxy_account (set_account input now row) = Inr t))"
proof (cases "(\<exists>r \<in> set (proxy_accounts db). a_id r = aid) \<and> validate_proxy_kind (pa_kind input) = Inr () \<and>
    \<not> name_taken aid (pa_kind input) (pa_username input) (proxy_accounts db)")
  case True
  let ?rows = "update_rows (\<lambda>r. a_id r = aid) (set_account input now) (proxy_accounts db)"
  obtain row0 where "row0 \<in> set (proxy_accounts db)" "a_id row0 = aid" using True by blast
  then have "set_account input now row0 \<in> set ?rows" "a_id (set_account input now row0) = aid" by (auto simp: update_rows_def)
  then obtain row' where sel: "select_one (\<lambda>r. a_id r = aid) ?rows = Some row'"
    using select_one_ex [of "\<lambda>r. a_id r = aid" ?rows] by blast
  then obtain row where row: "row \<in> set (proxy_accounts db)" "a_id row = aid" "row' = set_account input now row"
    using select_one_update [of a_id "set_account input now" aid "proxy_accounts db" row'] by auto
  then obtain t where t: "row_to_proxy_account row' = Inr t"
    using assms(3) row_to_account_set unfolding counts_integral_def list_all_iff by metis
  then have "update_proxy_account q now aid input db = (Inr (Some t), db\<lparr>proxy_accounts := ?rows\<rparr>)"
    using True assms(2) sel by (simp add: update_proxy_account_def get_proxy_account_def transpose_def Let_def)
  then show ?thesis using assms(1) row t by auto
next
  case False
  then have "\<not> name_taken aid (pa_kind input) (pa_username input) (proxy_accounts db) \<Longrightarrow>
      validate_proxy_kind (pa_kind input) = Inr () \<Longrightarrow> \<forall>r \<in> set (proxy_accounts db). a_id r \<noteq> aid" by blast
  then show ?thesis using assms(1,2)
    by (cases "validate_proxy_kind (pa_kind input)") (auto simp: update_proxy_account_def split: if_splits)
qed

lemma updated_account:
  assumes a: "agreed db e m" and u: "update_proxy_account q now aid input db = (Inr (Some t), db1)" "\<And>i. q i" "counts_integral db"
    and e1: "e1 = (if pa_enabled t
               then snd (allowed now (proxy_account_key (pa_id t))
                      (register_policy (proxy_account_key (pa_id t)) (pa_expires_at t) (pa_traffic_limit_bytes t) used e))
               else remove_policy (proxy_account_key (pa_id t)) e)"
  shows "agreed db1 e1 m"
proof -
  let ?rows = "update_rows (\<lambda>r. a_id r = aid) (set_account input now) (proxy_accounts db)"
  obtain row where db1: "db1 = db\<lparr>proxy_accounts := ?rows\<rparr>" and row: "row \<in> set (proxy_accounts db)" "a_id row = aid"
      and t: "row_to_proxy_account (set_account input now row) = Inr t"
    using update_account_result [OF u] by auto
  note f = row_to_account_fields [OF t]
  have i: "pa_id t = aid" using f(1) row(2) by simp
  show ?thesis
  proof (rule agreed_account_change [OF a, where aid = aid])
    show "db_inv db1" using inv_update_proxy_account [of db q now aid input] a u(1) by (simp add: agreed_def)
    show "distinct (keys (policies e1))" using a distinct_register distinct_remove distinct_allowed by (simp add: e1 agreed_def)
    show "in_force e1 k x l = in_force e k x l" if "k \<noteq> proxy_account_key aid" for k x l using that by (simp add: e1 i)
    show "r \<in> set (proxy_accounts db)" if "r \<in> set (proxy_accounts db1)" "a_id r \<noteq> aid" for r
      using that update_rows_other [of r a_id aid _ "proxy_accounts db"] by (simp add: db1)
    show "account_enforced e1 r" if r: "r \<in> set (proxy_accounts db1)" "a_id r = aid" for r
    proof -
      have "r \<in> set ?rows" using r(1) by (simp add: db1)
      from this r(2) have "\<exists>r0 \<in> set (proxy_accounts db). a_id r0 = aid \<and> r = set_account input now r0" by (rule update_rows_hit) simp
      then obtain r0 where "r = set_account input now r0" "a_id r0 = aid" by blast
      then show ?thesis using f i by (simp add: account_enforced_def e1 set_account_def i64_to_bool_def)
    qed
  qed (simp add: db1)
qed

lemma deleted_account:
  assumes a: "agreed db e m" and d: "delete_proxy_account q aid db = (Inr b, db1)"
  shows "agreed db1 (remove_policy (proxy_account_key aid) e) m"
proof (rule agreed_account_change [OF a, where aid = aid])
  have db1: "db1 = db\<lparr>proxy_accounts := delete_rows (\<lambda>r. a_id r = aid) (proxy_accounts db)\<rparr>"
    using d by (auto simp: delete_proxy_account_def split: if_splits)
  show "db_inv db1" using inv_delete_proxy_account [of db q aid] a d by (simp add: agreed_def)
  show "distinct (keys (policies (remove_policy (proxy_account_key aid) e)))" using a distinct_remove by (simp add: agreed_def)
  show "tunnels db1 = tunnels db" by (simp add: db1)
  show "r \<in> set (proxy_accounts db)" if "r \<in> set (proxy_accounts db1)" for r using that by (simp add: db1 delete_rows_def)
  show "account_enforced (remove_policy (proxy_account_key aid) e) r" if "r \<in> set (proxy_accounts db1)" "a_id r = aid" for r
    using that by (simp add: db1 delete_rows_def)
qed simp

section \<open>Every request keeps the agreement\<close>

lemma console_inv_sessions [simp]: "console_inv (st\<lparr>app_web_sessions := s\<rparr>) = console_inv st"
  by (simp add: console_inv_def)

lemma guarded_inv:
  assumes "console_inv st" and "reliable q (app_db st)"
    and "\<And>st1. console_inv st1 \<Longrightarrow> reliable q (app_db st1) \<Longrightarrow> console_inv (snd (h st1))"
  shows "console_inv (snd (guarded now c h st))"
proof -
  obtain s where s: "snd (require_auth now c st) = st\<lparr>app_web_sessions := s\<rparr>" using require_auth_state by blast
  show ?thesis
    by (cases rule: guarded_cases [of now c st h]) (use assms s in simp_all)
qed

lemma agreed_other_tables:
  "agreed db e m \<Longrightarrow> db_inv db' \<Longrightarrow> tunnels db' = tunnels db \<Longrightarrow> proxy_accounts db' = proxy_accounts db \<Longrightarrow> agreed db' e m"
  by (simp add: agreed_def)

lemma agreed_db_inv: "agreed db e m \<Longrightarrow> db_inv db"
  by (simp add: agreed_def)

lemma agreed_client_ops:
  assumes "agreed db e m"
  shows "create_client q now input db = (r1, db1) \<Longrightarrow> agreed db1 e m"
    and "update_client q now cid input2 db = (r2, db2) \<Longrightarrow> agreed db2 e m"
    and "delete_client q cid db = (r3, db3) \<Longrightarrow> agreed db3 e m"
proof -
  have inv: "db_inv db" using assms by (rule agreed_db_inv)
  show "agreed db1 e m" if "create_client q now input db = (r1, db1)"
    by (rule agreed_other_tables [OF assms])
       (use that inv_create_client [OF inv, of q now input] in \<open>auto simp: create_client_def Let_def split: if_splits\<close>)
  show "agreed db2 e m" if "update_client q now cid input2 db = (r2, db2)"
    by (rule agreed_other_tables [OF assms])
       (use that inv_update_client [OF inv, of q now cid input2] in \<open>auto simp: update_client_def Let_def split: if_splits\<close>)
  show "agreed db3 e m" if "delete_client q cid db = (r3, db3)"
    by (rule agreed_other_tables [OF assms])
       (use that inv_delete_client [OF inv, of q cid] in \<open>auto simp: delete_client_def split: if_splits\<close>)
qed

lemma inv_web_clients:
  assumes "console_inv st" and "reliable q (app_db st)"
  shows "console_inv (snd (web_create_client now c q fresh rq1 st))" "console_inv (snd (web_update_client now c q cid rq2 st))"
    "console_inv (snd (web_delete_client now c q cid st))"
proof -
  show "console_inv (snd (web_create_client now c q fresh rq1 st))"
    unfolding web_create_client_def
    by (rule guarded_inv [OF assms])
       (auto simp: console_inv_def Let_def split: prod.splits sum.splits elim: agreed_client_ops)
  show "console_inv (snd (web_update_client now c q cid rq2 st))"
    unfolding web_update_client_def
    by (rule guarded_inv [OF assms])
       (auto simp: console_inv_def Let_def split: prod.splits sum.splits option.splits elim: agreed_client_ops)
  show "console_inv (snd (web_delete_client now c q cid st))"
    unfolding web_delete_client_def
    by (rule guarded_inv [OF assms])
       (auto simp: console_inv_def Let_def split: prod.splits sum.splits option.splits elim: agreed_client_ops)
qed

lemma inv_web_create_tunnel:
  assumes "console_inv st" and "reliable q (app_db st)"
  shows "console_inv (snd (web_create_tunnel bind now c q fresh rq st))"
  unfolding web_create_tunnel_def
proof (rule guarded_inv [OF assms], goal_cases)
  case (1 st1)
  have a: "agreed (app_db st1) (app_policy st1) (app_tunnels st1)" using 1 by (simp add: console_inv_def)
  have q: "\<And>i. later 1 q i" "later 3 q 0" using 1 by simp_all
  have same: "agreed db1 (app_policy st1) (app_tunnels st1)"
    if "create_tunnel (later 1 q) now input (app_db st1) = (Inl e, db1)" for input e db1
    using create_tunnel_result [OF that q(1) agreed_db_inv [OF a]] a by auto
  note leaf = created_tunnel(1) [OF a q(1) _ refl] created_tunnel(2) [OF a q(1) _ refl] created_tunnel(3) [where ?q1.0 = "later 3 q", OF a q(1) _ refl _ q(2)]
  show ?case
    by (auto simp: console_inv_def a Let_def split: prod.split sum.split option.split intro: same leaf)
qed

lemma inv_web_update_tunnel:
  assumes "console_inv st" and "reliable q (app_db st)"
  shows "console_inv (snd (web_update_tunnel bind now c q tid rq st))"
  unfolding web_update_tunnel_def
proof (rule guarded_inv [OF assms], goal_cases)
  case (1 st1)
  have a: "agreed (app_db st1) (app_policy st1) (app_tunnels st1)" using 1 by (simp add: console_inv_def)
  have q: "\<And>i. later 2 q i" "later 4 q 0" "counts_integral (app_db st1)" using 1 by (simp_all add: reliable_def later_def)
  have same: "agreed db1 (app_policy st1) (app_tunnels st1)"
    if "update_tunnel (later 2 q) now tid input (app_db st1) = (r, db1)" "\<And>t. r \<noteq> Inr (Some t)" for input r db1
    using update_tunnel_result [OF that(1) q(1,3)] that(2) a by auto
  note leaf = updated_tunnel_off [OF a _ q(1,3)] updated_tunnel_started [OF a _ q(1,3) refl]
    updated_tunnel_failed [where ?q1.0 = "later 4 q", OF a _ q(1,3) refl _ q(2) refl]
  show ?case
    by (auto simp: console_inv_def a Let_def split: prod.split sum.split option.split intro: same leaf)
qed

lemma delete_none: "\<forall>r \<in> set rows. \<not> P r \<Longrightarrow> delete_rows P rows = rows"
  by (simp add: delete_rows_def)

lemma inv_web_delete_tunnel:
  assumes "console_inv st" and "reliable q (app_db st)"
  shows "console_inv (snd (web_delete_tunnel now c q tid st))"
  unfolding web_delete_tunnel_def
proof (rule guarded_inv [OF assms], goal_cases)
  case (1 st1)
  have a: "agreed (app_db st1) (app_policy st1) (app_tunnels st1)" using 1 by (simp add: console_inv_def)
  have same: "agreed db1 (app_policy st1) (app_tunnels st1)"
    if d: "delete_tunnel q tid (app_db st1) = (r, db1)" "r \<noteq> Inr True" for r db1
  proof -
    have "db1 = app_db st1"
      using d by (cases "\<exists>r \<in> set (tunnels (app_db st1)). t_id r = tid")
        (auto simp: delete_tunnel_def neq0_conv [symmetric] delete_none simp del: neq0_conv split: if_splits)
    then show ?thesis using a by simp
  qed
  show ?case
    by (auto simp: console_inv_def a Let_def split: prod.split sum.split intro: same deleted_tunnel [OF a])
qed

lemma inv_web_accounts:
  assumes "console_inv st" and "reliable q (app_db st)"
  shows "console_inv (snd (web_create_proxy_account now c q fresh rq1 st))"
    and "console_inv (snd (web_update_proxy_account now c q aid rq2 st))"
    and "console_inv (snd (web_delete_proxy_account now c q aid st))"
proof -
  show "console_inv (snd (web_create_proxy_account now c q fresh rq1 st))"
    unfolding web_create_proxy_account_def
  proof (rule guarded_inv [OF assms], goal_cases)
    case (1 st1)
    have a: "agreed (app_db st1) (app_policy st1) (app_tunnels st1)" using 1 by (simp add: console_inv_def)
    have q: "\<And>i. later 1 q i" using 1 by simp
    have same: "agreed db1 (app_policy st1) (app_tunnels st1)"
      if "create_proxy_account (later 1 q) now input (app_db st1) = (Inl e, db1)" for input e db1
      using create_account_result [OF that q] a by auto
    show ?case
      by (auto simp: console_inv_def a Let_def split: prod.split sum.split option.split intro: same created_account [OF a q])
  qed
  show "console_inv (snd (web_update_proxy_account now c q aid rq2 st))"
    unfolding web_update_proxy_account_def
  proof (rule guarded_inv [OF assms], goal_cases)
    case (1 st1)
    have a: "agreed (app_db st1) (app_policy st1) (app_tunnels st1)" using 1 by (simp add: console_inv_def)
    have q: "\<And>i. later 2 q i" "counts_integral (app_db st1)" using 1 by (simp_all add: reliable_def later_def)
    have same: "agreed db1 (app_policy st1) (app_tunnels st1)"
      if "update_proxy_account (later 2 q) now aid input (app_db st1) = (r, db1)" "\<And>t. r \<noteq> Inr (Some t)" for input r db1
      using update_account_result [OF that(1) q] that(2) a by auto
    have on: "agreed db1 (snd (allowed now (proxy_account_key (pa_id t))
          (register_policy (proxy_account_key (pa_id t)) (pa_expires_at t) (pa_traffic_limit_bytes t) u (app_policy st1)))) (app_tunnels st1)"
      if "update_proxy_account (later 2 q) now aid input (app_db st1) = (Inr (Some t), db1)" "pa_enabled t" for input t db1 u
      using updated_account [OF a that(1) q refl] that(2) by simp
    have off: "agreed db1 (remove_policy (proxy_account_key (pa_id t)) (app_policy st1)) (app_tunnels st1)"
      if "update_proxy_account (later 2 q) now aid input (app_db st1) = (Inr (Some t), db1)" "\<not> pa_enabled t" for input t db1
      using updated_account [OF a that(1) q refl] that(2) by simp
    show ?case
      by (auto simp: console_inv_def a Let_def split: prod.split sum.split option.split intro: same on off)
  qed
  show "console_inv (snd (web_delete_proxy_account now c q aid st))"
    unfolding web_delete_proxy_account_def
  proof (rule guarded_inv [OF assms], goal_cases)
    case (1 st1)
    have a: "agreed (app_db st1) (app_policy st1) (app_tunnels st1)" using 1 by (simp add: console_inv_def)
    have same: "agreed db1 (app_policy st1) (app_tunnels st1)"
      if d: "delete_proxy_account q aid (app_db st1) = (r, db1)" "r \<noteq> Inr True" for r db1
    proof -
      have "db1 = app_db st1"
      using d by (cases "\<exists>r \<in> set (proxy_accounts (app_db st1)). a_id r = aid")
        (auto simp: delete_proxy_account_def neq0_conv [symmetric] delete_none simp del: neq0_conv split: if_splits)
    then show ?thesis using a by simp
    qed
    show ?case
      by (auto simp: console_inv_def a Let_def split: prod.split sum.split intro: same deleted_account [OF a])
  qed
qed


lemma inv_auth_requests:
  "console_inv st \<Longrightarrow> console_inv (snd (auth_status now c st))"
  "console_inv st \<Longrightarrow> console_inv (snd (login hmac now token l st))"
  "console_inv st \<Longrightarrow> console_inv (snd (logout c st))"
  by (auto simp: auth_status_def authenticated_username_def login_def logout_def Let_def
      split: option.split sum.split bool.split prod.split)

lemma snd_respond [simp]: "snd (respond f r) = snd r"
  by (simp add: respond_def split: prod.split sum.split)

lemma guarded_read:
  assumes "console_inv st" and "\<And>st1. snd (h st1) = st1"
  shows "console_inv (snd (guarded now c h st))"
proof -
  obtain s where s: "snd (require_auth now c st) = st\<lparr>app_web_sessions := s\<rparr>" using require_auth_state by blast
  show ?thesis by (cases rule: guarded_cases [of now c st h]) (use assms s in simp_all)
qed

lemma inv_web_reads:
  assumes "console_inv st"
  shows "console_inv (snd (events now c st))" "console_inv (snd (web_status now c q st))" "console_inv (snd (web_clients now c q st))"
    "console_inv (snd (web_tunnels now c q st))" "console_inv (snd (web_proxy now c q st))" "console_inv (snd (web_proxy_accounts now c q kind st))"
  unfolding events_def web_status_def web_clients_def web_tunnels_def web_proxy_def web_proxy_accounts_def
  by (rule guarded_read [OF assms]; simp split: sum.split)+

lemma inv_handle:
  assumes "console_inv st" and "reliable (we_stmts w) (app_db st)"
  shows "console_inv (snd (handle w c rq st))"
  using assms by (cases rq)
    (simp_all add: inv_auth_requests inv_web_reads inv_web_clients inv_web_create_tunnel inv_web_update_tunnel
      inv_web_delete_tunnel inv_web_accounts split: prod.split, metis inv_auth_requests(1) snd_conv)

section \<open>The rest of the controller\<close>

lemma agreed_disable_tunnel:
  assumes a: "agreed db e m"
  shows "agreed (snd (disable_tunnel q now i reason db)) e (snd (stop_tunnel i m))"
proof (rule agreed_tunnel_change [OF a inv_disable_tunnel [OF agreed_db_inv [OF a]], where tid = i])
  let ?f = "\<lambda>r. r\<lparr>t_enabled := 0, t_disabled_reason := Some reason, t_updated_at := now\<rparr>"
  have rows: "tunnels (snd (disable_tunnel q now i reason db)) = (if q 0 then update_rows (\<lambda>r. t_id r = i) ?f (tunnels db) else tunnels db)"
    by (simp add: disable_tunnel_def)
  show "row \<in> set (tunnels db)" if "row \<in> set (tunnels (snd (disable_tunnel q now i reason db)))" "t_id row \<noteq> i" for row
    using that update_rows_other [of row t_id i ?f "tunnels db"] by (simp add: rows split: if_splits)
  show "tunnel_enforced e row" if "row \<in> set (tunnels (snd (disable_tunnel q now i reason db)))" "t_id row = i" for row
  proof (cases "q 0")
    case True
    then have "row \<in> set (update_rows (\<lambda>r. t_id r = i) ?f (tunnels db))" using that(1) by (simp add: rows)
    from this that(2) have "\<exists>r0 \<in> set (tunnels db). t_id r0 = i \<and> row = ?f r0" by (rule update_rows_hit) simp
    then obtain r0 where "row = ?f r0" by blast
    then show ?thesis by (simp add: tunnel_enforced_def)
  next
    case False
    then show ?thesis using that(1) a by (simp add: rows agreed_def list_all_iff)
  qed
  show "runs_enabled (snd (stop_tunnel i m)) (tunnels (snd (disable_tunnel q now i reason db)))"
    by (rule runs_enabled_stop [of _ "tunnels db"]) (use a in \<open>auto simp: agreed_def rows update_rows_def\<close>)
qed (use a in \<open>simp_all add: agreed_def disable_tunnel_def\<close>)

lemma agreed_disable_account:
  assumes a: "agreed db e m"
  shows "agreed (snd (disable_proxy_account q now i reason db)) e m"
proof (rule agreed_account_change [OF a inv_disable_proxy_account [OF agreed_db_inv [OF a]], where aid = i])
  let ?f = "\<lambda>r. r\<lparr>a_enabled := 0, a_disabled_reason := Some reason, a_updated_at := now\<rparr>"
  have rows: "proxy_accounts (snd (disable_proxy_account q now i reason db)) =
      (if q 0 then update_rows (\<lambda>r. a_id r = i) ?f (proxy_accounts db) else proxy_accounts db)"
    by (simp add: disable_proxy_account_def)
  show "row \<in> set (proxy_accounts db)" if "row \<in> set (proxy_accounts (snd (disable_proxy_account q now i reason db)))" "a_id row \<noteq> i" for row
    using that update_rows_other [of row a_id i ?f "proxy_accounts db"] by (simp add: rows split: if_splits)
  show "account_enforced e row" if "row \<in> set (proxy_accounts (snd (disable_proxy_account q now i reason db)))" "a_id row = i" for row
  proof (cases "q 0")
    case True
    then have "row \<in> set (update_rows (\<lambda>r. a_id r = i) ?f (proxy_accounts db))" using that(1) by (simp add: rows)
    from this that(2) have "\<exists>r0 \<in> set (proxy_accounts db). a_id r0 = i \<and> row = ?f r0" by (rule update_rows_hit) simp
    then obtain r0 where "row = ?f r0" by blast
    then show ?thesis by (simp add: account_enforced_def)
  next
    case False
    then show ?thesis using that(1) a by (simp add: rows agreed_def list_all_iff)
  qed
qed (use a in \<open>simp_all add: agreed_def disable_proxy_account_def\<close>)

lemma inv_revoke: "console_inv st \<Longrightarrow> console_inv (revoke q now ev st)"
  by (cases "rk_kind (rv_key ev)")
     (simp_all add: revoke_def Let_def case_prod_beta console_inv_def agreed_disable_tunnel agreed_disable_account)

lemma inv_policy:
  "console_inv st \<Longrightarrow> in_force e = in_force (app_policy st) \<Longrightarrow> distinct (keys (policies e)) \<Longrightarrow> console_inv (st\<lparr>app_policy := e\<rparr>)"
  using agreed_policy [of "app_db st" "app_policy st" "app_tunnels st" e] by (simp add: console_inv_def)

lemma console_inv_distinct: "console_inv st \<Longrightarrow> distinct (keys (policies (app_policy st)))"
  by (simp add: console_inv_def agreed_def)

lemma inv_revoke_all: "console_inv st \<Longrightarrow> console_inv (revoke_all q now ks st)"
  by (induction q now ks st rule: revoke_all.induct) (simp_all add: inv_revoke)

lemma inv_policy_turn:
  assumes "console_inv st"
  shows "console_inv (policy_turn q now ev st)"
proof (cases ev)
  case RecvRevoke
  then show ?thesis using assms
    by (cases "revoke_rx (app_policy st)") (simp_all add: inv_revoke inv_policy console_inv_distinct)
next
  case PolicyTick
  obtain ks e1 where e: "expired_keys now (app_policy st) = (ks, e1)" by force
  have d: "distinct (keys (policies (app_policy st)))" using assms by (rule console_inv_distinct)
  have "in_force e1 = in_force (app_policy st)" "distinct (keys (policies e1))"
    using in_force_expired [OF d, of now] distinct_expired_loop [OF d, of now "policies (app_policy st)"] e
    by (simp_all add: expired_keys_def)
  then show ?thesis using assms PolicyTick by (simp add: e inv_revoke_all inv_policy)
qed

text \<open>The traffic flush changes counters only.\<close>

definition same_tunnel :: "tunnel_row \<Rightarrow> tunnel_row \<Rightarrow> bool" where
  "same_tunnel r s \<longleftrightarrow> t_id r = t_id s \<and> t_enabled r = t_enabled s \<and> t_listen r = t_listen s \<and>
     t_expires_at r = t_expires_at s \<and> t_traffic_limit_bytes r = t_traffic_limit_bytes s"

definition same_account :: "account_row \<Rightarrow> account_row \<Rightarrow> bool" where
  "same_account r s \<longleftrightarrow> a_id r = a_id s \<and> a_enabled r = a_enabled s \<and>
     a_expires_at r = a_expires_at s \<and> a_traffic_limit_bytes r = a_traffic_limit_bytes s"

lemma agreed_rows_map:
  assumes "agreed db e m" and "db_inv db'" and t: "tunnels db' = map f (tunnels db)" "\<And>r. same_tunnel (f r) r"
    and ac: "proxy_accounts db' = map g (proxy_accounts db)" "\<And>r. same_account (g r) r"
  shows "agreed db' e m"
proof -
  have "tunnel_enforced e (f r) = tunnel_enforced e r" "account_enforced e (g s) = account_enforced e s" for r s
    using t(2) [of r] ac(2) [of s] by (simp_all add: tunnel_enforced_def account_enforced_def same_tunnel_def same_account_def)
  moreover have "runs_enabled m (tunnels db')"
    by (rule runs_enabled_mono [of m "tunnels db"]) (use assms(1) t in \<open>auto simp: agreed_def same_tunnel_def\<close>)
  ultimately show ?thesis using assms(1,2) t(1) ac(1) by (simp add: agreed_def list_all_iff)
qed

lemma agreed_counter:
  assumes "agreed db e m"
  shows "agreed (snd (add_traffic_counter ok now scope key rx tx db)) e m"
  by (rule agreed_other_tables [OF assms inv_add_traffic_counter [OF agreed_db_inv [OF assms]]])
     (simp_all add: add_traffic_counter_def)

lemma agreed_resource:
  assumes "agreed db e m"
  shows "agreed (snd (add_resource_traffic ok now tid rx tx db)) e m"
proof -
  let ?f = "\<lambda>r. if ok \<and> proxy_account_id_from_route tid = None \<and> t_id r = tid
      then r\<lparr>t_rx_bytes := sql_add (t_rx_bytes r) (u64_to_i64 rx), t_tx_bytes := sql_add (t_tx_bytes r) (u64_to_i64 tx), t_updated_at := now\<rparr> else r"
  let ?g = "\<lambda>r. if ok \<and> proxy_account_id_from_route tid = Some (a_id r)
      then r\<lparr>a_rx_bytes := sql_add (a_rx_bytes r) (u64_to_i64 rx), a_tx_bytes := sql_add (a_tx_bytes r) (u64_to_i64 tx), a_updated_at := now\<rparr> else r"
  have rows: "tunnels (snd (add_resource_traffic ok now tid rx tx db)) = map ?f (tunnels db)"
    "proxy_accounts (snd (add_resource_traffic ok now tid rx tx db)) = map ?g (proxy_accounts db)"
    by (auto simp: add_resource_traffic_def update_rows_def split: option.split)
  show ?thesis
    by (rule agreed_rows_map [OF assms inv_add_resource_traffic [OF agreed_db_inv [OF assms]] rows(1) _ rows(2)])
       (simp_all add: same_tunnel_def same_account_def)
qed

lemma agreed_traffic:
  assumes "agreed db e m"
  shows "agreed (snd (add_traffic q now cid tid rx tx db)) e m"
proof -
  obtain r1 d1 where 1: "add_traffic_counter (q 0) now ''global'' ''all'' rx tx db = (r1, d1)" by fastforce
  obtain r2 d2 where 2: "add_traffic_counter (q 1) now ''client'' cid rx tx d1 = (r2, d2)" by fastforce
  obtain r3 d3 where 3: "add_traffic_counter (q 2) now ''tunnel'' tid rx tx d2 = (r3, d3)" by fastforce
  have d: "agreed d1 e m" "agreed d2 e m" "agreed d3 e m"
    using agreed_counter [OF assms, of "q 0" now "''global''" "''all''" rx tx] 1
      agreed_counter [of d1 e m "q 1" now "''client''" cid rx tx] 2 agreed_counter [of d2 e m "q 2" now "''tunnel''" tid rx tx] 3 by simp_all
  then show ?thesis by (simp add: add_traffic_def 1 2 3 agreed_resource del: One_nat_def split: sum.split)
qed

section \<open>The start\<close>

lemma collect_Inr: "collect f rs = Inr xs \<Longrightarrow> list_all2 (\<lambda>r x. f r = Inr x) rs xs"
  by (induction rs arbitrary: xs) (auto split: sum.splits)

lemma list_all2_member:
  assumes "list_all2 P xs ys"
  shows "x \<in> set xs \<Longrightarrow> \<exists>y \<in> set ys. P x y" and "y \<in> set ys \<Longrightarrow> \<exists>x \<in> set xs. P x y"
  using assms by (induction rule: list_all2_induct) auto

lemma in_force_fold_register:
  assumes "\<And>t e k x l. in_force (reg t e) k x l \<longleftrightarrow> (if k = key t then x = ex t \<and> l = li t else in_force e k x l)"
  shows "distinct (map key ts) \<Longrightarrow> t \<in> set ts \<Longrightarrow> in_force (fold reg ts e) (key t) (ex t) (li t)"
    and "k \<notin> key ` set ts \<Longrightarrow> in_force (fold reg ts e) k x l = in_force e k x l"
proof -
  show other: "in_force (fold reg ts e) k x l = in_force e k x l" if "k \<notin> key ` set ts" for ts e k x l
    using that by (induction ts arbitrary: e) (auto simp: assms)
  show "distinct (map key ts) \<Longrightarrow> t \<in> set ts \<Longrightarrow> in_force (fold reg ts e) (key t) (ex t) (li t)"
    by (induction ts arbitrary: e) (auto simp: assms other)
qed

lemma distinct_fold_register:
  assumes "\<And>t e. distinct (keys (policies e)) \<Longrightarrow> distinct (keys (policies (reg t e)))"
  shows "distinct (keys (policies e)) \<Longrightarrow> distinct (keys (policies (fold reg ts e)))"
  by (induction ts arbitrary: e) (simp_all add: assms)

lemma loaded_policies:
  assumes "load_from_db q db PolicyEnforcer_channel = (Inr u, e)" and inv: "db_inv db"
  shows "distinct (keys (policies e))" and "list_all (tunnel_enforced e) (tunnels db)" and "list_all (account_enforced e) (proxy_accounts db)"
proof -
  obtain ts as where ts: "list_tunnels q db = Inr ts" and as: "list_proxy_accounts (\<lambda>i. q (Suc i)) None db = Inr as"
      and e: "e = fold register_account_policy as (fold register_tunnel_policy ts PolicyEnforcer_channel)"
    using assms(1) by (auto simp: load_from_db_def Let_def split: sum.splits)
  let ?trows = "sort_key (\<lambda>r. (t_created_at r, t_id r)) (tunnels db)"
  let ?arows = "sort_key (\<lambda>r. (a_kind r, a_created_at r, a_id r)) (proxy_accounts db)"
  have t: "list_all2 (\<lambda>r x. row_to_tunnel r = Inr x) ?trows ts"
    using ts by (auto simp: list_tunnels_def split: if_splits intro: collect_Inr)
  have a: "list_all2 (\<lambda>r x. row_to_proxy_account r = Inr x) ?arows as"
    using as by (auto simp: list_proxy_accounts_def split: if_splits intro: collect_Inr)
  have tk: "map (\<lambda>t. tunnel_key (tn_id t)) ts = map (\<lambda>r. tunnel_key (t_id r)) ?trows"
    using t by (induction rule: list_all2_induct) (simp_all add: row_to_tunnel_fields)
  have ak: "map (\<lambda>t. proxy_account_key (pa_id t)) as = map (\<lambda>r. proxy_account_key (a_id r)) ?arows"
    using a by (induction rule: list_all2_induct) (simp_all add: row_to_account_fields)
  have u: "distinct (map t_id (tunnels db))" "distinct (map a_id (proxy_accounts db))"
    using inv by (simp_all add: db_inv_def tunnels_inv_def accounts_inv_def)
  have td: "distinct (map (\<lambda>t. tunnel_key (tn_id t)) ts)" unfolding tk using u(1) by (simp add: distinct_map inj_on_def)
  have ad: "distinct (map (\<lambda>t. proxy_account_key (pa_id t)) as)" unfolding ak using u(2) by (simp add: distinct_map inj_on_def)
  note ft = in_force_fold_register [of register_tunnel_policy "\<lambda>t. tunnel_key (tn_id t)" tn_expires_at tn_traffic_limit_bytes]
  note fa = in_force_fold_register [of register_account_policy "\<lambda>t. proxy_account_key (pa_id t)" pa_expires_at pa_traffic_limit_bytes]
  show "distinct (keys (policies e))" unfolding e
    by (intro distinct_fold_register)
       (simp_all add: register_account_policy_def register_tunnel_policy_def distinct_register PolicyEnforcer_channel_def)
  show "list_all (tunnel_enforced e) (tunnels db)" unfolding list_all_iff
  proof
    fix r assume "r \<in> set (tunnels db)"
    then have "r \<in> set ?trows" by simp
    then obtain x where x: "x \<in> set ts" "row_to_tunnel r = Inr x" using list_all2_member(1) [OF t] by blast
    have "in_force e (tunnel_key (tn_id x)) (tn_expires_at x) (tn_traffic_limit_bytes x)" unfolding e
      by (subst fa(2)) (use ft(1) [OF _ td x(1)] in \<open>auto simp: register_account_policy_def register_tunnel_policy_def\<close>)
    then show "tunnel_enforced e r" using row_to_tunnel_fields [OF x(2)] by (simp add: tunnel_enforced_def)
  qed
  show "list_all (account_enforced e) (proxy_accounts db)" unfolding list_all_iff
  proof
    fix r assume "r \<in> set (proxy_accounts db)"
    then have "r \<in> set ?arows" by simp
    then obtain x where x: "x \<in> set as" "row_to_proxy_account r = Inr x" using list_all2_member(1) [OF a] by blast
    have "in_force e (proxy_account_key (pa_id x)) (pa_expires_at x) (pa_traffic_limit_bytes x)" unfolding e
      by (rule fa(1) [OF _ ad x(1)]) (simp add: register_account_policy_def)
    then show "account_enforced e r" using row_to_account_fields [OF x(2)] by (simp add: account_enforced_def)
  qed
qed

lemma agreed_start_all:
  assumes "agreed db e m" and "\<forall>t \<in> set ts. tn_enabled t \<and> (\<exists>row \<in> set (tunnels db). row_to_tunnel row = Inr t)"
  shows "case start_all bind now ts e m of (e', m') \<Rightarrow> agreed db e' m'"
  using assms
proof (induction bind now ts e m rule: start_all.induct)
  case (2 bind now t ts e m)
  obtain r e1 m1 where s: "start_tunnel bind now (tunnel_config_from_db t) e m = (r, e1, m1)" by (metis prod_cases3)
  obtain row where row: "row \<in> set (tunnels db)" "row_to_tunnel row = Inr t" "tn_enabled t" using 2(3) by auto
  have "flag_ok (t_enabled row)" using 2(2) row(1) by (auto simp: agreed_def db_inv_def tunnels_inv_def tunnel_ok_def)
  then have "runs_enabled (add_runtime (tunnel_config_from_db t) m) (tunnels db)"
    using 2(2) row row_to_tunnel_fields [OF row(2)]
    by (intro runs_enabled_add [of m _ row]) (simp_all add: agreed_def tunnel_config_from_db_def flag_enabled)
  then have "agreed db e1 m1" using start_tunnel_result [OF s] 2(2) enforced_cong [of e1 e]
    by (cases r) (simp_all add: agreed_def)
  then show ?case using 2(1) [OF s [symmetric] refl] 2(3) by (simp add: s)
qed simp

lemma inv_start:
  assumes "controller_start bind q now cfg db = (Inr u, st)" and inv: "db_inv db"
  shows "console_inv st"
proof -
  obtain e1 where l: "load_from_db q db PolicyEnforcer_channel = (Inr (), e1)"
    using assms(1) by (auto simp: controller_start_def AppState_new_def Let_def split: sum.splits prod.splits)
  obtain ts where ts: "list_tunnels (\<lambda>i. q (i + 2)) db = Inr ts"
      and st: "app_db st = db" "(app_policy st, app_tunnels st) = start_all bind now (filter tn_enabled ts) e1 TunnelManager_new"
    using assms(1) l
    by (auto simp: controller_start_def AppState_new_def Let_def start_enabled_from_db_def split: sum.splits prod.splits)
  have "agreed db e1 TunnelManager_new"
    using loaded_policies [OF l inv] inv by (simp add: agreed_def runs_enabled_def TunnelManager_new_def)
  moreover have "\<forall>t \<in> set (filter tn_enabled ts). tn_enabled t \<and> (\<exists>row \<in> set (tunnels db). row_to_tunnel row = Inr t)"
  proof -
    let ?rows = "sort_key (\<lambda>r. (t_created_at r, t_id r)) (tunnels db)"
    have r: "list_all2 (\<lambda>r x. row_to_tunnel r = Inr x) ?rows ts"
      using ts by (auto simp: list_tunnels_def split: if_splits intro: collect_Inr)
    have "\<exists>row \<in> set ?rows. row_to_tunnel row = Inr t" if "t \<in> set ts" for t using list_all2_member(2) [OF r that] .
    then show ?thesis by simp
  qed
  ultimately show ?thesis
    using agreed_start_all [of db e1 TunnelManager_new "filter tn_enabled ts" bind now] st
    by (simp add: console_inv_def split: prod.splits)
qed

section \<open>Runs of the controller\<close>

inductive controller_step :: "app_state \<Rightarrow> app_state \<Rightarrow> bool" where
  cs_request: "reliable (we_stmts w) (app_db st) \<Longrightarrow> controller_step st (snd (handle w c rq st))"
| cs_policy: "controller_step st (policy_turn q now ev st)"
| cs_usage: "controller_step st (st\<lparr>app_policy := record_route_usage route rx tx (app_policy st)\<rparr>)"
| cs_allowed: "controller_step st (st\<lparr>app_policy := snd (allowed now key (app_policy st))\<rparr>)"
| cs_traffic: "controller_step st (st\<lparr>app_db := snd (add_traffic q now cid tid rx tx (app_db st))\<rparr>)"
| cs_snapshot: "controller_step st (st\<lparr>app_db := snd (capture_usage_snapshot q now ids (app_db st))\<rparr>)"
| cs_agent_connected: "controller_step st (st\<lparr>app_db := snd (record_agent_connected q now s cid role addr (app_db st))\<rparr>)"
| cs_agent_gone: "controller_step st (st\<lparr>app_db := snd (record_agent_disconnected q now s cid (app_db st))\<rparr>)"
| cs_stream: "controller_step st (st\<lparr>app_db := snd (record_stream_open q now s cid tid proto tgt addr (app_db st))\<rparr>)"
| cs_session: "controller_step st (st\<lparr>app_tunnels := snd (register_session uuid tid (app_tunnels st))\<rparr>)"
| cs_session_end: "controller_step st (st\<lparr>app_tunnels := drop_tunnel_guard g (app_tunnels st)\<rparr>)"
| cs_udp: "controller_step st (st\<lparr>app_tunnels := snd (register_udp_session tid (app_tunnels st))\<rparr>)"
| cs_udp_end: "controller_step st (st\<lparr>app_tunnels := drop_udp_guard r (app_tunnels st)\<rparr>)"
| cs_other: "controller_step st (st\<lparr>app_proxies := p, app_clients := cl, app_muxes := ms, app_pools := ps, app_traffic := tr\<rparr>)"

lemma runs_enabled_runtimes:
  assumes "runs_enabled m rows" and "running m' = running m" and "length (runtimes m') = length (runtimes m)"
    and "map rt_listen (runtimes m') = map rt_listen (runtimes m)"
  shows "runs_enabled m' rows"
proof -
  have l: "rt_listen (runtimes m' ! r) = rt_listen (runtimes m ! r)" if "r < length (runtimes m)" for r
    using that assms(3,4) by (metis nth_map)
  have "runs_row m' r row" if "r < length (runtimes m)" "runs_row m r row" for r row
    using that l [OF that(1)] by (simp add: runs_row_def)
  then show ?thesis using assms(1) unfolding runs_enabled_def assms(2,3) by blast
qed

lemma map_listen_update:
  assumes "rt_listen x = rt_listen (xs ! r)"
  shows "map rt_listen (xs[r := x]) = map rt_listen xs"
proof (cases "r < length xs")
  case True
  then show ?thesis using assms by (simp add: map_update list_update_same_conv)
qed (simp add: not_less list_update_beyond)

lemma agreed_sessions:
  assumes "agreed db e m"
  shows "agreed db e (snd (register_session uuid tid m))" "agreed db e (drop_tunnel_guard g m)"
    "agreed db e (snd (register_udp_session tid m))" "agreed db e (drop_udp_guard r m)"
proof -
  have keep: "agreed db e m'" if "running m' = running m" "map rt_listen (runtimes m') = map rt_listen (runtimes m)" for m'
    using assms that runs_enabled_runtimes [of m "tunnels db" m'] map_eq_imp_length_eq [OF that(2)] by (simp add: agreed_def)
  show "agreed db e (snd (register_session uuid tid m))"
    by (rule keep) (simp_all add: register_session_def Let_def map_listen_update split: option.split)
  show "agreed db e (drop_tunnel_guard g m)" by (rule keep) (simp_all add: drop_tunnel_guard_def Let_def map_listen_update)
  show "agreed db e (snd (register_udp_session tid m))"
    by (rule keep) (simp_all add: register_udp_session_def Let_def map_listen_update split: option.split)
  show "agreed db e (drop_udp_guard r m)" by (rule keep) (simp_all add: drop_udp_guard_def Let_def map_listen_update)
qed

lemma agreed_log_ops:
  assumes "agreed db e m"
  shows "agreed (snd (capture_usage_snapshot q now ids db)) e m" "agreed (snd (record_agent_connected q now s cid role addr db)) e m"
    "agreed (snd (record_agent_disconnected q now s cid db)) e m" "agreed (snd (record_stream_open q now s cid tid proto tgt addr db)) e m"
proof -
  have inv: "db_inv db" using assms by (rule agreed_db_inv)
  have loop: "tunnels (snd (snapshot_loop q now ids rows d)) = tunnels d \<and> proxy_accounts (snd (snapshot_loop q now ids rows d)) = proxy_accounts d"
    for q ids rows d by (induction q now ids rows d rule: snapshot_loop.induct) (auto split: sum.split)
  show "agreed (snd (capture_usage_snapshot q now ids db)) e m"
  proof (rule agreed_other_tables [OF assms inv_capture_usage_snapshot [OF inv]])
    obtain r d where l: "snapshot_loop (\<lambda>i. q (Suc i)) now ids (traffic_counters db) db = (r, d)" by force
    then have "tunnels d = tunnels db" "proxy_accounts d = proxy_accounts db"
      using loop [of "\<lambda>i. q (Suc i)" ids "traffic_counters db" db] by simp_all
    then show "tunnels (snd (capture_usage_snapshot q now ids db)) = tunnels db"
      "proxy_accounts (snd (capture_usage_snapshot q now ids db)) = proxy_accounts db"
      by (simp_all add: capture_usage_snapshot_def Let_def l split: sum.split)
  qed
  show "agreed (snd (record_agent_connected q now s cid role addr db)) e m"
    by (rule agreed_other_tables [OF assms inv_record_agent_connected [OF inv]]) (simp_all add: record_agent_connected_def Let_def)
  show "agreed (snd (record_agent_disconnected q now s cid db)) e m"
    by (rule agreed_other_tables [OF assms inv_record_agent_disconnected [OF inv]]) (simp_all add: record_agent_disconnected_def Let_def)
  show "agreed (snd (record_stream_open q now s cid tid proto tgt addr db)) e m"
    by (rule agreed_other_tables [OF assms inv_record_stream_open [OF inv]]) (simp_all add: record_stream_open_def)
qed

definition controller_init :: "app_state \<Rightarrow> bool" where
  "controller_init st \<longleftrightarrow>
     (\<exists>bind q now cfg db. reachable db_init db_step db \<and> controller_start bind q now cfg db = (Inr (), st))"

interpretation controller_sys: invariant_system controller_init controller_step console_inv
proof
  show "console_inv st" if "controller_init st" for st
    using that db_sys.reachable_inv by (auto simp: controller_init_def intro: inv_start)
  show "console_inv t" if "console_inv s" "controller_step s t" for s t
    using that(2,1)
  proof (induction rule: controller_step.induct)
    case (cs_request w st c rq)
    then show ?case by (simp add: inv_handle)
  next
    case (cs_policy st q now ev)
    then show ?case by (rule inv_policy_turn)
  next
    case (cs_usage st route rx tx)
    then show ?case by (intro inv_policy distinct_usage console_inv_distinct) simp_all
  next
    case (cs_allowed st now key)
    then show ?case by (intro inv_policy distinct_allowed console_inv_distinct) simp_all
  qed (simp_all add: console_inv_def agreed_traffic agreed_sessions agreed_log_ops)
qed


definition open_config :: controller_config where
  "open_config = demo_config\<lparr>server := (server demo_config)\<lparr>web_auth := WebAuthConfig_default\<lparr>wa_enabled := False\<rparr>\<rparr>\<rparr>"

definition demo_started :: app_state where
  "demo_started = snd (controller_start (\<lambda>m l. True) (\<lambda>_. True) 3 open_config demo_db2)"

definition demo_new_client :: create_client_request where
  "demo_new_client = \<lparr>cq_psk = Some ''k'', cq_enabled = None, cq_remark = None, cq_max_connections = None, cq_compress = False, cq_encrypt = False\<rparr>"

definition demo_new_tunnel :: create_tunnel_request where
  "demo_new_tunnel = \<lparr>tq_id = Some ''t9'', tq_client_id = ''u'', tq_mode = TcpMode, tq_listen = ''0.0.0.0:9000'', tq_target = Some ''h:80'',
     tq_enabled = None, tq_expires_at = Some 100, tq_traffic_limit_bytes = Some 1000\<rparr>"

definition demo_with_client :: app_state where
  "demo_with_client = snd (handle demo_env None (PostClients demo_new_client) demo_started)"

definition demo_after :: app_state where
  "demo_after = snd (handle demo_env None (PostTunnels demo_new_tunnel) demo_with_client)"

lemma demo_after_runs:
  "map_of (running (app_tunnels demo_after)) ''t9'' = Some 1"
  by code_simp

lemma demo_start_ok: "fst (controller_start (\<lambda>m l. True) (\<lambda>_. True) 3 open_config demo_db2) = Inr ()"
  by code_simp

lemma demo_counts: "counts_integral (app_db demo_started)" "counts_integral (app_db demo_with_client)"
proof -
  have "app_db demo_started = demo_db2"
    by (simp add: demo_started_def controller_start_def AppState_new_def Let_def split: prod.split sum.split)
  moreover have "tunnels (app_db demo_with_client) = tunnels (app_db demo_started)" "proxy_accounts (app_db demo_with_client) = proxy_accounts (app_db demo_started)"
    by code_simp+
  ultimately show "counts_integral (app_db demo_started)" "counts_integral (app_db demo_with_client)"
    by (simp_all add: counts_integral_def demo_db2_rows tunnel_row_of_def account_row_of_def)
qed

lemma demo_after_reachable: "reachable controller_init controller_step demo_after"
proof -
  have "reachable db_init db_step demo_db"
  proof -
    have "db_init empty_database" unfolding db_init_def migrated_database_def by (rule exI [of _ "[]"]) (simp add: empty_database_def)
    then have "reachable db_init db_step empty_database" by (rule reach_init)
    then show ?thesis unfolding demo_db_def by (rule reach_step [where step = db_step]) (rule ds_create_account)
  qed
  then have "reachable db_init db_step demo_db2" unfolding demo_db2_def
    by (rule reach_step [where step = db_step]) (rule ds_create_tunnel)
  then have "controller_init demo_started"
    unfolding controller_init_def demo_started_def using demo_start_ok by (metis prod.collapse)
  then have "reachable controller_init controller_step demo_started" by (rule reach_init)
  then have "reachable controller_init controller_step demo_with_client" unfolding demo_with_client_def
    by (rule reach_step) (rule cs_request, simp add: reliable_def demo_env_def demo_counts)
  then show ?thesis unfolding demo_after_def
    by (rule reach_step) (rule cs_request, simp add: reliable_def demo_env_def demo_counts)
qed


end
