(* ===== verification/Test_Target.thy ===== *)
theory Test_Target
  imports Http_Proxy
begin

text \<open>
  The test target, \<^verbatim>\<open>crates/rps-test-target/src/main.rs\<close>: the TCP and UDP echo services and
  the HTTP service that answers with a given number of bytes. A connection is the list
  of its reads, each with whether the write that follows succeeds.
\<close>

section \<open>Lossy decoding\<close>

text \<open>
  \<^verbatim>\<open>String::from_utf8_lossy\<close>: the length of the next chunk and whether it is a character; a
  maximal ill-formed prefix is replaced by U+FFFD.
\<close>

definition second_ok :: "byte \<Rightarrow> byte \<Rightarrow> bool" where
  "second_ok a b \<longleftrightarrow>
     (if a = 0xE0 then 0xA0 \<le> b \<and> b \<le> 0xBF
      else if a = 0xED then 0x80 \<le> b \<and> b \<le> 0x9F
      else if a = 0xF0 then 0x90 \<le> b \<and> b \<le> 0xBF
      else if a = 0xF4 then 0x80 \<le> b \<and> b \<le> 0x8F
      else cont_byte b)"

definition utf8_chunk :: "byte \<Rightarrow> bytes \<Rightarrow> nat \<times> bool" where
  "utf8_chunk a r =
     (if a \<le> 0x7F then (1, True)
      else if 0xC2 \<le> a \<and> a \<le> 0xDF
      then (case r of b # r' \<Rightarrow> if second_ok a b then (2, True) else (1, False) | [] \<Rightarrow> (1, False))
      else if 0xE0 \<le> a \<and> a \<le> 0xEF
      then (case r of
              [] \<Rightarrow> (1, False)
            | b # r' \<Rightarrow>
                if \<not> second_ok a b then (1, False)
                else (case r' of [] \<Rightarrow> (2, False) | c # _ \<Rightarrow> if cont_byte c then (3, True) else (2, False)))
      else if 0xF0 \<le> a \<and> a \<le> 0xF4
      then (case r of
              [] \<Rightarrow> (1, False)
            | b # r' \<Rightarrow>
                if \<not> second_ok a b then (1, False)
                else (case r' of
                        [] \<Rightarrow> (2, False)
                      | c # r'' \<Rightarrow>
                          if \<not> cont_byte c then (2, False)
                          else (case r'' of [] \<Rightarrow> (3, False) | d # _ \<Rightarrow> if cont_byte d then (4, True) else (3, False))))
      else (1, False))"

lemma utf8_chunk_pos: "0 < fst (utf8_chunk a r)"
  by (simp add: utf8_chunk_def split: list.split)

function from_utf8_lossy :: "bytes \<Rightarrow> string" where
  "from_utf8_lossy [] = []"
| "from_utf8_lossy (a # r) =
     (case utf8_chunk a r of
        (n, ok) \<Rightarrow>
          (if ok then map char_of_byte (take n (a # r)) else [CHR 0xEF, CHR 0xBF, CHR 0xBD]) @
          from_utf8_lossy (drop n (a # r)))"
  by pat_completeness auto
termination
proof (relation "measure length")
  fix a :: byte and r n ok
  assume "(n, ok) = utf8_chunk a r"
  then have "0 < n" using utf8_chunk_pos [of a r] by (metis fst_conv)
  then show "(drop n (a # r), a # r) \<in> measure length" by simp
qed simp

lemma utf8_valid_Cons:
  "utf8_valid (a # r) \<Longrightarrow> snd (utf8_chunk a r) \<and> utf8_valid (drop (fst (utf8_chunk a r)) (a # r))"
proof -
  assume v: "utf8_valid (a # r)"
  consider "a \<le> 0x7F" | "\<not> a \<le> 0x7F" "0xC2 \<le> a" "a \<le> 0xDF" | "0xE0 \<le> a" "a \<le> 0xEF" | "0xF0 \<le> a" "a \<le> 0xF4"
    using v by (simp split: if_splits)
  then show ?thesis
  proof cases
    case 1
    then show ?thesis using v by (simp add: utf8_chunk_def)
  next
    case 2
    then have n: "a \<noteq> 0xE0" "a \<noteq> 0xED" "a \<noteq> 0xF0" "a \<noteq> 0xF4" by auto
    obtain b r' where r: "r = b # r'" "cont_byte b" "utf8_valid r'" using v 2 by (cases r) auto
    have "utf8_chunk a r = (2, True)" using 2 n r(1,2) by (simp add: utf8_chunk_def second_ok_def)
    then show ?thesis using r by simp
  next
    case 3
    then have n: "\<not> a \<le> 0x7F" "\<not> a \<le> 0xDF" "a \<noteq> 0xF0" "a \<noteq> 0xF4" by (auto simp: not_le intro: less_le_trans [of _ "0xE0"])
    obtain b c r' where r: "r = b # c # r'" "second_ok a b" "cont_byte c" "utf8_valid r'"
      using v 3 n by (auto simp: second_ok_def split: list.splits)
    have "utf8_chunk a r = (3, True)" using 3 n r(1-3) by (simp add: utf8_chunk_def)
    then show ?thesis using r by simp
  next
    case 4
    then have n: "\<not> a \<le> 0x7F" "\<not> a \<le> 0xDF" "\<not> a \<le> 0xEF" "a \<noteq> 0xE0" "a \<noteq> 0xED"
      by (auto simp: not_le intro: less_le_trans [of _ "0xF0"])
    obtain b c d r' where r: "r = b # c # d # r'" "second_ok a b" "cont_byte c" "cont_byte d" "utf8_valid r'"
      using v 4 n by (auto simp: second_ok_def split: list.splits)
    have "utf8_chunk a r = (4, True)" using 4 n r(1-4) by (simp add: utf8_chunk_def)
    then show ?thesis using r by simp
  qed
qed

text \<open>Well-formed text is not changed.\<close>

lemma from_utf8_lossy_valid: "utf8_valid bs \<Longrightarrow> from_utf8_lossy bs = map char_of_byte bs"
proof (induction bs rule: from_utf8_lossy.induct)
  case (2 a r)
  obtain n ok where c: "utf8_chunk a r = (n, ok)" by force
  then have "ok" "utf8_valid (drop n (a # r))" using utf8_valid_Cons [OF "2.prems"] by simp_all
  then have "from_utf8_lossy (a # r) = map char_of_byte (take n (a # r)) @ map char_of_byte (drop n (a # r))"
    using "2.IH" [OF c [symmetric]] c by simp
  then show ?case by (metis append_take_drop_id map_append)
qed simp

section \<open>Echo services\<close>

text \<open>One connection of the TCP echo: a read is its bytes or an error.\<close>

fun tcp_echo_conn :: "(bytes option \<times> bool) list \<Rightarrow> bytes" where
  "tcp_echo_conn [] = []"
| "tcp_echo_conn ((None, w) # reads) = []"
| "tcp_echo_conn ((Some buf, w) # reads) =
     (if buf = [] then [] else if w then buf @ tcp_echo_conn reads else [])"

text \<open>The UDP echo: an error of a receive or a send ends the service.\<close>

fun udp_echo_inner :: "((error + bytes \<times> socket_addr) \<times> error option) list \<Rightarrow> (bytes \<times> socket_addr) list \<times> error option" where
  "udp_echo_inner [] = ([], None)"
| "udp_echo_inner ((Inl e, s) # turns) = ([], Some e)"
| "udp_echo_inner ((Inr (buf, remote), s) # turns) =
     (case s of
        Some e \<Rightarrow> ([], Some e)
      | None \<Rightarrow> (case udp_echo_inner turns of (out, r) \<Rightarrow> ((buf, remote) # out, r)))"

section \<open>The HTTP service\<close>

definition USIZE_MAX :: nat where "USIZE_MAX = 18446744073709551615"

definition TARGET_CHUNK :: nat where "TARGET_CHUNK = 64 * 1024"

text \<open>The loop that writes the body in chunks.\<close>

function write_body :: "nat \<Rightarrow> bytes list" where
  "write_body remaining =
     (if remaining > 0
      then let n = min remaining TARGET_CHUNK in replicate n 0x61 # write_body (remaining - n)
      else [])"
  by pat_completeness auto
termination by (relation "measure id") (auto simp: TARGET_CHUNK_def)

declare write_body.simps [simp del]

definition request_path :: "string \<Rightarrow> string" where
  "request_path request =
     (case str_lines request of
        [] \<Rightarrow> ''/''
      | line # _ \<Rightarrow> (let words = split_whitespace line in if 1 < length words then words ! 1 else ''/''))"

definition path_bytes :: "string \<Rightarrow> nat option" where
  "path_bytes path = (case str_strip_prefix ''/bytes/'' path of None \<Rightarrow> None | Some v \<Rightarrow> parse_dec USIZE_MAX v)"

definition bytes_header :: "nat \<Rightarrow> string" where
  "bytes_header n =
     ''HTTP/1.1 200 OK'' @ crlf @ ''Content-Length: '' @ dec_string n @ crlf @ ''Connection: close'' @ crlf @ crlf"

definition ok_response :: string where
  "ok_response = ''HTTP/1.1 200 OK'' @ crlf @ ''Content-Length: 2'' @ crlf @ ''Connection: close'' @ crlf @ crlf @ ''OK''"

text \<open>
  What is written for the first read of a connection, in the order of the writes; a read that
  fails counts as empty, and the first write that fails ends the connection.
\<close>

definition http_ok_conn :: "bytes \<Rightarrow> bytes list" where
  "http_ok_conn buf =
     (case path_bytes (request_path (from_utf8_lossy buf)) of
        Some n \<Rightarrow> as_bytes (bytes_header n) # write_body n
      | None \<Rightarrow> [as_bytes ok_response])"

lemma concat_write_body: "concat (write_body n) = replicate n 0x61"
proof (induction n rule: write_body.induct)
  case (1 n)
  show ?case
  proof (cases "n > 0")
    case True
    have "replicate (min n TARGET_CHUNK) 0x61 @ replicate (n - min n TARGET_CHUNK) 0x61 = replicate n (0x61 :: byte)"
      by (simp add: replicate_add [symmetric])
    then show ?thesis using 1 [OF True refl] True by (simp add: write_body.simps [of n] Let_def)
  qed (simp add: write_body.simps)
qed

lemma tcp_echo_all: "\<forall>(b, w) \<in> set reads. w \<and> b \<noteq> None \<and> b \<noteq> Some [] \<Longrightarrow> tcp_echo_conn reads = concat (map (the \<circ> fst) reads)"
  by (induction reads rule: tcp_echo_conn.induct) auto

end
