(* ===== verification/Loadtest.thy ===== *)
theory Loadtest
  imports Test_Target Socks5
begin

text \<open>
  The load generator, \<^verbatim>\<open>crates/rps-loadtest/src/main.rs\<close>: its SOCKS5 and HTTP clients, the
  transfer loops, and the counting of results. A client that writes and reads in turn is a
  function from the bytes the peer sends to the bytes it has written and its result;
  \<open>encode\<close> is the Base64 encoder. Times are latencies given with each request.
\<close>

datatype lt_protocol = LtTcp | LtUdp | LtHttp | LtSocks5 | LtSocks5Udp

datatype lt_mode = LtRequest | LtThroughput

record lt_args =
  la_mode :: lt_mode
  la_host :: string
  la_tcp_port :: u16
  la_udp_port :: u16
  la_http_proxy_port :: u16
  la_socks5_port :: u16
  la_target_host :: string
  la_target_http_port :: u16
  la_target_udp_port :: u16
  la_levels :: string
  la_requests_per_worker :: nat
  la_payload_bytes :: nat
  la_throughput_bytes :: nat
  la_chunk_bytes :: nat
  la_udp_datagram_bytes :: nat
  la_timeout_secs :: u64
  la_http_proxy_username :: "string option"
  la_http_proxy_password :: "string option"
  la_socks5_username :: "string option"
  la_socks5_password :: "string option"
  la_protocols :: "lt_protocol list"
  la_report :: "string option"

fun protocol_label :: "lt_protocol \<Rightarrow> string" where
  "protocol_label LtTcp = ''tcp''"
| "protocol_label LtUdp = ''udp''"
| "protocol_label LtHttp = ''http''"
| "protocol_label LtSocks5 = ''socks5''"
| "protocol_label LtSocks5Udp = ''socks5udp''"

section \<open>Levels and payloads\<close>

fun parse_level_values :: "string list \<Rightarrow> error + nat list" where
  "parse_level_values [] = Inr []"
| "parse_level_values (v # vs) =
     (let val = trim v
      in if val = [] then parse_level_values vs
         else case parse_dec USIZE_MAX val of
                None \<Rightarrow> Inl (Bail (''invalid level '' @ val))
              | Some n \<Rightarrow> (case parse_level_values vs of Inl e \<Rightarrow> Inl e | Inr ns \<Rightarrow> Inr (n # ns)))"

definition parse_levels :: "string \<Rightarrow> error + nat list" where
  "parse_levels input =
     (case parse_level_values (split_ch (CHR '','') input) of
        Inl e \<Rightarrow> Inl e
      | Inr levels \<Rightarrow> if levels = [] then Inl (Bail ''at least one concurrency level is required'') else Inr levels)"

definition levels_to_string :: "nat list \<Rightarrow> string" where
  "levels_to_string levels = join '','' (map dec_string levels)"

definition lt_payload :: "nat \<Rightarrow> nat \<Rightarrow> nat \<Rightarrow> bytes" where
  "lt_payload len worker seq =
     (let p = as_bytes (''rps-loadtest:'' @ dec_string worker @ '':'' @ dec_string seq @ '':'')
      in p @ replicate (max len (length p) - length p) 0x78)"

section \<open>The SOCKS5 client\<close>

definition socks5_login :: "lt_args \<Rightarrow> error + bytes" where
  "socks5_login args =
     (case la_socks5_username args of
        None \<Rightarrow> Inl (Bail ''socks5 server requires username/password authentication'')
      | Some username \<Rightarrow>
          (case la_socks5_password args of
             None \<Rightarrow> Inl (Bail ''--socks5-username requires --socks5-password'')
           | Some password \<Rightarrow>
               if length username > 255 then Inl (Bail ''socks5 username too long'')
               else if length password > 255 then Inl (Bail ''socks5 password too long'')
               else Inr ([1, of_nat (length username)] @ as_bytes username @ [of_nat (length password)] @ as_bytes password)))"

definition socks5_authenticate :: "lt_args \<Rightarrow> bytes \<Rightarrow> bytes \<times> (error + bytes)" where
  "socks5_authenticate args replies =
     (let hello = (if la_socks5_username args \<noteq> None \<or> la_socks5_password args \<noteq> None then [5, 2, 0, 2] else [5, 1, 0])
      in case read_exact 2 replies of
           Inl e \<Rightarrow> (hello, Inl e)
         | Inr (handshake, r1) \<Rightarrow>
             if handshake ! 0 \<noteq> 5 then (hello, Inl (Bail ''bad socks5 auth version''))
             else if handshake ! 1 = 0 then (hello, Inr r1)
             else if handshake ! 1 = 2
             then (case socks5_login args of
                     Inl e \<Rightarrow> (hello, Inl e)
                   | Inr request \<Rightarrow>
                       (case read_exact 2 r1 of
                          Inl e \<Rightarrow> (hello @ request, Inl e)
                        | Inr (response, r2) \<Rightarrow>
                            (hello @ request,
                             if response \<noteq> [1, 0] then Inl (Bail ''socks5 username/password authentication failed'') else Inr r2)))
             else if handshake ! 1 = 0xff then (hello, Inl (Bail ''socks5 auth negotiation failed''))
             else (hello, Inl (Bail (''unsupported socks5 auth method '' @ dec_string (unat (handshake ! 1))))))"

definition read_bound_host :: "byte \<Rightarrow> bytes \<Rightarrow> error + string \<times> bytes" where
  "read_bound_host atyp r =
     (if atyp = 1
      then (case read_exact 4 r of Inl e \<Rightarrow> Inl e | Inr (raw, r1) \<Rightarrow> Inr (ipv4_to_string (ipv4_from_octets raw), r1))
      else if atyp = 3
      then (case read_u8 r of
              Inl e \<Rightarrow> Inl e
            | Inr (len, r1) \<Rightarrow>
                (case read_exact (unat len) r1 of
                   Inl e \<Rightarrow> Inl e
                 | Inr (raw, r2) \<Rightarrow> (case from_utf8 raw of Inl e \<Rightarrow> Inl e | Inr s \<Rightarrow> Inr (s, r2))))
      else if atyp = 4
      then (case read_exact 16 r of Inl e \<Rightarrow> Inl e | Inr (raw, r1) \<Rightarrow> Inr (ipv6_to_string (ipv6_from_octets raw), r1))
      else Inl (Bail (''unsupported socks5 bind address type '' @ dec_string (unat atyp))))"

definition read_socks_bound_addr :: "byte \<Rightarrow> bytes \<Rightarrow> error + (string \<times> u16) \<times> bytes" where
  "read_socks_bound_addr atyp r =
     (case read_bound_host atyp r of
        Inl e \<Rightarrow> Inl e
      | Inr (host, r1) \<Rightarrow> (case read_u16 r1 of Inl e \<Rightarrow> Inl e | Inr (port, r2) \<Rightarrow> Inr ((host, port), r2)))"

definition socks5_reply :: "string \<Rightarrow> bytes \<Rightarrow> error + (string \<times> u16) \<times> bytes" where
  "socks5_reply message r =
     (case read_exact 4 r of
        Inl e \<Rightarrow> Inl e
      | Inr (header, r1) \<Rightarrow>
          if \<not> (header ! 0 = 5 \<and> header ! 1 = 0) then Inl (Bail message)
          else read_socks_bound_addr (header ! 3) r1)"

definition connect_request :: "lt_args \<Rightarrow> error + bytes" where
  "connect_request args =
     (let host = as_bytes (la_target_host args)
      in if length host > 255 then Inl (Bail ''target host too long'')
         else Inr ([5, 1, 0, 3, of_nat (length host)] @ host @ u16_to_be (la_target_http_port args)))"

definition socks5_connect :: "lt_args \<Rightarrow> bytes \<Rightarrow> bytes \<times> (error + bytes)" where
  "socks5_connect args replies =
     (case socks5_authenticate args replies of
        (out, Inl e) \<Rightarrow> (out, Inl e)
      | (out, Inr r1) \<Rightarrow>
          (case connect_request args of
             Inl e \<Rightarrow> (out, Inl e)
           | Inr request \<Rightarrow>
               (out @ request, case socks5_reply ''socks5 connect failed'' r1 of Inl e \<Rightarrow> Inl e | Inr (_, r2) \<Rightarrow> Inr r2)))"

definition socks5_udp_associate :: "lt_args \<Rightarrow> bytes \<Rightarrow> bytes \<times> (error + (string \<times> u16) \<times> bytes)" where
  "socks5_udp_associate args replies =
     (case socks5_authenticate args replies of
        (out, Inl e) \<Rightarrow> (out, Inl e)
      | (out, Inr r1) \<Rightarrow>
          (out @ [5, 3, 0, 1, 0, 0, 0, 0, 0, 0],
           case socks5_reply ''socks5 udp associate failed'' r1 of
             Inl e \<Rightarrow> Inl e
           | Inr ((host, port), r2) \<Rightarrow>
               Inr ((if host = ''0.0.0.0'' \<or> host = ''::'' then la_host args else host, port), r2)))"

definition build_socks_udp_packet :: "lt_args \<Rightarrow> bytes \<Rightarrow> error + bytes" where
  "build_socks_udp_packet args data =
     (let host = as_bytes (la_target_host args)
      in if length host > 255 then Inl (Bail ''target host too long'')
         else Inr ([0, 0, 0, 3, of_nat (length host)] @ host @ u16_to_be (la_target_udp_port args) @ data))"

definition parse_socks_udp_payload :: "bytes \<Rightarrow> error + bytes" where
  "parse_socks_udp_payload packet =
     (if length packet < 4 then Inl (Bail ''socks5 udp packet too short'')
      else if \<not> (packet ! 0 = 0 \<and> packet ! 1 = 0 \<and> packet ! 2 = 0) then Inl (Bail ''bad socks5 udp header'')
      else
        let finish = (\<lambda>cursor. if length packet < cursor + 2 then Inl (Bail ''truncated socks5 udp packet'')
                               else Inr (drop (cursor + 2) packet))
        in if packet ! 3 = 1 then finish (4 + 4)
           else if packet ! 3 = 3
           then (if length packet \<le> 4 then Inl (Bail ''missing socks5 udp domain length'')
                 else finish (4 + 1 + unat (packet ! 4)))
           else if packet ! 3 = 4 then finish (4 + 16)
           else Inl (Bail (''unsupported socks5 udp address type '' @ dec_string (unat (packet ! 3)))))"

section \<open>The HTTP client\<close>

definition http_proxy_auth_header :: "(bytes \<Rightarrow> string) \<Rightarrow> lt_args \<Rightarrow> error + string" where
  "http_proxy_auth_header encode args =
     (case la_http_proxy_username args of
        None \<Rightarrow>
          if la_http_proxy_password args \<noteq> None then Inl (Bail ''--http-proxy-password requires --http-proxy-username'') else Inr []
      | Some username \<Rightarrow>
          (case la_http_proxy_password args of
             None \<Rightarrow> Inl (Bail ''--http-proxy-username requires --http-proxy-password'')
           | Some password \<Rightarrow>
               Inr (''Proxy-Authorization: Basic '' @ encode (as_bytes (username @ '':'' @ password)) @ crlf)))"

definition lt_target :: "lt_args \<Rightarrow> string" where
  "lt_target args = la_target_host args @ '':'' @ dec_string (unat (la_target_http_port args))"

definition http_proxy_request :: "(bytes \<Rightarrow> string) \<Rightarrow> lt_args \<Rightarrow> string \<Rightarrow> error + string" where
  "http_proxy_request encode args path =
     (case http_proxy_auth_header encode args of
        Inl e \<Rightarrow> Inl e
      | Inr auth \<Rightarrow>
          Inr (''GET http://'' @ lt_target args @ path @ '' HTTP/1.1'' @ crlf @ ''Host: '' @ lt_target args @ crlf @ auth @
               ''Connection: close'' @ crlf @ crlf))"

definition direct_request :: "lt_args \<Rightarrow> string \<Rightarrow> string" where
  "direct_request args path =
     ''GET '' @ path @ '' HTTP/1.1'' @ crlf @ ''Host: '' @ lt_target args @ crlf @ ''Connection: close'' @ crlf @ crlf"

definition bytes_path :: "lt_args \<Rightarrow> string" where
  "bytes_path args = ''/bytes/'' @ dec_string (la_throughput_bytes args)"

text \<open>The check of a whole response.\<close>

definition http_response_ok :: "string \<Rightarrow> bytes \<Rightarrow> error + unit" where
  "http_response_ok message response =
     (let text = from_utf8_lossy response
      in if str_contains text ''200 OK'' \<and> suffix ''OK'' text then Inr () else Inl (Bail message))"

definition MAX_LT_HEADER :: nat where "MAX_LT_HEADER = 64 * 1024"

text \<open>The position of the first blank line: \<^verbatim>\<open>header.windows(4).position\<close>.\<close>

fun blank_position :: "bytes \<Rightarrow> nat option" where
  "blank_position [] = None"
| "blank_position (b # bs) =
     (if prefix (as_bytes (crlf @ crlf)) (b # bs) then Some 0 else map_option Suc (blank_position bs))"

text \<open>The loop of \<^verbatim>\<open>read_http_body_len\<close>: a read is an error or its bytes, none of them at the end.\<close>

fun body_loop :: "nat \<Rightarrow> (error + bytes) list \<Rightarrow> bytes \<Rightarrow> bool \<Rightarrow> nat \<Rightarrow> error + nat" where
  "body_loop expected reads header header_done body_len =
     (if body_len < expected
      then (case reads of
              [] \<Rightarrow> Inr body_len
            | Inl e # _ \<Rightarrow> Inl e
            | Inr buf # reads' \<Rightarrow>
                if buf = [] then Inr body_len
                else if header_done then body_loop expected reads' header True (body_len + length buf)
                else
                  let header1 = header @ buf
                  in (case blank_position header1 of
                        Some pos \<Rightarrow>
                          if \<not> str_contains (from_utf8_lossy (take pos header1)) ''200 OK''
                          then Inl (Bail ''http throughput response not 200'')
                          else if length header1 > MAX_LT_HEADER then Inl (Bail ''http throughput header too large'')
                          else body_loop expected reads' header1 True (body_len + (length header1 - (pos + 4)))
                      | None \<Rightarrow>
                          if length header1 > MAX_LT_HEADER then Inl (Bail ''http throughput header too large'')
                          else body_loop expected reads' header1 False body_len))
      else Inr body_len)"

declare body_loop.simps [simp del]

definition read_http_body_len :: "(error + bytes) list \<Rightarrow> nat \<Rightarrow> error + nat" where
  "read_http_body_len reads expected =
     (case body_loop expected reads [] False 0 of
        Inl e \<Rightarrow> Inl e
      | Inr n \<Rightarrow>
          if n = expected then Inr n
          else Inl (Bail (''http throughput body '' @ dec_string n @ ''/'' @ dec_string expected)))"

section \<open>Transfers\<close>

text \<open>
  The writer of \<^verbatim>\<open>tcp_throughput\<close>: the chunk is written until the total is reached, as
  long as no write fails. With an empty chunk it would never end, which is the value \<^const>\<open>None\<close>.
\<close>

partial_function (option) write_chunks :: "bytes \<Rightarrow> nat \<Rightarrow> bytes \<Rightarrow> bytes option" where
  "write_chunks chunk remaining out =
     (if remaining > 0
      then let n = min remaining (length chunk) in write_chunks chunk (remaining - n) (out @ take n chunk)
      else Some out)"

fun receive_loop :: "nat \<Rightarrow> (error + bytes) list \<Rightarrow> nat \<Rightarrow> error + nat" where
  "receive_loop wanted reads received =
     (if received < wanted
      then (case reads of
              [] \<Rightarrow> Inr received
            | Inl e # _ \<Rightarrow> Inl e
            | Inr buf # reads' \<Rightarrow> if buf = [] then Inr received else receive_loop wanted reads' (received + length buf))
      else Inr received)"

declare receive_loop.simps [simp del]

definition tcp_received :: "nat \<Rightarrow> (error + bytes) list \<Rightarrow> error + nat" where
  "tcp_received wanted reads =
     (case receive_loop wanted reads 0 of
        Inl e \<Rightarrow> Inl e
      | Inr received \<Rightarrow>
          if received = wanted then Inr received
          else Inl (Bail (''tcp throughput received '' @ dec_string received @ ''/'' @ dec_string wanted)))"

definition tcp_throughput_chunk :: "lt_args \<Rightarrow> nat \<Rightarrow> bytes" where
  "tcp_throughput_chunk args worker = lt_payload (la_chunk_bytes args) worker 0"

definition datagram_len :: "lt_args \<Rightarrow> nat" where
  "datagram_len args = max (min (la_udp_datagram_bytes args) (la_throughput_bytes args)) 1"

text \<open>\<^verbatim>\<open>udp_throughput\<close>: one datagram is answered before the next is sent; \<open>answers\<close> are what the socket receives.\<close>

fun udp_exchange :: "nat \<Rightarrow> nat \<Rightarrow> bytes \<Rightarrow> (error + bytes) list \<Rightarrow> nat \<Rightarrow> bytes list \<times> (error + nat) option" where
  "udp_exchange wanted len data answers received =
     (if received < wanted
      then let n = min (wanted - received) len
           in (case answers of
                 [] \<Rightarrow> ([take n data], None)
               | Inl e # _ \<Rightarrow> ([take n data], Some (Inl e))
               | Inr got # answers' \<Rightarrow>
                   if length got \<noteq> n
                   then ([take n data], Some (Inl (Bail (''udp throughput datagram mismatch '' @ dec_string (length got) @ ''/'' @ dec_string n))))
                   else (case udp_exchange wanted len data answers' (received + length got) of
                           (sent, r) \<Rightarrow> (take n data # sent, r)))
      else ([], Some (Inr received)))"

declare udp_exchange.simps [simp del]

definition udp_throughput :: "lt_args \<Rightarrow> nat \<Rightarrow> (error + bytes) list \<Rightarrow> bytes list \<times> (error + nat) option" where
  "udp_throughput args worker answers =
     udp_exchange (la_throughput_bytes args) (datagram_len args) (lt_payload (datagram_len args) worker 0) answers 0"

text \<open>The SOCKS5 datagrams: the answer is a packet whose data must be what was sent.\<close>

definition socks5_udp_answer :: "bytes \<Rightarrow> bytes \<Rightarrow> string \<Rightarrow> error + bytes" where
  "socks5_udp_answer sent packet message =
     (case parse_socks_udp_payload packet of
        Inl e \<Rightarrow> Inl e
      | Inr data \<Rightarrow> if data = sent then Inr data else Inl (Bail message))"

fun socks5_udp_exchange :: "lt_args \<Rightarrow> nat \<Rightarrow> nat \<Rightarrow> bytes \<Rightarrow> (error + bytes) list \<Rightarrow> nat \<Rightarrow> bytes list \<times> (error + nat) option" where
  "socks5_udp_exchange args wanted len data answers received =
     (if received < wanted
      then let n = min (wanted - received) len
           in (case build_socks_udp_packet args (take n data) of
                 Inl e \<Rightarrow> ([], Some (Inl e))
               | Inr packet \<Rightarrow>
                   (case answers of
                      [] \<Rightarrow> ([packet], None)
                    | Inl e # _ \<Rightarrow> ([packet], Some (Inl e))
                    | Inr got # answers' \<Rightarrow>
                        (case socks5_udp_answer (take n data) got ''socks5 udp throughput datagram mismatch'' of
                           Inl e \<Rightarrow> ([packet], Some (Inl e))
                         | Inr d \<Rightarrow>
                             (case socks5_udp_exchange args wanted len data answers' (received + length d) of
                                (sent, r) \<Rightarrow> (packet # sent, r)))))
      else ([], Some (Inr received)))"

declare socks5_udp_exchange.simps [simp del]

section \<open>Single requests\<close>

text \<open>\<^verbatim>\<open>tcp_echo\<close>, \<^verbatim>\<open>udp_echo\<close> and \<^verbatim>\<open>socks5_udp_echo_with_socket\<close>: what is sent, and the verdict on what comes back.\<close>

definition tcp_echo :: "lt_args \<Rightarrow> nat \<Rightarrow> nat \<Rightarrow> bytes \<Rightarrow> bytes \<times> (error + unit)" where
  "tcp_echo args worker seq replies =
     (let data = lt_payload (la_payload_bytes args) worker seq
      in (data, case read_exact (length data) replies of
                  Inl e \<Rightarrow> Inl e
                | Inr (response, _) \<Rightarrow> if response = data then Inr () else Inl (Bail ''tcp echo mismatch'')))"

definition udp_echo :: "lt_args \<Rightarrow> nat \<Rightarrow> nat \<Rightarrow> (error + bytes) \<Rightarrow> bytes \<times> (error + unit)" where
  "udp_echo args worker seq heard =
     (let data = lt_payload (la_payload_bytes args) worker seq
      in (data, case heard of
                  Inl e \<Rightarrow> Inl e
                | Inr response \<Rightarrow>
                    if take (length data + 1024) response = data then Inr () else Inl (Bail ''udp echo mismatch'')))"

definition socks5_udp_echo :: "lt_args \<Rightarrow> nat \<Rightarrow> nat \<Rightarrow> (error + bytes) \<Rightarrow> error + bytes \<times> (error + unit)" where
  "socks5_udp_echo args worker seq heard =
     (let data = lt_payload (la_payload_bytes args) worker seq
      in case build_socks_udp_packet args data of
           Inl e \<Rightarrow> Inl e
         | Inr packet \<Rightarrow>
             Inr (packet,
               case heard of
                 Inl e \<Rightarrow> Inl e
               | Inr got \<Rightarrow>
                   (case socks5_udp_answer data (take (length data + 1024) got) ''socks5 udp echo mismatch'' of
                      Inl e \<Rightarrow> Inl e
                    | Inr _ \<Rightarrow> Inr ())))"

text \<open>\<^verbatim>\<open>http_proxy\<close> and \<^verbatim>\<open>socks5_http\<close>: the whole response is read before it is checked.\<close>

definition http_proxy :: "(bytes \<Rightarrow> string) \<Rightarrow> lt_args \<Rightarrow> (error + bytes) \<Rightarrow> error + bytes \<times> (error + unit)" where
  "http_proxy encode args response =
     (case http_proxy_request encode args ''/'' of
        Inl e \<Rightarrow> Inl e
      | Inr request \<Rightarrow>
          Inr (as_bytes request,
               case response of Inl e \<Rightarrow> Inl e | Inr r \<Rightarrow> http_response_ok ''bad http proxy response'' r))"

definition socks5_http :: "lt_args \<Rightarrow> bytes \<Rightarrow> bytes \<times> (error + unit)" where
  "socks5_http args replies =
     (case socks5_connect args replies of
        (out, Inl e) \<Rightarrow> (out, Inl e)
      | (out, Inr response) \<Rightarrow>
          (out @ as_bytes (direct_request args ''/''), http_response_ok ''bad socks5 response'' response))"

text \<open>
  \<^verbatim>\<open>tcp_throughput\<close>: the writer runs beside the reader and only the reader's result is kept; the
  other transfers read the body of a response, or exchange datagrams over an association.
\<close>

definition tcp_throughput :: "lt_args \<Rightarrow> nat \<Rightarrow> (error + bytes) list \<Rightarrow> bytes option \<times> (error + nat)" where
  "tcp_throughput args worker reads =
     (write_chunks (tcp_throughput_chunk args worker) (la_throughput_bytes args) [], tcp_received (la_throughput_bytes args) reads)"

definition http_proxy_throughput :: "(bytes \<Rightarrow> string) \<Rightarrow> lt_args \<Rightarrow> (error + bytes) list \<Rightarrow> error + bytes \<times> (error + nat)" where
  "http_proxy_throughput encode args reads =
     (case http_proxy_request encode args (bytes_path args) of
        Inl e \<Rightarrow> Inl e
      | Inr request \<Rightarrow> Inr (as_bytes request, read_http_body_len reads (la_throughput_bytes args)))"

definition socks5_throughput :: "lt_args \<Rightarrow> bytes \<Rightarrow> (error + bytes) list \<Rightarrow> bytes \<times> (error + nat)" where
  "socks5_throughput args replies reads =
     (case socks5_connect args replies of
        (out, Inl e) \<Rightarrow> (out, Inl e)
      | (out, Inr _) \<Rightarrow>
          (out @ as_bytes (direct_request args (bytes_path args)), read_http_body_len reads (la_throughput_bytes args)))"

definition socks5_udp_throughput :: "lt_args \<Rightarrow> nat \<Rightarrow> bytes \<Rightarrow> (error + bytes) list \<Rightarrow> bytes list \<times> (error + nat) option" where
  "socks5_udp_throughput args worker replies answers =
     (case socks5_udp_associate args replies of
        (_, Inl e) \<Rightarrow> ([], Some (Inl e))
      | (_, Inr _) \<Rightarrow>
          socks5_udp_exchange args (la_throughput_bytes args) (datagram_len args) (lt_payload (datagram_len args) worker 0) answers 0)"

text \<open>
  What the network does to one operation: whether the first and, for an association, the second
  connection fails, the bytes of the stream, the single reads, and the datagram or whole response.
\<close>

record lt_peer =
  pe_connect :: "error option"
  pe_relay :: "error option"
  pe_stream :: bytes
  pe_reads :: "(error + bytes) list"
  pe_response :: "error + bytes"

definition run_one :: "(bytes \<Rightarrow> string) \<Rightarrow> lt_args \<Rightarrow> lt_protocol \<Rightarrow> nat \<Rightarrow> nat \<Rightarrow> lt_peer \<Rightarrow> error + unit" where
  "run_one encode args protocol worker seq peer =
     (case pe_connect peer of
        Some e \<Rightarrow> Inl e
      | None \<Rightarrow>
          (case protocol of
             LtTcp \<Rightarrow> snd (tcp_echo args worker seq (pe_stream peer))
           | LtUdp \<Rightarrow> snd (udp_echo args worker seq (pe_response peer))
           | LtHttp \<Rightarrow> (case http_proxy encode args (pe_response peer) of Inl e \<Rightarrow> Inl e | Inr (_, r) \<Rightarrow> r)
           | LtSocks5 \<Rightarrow> snd (socks5_http args (pe_stream peer))
           | LtSocks5Udp \<Rightarrow>
               (case socks5_udp_associate args (pe_stream peer) of
                  (_, Inl e) \<Rightarrow> Inl e
                | (_, Inr _) \<Rightarrow>
                    (case pe_relay peer of
                       Some e \<Rightarrow> Inl e
                     | None \<Rightarrow> (case socks5_udp_echo args worker seq (pe_response peer) of Inl e \<Rightarrow> Inl e | Inr (_, r) \<Rightarrow> r)))))"

text \<open>\<^verbatim>\<open>run_one_throughput\<close>: \<^const>\<open>None\<close> is an exchange whose answer has not come.\<close>

definition run_one_throughput :: "(bytes \<Rightarrow> string) \<Rightarrow> lt_args \<Rightarrow> lt_protocol \<Rightarrow> nat \<Rightarrow> lt_peer \<Rightarrow> (error + nat) option" where
  "run_one_throughput encode args protocol worker peer =
     (case pe_connect peer of
        Some e \<Rightarrow> Some (Inl e)
      | None \<Rightarrow>
          (case protocol of
             LtTcp \<Rightarrow> (case tcp_throughput args worker (pe_reads peer) of (None, _) \<Rightarrow> None | (Some _, r) \<Rightarrow> Some r)
           | LtUdp \<Rightarrow> snd (udp_throughput args worker (pe_reads peer))
           | LtHttp \<Rightarrow>
               Some (case http_proxy_throughput encode args (pe_reads peer) of Inl e \<Rightarrow> Inl e | Inr (_, r) \<Rightarrow> r)
           | LtSocks5 \<Rightarrow> Some (snd (socks5_throughput args (pe_stream peer) (pe_reads peer)))
           | LtSocks5Udp \<Rightarrow>
               (case pe_relay peer of
                  Some e \<Rightarrow> Some (case snd (socks5_udp_associate args (pe_stream peer)) of Inl e' \<Rightarrow> Inl e' | Inr _ \<Rightarrow> Inl e)
                | None \<Rightarrow> snd (socks5_udp_throughput args worker (pe_stream peer) (pe_reads peer)))))"

section \<open>Counting\<close>

record run_result =
  rr_protocol :: lt_protocol
  rr_concurrency :: nat
  rr_requests :: nat
  rr_ok :: nat
  rr_errors :: nat
  rr_latencies :: "nat list"
  rr_error_samples :: "string list"

text \<open>What a worker returns: successes, errors, latencies and error texts.\<close>

type_synonym worker_result = "nat \<times> nat \<times> nat list \<times> string list"

definition add_sample :: "nat \<Rightarrow> string \<Rightarrow> string list \<Rightarrow> string list" where
  "add_sample limit sample errs = (if length errs < limit then errs @ [sample] else errs)"

fun request_worker :: "(error + nat) list \<Rightarrow> worker_result \<Rightarrow> worker_result" where
  "request_worker [] acc = acc"
| "request_worker (Inr latency # results) (ok, errors, latencies, errs) =
     request_worker results (ok + 1, errors, latencies @ [latency], errs)"
| "request_worker (Inl err # results) (ok, errors, latencies, errs) =
     request_worker results (ok, errors + 1, latencies, add_sample 5 (err_string err) errs)"

text \<open>\<^verbatim>\<open>run_socks5_udp_worker\<close>: after the association, the first failure ends the worker.\<close>

fun udp_worker_loop :: "(error + nat) list \<Rightarrow> nat \<Rightarrow> nat list \<Rightarrow> error + nat \<times> nat list" where
  "udp_worker_loop [] ok latencies = Inr (ok, latencies)"
| "udp_worker_loop (Inl e # results) ok latencies = Inl e"
| "udp_worker_loop (Inr latency # results) ok latencies = udp_worker_loop results (ok + 1) (latencies @ [latency])"

definition run_socks5_udp_worker :: "error + unit \<Rightarrow> (error + nat) list \<Rightarrow> error + nat \<times> nat list" where
  "run_socks5_udp_worker assoc results =
     (case assoc of Inl e \<Rightarrow> Inl e | Inr _ \<Rightarrow> udp_worker_loop results 0 [])"

definition udp_worker :: "nat \<Rightarrow> error + unit \<Rightarrow> (error + nat) list \<Rightarrow> worker_result" where
  "udp_worker requests_per_worker assoc results =
     (case run_socks5_udp_worker assoc results of
        Inr (ok, latencies) \<Rightarrow> (ok, 0, latencies, [])
      | Inl e \<Rightarrow> (0, requests_per_worker, [], [err_string e]))"

text \<open>A worker of \<^verbatim>\<open>run_protocol\<close>: each operation takes its time, or the timer ends it.\<close>

definition timed_one ::
  "(bytes \<Rightarrow> string) \<Rightarrow> lt_args \<Rightarrow> lt_protocol \<Rightarrow> nat \<Rightarrow> nat \<times> lt_peer \<times> nat option \<Rightarrow> error + nat" where
  "timed_one encode args protocol worker turn =
     (case turn of (seq, peer, took) \<Rightarrow>
        (case took of
           None \<Rightarrow> Inl (Bail ''operation timed out'')
         | Some d \<Rightarrow> (case run_one encode args protocol worker seq peer of Inl e \<Rightarrow> Inl e | Inr _ \<Rightarrow> Inr d)))"

definition udp_echo_turn :: "lt_args \<Rightarrow> nat \<Rightarrow> nat \<times> lt_peer \<times> nat option \<Rightarrow> error + nat" where
  "udp_echo_turn args worker turn =
     (case turn of (seq, peer, took) \<Rightarrow>
        (case took of
           None \<Rightarrow> Inl (Bail ''operation timed out'')
         | Some d \<Rightarrow>
             (case socks5_udp_echo args worker seq (pe_response peer) of
                Inl e \<Rightarrow> Inl e
              | Inr (_, Inl e) \<Rightarrow> Inl e
              | Inr (_, Inr _) \<Rightarrow> Inr d)))"

definition worker_task ::
  "(bytes \<Rightarrow> string) \<Rightarrow> lt_args \<Rightarrow> lt_protocol \<Rightarrow> nat \<Rightarrow> error + unit \<Rightarrow> (lt_peer \<times> nat option) list \<Rightarrow> worker_result" where
  "worker_task encode args protocol worker assoc peers =
     (if protocol = LtSocks5Udp
      then udp_worker (la_requests_per_worker args) assoc (map (udp_echo_turn args worker) (enumerate 0 peers))
      else request_worker (map (timed_one encode args protocol worker) (enumerate 0 peers)) (0, 0, [], []))"

text \<open>The loop over the finished tasks; a task that panicked counts as its requests failed.\<close>

fun collect_workers :: "nat \<Rightarrow> (string + worker_result) list \<Rightarrow> worker_result \<Rightarrow> worker_result" where
  "collect_workers rpw [] acc = acc"
| "collect_workers rpw (Inr (o1, e1, l1, s1) # tasks) (ok, errors, latencies, errs) =
     collect_workers rpw tasks (ok + o1, errors + e1, latencies @ l1, fold (add_sample 8) s1 errs)"
| "collect_workers rpw (Inl err # tasks) (ok, errors, latencies, errs) =
     collect_workers rpw tasks (ok, errors + rpw, latencies, add_sample 8 err errs)"

definition run_protocol :: "lt_args \<Rightarrow> lt_protocol \<Rightarrow> nat \<Rightarrow> (string + worker_result) list \<Rightarrow> run_result" where
  "run_protocol args protocol concurrency tasks =
     (case collect_workers (la_requests_per_worker args) tasks (0, 0, [], []) of
        (ok, errors, latencies, errs) \<Rightarrow>
          \<lparr>rr_protocol = protocol, rr_concurrency = concurrency, rr_requests = concurrency * la_requests_per_worker args,
           rr_ok = ok, rr_errors = errors, rr_latencies = latencies, rr_error_samples = errs\<rparr>)"

record throughput_result =
  tp_protocol :: lt_protocol
  tp_concurrency :: nat
  tp_bytes_per_worker :: nat
  tp_bytes_ok :: nat
  tp_workers_ok :: nat
  tp_worker_errors :: nat
  tp_error_samples :: "string list"

fun collect_throughput :: "(error + nat) list \<Rightarrow> nat \<times> nat \<times> nat \<times> string list \<Rightarrow> nat \<times> nat \<times> nat \<times> string list" where
  "collect_throughput [] acc = acc"
| "collect_throughput (Inr n # tasks) (bytes, ok, errors, errs) = collect_throughput tasks (bytes + n, ok + 1, errors, errs)"
| "collect_throughput (Inl e # tasks) (bytes, ok, errors, errs) =
     collect_throughput tasks (bytes, ok, errors + 1, add_sample 8 (err_string e) errs)"

definition run_throughput :: "lt_args \<Rightarrow> lt_protocol \<Rightarrow> nat \<Rightarrow> (error + nat) list \<Rightarrow> throughput_result" where
  "run_throughput args protocol concurrency tasks =
     (case collect_throughput tasks (0, 0, 0, []) of
        (bytes, ok, errors, errs) \<Rightarrow>
          \<lparr>tp_protocol = protocol, tp_concurrency = concurrency, tp_bytes_per_worker = la_throughput_bytes args,
           tp_bytes_ok = bytes, tp_workers_ok = ok, tp_worker_errors = errors, tp_error_samples = errs\<rparr>)"

definition total_expected_bytes :: "throughput_result \<Rightarrow> nat" where
  "total_expected_bytes r = tp_concurrency r * tp_bytes_per_worker r"

text \<open>The order of the runs in \<^verbatim>\<open>main\<close>.\<close>

definition run_plan :: "lt_args \<Rightarrow> error + (lt_protocol \<times> nat) list" where
  "run_plan args =
     (case parse_levels (la_levels args) of
        Inl e \<Rightarrow> Inl e
      | Inr levels \<Rightarrow> Inr (concat (map (\<lambda>p. map (\<lambda>c. (p, c)) levels) (la_protocols args))))"

section \<open>The counts are complete\<close>

definition worker_ok :: "nat \<Rightarrow> worker_result \<Rightarrow> bool" where
  "worker_ok rpw r = (case r of (ok, errors, latencies, errs) \<Rightarrow> ok + errors = rpw \<and> length latencies = ok)"

lemma length_add_sample: "length errs \<le> k \<Longrightarrow> length (add_sample k e errs) \<le> k"
  by (simp add: add_sample_def)

lemma length_add_samples: "length errs \<le> k \<Longrightarrow> length (fold (add_sample k) es errs) \<le> k"
  by (induction es arbitrary: errs) (simp_all add: length_add_sample)

lemma request_worker_counts:
  assumes "worker_ok n (ok, errors, latencies, errs)"
  shows "worker_ok (n + length results) (request_worker results (ok, errors, latencies, errs))"
  using assms
proof (induction results arbitrary: n ok errors latencies errs)
  case (Cons r results)
  show ?case
  proof (cases r)
    case (Inl e)
    have "worker_ok (Suc n) (ok, errors + 1, latencies, add_sample 5 (err_string e) errs)" using Cons.prems by (simp add: worker_ok_def)
    from Cons.IH [OF this] show ?thesis by (simp add: Inl)
  next
    case (Inr l)
    have "worker_ok (Suc n) (ok + 1, errors, latencies @ [l], errs)" using Cons.prems by (simp add: worker_ok_def)
    from Cons.IH [OF this] show ?thesis by (simp add: Inr)
  qed
qed simp

lemma udp_worker_loop_counts:
  "udp_worker_loop results ok latencies = Inr (ok', latencies') \<Longrightarrow> length latencies = ok \<Longrightarrow>
   ok' = ok + length results \<and> length latencies' = ok'"
  by (induction results ok latencies rule: udp_worker_loop.induct) auto

lemma udp_worker_counts: "worker_ok (length results) (udp_worker (length results) assoc results)"
  using udp_worker_loop_counts [of results 0 "[]"]
  by (auto simp: udp_worker_def run_socks5_udp_worker_def worker_ok_def split: sum.split)

lemma worker_task_counts:
  assumes "length peers = la_requests_per_worker args"
  shows "worker_ok (la_requests_per_worker args) (worker_task encode args protocol worker assoc peers)"
proof -
  have "worker_ok (length results) (request_worker results (0, 0, [], []))" for results
    using request_worker_counts [of 0 0 0 "[]" "[]" results] by (simp add: worker_ok_def)
  from this [of "map (timed_one encode args protocol worker) (enumerate 0 peers)"]
    udp_worker_counts [of "map (udp_echo_turn args worker) (enumerate 0 peers)" assoc]
  show ?thesis using assms by (simp add: worker_task_def)
qed

lemma collect_workers_counts:
  assumes "\<forall>r. Inr r \<in> set tasks \<longrightarrow> worker_ok rpw r" and "worker_ok n (ok, errors, latencies, errs)" and "length errs \<le> 8"
  shows "worker_ok (n + length tasks * rpw) (collect_workers rpw tasks (ok, errors, latencies, errs)) \<and>
         length (snd (snd (snd (collect_workers rpw tasks (ok, errors, latencies, errs))))) \<le> 8"
  using assms
proof (induction tasks arbitrary: n ok errors latencies errs)
  case (Cons t tasks)
  show ?case
  proof (cases t)
    case (Inl e)
    have "worker_ok (n + rpw) (ok, errors + rpw, latencies, add_sample 8 e errs)" using Cons.prems(2) by (simp add: worker_ok_def)
    moreover have "length (add_sample 8 e errs) \<le> 8" using Cons.prems(3) by (rule length_add_sample)
    ultimately show ?thesis using Cons.IH [of "n + rpw"] Cons.prems(1) by (simp add: Inl add.assoc)
  next
    case (Inr r)
    obtain o1 e1 l1 s1 where r: "r = (o1, e1, l1, s1)" by (cases r)
    then have "worker_ok rpw (o1, e1, l1, s1)" using Cons.prems(1) Inr by simp
    then have "worker_ok (n + rpw) (ok + o1, errors + e1, latencies @ l1, fold (add_sample 8) s1 errs)"
      using Cons.prems(2) by (auto simp: worker_ok_def)
    moreover have "length (fold (add_sample 8) s1 errs) \<le> 8" using Cons.prems(3) by (rule length_add_samples)
    ultimately show ?thesis using Cons.IH [of "n + rpw"] Cons.prems(1) by (simp add: Inr r add.assoc)
  qed
qed simp

text \<open>Every request of a run is counted once, as a success with a latency or as an error.\<close>

lemma run_protocol_counts:
  assumes "\<forall>r. Inr r \<in> set tasks \<longrightarrow> worker_ok (la_requests_per_worker args) r" and "length tasks = concurrency"
  shows "rr_ok (run_protocol args p concurrency tasks) + rr_errors (run_protocol args p concurrency tasks)
           = rr_requests (run_protocol args p concurrency tasks)
       \<and> length (rr_latencies (run_protocol args p concurrency tasks)) = rr_ok (run_protocol args p concurrency tasks)
       \<and> length (rr_error_samples (run_protocol args p concurrency tasks)) \<le> 8"
  using collect_workers_counts [OF assms(1), of 0 0 0 "[]" "[]"] assms(2)
  by (simp add: run_protocol_def worker_ok_def split: prod.splits)

text \<open>In particular when every task that did not panic is a worker of the run.\<close>

lemma run_counts_every_request:
  assumes "\<forall>r. Inr r \<in> set tasks \<longrightarrow>
      (\<exists>worker assoc peers. length peers = la_requests_per_worker args \<and> r = worker_task encode args p worker assoc peers)"
    and "length tasks = concurrency"
  shows "rr_ok (run_protocol args p concurrency tasks) + rr_errors (run_protocol args p concurrency tasks) =
    concurrency * la_requests_per_worker args"
proof -
  have "\<forall>r. Inr r \<in> set tasks \<longrightarrow> worker_ok (la_requests_per_worker args) r" using assms(1) worker_task_counts by blast
  from run_protocol_counts [OF this assms(2), of p] show ?thesis by (simp add: run_protocol_def split: prod.split)
qed

lemma run_throughput_counts:
  "length tasks = concurrency \<Longrightarrow>
   tp_workers_ok (run_throughput args p concurrency tasks) + tp_worker_errors (run_throughput args p concurrency tasks) = concurrency"
proof -
  have "fst (snd (collect_throughput tasks (b, k, e, s))) + fst (snd (snd (collect_throughput tasks (b, k, e, s)))) = k + e + length tasks" for b k e s
    by (induction tasks "(b, k, e, s)" arbitrary: b k e s rule: collect_throughput.induct) simp_all
  then have "fst (snd (collect_throughput tasks (0, 0, 0, []))) + fst (snd (snd (collect_throughput tasks (0, 0, 0, [])))) = length tasks" by simp
  then show "length tasks = concurrency \<Longrightarrow> ?thesis" by (auto simp: run_throughput_def split: prod.splits)
qed

section \<open>The transfers end\<close>

lemma lt_payload_length: "length (lt_payload len worker seq) \<ge> len" "lt_payload len worker seq \<noteq> []"
  by (simp_all add: lt_payload_def Let_def as_bytes_def)

lemma write_chunks_total:
  assumes "chunk \<noteq> []"
  shows "\<exists>sent. write_chunks chunk n out = Some (out @ sent) \<and> length sent = n \<and> set sent \<subseteq> set chunk"
proof (induction n arbitrary: out rule: less_induct)
  case (less n)
  show ?case
  proof (cases "n > 0")
    case True
    let ?n = "min n (length chunk)"
    have "n - ?n < n" using True assms by simp
    from less.IH [OF this, of "out @ take ?n chunk"] obtain sent where
      s: "write_chunks chunk (n - ?n) (out @ take ?n chunk) = Some ((out @ take ?n chunk) @ sent)" "length sent = n - ?n" "set sent \<subseteq> set chunk"
      by blast
    then have "write_chunks chunk n out = Some (out @ (take ?n chunk @ sent))" using True by (subst write_chunks.simps) (simp add: Let_def)
    moreover have "length (take ?n chunk @ sent) = n" "set (take ?n chunk @ sent) \<subseteq> set chunk" using s(2,3) set_take_subset [of ?n chunk] by auto
    ultimately show ?thesis by blast
  next
    case False
    then show ?thesis by (subst write_chunks.simps) simp
  qed
qed

text \<open>The writer of a throughput test ends and has sent the configured number of bytes.\<close>

lemma tcp_writer_ends:
  "\<exists>sent. write_chunks (tcp_throughput_chunk args worker) (la_throughput_bytes args) [] = Some sent \<and> length sent = la_throughput_bytes args"
  using write_chunks_total [of "tcp_throughput_chunk args worker" "la_throughput_bytes args" "[]"] lt_payload_length(2)
  by (auto simp: tcp_throughput_chunk_def)

text \<open>With every datagram answered, the exchange ends after the fewest datagrams that carry the total.\<close>

lemma udp_exchange_ends:
  assumes "0 < len" "len \<le> length data" "received \<le> wanted"
  shows "\<exists>sent. udp_exchange wanted len data (map Inr sent @ rest) received = (sent, Some (Inr wanted)) \<and>
    length sent = (wanted - received + (len - 1)) div len \<and> length (concat sent) = wanted - received \<and>
    (\<forall>d \<in> set sent. d \<noteq> [] \<and> length d \<le> len)"
  using assms(3)
proof (induction "wanted - received" arbitrary: received rule: less_induct)
  case less
  show ?case
  proof (cases "received < wanted")
    case True
    let ?n = "min (wanted - received) len"
    have n: "0 < ?n" "length (take ?n data) = ?n" using True assms(1,2) by simp_all
    have "wanted - (received + ?n) < wanted - received" "received + ?n \<le> wanted" using True n(1) by simp_all
    from less.hyps [OF this] obtain sent where s:
      "udp_exchange wanted len data (map Inr sent @ rest) (received + ?n) = (sent, Some (Inr wanted))"
      "length sent = (wanted - (received + ?n) + (len - 1)) div len" "length (concat sent) = wanted - (received + ?n)"
      "\<forall>d \<in> set sent. d \<noteq> [] \<and> length d \<le> len" by blast
    have "udp_exchange wanted len data (map Inr (take ?n data # sent) @ rest) received = (take ?n data # sent, Some (Inr wanted))"
      using True s(1) n(2) by (subst udp_exchange.simps) (simp add: Let_def)
    moreover have "length (take ?n data # sent) = (wanted - received + (len - 1)) div len"
    proof (cases "wanted - received \<le> len")
      case le: True
      then have "wanted - received + (len - 1) = len + (wanted - received - 1)" "wanted - received - 1 < len" using True by simp_all
      then have "(wanted - received + (len - 1)) div len = 1" using assms(1) by (simp only: div_add_self1) simp
      then show ?thesis using le True assms(1) by (simp add: s(2))
    next
      case False
      then have "wanted - received + (len - 1) = len + (wanted - (received + len) + (len - 1))" by simp
      then have "(wanted - received + (len - 1)) div len = Suc ((wanted - (received + len) + (len - 1)) div len)"
        using assms(1) by (simp only: div_add_self1)
      then show ?thesis using False by (simp only: s(2) list.size min_absorb2 nat_le_linear)
    qed
    moreover have "length (concat (take ?n data # sent)) = wanted - received"
      unfolding concat.simps length_append n(2) s(3) using True by linarith
    moreover have "\<forall>d \<in> set (take ?n data # sent). d \<noteq> [] \<and> length d \<le> len" using s(4) n by auto
    ultimately show ?thesis by blast
  next
    case False
    then show ?thesis using less.prems assms(1) by (intro exI [of _ "[]"]) (simp add: udp_exchange.simps [of wanted len data rest])
  qed
qed

section \<open>The body of a response\<close>

text \<open>Characters of a request line: visible ASCII.\<close>

definition visible :: "char \<Rightarrow> bool" where
  "visible c \<longleftrightarrow> 0x20 < byte_of_char c \<and> byte_of_char c \<le> 0x7E"

lemma visible_facts:
  assumes "visible c"
  shows "byte_of_char c \<le> 0x7F" "c \<noteq> CR" "c \<noteq> LF" "\<not> ws1 c" "\<not> ws2 c b" "\<not> ws3 c b d"
proof -
  show "byte_of_char c \<le> 0x7F" using assms le_less_trans [of "byte_of_char c" "0x7E" "0x7F"] by (auto simp: visible_def)
  have "c \<notin> {CHR 0x09, CHR 0x0A, CHR 0x0B, CHR 0x0C, CHR 0x0D, CHR 0x20, CHR 0xC2, CHR 0xE1, CHR 0xE2, CHR 0xE3}"
    using assms by (auto simp: visible_def byte_of_char_def)
  then show "c \<noteq> CR" "c \<noteq> LF" "\<not> ws1 c" "\<not> ws2 c b" "\<not> ws3 c b d" by (auto simp: ws1_def ws2_def ws3_def)
qed

lemma visible_digit: "d < 10 \<Longrightarrow> visible (digit_char d)"
  by (simp add: visible_def digit_char_def byte_of_char_def word_less_nat_alt word_le_nat_alt unat_word_ariths unat_of_nat)

lemma visible_dec_string: "\<forall>c \<in> set (dec_string n). visible c"
proof (induction n rule: dec_string.induct)
  case (1 n)
  then show ?case by (cases "n < 10") (auto simp: dec_string.simps [of n] visible_digit)
qed

lemma ws_len_visible: "visible c \<Longrightarrow> ws_len (c # r) = 0"
  by (simp add: ws_len_def visible_facts split: list.split)

lemma take_word_visible:
  assumes "\<forall>c \<in> set w. visible c"
  shows "take_word (w @ CHR '' '' # r) = w" "take_word w = w"
  using assms by (induction w) (simp_all add: ws_len_visible, simp add: ws_len_def ws1_def)

lemma split_words:
  assumes "\<forall>c \<in> set w. visible c" "w \<noteq> []"
  shows "split_whitespace (w @ CHR '' '' # r) = w # split_whitespace r" "split_whitespace w = [w]"
proof -
  have ws: "ws_len (w @ x) = 0" for x
    using assms by (cases w) (simp_all add: ws_len_visible)
  have sp: "split_whitespace (CHR '' '' # r) = split_whitespace r"
    by (subst split_whitespace.simps) (simp add: ws_len_def ws1_def)
  show "split_whitespace (w @ CHR '' '' # r) = w # split_whitespace r"
    by (subst split_whitespace.simps) (simp add: ws take_word_visible [OF assms(1)] sp)
  show "split_whitespace w = [w]"
    using ws [of "[]"] assms(2) by (subst split_whitespace.simps) (simp add: take_word_visible [OF assms(1)] split_whitespace.simps [of "[]"])
qed

lemma lossy_ascii: "\<forall>b \<in> set bs. b \<le> 0x7F \<Longrightarrow> from_utf8_lossy (bs @ r) = map char_of_byte bs @ from_utf8_lossy r"
  by (induction bs) (auto simp: utf8_chunk_def)

lemma first_line: "CR \<notin> set line \<Longrightarrow> LF \<notin> set line \<Longrightarrow> \<exists>ls. str_lines (line @ crlf @ r) = line # ls"
  using split_ch_append [of LF "line @ [CR]" r] by (auto simp: str_lines_def crlf_def chomp_cr_def Let_def)

text \<open>The target reads the number of bytes the generator asks for.\<close>

lemma target_reads_request:
  assumes "la_throughput_bytes args \<le> USIZE_MAX"
  shows "http_ok_conn (as_bytes (direct_request args (bytes_path args))) =
    as_bytes (bytes_header (la_throughput_bytes args)) # write_body (la_throughput_bytes args)"
proof -
  let ?n = "la_throughput_bytes args"
  let ?line = "''GET '' @ bytes_path args @ '' HTTP/1.1''"
  have v: "\<forall>c \<in> set (bytes_path args). visible c" using visible_dec_string [of ?n]
    by (auto simp: bytes_path_def visible_def byte_of_char_def)
  have l: "\<forall>c \<in> set ?line. byte_of_char c \<le> 0x7F \<and> c \<noteq> CR \<and> c \<noteq> LF"
    using v visible_facts(1-3) by (auto simp: byte_of_char_def)
  obtain r where r: "direct_request args (bytes_path args) = (?line @ crlf) @ r" by (simp add: direct_request_def)
  have "\<forall>b \<in> set (as_bytes (?line @ crlf)). b \<le> 0x7F" using l by (auto simp: as_bytes_def crlf_def byte_of_char_def)
  from lossy_ascii [OF this, of "as_bytes r"]
  have lossy: "from_utf8_lossy (as_bytes (direct_request args (bytes_path args))) = ?line @ crlf @ from_utf8_lossy (as_bytes r)"
    by (simp only: r as_bytes_append map_append map_char_of_byte_as_bytes append_assoc)
  have "CR \<notin> set ?line" "LF \<notin> set ?line" using l by blast+
  from first_line [OF this] obtain ls where "str_lines (?line @ crlf @ from_utf8_lossy (as_bytes r)) = ?line # ls" by blast
  moreover have "split_whitespace ?line = [''GET'', bytes_path args, ''HTTP/1.1'']"
  proof -
    have "\<forall>c \<in> set ''GET''. visible c" "\<forall>c \<in> set ''HTTP/1.1''. visible c" by (simp_all add: visible_def byte_of_char_def)
    moreover have "bytes_path args \<noteq> []" by (simp add: bytes_path_def)
    ultimately show ?thesis using split_words(1) [of "''GET''" "bytes_path args @ '' HTTP/1.1''"]
        split_words(1) [OF v, of "''HTTP/1.1''"] split_words(2) [of "''HTTP/1.1''"] by simp
  qed
  ultimately have "request_path (from_utf8_lossy (as_bytes (direct_request args (bytes_path args)))) = bytes_path args"
    unfolding lossy by (simp add: request_path_def Let_def)
  moreover have "path_bytes (bytes_path args) = Some ?n"
    unfolding path_bytes_def bytes_path_def str_strip_prefix_append using assms by (simp add: parse_dec_string)
  ultimately show ?thesis by (simp add: http_ok_conn_def)
qed

text \<open>The end of the header, and the body that follows it.\<close>

lemma blank_position_skip:
  "\<forall>b \<in> set bs. b \<noteq> byte_of_char CR \<Longrightarrow> blank_position (bs @ r) = map_option (\<lambda>k. k + length bs) (blank_position r)"
  by (induction bs) (auto simp: crlf_def as_bytes_def option.map_comp comp_def option.map_ident)

lemma blank_position_line:
  assumes "b \<noteq> byte_of_char CR" "b \<noteq> byte_of_char LF"
  shows "blank_position (as_bytes crlf @ b # r) = map_option ((+) 2) (blank_position (b # r))"
  using assms by (simp add: crlf_def as_bytes_def inj_byte_of_char option.map_comp comp_def)

lemma header_ends:
  "blank_position (as_bytes (bytes_header n) @ r) = Some (length (bytes_header n) - 4)"
proof -
  let ?a = "as_bytes ''HTTP/1.1 200 OK''" and ?b = "as_bytes (''Content-Length: '' @ dec_string n)" and ?c = "as_bytes ''Connection: close''"
  have h: "as_bytes (bytes_header n) @ r = ?a @ as_bytes crlf @ ?b @ as_bytes crlf @ ?c @ as_bytes (crlf @ crlf) @ r"
    by (simp only: bytes_header_def as_bytes_append append_assoc)
  have "\<forall>b \<in> set ?a. b \<noteq> byte_of_char CR" "\<forall>b \<in> set ?b. b \<noteq> byte_of_char CR" "\<forall>b \<in> set ?c. b \<noteq> byte_of_char CR"
    using visible_dec_string [of n] visible_facts(2) by (auto simp: as_bytes_def inj_byte_of_char)
  note skip = this [THEN blank_position_skip]
  have "blank_position (as_bytes (crlf @ crlf) @ r) = Some 0" by (simp add: crlf_def as_bytes_def)
  then have "blank_position (?c @ as_bytes (crlf @ crlf) @ r) = Some (length ?c)" using skip(3) by simp
  then have "blank_position (as_bytes crlf @ ?c @ as_bytes (crlf @ crlf) @ r) = Some (2 + length ?c)"
    using blank_position_line [of "byte_of_char (CHR ''C'')" "as_bytes ''onnection: close'' @ as_bytes (crlf @ crlf) @ r"]
    by (simp add: as_bytes_def inj_byte_of_char)
  then have "blank_position (?b @ as_bytes crlf @ ?c @ as_bytes (crlf @ crlf) @ r) = Some (2 + length ?c + length ?b)" using skip(2) by simp
  then have "blank_position (as_bytes crlf @ ?b @ as_bytes crlf @ ?c @ as_bytes (crlf @ crlf) @ r) = Some (2 + (2 + length ?c + length ?b))"
    using blank_position_line [of "byte_of_char (CHR ''C'')" "as_bytes (''ontent-Length: '' @ dec_string n) @ as_bytes crlf @ ?c @ as_bytes (crlf @ crlf) @ r"]
    by (simp add: as_bytes_def inj_byte_of_char)
  then show ?thesis unfolding h skip(1) by (simp add: bytes_header_def as_bytes_def crlf_def)
qed

lemma header_says_ok: "str_contains (from_utf8_lossy (take (length (bytes_header n) - 4) (as_bytes (bytes_header n) @ r))) ''200 OK''"
proof -
  obtain t where t: "take (length (bytes_header n) - 4) (as_bytes (bytes_header n) @ r) = as_bytes ''HTTP/1.1 200 OK'' @ t"
    by (simp add: bytes_header_def as_bytes_def crlf_def)
  have "\<forall>b \<in> set (as_bytes ''HTTP/1.1 200 OK''). b \<le> 0x7F" by (simp add: as_bytes_def byte_of_char_def)
  from lossy_ascii [OF this, of t] show ?thesis
    unfolding t using str_contains_infix [of "''HTTP/1.1 ''" "''200 OK''"] by simp
qed

lemma body_loop_rest:
  "\<forall>b \<in> set bufs. b \<noteq> [] \<Longrightarrow> k + length (concat bufs) = n \<Longrightarrow> body_loop n (map Inr bufs) header True k = Inr n"
proof (induction bufs arbitrary: k)
  case Nil
  then show ?case by (subst body_loop.simps) simp
next
  case (Cons b bufs)
  then show ?case by (subst body_loop.simps) simp
qed

text \<open>The generator counts the body of the target's answer, however it is cut into reads.\<close>

lemma target_body_read:
  assumes "concat (buf # bufs) = concat (as_bytes (bytes_header n) # write_body n)" "\<forall>b \<in> set bufs. b \<noteq> []"
    and "length (bytes_header n) \<le> length buf" "length buf \<le> MAX_LT_HEADER"
  shows "read_http_body_len (map Inr (buf # bufs)) n = Inr n"
proof (cases "n = 0")
  case False
  let ?h = "as_bytes (bytes_header n)"
  have c: "buf @ concat bufs = ?h @ replicate n 0x61" using assms(1) by (simp add: concat_write_body)
  then obtain x where x: "buf = ?h @ x" using assms(3) by (metis append_eq_append_conv_if append_take_drop_id as_bytes_def length_map)
  have len: "4 \<le> length (bytes_header n)" "length ?h = length (bytes_header n)" by (simp_all add: bytes_header_def crlf_def as_bytes_def)
  have "length x + length (concat bufs) = n" 
    using arg_cong [OF c, of length] unfolding x length_append length_replicate by linarith
  then have "body_loop n (map Inr bufs) buf True (length x) = Inr n" by (rule body_loop_rest [OF assms(2)])
  moreover have "length buf - (length (bytes_header n) - 4 + 4) = length x" using len by (simp add: x)
  moreover have "buf \<noteq> []" using len assms(3) by auto
  ultimately have "body_loop n (map Inr (buf # bufs)) [] False 0 = Inr n"
    using False assms(4) header_ends [of n x] header_says_ok [of n x] by (simp add: body_loop.simps [of n "_ # _"] x [symmetric] Let_def)
  then show ?thesis by (simp add: read_http_body_len_def)
qed (simp add: read_http_body_len_def body_loop.simps)

text \<open>But the bytes after the header count for its limit.\<close>

lemma split_header_rejected:
  assumes "b1 \<noteq> []" "b2 \<noteq> []" "blank_position b1 = None" "length b1 \<le> MAX_LT_HEADER" "MAX_LT_HEADER < length b1 + length b2" "0 < n"
  shows "\<exists>e. read_http_body_len (Inr b1 # Inr b2 # reads) n = Inl e"
  using assms by (simp add: read_http_body_len_def body_loop.simps [of n "_ # _"] Let_def split: option.split)

text \<open>Together: a transfer over a SOCKS5 connection to the target measures what was asked for.\<close>

lemma socks5_transfer_complete:
  assumes "socks5_connect args replies = (out, Inr r)" "la_throughput_bytes args \<le> USIZE_MAX"
    and "concat (buf # bufs) = concat (http_ok_conn (as_bytes (direct_request args (bytes_path args))))" "\<forall>b \<in> set bufs. b \<noteq> []"
    and "length (bytes_header (la_throughput_bytes args)) \<le> length buf" "length buf \<le> MAX_LT_HEADER"
  shows "socks5_throughput args replies (map Inr (buf # bufs)) =
    (out @ as_bytes (direct_request args (bytes_path args)), Inr (la_throughput_bytes args))"
  using target_body_read [OF assms(3) [unfolded target_reads_request [OF assms(2)]] assms(4-6)] assms(1)
  by (simp add: socks5_throughput_def)

section \<open>Agreement with the proxy\<close>

text \<open>The generator reads the address of a reply as the proxy reads that of a request.\<close>

lemma read_bound_host_ok: "result_ok (read_bound_host atyp r) = result_ok (read_socks_host atyp r)"
  by (simp add: read_bound_host_def read_socks_host_def socks_consts)

lemma read_bound_addr_coded:
  assumes "host_coded atyp hb host"
  shows "read_socks_bound_addr atyp (hb @ u16_to_be port @ rest) = Inr ((host, port), rest)"
proof -
  have "read_socks_host atyp (hb @ u16_to_be port @ rest) = Inr (host, u16_to_be port @ rest)"
    using assms read_host_iff [of atyp "hb @ u16_to_be port @ rest" host "u16_to_be port @ rest"] by blast
  then have "read_bound_host atyp (hb @ u16_to_be port @ rest) = Inr (host, u16_to_be port @ rest)"
    using read_bound_host_ok [of atyp "hb @ u16_to_be port @ rest"] by simp
  moreover have "read_u16 (u16_to_be port @ rest) = Inr (port, rest)" by (simp add: read_u16_iff)
  ultimately show ?thesis by (simp add: read_socks_bound_addr_def)
qed

lemma length_octets: "length (octets4 ip4) = 4" "length ip6 = 8 \<Longrightarrow> length (octets6 ip6) = 16"
  by (cases ip4; simp) (simp add: octets6_def length_concat comp_def sum_list_triv)

text \<open>The reply of the proxy to a command, read by the generator.\<close>

lemma socks5_reply_sent:
  assumes "\<And>ip. sk_ip a = IpV6 ip \<Longrightarrow> length ip = 8"
  shows "\<exists>host. socks5_reply message (send_reply REP_SUCCEEDED (Some a) @ x) = Inr ((host, sk_port a), x)"
proof -
  have h: "\<exists>host. socks5_reply message ([5, 0, 0, atyp] @ hb @ u16_to_be (sk_port a) @ x) = Inr ((host, sk_port a), x)"
    if "host_coded atyp hb host" for atyp hb host
    using read_bound_addr_coded [OF that, of "sk_port a" x] by (simp add: socks5_reply_def read_exact_def)
  show ?thesis
  proof (cases "sk_ip a")
    case (IpV4 ip)
    have "host_coded ATYP_IPV4 (octets4 ip) (ipv4_to_string (ipv4_from_octets (octets4 ip)))"
      by (simp add: host_coded_def length_octets)
    from h [OF this] show ?thesis using IpV4 by (simp add: send_reply_def socks_consts)
  next
    case (IpV6 ip)
    have "host_coded ATYP_IPV6 (octets6 ip) (ipv6_to_string (ipv6_from_octets (octets6 ip)))"
      using assms [OF IpV6] by (simp add: host_coded_def length_octets)
    note 6 = h [OF this]
    have "host_coded ATYP_IPV4 (octets4 ipv4_unspecified) (ipv4_to_string (ipv4_from_octets (octets4 ipv4_unspecified)))"
      by (simp add: host_coded_def length_octets)
    note 4 = h [OF this]
    show ?thesis using IpV6 4 6 by (simp add: send_reply_def socks_consts)
  qed
qed

text \<open>What the proxy answers to a login, by the accounts it has.\<close>

definition has_socks_accounts :: "app_state \<Rightarrow> bool" where
  "has_socks_accounts st \<longleftrightarrow> (\<exists>r \<in> set (proxy_accounts (app_db st)). a_kind r = ''socks5'' \<and> a_enabled r = 1)"

definition login_known :: "int \<Rightarrow> app_state \<Rightarrow> string \<Rightarrow> string \<Rightarrow> bool" where
  "login_known now st u p \<longleftrightarrow>
     (\<exists>r \<in> set (proxy_accounts (app_db st)). a_kind r = ''socks5'' \<and> a_enabled r = 1 \<and> a_username r = u \<and> a_password r = p \<and>
        fst (allowed now (proxy_account_key (a_id r)) (app_policy st)))"

lemma authenticate_open:
  assumes "\<not> has_socks_accounts st" "METHOD_NO_AUTH \<in> set methods"
  shows "authenticate (\<lambda>_. True) now proxy methods reader st =
    ([SOCKS_VERSION, METHOD_NO_AUTH], Inr (\<lparr>au_client_id = pl_client_id proxy, au_account_id = None\<rparr>, reader), st)"
proof -
  have "has_enabled_proxy_accounts (\<lambda>_. True) ''socks5'' (app_db st) = Inr False"
    using assms(1) by (simp only: enabled_accounts_iff has_socks_accounts_def)
  then show ?thesis using assms(2) by (simp add: authenticate_def)
qed

lemma authenticate_not_offered:
  assumes "has_socks_accounts st" "METHOD_USERNAME_PASSWORD \<notin> set methods"
  shows "\<exists>e. authenticate (\<lambda>_. True) now proxy methods reader st = ([SOCKS_VERSION, 0xff], Inl e, st)"
proof -
  have "has_enabled_proxy_accounts (\<lambda>_. True) ''socks5'' (app_db st) = Inr True"
    using assms(1) by (simp only: enabled_accounts_iff has_socks_accounts_def)
  then show ?thesis using assms(2) by (simp add: authenticate_def)
qed

lemma authenticate_answer:
  assumes "accounts_readable (app_db st)" "has_socks_accounts st" "METHOD_USERNAME_PASSWORD \<in> set methods"
    and "short_utf8 u" "short_utf8 p"
  shows "\<exists>r st'. authenticate (\<lambda>_. True) now proxy methods (login_message u p @ rest) st =
      ([SOCKS_VERSION, METHOD_USERNAME_PASSWORD, 1, if login_known now st u p then 0 else 1], r, st') \<and>
    (if login_known now st u p then \<exists>auth. r = Inr (auth, rest) else \<exists>e. r = Inl e)"
proof -
  let ?reader = "login_message u p @ rest"
  have en: "has_enabled_proxy_accounts (\<lambda>_. True) ''socks5'' (app_db st) = Inr True"
    using assms(2) by (simp only: enabled_accounts_iff has_socks_accounts_def)
  have rd: "read_username_password ?reader = Inr ((u, p), rest)" using assms(4,5) by (simp add: read_username_password_iff)
  have kind: "validate_proxy_kind ''socks5'' = Inr ()" by (simp add: validate_proxy_kind_def)
  note auth = authenticate_def en assms(3) rd Let_def
  consider (found) r a where "r \<in> set (proxy_accounts (app_db st))" "a_kind r = ''socks5''" "a_username r = u" "a_password r = p" "a_enabled r = 1"
      "find_enabled_proxy_account (\<lambda>_. True) ''socks5'' u p (app_db st) = Inr (Some a)" "pa_id a = a_id r" "pa_client_id a = a_client_id r"
    | (none) "\<not> (\<exists>r \<in> set (proxy_accounts (app_db st)). a_kind r = ''socks5'' \<and> a_username r = u \<and> a_password r = p \<and> a_enabled r = 1)"
      "find_enabled_proxy_account (\<lambda>_. True) ''socks5'' u p (app_db st) = Inr None"
    using find_account_row [OF _ _ kind, of "app_db st" u p] assms(1) unfolding accounts_readable_def by blast
  then show ?thesis
  proof cases
    case found
    have "x = r" if "x \<in> set (proxy_accounts (app_db st))" "a_kind x = ''socks5''" "a_username x = u" for x
      using unique_login [OF _ that(1) found(1)] assms(1) that(2,3) found(2,3) by (simp add: accounts_readable_def)
    then have known: "login_known now st u p \<longleftrightarrow> fst (allowed now (proxy_account_key (a_id r)) (app_policy st))"
      unfolding login_known_def using found(1-5) by blast
    obtain b e1 where b: "allowed now (proxy_account_key (a_id r)) (app_policy st) = (b, e1)" by force
    show ?thesis unfolding known b by (cases b) (simp_all add: auth found(6,7,8) b)
  next
    case none
    then have "\<not> login_known now st u p" by (auto simp: login_known_def)
    then show ?thesis by (simp add: auth none(2))
  qed
qed

lemma negotiate_run:
  assumes "authenticate q now proxy methods r2 st = (out, r, st')" "length methods \<le> 255"
  shows "r = Inl e \<Longrightarrow> negotiate q now proxy ([SOCKS_VERSION, of_nat (length methods)] @ methods @ r2) st = (out, Inl e, st')"
    and "r = Inr (auth, [SOCKS_VERSION, cmd, 0, atyp] @ rest) \<Longrightarrow>
      negotiate q now proxy ([SOCKS_VERSION, of_nat (length methods)] @ methods @ r2) st = (out, Inr (auth, cmd, atyp, rest), st')"
proof -
  have "unat (of_nat (length methods) :: byte) = length methods" using assms(2) by (simp add: unat_of_nat)
  note n = negotiate_def read_exact_def this assms(1)
  show "r = Inl e \<Longrightarrow> negotiate q now proxy ([SOCKS_VERSION, of_nat (length methods)] @ methods @ r2) st = (out, Inl e, st')"
    by (simp add: n)
  show "r = Inr (auth, [SOCKS_VERSION, cmd, 0, atyp] @ rest) \<Longrightarrow>
      negotiate q now proxy ([SOCKS_VERSION, of_nat (length methods)] @ methods @ r2) st = (out, Inr (auth, cmd, atyp, rest), st')"
    by (simp add: n)
qed

text \<open>A configuration with both or neither of the two credentials; in Rust every string is UTF-8.\<close>

definition credentials :: "lt_args \<Rightarrow> (string \<times> string) option" where
  "credentials args =
     (case (la_socks5_username args, la_socks5_password args) of (Some u, Some p) \<Rightarrow> Some (u, p) | _ \<Rightarrow> None)"

definition args_ok :: "lt_args \<Rightarrow> bool" where
  "args_ok args \<longleftrightarrow>
     short_utf8 (la_target_host args) \<and> (la_socks5_username args = None \<longleftrightarrow> la_socks5_password args = None) \<and>
     (case credentials args of None \<Rightarrow> True | Some (u, p) \<Rightarrow> short_utf8 u \<and> short_utf8 p)"

text \<open>Whether the proxy lets the generator in.\<close>

definition admitted :: "int \<Rightarrow> app_state \<Rightarrow> lt_args \<Rightarrow> bool" where
  "admitted now st args \<longleftrightarrow>
     has_socks_accounts st \<longrightarrow> (case credentials args of None \<Rightarrow> False | Some (u, p) \<Rightarrow> login_known now st u p)"

definition offered_methods :: "lt_args \<Rightarrow> bytes" where
  "offered_methods args = (if credentials args = None then [METHOD_NO_AUTH] else [METHOD_NO_AUTH, METHOD_USERNAME_PASSWORD])"

text \<open>What the generator sends for each of the answers of the proxy.\<close>

lemma client_authenticate:
  assumes "args_ok args"
  shows "socks5_authenticate args ([SOCKS_VERSION, METHOD_NO_AUTH] @ x) =
           ([SOCKS_VERSION, of_nat (length (offered_methods args))] @ offered_methods args, Inr x)"
    and "credentials args = None \<Longrightarrow> \<exists>e. socks5_authenticate args [SOCKS_VERSION, 0xff] =
           ([SOCKS_VERSION, of_nat (length (offered_methods args))] @ offered_methods args, Inl e)"
    and "credentials args = Some (u, p) \<Longrightarrow> socks5_authenticate args ([SOCKS_VERSION, METHOD_USERNAME_PASSWORD, 1, 0] @ x) =
           ([SOCKS_VERSION, of_nat (length (offered_methods args))] @ offered_methods args @ login_message u p, Inr x)"
    and "credentials args = Some (u, p) \<Longrightarrow> \<exists>e. socks5_authenticate args [SOCKS_VERSION, METHOD_USERNAME_PASSWORD, 1, 1] =
           ([SOCKS_VERSION, of_nat (length (offered_methods args))] @ offered_methods args @ login_message u p, Inl e)"
  using assms
  by (auto simp: socks5_authenticate_def offered_methods_def credentials_def args_ok_def read_exact_def socks_consts METHOD_NO_AUTH_def
      METHOD_USERNAME_PASSWORD_def SOCKS_VERSION_def socks5_login_def login_message_def short_utf8_def split: option.splits)

definition target_addr :: "lt_args \<Rightarrow> socks_addr" where
  "target_addr args = \<lparr>sa_host = la_target_host args, sa_port = la_target_http_port args, sa_atyp = ATYP_DOMAIN\<rparr>"

lemma connect_request_ok:
  assumes "args_ok args"
  shows "\<exists>rest. connect_request args = Inr ([SOCKS_VERSION, CMD_CONNECT, 0, ATYP_DOMAIN] @ rest) \<and>
    read_socks_addr ATYP_DOMAIN rest = Inr (target_addr args, [])"
proof -
  let ?hb = "of_nat (length (la_target_host args)) # as_bytes (la_target_host args)"
  have s: "short_utf8 (la_target_host args)" using assms by (simp add: args_ok_def)
  then have "host_coded ATYP_DOMAIN ?hb (la_target_host args)" by (simp add: host_coded_def short_utf8_def)
  then have "read_socks_addr ATYP_DOMAIN (?hb @ u16_to_be (la_target_http_port args)) = Inr (target_addr args, [])"
    by (auto simp: read_addr_iff target_addr_def)
  moreover have "connect_request args = Inr ([SOCKS_VERSION, CMD_CONNECT, 0, ATYP_DOMAIN] @ ?hb @ u16_to_be (la_target_http_port args))"
    using s by (simp add: connect_request_def short_utf8_def socks_consts as_bytes_def)
  ultimately show ?thesis by blast
qed

text \<open>The datagrams: the relay reads the generator's packets, and the generator the relay's answers.\<close>

lemma udp_packet_agrees:
  assumes "args_ok args"
  shows "\<exists>packet. build_socks_udp_packet args data = Inr packet \<and>
    parse_udp_packet packet = Inr (\<lparr>sa_host = la_target_host args, sa_port = la_target_udp_port args, sa_atyp = ATYP_DOMAIN\<rparr>, data)"
proof -
  let ?hb = "of_nat (length (la_target_host args)) # as_bytes (la_target_host args)"
  have s: "short_utf8 (la_target_host args)" using assms by (simp add: args_ok_def)
  then have "host_coded ATYP_DOMAIN ?hb (la_target_host args)" by (simp add: host_coded_def short_utf8_def)
  moreover have "build_socks_udp_packet args data = Inr ([0, 0, 0, ATYP_DOMAIN] @ ?hb @ u16_to_be (la_target_udp_port args) @ data)"
    using s by (simp add: build_socks_udp_packet_def short_utf8_def socks_consts as_bytes_def)
  ultimately show ?thesis by (auto simp: parse_udp_packet_iff)
qed

lemma udp_answer_agrees:
  assumes "host_coded (sa_atyp a) hb (sa_host a)" and "encode_udp_response a data = Inr packet"
  shows "parse_socks_udp_payload packet = Inr data"
proof -
  have p: "packet = [0, 0, 0, sa_atyp a] @ hb @ u16_to_be (sa_port a) @ data" using host_coded_bytes [OF assms(1)] assms(2) by simp
  consider "sa_atyp a = 1" "length hb = 4" | "sa_atyp a = 4" "length hb = 16"
    | host where "sa_atyp a = 3" "length host \<le> 255" "hb = of_nat (length host) # as_bytes host"
    using assms(1) by (auto simp: host_coded_def socks_consts split: if_splits)
  moreover have "drop (4 + length hb + 2) packet = data"
  proof -
    have "packet = ([0, 0, 0, sa_atyp a] @ hb @ u16_to_be (sa_port a)) @ data" by (simp add: p)
    moreover have "4 + length hb + 2 = length ([0, 0, 0, sa_atyp a] @ hb @ u16_to_be (sa_port a))" by simp
    ultimately show ?thesis by (metis append_eq_conv_conj)
  qed
  moreover have "length packet = 4 + length hb + 2 + length data"
    "packet ! 0 = 0" "packet ! 1 = 0" "packet ! 2 = 0" "packet ! 3 = sa_atyp a" by (simp_all add: p)
  moreover have "packet ! 4 = of_nat (length host)" if "hb = of_nat (length host) # as_bytes host" for host
    by (simp add: p that)
  ultimately show ?thesis
    by cases (simp_all add: parse_socks_udp_payload_def Let_def as_bytes_def unat_of_nat)
qed

text \<open>A conversation of the two, each seeing what the other has written.\<close>

definition socks_conversation ::
  "int \<Rightarrow> proxy_listen_config \<Rightarrow> app_state \<Rightarrow> lt_args \<Rightarrow> socket_addr \<Rightarrow> bytes \<Rightarrow> bool" where
  "socks_conversation now proxy st args a x \<longleftrightarrow>
   (\<exists>out r st'.
     let replies = out @ (if admitted now st args then send_reply REP_SUCCEEDED (Some a) @ x else [])
     in negotiate (\<lambda>_. True) now proxy (fst (socks5_connect args replies)) st = (out, r, st') \<and>
        (if admitted now st args
         then snd (socks5_connect args replies) = Inr x \<and>
              (\<exists>auth rest. r = Inr (auth, CMD_CONNECT, ATYP_DOMAIN, rest) \<and> read_socks_addr ATYP_DOMAIN rest = Inr (target_addr args, []))
         else \<not> is_ok r \<and> \<not> is_ok (snd (socks5_connect args replies))))"

definition client_hello :: "lt_args \<Rightarrow> bytes" where
  "client_hello args = [SOCKS_VERSION, of_nat (length (offered_methods args))] @ offered_methods args"

lemma offered_short: "length (offered_methods args) \<le> 255"
  by (simp add: offered_methods_def)

lemma conversation_admitted:
  assumes "args_ok args" and "\<forall>ip. sk_ip a = IpV6 ip \<longrightarrow> length ip = 8" and "admitted now st args"
    and client: "\<And>x. socks5_authenticate args (ans @ x) = (client_hello args @ login, Inr x)"
    and server: "\<And>tail. \<exists>auth st'. authenticate (\<lambda>_. True) now proxy (offered_methods args) (login @ tail) st = (ans, Inr (auth, tail), st')"
  shows "socks_conversation now proxy st args a x"
proof -
  let ?reply = "send_reply REP_SUCCEEDED (Some a) @ x"
  obtain rest where req: "connect_request args = Inr ([SOCKS_VERSION, CMD_CONNECT, 0, ATYP_DOMAIN] @ rest)"
    and addr: "read_socks_addr ATYP_DOMAIN rest = Inr (target_addr args, [])"
    using connect_request_ok [OF assms(1)] by blast
  obtain host where "socks5_reply ''socks5 connect failed'' ?reply = Inr ((host, sk_port a), x)"
    using socks5_reply_sent [of a] assms(2) by blast
  then have c: "socks5_connect args (ans @ ?reply) = (client_hello args @ login @ [SOCKS_VERSION, CMD_CONNECT, 0, ATYP_DOMAIN] @ rest, Inr x)"
    using client [of ?reply] by (simp add: socks5_connect_def req)
  obtain auth st' where "authenticate (\<lambda>_. True) now proxy (offered_methods args) (login @ [SOCKS_VERSION, CMD_CONNECT, 0, ATYP_DOMAIN] @ rest) st
      = (ans, Inr (auth, [SOCKS_VERSION, CMD_CONNECT, 0, ATYP_DOMAIN] @ rest), st')" using server by blast
  from negotiate_run(2) [OF this offered_short refl]
  have "negotiate (\<lambda>_. True) now proxy (fst (socks5_connect args (ans @ ?reply))) st = (ans, Inr (auth, CMD_CONNECT, ATYP_DOMAIN, rest), st')"
    by (simp add: c client_hello_def)
  then show ?thesis unfolding socks_conversation_def using assms(3) c addr by (intro exI [of _ ans]) (simp add: Let_def)
qed

lemma conversation_refused:
  assumes "\<not> admitted now st args"
    and "socks5_authenticate args ans = (client_hello args @ login, Inl e)"
    and "authenticate (\<lambda>_. True) now proxy (offered_methods args) login st = (ans, Inl e', st')"
  shows "socks_conversation now proxy st args a x"
proof -
  have c: "socks5_connect args ans = (client_hello args @ login, Inl e)" using assms(2) by (simp add: socks5_connect_def)
  have "negotiate (\<lambda>_. True) now proxy (fst (socks5_connect args ans)) st = (ans, Inl e', st')"
    using negotiate_run(1) [OF assms(3) offered_short refl] by (simp add: c client_hello_def)
  then show ?thesis unfolding socks_conversation_def using assms(1) c by (intro exI [of _ ans]) (simp add: is_ok_def)
qed

section \<open>Properties\<close>

text \<open>
  C40: The generator and the proxy agree. The bytes the SOCKS5 client of the generator sends,
  given the answers of the proxy, and the answers of the proxy, given the bytes of the client,
  form a conversation. If the proxy has no enabled account, or the configured credentials are
  those of an enabled account the policy allows, the proxy reads a connect command for the
  configured target and nothing more, and after the reply, whatever address it carries, the
  client holds the bytes of the target that follow. Otherwise the proxy refuses and the client
  reports a failure.
\<close>

theorem loadtest_agrees_with_socks:
  assumes "accounts_readable (app_db st)" and "args_ok args" and "\<forall>ip. sk_ip a = IpV6 ip \<longrightarrow> length ip = 8"
  shows "\<exists>out r st'.
    let replies = out @ (if admitted now st args then send_reply REP_SUCCEEDED (Some a) @ x else [])
    in negotiate (\<lambda>_. True) now proxy (fst (socks5_connect args replies)) st = (out, r, st') \<and>
       (if admitted now st args
        then snd (socks5_connect args replies) = Inr x \<and>
             (\<exists>auth rest. r = Inr (auth, CMD_CONNECT, ATYP_DOMAIN, rest) \<and> read_socks_addr ATYP_DOMAIN rest = Inr (target_addr args, []))
        else \<not> is_ok r \<and> \<not> is_ok (snd (socks5_connect args replies)))"
  unfolding socks_conversation_def [symmetric]
proof -
  note client = client_authenticate [OF assms(2), folded append_assoc, folded client_hello_def]
  consider (unlocked) "\<not> has_socks_accounts st"
    | (bare) "has_socks_accounts st" "credentials args = None"
    | (login) u p where "has_socks_accounts st" "credentials args = Some (u, p)" by force
  then show "socks_conversation now proxy st args a x"
  proof cases
    case unlocked
    have "METHOD_NO_AUTH \<in> set (offered_methods args)" by (simp add: offered_methods_def)
    note server = authenticate_open [OF unlocked this]
    have "admitted now st args" using unlocked by (simp add: admitted_def)
    from conversation_admitted [OF assms(2,3) this, of "[SOCKS_VERSION, METHOD_NO_AUTH]" "[]"] show ?thesis
      using client(1) server by simp
  next
    case bare
    have "METHOD_USERNAME_PASSWORD \<notin> set (offered_methods args)" by (simp add: offered_methods_def bare socks_consts)
    from authenticate_not_offered [OF bare(1) this] client(2) [OF bare(2)] bare show ?thesis
      using conversation_refused [of now st args "[SOCKS_VERSION, 0xff]" "[]"] by (fastforce simp: admitted_def)
  next
    case login
    have offered: "METHOD_USERNAME_PASSWORD \<in> set (offered_methods args)" by (simp add: offered_methods_def login)
    have short: "short_utf8 u" "short_utf8 p" using assms(2) login(2) by (simp_all add: args_ok_def)
    note server = authenticate_answer [OF assms(1) login(1) offered short]
    show ?thesis
    proof (cases "login_known now st u p")
      case True
      then have "admitted now st args" using login by (simp add: admitted_def)
      from conversation_admitted [OF assms(2,3) this client(3) [OF login(2)]] show ?thesis using server [of now proxy] True by fastforce
    next
      case False
      then have "\<not> admitted now st args" using login by (simp add: admitted_def)
      with client(4) [OF login(2)] False server [of now proxy "[]"] show ?thesis by (auto intro: conversation_refused)
    qed
  qed
qed

definition demo_args :: lt_args where
  "demo_args = \<lparr>la_mode = LtRequest, la_host = ''h'', la_tcp_port = 1, la_udp_port = 2, la_http_proxy_port = 3, la_socks5_port = 4,
     la_target_host = ''t'', la_target_http_port = 80, la_target_udp_port = 53, la_levels = ''1'', la_requests_per_worker = 1,
     la_payload_bytes = 1, la_throughput_bytes = 1, la_chunk_bytes = 1, la_udp_datagram_bytes = 1, la_timeout_secs = 1,
     la_http_proxy_username = None, la_http_proxy_password = None, la_socks5_username = Some ''u'', la_socks5_password = Some ''p'',
     la_protocols = [LtSocks5], la_report = None\<rparr>"

text \<open>The credentials of an account are accepted; no credentials are refused.\<close>

theorem loadtest_agrees_with_socks_witness:
  "(\<exists>out r st'. let replies = out @ send_reply REP_SUCCEEDED (Some \<lparr>sk_ip = IpV4 (10, 0, 0, 1), sk_port = 9\<rparr>) @ [7]
      in negotiate (\<lambda>_. True) 5 demo_listen (fst (socks5_connect demo_args replies)) demo_socks_state = (out, r, st') \<and>
         snd (socks5_connect demo_args replies) = Inr [7] \<and> is_ok r) \<and>
   (\<exists>out r st'. negotiate (\<lambda>_. True) 5 demo_listen
        (fst (socks5_connect (demo_args\<lparr>la_socks5_username := None, la_socks5_password := None\<rparr>) out)) demo_socks_state = (out, r, st') \<and> \<not> is_ok r)"
proof
  let ?a = "\<lparr>sk_ip = IpV4 (10, 0, 0, 1), sk_port = 9\<rparr>"
  let ?bare = "demo_args\<lparr>la_socks5_username := None, la_socks5_password := None\<rparr>"
  have v: "utf8_valid (as_bytes ''t'')" "utf8_valid (as_bytes ''u'')" "utf8_valid (as_bytes ''p'')" by code_simp+
  have ok: "args_ok demo_args" "args_ok ?bare"
    by (simp_all add: args_ok_def demo_args_def credentials_def short_utf8_def v)
  have row: "has_socks_accounts demo_socks_state" "login_known 5 demo_socks_state ''u'' ''p''"
    unfolding has_socks_accounts_def login_known_def demo_socks_accounts
    by (simp_all add: account_row_of_def demo_socks_account_def demo_account_def
        bool_to_i64_def allowed_def demo_socks_state_def demo_state_def AppState_new_def PolicyEnforcer_channel_def)
  have ip: "\<forall>ip. sk_ip ?a = IpV6 ip \<longrightarrow> length ip = 8" by simp
  have "admitted 5 demo_socks_state demo_args" "\<not> admitted 5 demo_socks_state ?bare"
    using row by (simp_all add: admitted_def credentials_def demo_args_def)
  note T = loadtest_agrees_with_socks [OF demo_socks_readable ok(1) ip, of 5 "[7]" demo_listen] and
    U = loadtest_agrees_with_socks [OF demo_socks_readable ok(2) ip, of 5 "[7]" demo_listen] and adm = this
  show "\<exists>out r st'. let replies = out @ send_reply REP_SUCCEEDED (Some ?a) @ [7]
      in negotiate (\<lambda>_. True) 5 demo_listen (fst (socks5_connect demo_args replies)) demo_socks_state = (out, r, st') \<and>
         snd (socks5_connect demo_args replies) = Inr [7] \<and> is_ok r"
  proof -
    obtain out auth rest st' where
      "negotiate (\<lambda>_. True) 5 demo_listen (fst (socks5_connect demo_args (out @ send_reply REP_SUCCEEDED (Some ?a) @ [7]))) demo_socks_state
         = (out, Inr (auth, CMD_CONNECT, ATYP_DOMAIN, rest), st')"
      "snd (socks5_connect demo_args (out @ send_reply REP_SUCCEEDED (Some ?a) @ [7])) = Inr [7]"
      using T unfolding Let_def if_P [OF adm(1)] by blast
    then show ?thesis unfolding Let_def is_ok_def by fastforce
  qed
  show "\<exists>out r st'. negotiate (\<lambda>_. True) 5 demo_listen (fst (socks5_connect ?bare out)) demo_socks_state = (out, r, st') \<and> \<not> is_ok r"
    using U unfolding Let_def if_not_P [OF adm(2)] by auto
qed

text \<open>
  C37: The transfers of a throughput test end. The writer of the TCP test stops, having sent
  exactly the configured number of bytes, all of them bytes of its chunk, and the result is the
  reader's; the UDP test, when each datagram is echoed, ends with the configured number of
  bytes after the total divided by the size of a datagram, rounded up, none of them empty or
  longer than configured, and leaves later datagrams alone. This holds for every configuration,
  also for sizes of 0.
\<close>

theorem transfers_end:
  "(\<exists>sent. tcp_throughput args worker reads = (Some sent, tcp_received (la_throughput_bytes args) reads) \<and>
      length sent = la_throughput_bytes args \<and> set sent \<subseteq> set (tcp_throughput_chunk args worker)) \<and>
   (\<exists>sent. udp_throughput args worker (map Inr sent @ rest) = (sent, Some (Inr (la_throughput_bytes args))) \<and>
      length sent = (la_throughput_bytes args + (datagram_len args - 1)) div datagram_len args \<and>
      length (concat sent) = la_throughput_bytes args \<and> set sent \<subseteq> {d. d \<noteq> [] \<and> length d \<le> datagram_len args})"
proof
  have "tcp_throughput_chunk args worker \<noteq> []" by (simp add: tcp_throughput_chunk_def lt_payload_length)
  from write_chunks_total [OF this, of "la_throughput_bytes args" "[]"]
  show "\<exists>sent. tcp_throughput args worker reads = (Some sent, tcp_received (la_throughput_bytes args) reads) \<and>
      length sent = la_throughput_bytes args \<and> set sent \<subseteq> set (tcp_throughput_chunk args worker)"
    by (auto simp: tcp_throughput_def)
  have "0 < datagram_len args" by (simp add: datagram_len_def)
  from udp_exchange_ends [OF this lt_payload_length(1) [of "datagram_len args" worker 0], of 0 "la_throughput_bytes args" rest]
  show "\<exists>sent. udp_throughput args worker (map Inr sent @ rest) = (sent, Some (Inr (la_throughput_bytes args))) \<and>
      length sent = (la_throughput_bytes args + (datagram_len args - 1)) div datagram_len args \<and>
      length (concat sent) = la_throughput_bytes args \<and> set sent \<subseteq> {d. d \<noteq> [] \<and> length d \<le> datagram_len args}"
    by (auto simp: udp_throughput_def)
qed

end
