(* ===== verification/Db_Schema.thy ===== *)
theory Db_Schema
  imports Db_Inv
begin

text \<open>
  The opening of the database, \<^verbatim>\<open>crates/rps-controller/src/db.rs\<close>: \<^verbatim>\<open>Database::open\<close> with the
  permissions of the directory and the files, and \<^verbatim>\<open>migrate\<close> on a file of any older schema:
  the tables that are created, the columns that are added, and the copy of a legacy clients
  table. Here a table is given with its columns and constraints, and a row by the values of its
  columns; whether the n-th statement succeeds is the argument \<open>q\<close>.
\<close>

section \<open>Tables with a schema\<close>

datatype sql_value = VNull | VNum sql_num | VText string

record sql_column =
  co_name :: string
  co_not_null :: bool
  co_default :: sql_value

type_synonym sql_row = "(string \<times> sql_value) list"

record sql_table =
  tb_columns :: "sql_column list"
  tb_uniques :: "string list list"
  tb_indexes :: "(string \<times> string) list"
  tb_rows :: "sql_row list"

type_synonym sql_store = "(string \<times> sql_table) list"

type_synonym sql_stmt = "sql_store \<Rightarrow> error + sql_store"

definition sql_get :: "string \<Rightarrow> sql_row \<Rightarrow> sql_value" where
  "sql_get c r = (case map_of r c of Some v \<Rightarrow> v | None \<Rightarrow> VNull)"

definition column_names :: "sql_table \<Rightarrow> string list" where
  "column_names t = map co_name (tb_columns t)"

text \<open>\<^verbatim>\<open>pragma table_info\<close>, of which the code looks at the names; a missing table has no columns.\<close>

definition has_column :: "string \<Rightarrow> string \<Rightarrow> sql_store \<Rightarrow> bool" where
  "has_column table c s = (case map_of s table of None \<Rightarrow> False | Some t \<Rightarrow> c \<in> set (column_names t))"

definition create_table_if_missing :: "string \<Rightarrow> sql_table \<Rightarrow> sql_stmt" where
  "create_table_if_missing table t s = Inr (if map_of s table = None then s @ [(table, t)] else s)"

definition create_table :: "string \<Rightarrow> sql_table \<Rightarrow> sql_stmt" where
  "create_table table t s = (if map_of s table = None then Inr (s @ [(table, t)]) else Inl (Bail (''table '' @ table @ '' already exists'')))"

definition no_such_table :: "string \<Rightarrow> error" where
  "no_such_table table = Bail (''no such table: '' @ table)"

definition drop_table_if_exists :: "string \<Rightarrow> sql_stmt" where
  "drop_table_if_exists table s = Inr (AList.delete table s)"

definition drop_table :: "string \<Rightarrow> sql_stmt" where
  "drop_table table s = (if map_of s table = None then Inl (no_such_table table) else Inr (AList.delete table s))"

definition rename_table :: "string \<Rightarrow> string \<Rightarrow> sql_stmt" where
  "rename_table table name s =
     (case map_of s table of
        None \<Rightarrow> Inl (no_such_table table)
      | Some t \<Rightarrow>
          if map_of s name \<noteq> None then Inl (Bail (''there is already another table or index with this name: '' @ name))
          else Inr (AList.delete table s @ [(name, t)]))"

text \<open>
  \<^verbatim>\<open>alter table ... add column\<close>: every row gets the default; a column that must not be null needs one.
\<close>

definition add_column :: "string \<Rightarrow> sql_column \<Rightarrow> sql_stmt" where
  "add_column table c s =
     (case map_of s table of
        None \<Rightarrow> Inl (no_such_table table)
      | Some t \<Rightarrow>
          if co_name c \<in> set (column_names t) then Inl (Bail (''duplicate column name: '' @ co_name c))
          else if co_not_null c \<and> co_default c = VNull then Inl (Bail ''Cannot add a NOT NULL column with default value NULL'')
          else Inr (AList.update table
                 (t\<lparr>tb_columns := tb_columns t @ [c], tb_rows := map (\<lambda>r. r @ [(co_name c, co_default c)]) (tb_rows t)\<rparr>) s))"

text \<open>\<^verbatim>\<open>create unique index if not exists ... where c is not null\<close>; the names of indexes are global.\<close>

definition index_exists :: "string \<Rightarrow> sql_store \<Rightarrow> bool" where
  "index_exists name s = list_ex (\<lambda>(_, t). map_of (tb_indexes t) name \<noteq> None) s"

definition create_index_if_missing :: "string \<Rightarrow> string \<Rightarrow> string \<Rightarrow> sql_stmt" where
  "create_index_if_missing name table c s =
     (if index_exists name s then Inr s
      else
        (case map_of s table of
           None \<Rightarrow> Inl (no_such_table table)
         | Some t \<Rightarrow>
             if c \<notin> set (column_names t) then Inl (Bail (''no such column: '' @ c))
             else if \<not> distinct (filter (\<lambda>v. v \<noteq> VNull) (map (sql_get c) (tb_rows t))) then Inl constraint_error
             else Inr (AList.update table (t\<lparr>tb_indexes := tb_indexes t @ [(name, c)]\<rparr>) s)))"

text \<open>\<^verbatim>\<open>insert or ignore\<close>: a row that breaks a constraint is skipped; nulls are distinct in a unique constraint.\<close>

definition same_key :: "string list \<Rightarrow> sql_row \<Rightarrow> sql_row \<Rightarrow> bool" where
  "same_key cs r r' = list_all (\<lambda>c. sql_get c r = sql_get c r' \<and> sql_get c r \<noteq> VNull) cs"

definition violates :: "sql_table \<Rightarrow> sql_row \<Rightarrow> bool" where
  "violates t r =
     (list_ex (\<lambda>c. co_not_null c \<and> sql_get (co_name c) r = VNull) (tb_columns t) \<or>
      list_ex (\<lambda>cs. list_ex (same_key cs r) (tb_rows t)) (tb_uniques t @ map (\<lambda>(_, c). [c]) (tb_indexes t)))"

definition insert_or_ignore_row :: "sql_row \<Rightarrow> sql_table \<Rightarrow> sql_table" where
  "insert_or_ignore_row r t = (if violates t r then t else t\<lparr>tb_rows := tb_rows t @ [r]\<rparr>)"

section \<open>The schema of rps\<close>

definition opt_col :: "string \<Rightarrow> sql_column" where
  "opt_col n = \<lparr>co_name = n, co_not_null = False, co_default = VNull\<rparr>"

definition req_col :: "string \<Rightarrow> sql_column" where
  "req_col n = \<lparr>co_name = n, co_not_null = True, co_default = VNull\<rparr>"

definition int_col :: "string \<Rightarrow> int \<Rightarrow> sql_column" where
  "int_col n d = \<lparr>co_name = n, co_not_null = True, co_default = VNum (SqlInt d)\<rparr>"

definition new_table :: "sql_column list \<Rightarrow> string list list \<Rightarrow> sql_table" where
  "new_table cs us = \<lparr>tb_columns = cs, tb_uniques = us, tb_indexes = [], tb_rows = []\<rparr>"

definition clients_table :: sql_table where
  "clients_table = new_table
     [opt_col ''id'', req_col ''psk'', int_col ''enabled'' 1, opt_col ''remark'', opt_col ''max_connections'',
      int_col ''compress'' 0, int_col ''encrypt'' 0, req_col ''created_at'', req_col ''updated_at''] [[''id''], [''psk'']]"

definition tunnels_table :: sql_table where
  "tunnels_table = new_table
     [opt_col ''id'', req_col ''client_id'', req_col ''mode'', req_col ''listen'', opt_col ''target'', int_col ''enabled'' 1,
      opt_col ''expires_at'', opt_col ''traffic_limit_bytes'', int_col ''rx_bytes'' 0, int_col ''tx_bytes'' 0,
      opt_col ''disabled_reason'', req_col ''created_at'', req_col ''updated_at''] [[''id'']]"

definition proxy_listeners_table :: sql_table where
  "proxy_listeners_table = new_table
     [opt_col ''kind'', req_col ''listen'', req_col ''client_id'', int_col ''enabled'' 1, req_col ''created_at'', req_col ''updated_at'']
     [[''kind'']]"

definition proxy_accounts_table :: sql_table where
  "proxy_accounts_table = new_table
     [opt_col ''id'', req_col ''kind'', req_col ''client_id'', req_col ''username'', req_col ''password'', int_col ''enabled'' 1,
      opt_col ''remark'', opt_col ''expires_at'', opt_col ''traffic_limit_bytes'', int_col ''rx_bytes'' 0, int_col ''tx_bytes'' 0,
      opt_col ''disabled_reason'', req_col ''created_at'', req_col ''updated_at''] [[''id''], [''kind'', ''username'']]"

definition client_online_table :: sql_table where
  "client_online_table = new_table
     [opt_col ''client_id'', int_col ''online'' 0, opt_col ''control_connected_at'', opt_col ''data_connected_at'', opt_col ''last_seen'']
     [[''client_id'']]"

definition agent_sessions_table :: sql_table where
  "agent_sessions_table = new_table
     [opt_col ''id'', req_col ''client_id'', req_col ''role'', opt_col ''remote_addr'', req_col ''connected_at'', opt_col ''disconnected_at'']
     [[''id'']]"

definition stream_sessions_table :: sql_table where
  "stream_sessions_table = new_table
     [opt_col ''id'', req_col ''client_id'', req_col ''tunnel_id'', req_col ''protocol'', req_col ''target'', req_col ''remote_addr'',
      int_col ''rx_bytes'' 0, int_col ''tx_bytes'' 0, req_col ''opened_at'', opt_col ''closed_at''] [[''id'']]"

definition traffic_counters_table :: sql_table where
  "traffic_counters_table = new_table
     [req_col ''scope'', req_col ''key'', int_col ''rx_bytes'' 0, int_col ''tx_bytes'' 0, req_col ''updated_at''] [[''scope'', ''key'']]"

definition usage_snapshots_table :: sql_table where
  "usage_snapshots_table = new_table
     [opt_col ''id'', req_col ''scope'', req_col ''key'', int_col ''rx_bytes'' 0, int_col ''tx_bytes'' 0, req_col ''captured_at'']
     [[''id'']]"

definition rps_tables :: sql_store where
  "rps_tables =
     [(''clients'', clients_table), (''tunnels'', tunnels_table), (''proxy_listeners'', proxy_listeners_table),
      (''proxy_accounts'', proxy_accounts_table), (''client_online'', client_online_table),
      (''agent_sessions'', agent_sessions_table), (''stream_sessions'', stream_sessions_table),
      (''traffic_counters'', traffic_counters_table), (''usage_snapshots'', usage_snapshots_table)]"

text \<open>The columns that older files may lack.\<close>

definition ensured_columns :: "(string \<times> sql_column) list" where
  "ensured_columns =
     [(''tunnels'', opt_col ''expires_at''), (''tunnels'', opt_col ''traffic_limit_bytes''), (''tunnels'', int_col ''rx_bytes'' 0),
      (''tunnels'', int_col ''tx_bytes'' 0), (''tunnels'', opt_col ''disabled_reason''),
      (''proxy_accounts'', opt_col ''expires_at''), (''proxy_accounts'', opt_col ''traffic_limit_bytes''),
      (''proxy_accounts'', int_col ''rx_bytes'' 0), (''proxy_accounts'', int_col ''tx_bytes'' 0),
      (''proxy_accounts'', opt_col ''disabled_reason'')]"

section \<open>The migration\<close>

text \<open>Statements in sequence: one that fails changes nothing and ends the sequence.\<close>

fun exec :: "sql_stmt list \<Rightarrow> stmts \<Rightarrow> sql_store \<Rightarrow> (error + unit) \<times> sql_store" where
  "exec [] q s = (Inr (), s)"
| "exec (f # fs) q s =
     (if \<not> q 0 then (Inl db_error, s)
      else (case f s of Inl e \<Rightarrow> (Inl e, s) | Inr s1 \<Rightarrow> exec fs (\<lambda>i. q (Suc i)) s1))"

definition ensure_column :: "string \<Rightarrow> sql_column \<Rightarrow> sql_stmt" where
  "ensure_column table c s = (if has_column table (co_name c) s then Inr s else add_column table c s)"

text \<open>\<^verbatim>\<open>coalesce(nullif(psk, ''), vkey)\<close> and the copy of the rows that have a key.\<close>

definition coalesced_key :: "sql_row \<Rightarrow> sql_value" where
  "coalesced_key r = (let p = sql_get ''psk'' r in if p = VNull \<or> p = VText '''' then sql_get ''vkey'' r else p)"

definition copied_columns :: "string list" where
  "copied_columns = [''enabled'', ''remark'', ''max_connections'', ''compress'', ''encrypt'', ''created_at'', ''updated_at'']"

definition copied_row :: "sql_row \<Rightarrow> sql_row" where
  "copied_row r =
     (''id'', sql_get ''id'' r) # (''psk'', coalesced_key r) # map (\<lambda>c. (c, sql_get c r)) copied_columns"

definition copy_clients :: sql_stmt where
  "copy_clients s =
     (case (map_of s ''clients'', map_of s ''clients_legacy'') of
        (Some t, Some old) \<Rightarrow>
          if \<not> set (''id'' # ''psk'' # ''vkey'' # copied_columns) \<subseteq> set (column_names old) then Inl (Bail ''no such column'')
          else Inr (AList.update ''clients''
                 (fold insert_or_ignore_row
                    (map copied_row (filter (\<lambda>r. coalesced_key r \<noteq> VNull \<and> coalesced_key r \<noteq> VText '''') (tb_rows old))) t) s)
      | _ \<Rightarrow> Inl (no_such_table ''clients''))"

definition legacy_stmts :: "sql_stmt list" where
  "legacy_stmts =
     [drop_table_if_exists ''clients_new'', drop_table_if_exists ''clients_legacy'', rename_table ''clients'' ''clients_legacy'',
      create_table ''clients'' clients_table, copy_clients, drop_table ''clients_legacy'']"

definition psk_stmts :: "sql_store \<Rightarrow> sql_stmt list" where
  "psk_stmts s =
     (if has_column ''clients'' ''psk'' s then [] else [add_column ''clients'' (opt_col ''psk'')]) @
     (if has_column ''clients'' ''vkey'' s then legacy_stmts else []) @
     [create_index_if_missing ''idx_clients_psk_unique'' ''clients'' ''psk'']"

definition migrate :: "stmts \<Rightarrow> sql_store \<Rightarrow> (error + unit) \<times> sql_store" where
  "migrate q s =
     (case exec (map (\<lambda>(n, t). create_table_if_missing n t) rps_tables) q s of
        (Inl e, s1) \<Rightarrow> (Inl e, s1)
      | (Inr _, s1) \<Rightarrow>
          (case exec (psk_stmts s1) (\<lambda>i. q (9 + i)) s1 of
             (Inl e, s2) \<Rightarrow> (Inl e, s2)
           | (Inr _, s2) \<Rightarrow>
               exec (map (\<lambda>(t, c). ensure_column t c) ensured_columns) (\<lambda>i. q (9 + length (psk_stmts s1) + i)) s2))"

section \<open>What each phase does\<close>

abbreviation no_failure :: stmts where
  "no_failure \<equiv> \<lambda>_. True"

lemma index_exists_iff:
  assumes "distinct (keys s)"
  shows "index_exists name s \<longleftrightarrow> (\<exists>n t. map_of s n = Some t \<and> map_of (tb_indexes t) name \<noteq> None)"
  unfolding map_of_eq_Some_iff [OF assms] by (auto simp: index_exists_def list_ex_iff)

lemma exec_append:
  "exec (fs @ gs) no_failure s =
     (case exec fs no_failure s of (Inl e, s1) \<Rightarrow> (Inl e, s1) | (Inr _, s1) \<Rightarrow> exec gs no_failure s1)"
  by (induction fs arbitrary: s) (auto split: sum.split)

lemma create_phase:
  assumes "distinct (keys s)" and "\<forall>(n, t) \<in> set ts. tb_indexes t = []"
  shows "\<exists>s'. exec (map (\<lambda>(n, t). create_table_if_missing n t) ts) no_failure s = (Inr (), s') \<and> distinct (keys s') \<and>
     (\<forall>n. map_of s' n = (case map_of s n of Some t \<Rightarrow> Some t | None \<Rightarrow> map_of ts n)) \<and>
     (\<forall>name. index_exists name s' = index_exists name s)"
  using assms
proof (induction ts arbitrary: s)
  case (Cons nt ts)
  obtain n t where nt: "nt = (n, t)" by force
  let ?s = "if map_of s n = None then s @ [(n, t)] else s"
  have "distinct (keys ?s)" using Cons.prems(1) by (auto simp: map_of_eq_None_iff)
  moreover have "index_exists name ?s = index_exists name s" for name
    using Cons.prems(2) by (simp add: index_exists_def nt)
  moreover have "\<forall>(n, t) \<in> set ts. tb_indexes t = []" using Cons.prems(2) by simp
  ultimately obtain s' where s': "exec (map (\<lambda>(n, t). create_table_if_missing n t) ts) no_failure ?s = (Inr (), s')" "distinct (keys s')"
    "\<forall>k. map_of s' k = (case map_of ?s k of Some t \<Rightarrow> Some t | None \<Rightarrow> map_of ts k)" "\<forall>name. index_exists name s' = index_exists name s"
    using Cons.IH [of ?s] by auto
  have "exec (map (\<lambda>(n, t). create_table_if_missing n t) (nt # ts)) no_failure s = (Inr (), s')"
    using s'(1) by (simp add: nt create_table_if_missing_def)
  moreover have "map_of s' k = (case map_of s k of Some t \<Rightarrow> Some t | None \<Rightarrow> map_of (nt # ts) k)" for k
    using s'(3) by (auto simp: nt map_add_def split: option.split)
  ultimately show ?case using s'(2,4) by blast
qed (auto split: option.split)

text \<open>The columns a list of \<^verbatim>\<open>ensure_column\<close> calls adds to one table.\<close>

definition add_missing :: "sql_column \<Rightarrow> sql_table \<Rightarrow> sql_table" where
  "add_missing c t =
     (if co_name c \<in> set (column_names t) then t
      else t\<lparr>tb_columns := tb_columns t @ [c], tb_rows := map (\<lambda>r. r @ [(co_name c, co_default c)]) (tb_rows t)\<rparr>)"

definition columns_for :: "string \<Rightarrow> (string \<times> sql_column) list \<Rightarrow> sql_column list" where
  "columns_for n cs = map snd (filter (\<lambda>(m, _). m = n) cs)"

lemma ensure_phase:
  assumes "distinct (keys s)" and "\<forall>(n, c) \<in> set cs. map_of s n \<noteq> None \<and> (co_not_null c \<longrightarrow> co_default c \<noteq> VNull)"
  shows "\<exists>s'. exec (map (\<lambda>(n, c). ensure_column n c) cs) no_failure s = (Inr (), s') \<and> distinct (keys s') \<and>
     (\<forall>n. map_of s' n = map_option (fold add_missing (columns_for n cs)) (map_of s n))"
  using assms
proof (induction cs arbitrary: s)
  case Nil
  then show ?case by (simp add: columns_for_def option.map_ident)
next
  case (Cons nc cs)
  obtain n c where nc: "nc = (n, c)" by force
  obtain t where t: "map_of s n = Some t" using Cons.prems(2) nc by auto
  let ?s = "if co_name c \<in> set (column_names t) then s else AList.update n (add_missing c t) s"
  have e: "ensure_column n c s = Inr ?s"
    using Cons.prems(2) nc t by (auto simp: ensure_column_def has_column_def add_column_def add_missing_def)
  have m: "map_of ?s k = (if k = n then Some (add_missing c t) else map_of s k)" for k
    using t by (simp add: add_missing_def)
  have "distinct (keys ?s)" using Cons.prems(1) by simp
  moreover have "\<forall>(n, c) \<in> set cs. map_of ?s n \<noteq> None \<and> (co_not_null c \<longrightarrow> co_default c \<noteq> VNull)"
    using Cons.prems(2) unfolding m by auto
  ultimately obtain s' where s': "exec (map (\<lambda>(n, c). ensure_column n c) cs) no_failure ?s = (Inr (), s')" "distinct (keys s')"
    "\<forall>k. map_of s' k = map_option (fold add_missing (columns_for k cs)) (map_of ?s k)"
    using Cons.IH [of ?s] by blast
  have "exec (map (\<lambda>(n, c). ensure_column n c) (nc # cs)) no_failure s = (Inr (), s')" using s'(1) by (simp add: nc e)
  moreover have "map_of s' k = map_option (fold add_missing (columns_for k (nc # cs))) (map_of s k)" for k
    using s'(3) t unfolding m by (simp add: columns_for_def nc)
  ultimately show ?case using s'(2) by blast
qed

text \<open>The copy of a legacy table, and that it keeps the keys unique.\<close>

definition keyed :: "sql_row \<Rightarrow> bool" where
  "keyed r \<longleftrightarrow> coalesced_key r \<noteq> VNull \<and> coalesced_key r \<noteq> VText ''''"

lemma keyed_eq: "keyed = (\<lambda>r. coalesced_key r \<noteq> VNull \<and> coalesced_key r \<noteq> VText [])"
  by (simp add: keyed_def fun_eq_iff)

definition clients_copied :: "sql_row list \<Rightarrow> sql_table" where
  "clients_copied rows = fold insert_or_ignore_row (map copied_row (filter keyed rows)) clients_table"

definition nonnull :: "string \<Rightarrow> sql_table \<Rightarrow> sql_value list" where
  "nonnull c t = filter (\<lambda>v. v \<noteq> VNull) (map (sql_get c) (tb_rows t))"

lemma insert_or_ignore_fields [simp]:
  "tb_columns (insert_or_ignore_row r t) = tb_columns t" "tb_uniques (insert_or_ignore_row r t) = tb_uniques t"
  "tb_indexes (insert_or_ignore_row r t) = tb_indexes t"
  by (simp_all add: insert_or_ignore_row_def)

lemma insert_or_ignore_distinct:
  assumes "[c] \<in> set (tb_uniques t)" "distinct (nonnull c t)"
  shows "distinct (nonnull c (insert_or_ignore_row r t))"
proof (cases "violates t r \<or> sql_get c r = VNull")
  case True
  then show ?thesis using assms(2) by (auto simp: insert_or_ignore_row_def nonnull_def)
next
  case False
  have "sql_get c r \<noteq> sql_get c r'" if "r' \<in> set (tb_rows t)" for r'
  proof
    assume "sql_get c r = sql_get c r'"
    then have "same_key [c] r r'" using False by (simp add: same_key_def)
    then have "violates t r" unfolding violates_def list_ex_iff using assms(1) that by auto
    then show False using False by simp
  qed
  then show ?thesis using assms(2) False by (auto simp: insert_or_ignore_row_def nonnull_def)
qed

lemma fold_insert_or_ignore:
  assumes "[c] \<in> set (tb_uniques t)" "distinct (nonnull c t)"
  shows "distinct (nonnull c (fold insert_or_ignore_row rs t)) \<and> tb_columns (fold insert_or_ignore_row rs t) = tb_columns t \<and>
    tb_indexes (fold insert_or_ignore_row rs t) = tb_indexes t"
  using assms by (induction rs arbitrary: t) (simp_all add: insert_or_ignore_distinct)

lemma clients_copied_facts:
  "distinct (nonnull ''psk'' (clients_copied rows))" "tb_columns (clients_copied rows) = tb_columns clients_table"
  "tb_indexes (clients_copied rows) = []"
  using fold_insert_or_ignore [of "''psk''" clients_table] unfolding clients_copied_def
  by (simp_all add: clients_table_def new_table_def nonnull_def)

lemma sql_get_add: "sql_get c (r @ [(d, VNull)]) = sql_get c r"
  by (auto simp: sql_get_def map_add_def split: option.split)

lemma copied_add [simp]: "copied_row (r @ [(d, VNull)]) = copied_row r" "keyed (r @ [(d, VNull)]) = keyed r"
  by (simp_all add: copied_row_def coalesced_key_def keyed_def sql_get_add Let_def)

lemma clients_copied_add: "clients_copied (map (\<lambda>r. r @ [(d, VNull)]) rows) = clients_copied rows"
  by (simp add: clients_copied_def filter_map comp_def)

definition idx_name :: string where "idx_name = ''idx_clients_psk_unique''"

lemma index_phase:
  assumes "distinct (keys s)" "map_of s ''clients'' = Some t" "''psk'' \<in> set (column_names t)" "distinct (nonnull ''psk'' t)"
  shows "\<exists>s' ix. create_index_if_missing idx_name ''clients'' ''psk'' s = Inr s' \<and> distinct (keys s') \<and> index_exists idx_name s' \<and>
    (\<forall>n. map_of s' n = (if n = ''clients'' then Some (t\<lparr>tb_indexes := ix\<rparr>) else map_of s n))"
proof (cases "index_exists idx_name s")
  case True
  then show ?thesis using assms(1,2) by (intro exI [of _ s] exI [of _ "tb_indexes t"]) (simp add: create_index_if_missing_def)
next
  case False
  let ?t = "t\<lparr>tb_indexes := tb_indexes t @ [(idx_name, ''psk'')]\<rparr>"
  have "create_index_if_missing idx_name ''clients'' ''psk'' s = Inr (AList.update ''clients'' ?t s)"
    using False assms(2-4) by (simp add: create_index_if_missing_def nonnull_def)
  moreover have "distinct (keys (AList.update ''clients'' ?t s))" using assms(1) by simp
  moreover have "index_exists idx_name (AList.update ''clients'' ?t s)"
    unfolding index_exists_iff [OF calculation(2)] by (intro exI [of _ "''clients''"] exI [of _ ?t]) (simp add: map_add_def split: option.split)
  ultimately show ?thesis by (intro exI [of _ "AList.update ''clients'' ?t s"] exI [of _ "tb_indexes ?t"]) simp
qed

lemma legacy_phase:
  assumes "distinct (keys s)" "map_of s ''clients'' = Some t"
    and "set (''id'' # ''psk'' # ''vkey'' # copied_columns) \<subseteq> set (column_names t)"
  shows "\<exists>s'. exec legacy_stmts no_failure s = (Inr (), s') \<and> distinct (keys s') \<and>
    (\<forall>n. map_of s' n = (if n = ''clients'' then Some (clients_copied (tb_rows t))
       else if n = ''clients_new'' \<or> n = ''clients_legacy'' then None else map_of s n))"
proof -
  let ?s1 = "AList.delete ''clients_legacy'' (AList.delete ''clients_new'' s)"
  let ?s2 = "AList.delete ''clients'' ?s1 @ [(''clients_legacy'', t)]"
  let ?s3 = "?s2 @ [(''clients'', clients_table)]"
  let ?s4 = "AList.update ''clients'' (clients_copied (tb_rows t)) ?s3"
  have d1: "distinct (keys ?s1)" "map_of ?s1 ''clients'' = Some t" "map_of ?s1 ''clients_legacy'' = None"
    using assms(1,2) by simp_all
  then have r: "rename_table ''clients'' ''clients_legacy'' ?s1 = Inr ?s2" unfolding rename_table_def by simp
  have m2: "map_of ?s2 ''clients'' = None" "map_of ?s2 ''clients_legacy'' = Some t" by (simp_all add: map_add_def)
  have m3: "map_of ?s3 ''clients'' = Some clients_table" "map_of ?s3 ''clients_legacy'' = Some t" by (simp_all add: map_add_def)
  have c: "create_table ''clients'' clients_table ?s2 = Inr ?s3" using m2(1) unfolding create_table_def by simp
  have cp: "copy_clients ?s3 = Inr ?s4"
    unfolding copy_clients_def m3 clients_copied_def keyed_eq using assms(3) by simp
  have dr: "drop_table ''clients_legacy'' ?s4 = Inr (AList.delete ''clients_legacy'' ?s4)"
    unfolding drop_table_def using m3(2) by simp
  have "exec legacy_stmts no_failure s = (Inr (), AList.delete ''clients_legacy'' ?s4)"
    unfolding legacy_stmts_def by (simp add: drop_table_if_exists_def r c cp dr del: append_assoc)
  moreover have "map_of (AList.delete ''clients_legacy'' ?s4) n = (if n = ''clients'' then Some (clients_copied (tb_rows t))
       else if n = ''clients_new'' \<or> n = ''clients_legacy'' then None else map_of s n)" for n
    by (auto simp: map_add_def split: option.split)
  moreover have "distinct (keys ?s3)"
  proof -
    have "''clients_legacy'' \<notin> set (keys (AList.delete ''clients'' ?s1))" "''clients'' \<notin> set (keys (AList.delete ''clients'' ?s1))"
      by (simp_all add: map_of_eq_None_iff [symmetric])
    then show ?thesis using distinct_keys_delete [OF d1(1), of "''clients''"] by simp
  qed
  then have "distinct (keys (AList.delete ''clients_legacy'' ?s4))" by simp
  ultimately show ?thesis by blast
qed

lemma column_names_add_missing: "set (column_names (add_missing c t)) = insert (co_name c) (set (column_names t))"
  by (auto simp: add_missing_def column_names_def)

lemma add_psk_phase:
  assumes "distinct (keys s)" "map_of s ''clients'' = Some t"
  shows "\<exists>s1. exec (if has_column ''clients'' ''psk'' s then [] else [add_column ''clients'' (opt_col ''psk'')]) no_failure s = (Inr (), s1) \<and>
    distinct (keys s1) \<and> (\<forall>n. map_of s1 n = (if n = ''clients'' then Some (add_missing (opt_col ''psk'') t) else map_of s n))"
proof (cases "''psk'' \<in> set (column_names t)")
  case True
  then show ?thesis using assms by (auto simp: has_column_def add_missing_def opt_col_def)
next
  case False
  then have "add_column ''clients'' (opt_col ''psk'') s = Inr (AList.update ''clients'' (add_missing (opt_col ''psk'') t) s)"
    using assms(2) by (simp add: add_column_def add_missing_def opt_col_def)
  then show ?thesis using False assms by (auto simp: has_column_def)
qed

lemma add_psk_rows:
  "nonnull c (add_missing (opt_col ''psk'') t) = nonnull c t"
  "clients_copied (tb_rows (add_missing (opt_col ''psk'') t)) = clients_copied (tb_rows t)"
  by (simp_all add: add_missing_def opt_col_def nonnull_def comp_def sql_get_add clients_copied_add)

text \<open>The clients table afterwards: copied if it was a legacy table, otherwise with a key column.\<close>

definition upgraded_clients :: "sql_table \<Rightarrow> sql_table" where
  "upgraded_clients t =
     (if ''vkey'' \<in> set (column_names t) then clients_copied (tb_rows t) else add_missing (opt_col ''psk'') t)"

lemma psk_phase:
  assumes "distinct (keys s)" "map_of s ''clients'' = Some t"
    and "if ''vkey'' \<in> set (column_names t) then set (''id'' # copied_columns) \<subseteq> set (column_names t) else distinct (nonnull ''psk'' t)"
  shows "\<exists>s' ix. exec (psk_stmts s) no_failure s = (Inr (), s') \<and> distinct (keys s') \<and> index_exists idx_name s' \<and>
    (\<forall>n. map_of s' n = (if n = ''clients'' then Some ((upgraded_clients t)\<lparr>tb_indexes := ix\<rparr>)
       else if ''vkey'' \<in> set (column_names t) \<and> (n = ''clients_new'' \<or> n = ''clients_legacy'') then None else map_of s n))"
proof -
  let ?t1 = "add_missing (opt_col ''psk'') t"
  obtain s1 where s1: "exec (if has_column ''clients'' ''psk'' s then [] else [add_column ''clients'' (opt_col ''psk'')]) no_failure s = (Inr (), s1)"
    "distinct (keys s1)" "\<forall>n. map_of s1 n = (if n = ''clients'' then Some ?t1 else map_of s n)"
    using add_psk_phase [OF assms(1,2)] by blast
  have cols: "set (column_names ?t1) = insert ''psk'' (set (column_names t))" by (simp add: column_names_add_missing opt_col_def)
  have vk: "has_column ''clients'' ''vkey'' s \<longleftrightarrow> ''vkey'' \<in> set (column_names t)" using assms(2) by (simp add: has_column_def)
  show ?thesis
  proof (cases "''vkey'' \<in> set (column_names t)")
    case True
    have "set (''id'' # ''psk'' # ''vkey'' # copied_columns) \<subseteq> set (column_names ?t1)" using True assms(3) cols by auto
    from legacy_phase [OF s1(2) _ this] s1(3) obtain s2 where s2: "exec legacy_stmts no_failure s1 = (Inr (), s2)" "distinct (keys s2)"
      "\<forall>n. map_of s2 n = (if n = ''clients'' then Some (clients_copied (tb_rows t))
         else if n = ''clients_new'' \<or> n = ''clients_legacy'' then None else map_of s1 n)"
      by (auto simp: add_psk_rows)
    have "''psk'' \<in> set (column_names (clients_copied (tb_rows t)))"
      by (simp add: column_names_def clients_copied_facts clients_table_def new_table_def req_col_def)
    from index_phase [OF s2(2) _ this clients_copied_facts(1)] s2(3) obtain s3 ix where s3:
      "create_index_if_missing idx_name ''clients'' ''psk'' s2 = Inr s3" "distinct (keys s3)" "index_exists idx_name s3"
      "\<forall>n. map_of s3 n = (if n = ''clients'' then Some ((clients_copied (tb_rows t))\<lparr>tb_indexes := ix\<rparr>) else map_of s2 n)" by auto
    have "exec (psk_stmts s) no_failure s = (Inr (), s3)"
      unfolding psk_stmts_def exec_append s1(1) using True s2(1) s3(1) by (simp add: vk exec_append idx_name_def)
    then show ?thesis using True s3(2-4) s2(3) s1(3) by (intro exI [of _ s3] exI [of _ ix]) (auto simp: upgraded_clients_def)
  next
    case False
    have "''psk'' \<in> set (column_names ?t1)" "distinct (nonnull ''psk'' ?t1)" using False assms(3) cols by (auto simp: add_psk_rows)
    from index_phase [OF s1(2) _ this] s1(3) obtain s3 ix where s3:
      "create_index_if_missing idx_name ''clients'' ''psk'' s1 = Inr s3" "distinct (keys s3)" "index_exists idx_name s3"
      "\<forall>n. map_of s3 n = (if n = ''clients'' then Some (?t1\<lparr>tb_indexes := ix\<rparr>) else map_of s1 n)" by auto
    have "exec (psk_stmts s) no_failure s = (Inr (), s3)"
      unfolding psk_stmts_def exec_append s1(1) using False s3(1) by (simp add: vk idx_name_def)
    then show ?thesis using False s3(2-4) s1(3) by (intro exI [of _ s3] exI [of _ ix]) (auto simp: upgraded_clients_def)
  qed
qed

section \<open>The whole migration\<close>

text \<open>A table whose rows are kept, each with its values and perhaps more columns.\<close>

definition upgraded :: "sql_table \<Rightarrow> sql_table \<Rightarrow> bool" where
  "upgraded t t' \<longleftrightarrow> set (column_names t) \<subseteq> set (column_names t') \<and> list_all2 prefix (tb_rows t) (tb_rows t')"

lemma upgraded_refl: "upgraded t t"
  by (simp add: upgraded_def list_all2_refl)

lemma upgraded_indexes [simp]: "upgraded t (t'\<lparr>tb_indexes := ix\<rparr>) = upgraded t t'" "column_names (t\<lparr>tb_indexes := ix\<rparr>) = column_names t"
  by (simp_all add: upgraded_def column_names_def)

lemma upgraded_trans: "upgraded a b \<Longrightarrow> upgraded b c \<Longrightarrow> upgraded a c"
  unfolding upgraded_def using list_all2_trans [of prefix prefix prefix "tb_rows a" "tb_rows b" "tb_rows c"] prefix_order.trans by blast

lemma upgraded_add_missing: "upgraded t (add_missing c t)"
  by (auto simp: upgraded_def add_missing_def column_names_def list_all2_map2 intro!: list_all2_refl list.rel_refl)

lemma upgraded_fold: "upgraded t (fold add_missing cs t)"
  by (induction cs arbitrary: t) (auto intro: upgraded_refl upgraded_trans [OF upgraded_add_missing])

lemma column_names_fold: "set (column_names (fold add_missing cs t)) = co_name ` set cs \<union> set (column_names t)"
  by (induction cs arbitrary: t) (auto simp: column_names_add_missing)

lemma indexes_fold: "tb_indexes (fold add_missing cs t) = tb_indexes t"
  by (induction cs arbitrary: t) (simp_all add: add_missing_def)

text \<open>
  A file of an earlier version: its tables have the columns of today's except those the migration
  adds, and the keys of its clients differ, unless it is a legacy table whose rows are copied.
\<close>

definition optional_columns :: "string \<Rightarrow> string set" where
  "optional_columns n = (if n = ''clients'' then {''psk''} else set (map co_name (columns_for n ensured_columns)))"

definition old_schema :: "sql_store \<Rightarrow> bool" where
  "old_schema s \<longleftrightarrow> distinct (keys s) \<and>
     list_all (\<lambda>(n, t). case map_of s n of None \<Rightarrow> True
        | Some t0 \<Rightarrow> set (column_names t) \<subseteq> set (column_names t0) \<union> optional_columns n) rps_tables \<and>
     (case map_of s ''clients'' of None \<Rightarrow> True | Some t \<Rightarrow> ''vkey'' \<in> set (column_names t) \<or> distinct (nonnull ''psk'' t))"

definition is_legacy :: "sql_store \<Rightarrow> bool" where
  "is_legacy s = has_column ''clients'' ''vkey'' s"

text \<open>A store the migration leaves alone.\<close>

definition settled :: "sql_store \<Rightarrow> bool" where
  "settled s \<longleftrightarrow> list_all (\<lambda>(n, t). map_of s n \<noteq> None) rps_tables \<and> has_column ''clients'' ''psk'' s \<and>
     \<not> has_column ''clients'' ''vkey'' s \<and> index_exists idx_name s \<and> list_all (\<lambda>(n, c). has_column n (co_name c) s) ensured_columns"

lemma exec_idle: "list_all (\<lambda>f. f s = Inr s) fs \<Longrightarrow> exec fs no_failure s = (Inr (), s)"
  by (induction fs) simp_all

lemma settled_migrate: "settled s \<Longrightarrow> migrate no_failure s = (Inr (), s)"
proof -
  assume st: "settled s"
  have "exec (map (\<lambda>(n, t). create_table_if_missing n t) rps_tables) no_failure s = (Inr (), s)"
    using st by (intro exec_idle) (auto simp: settled_def list_all_iff create_table_if_missing_def)
  moreover have "exec (psk_stmts s) no_failure s = (Inr (), s)"
    using st by (simp add: settled_def psk_stmts_def create_index_if_missing_def idx_name_def)
  moreover have "exec (map (\<lambda>(t, c). ensure_column t c) ensured_columns) no_failure s = (Inr (), s)"
    using st by (intro exec_idle) (auto simp: settled_def list_all_iff ensure_column_def)
  ultimately show ?thesis by (simp add: migrate_def)
qed

lemma rps_tables_facts:
  "\<forall>(n, t) \<in> set rps_tables. tb_indexes t = []"
  "map_of rps_tables ''clients'' = Some clients_table" "''vkey'' \<notin> set (column_names clients_table)"
  "''psk'' \<in> set (column_names clients_table)" "nonnull ''psk'' clients_table = []"
  "set (''id'' # copied_columns) \<subseteq> set (column_names clients_table) - {''psk''}"
  by (simp_all add: rps_tables_def new_table_def clients_table_def tunnels_table_def proxy_listeners_table_def proxy_accounts_table_def
      client_online_table_def agent_sessions_table_def stream_sessions_table_def traffic_counters_table_def usage_snapshots_table_def
      column_names_def opt_col_def req_col_def int_col_def nonnull_def copied_columns_def)

lemma rps_tables_names: "distinct (keys rps_tables)" "''clients_new'' \<notin> set (keys rps_tables)" "''clients_legacy'' \<notin> set (keys rps_tables)"
  by (simp_all add: rps_tables_def)

lemma ensured_facts:
  "\<forall>(n, c) \<in> set ensured_columns. n \<in> set (keys rps_tables) \<and> n \<noteq> ''clients'' \<and> (co_not_null c \<longrightarrow> co_default c \<noteq> VNull)"
  "columns_for ''clients'' ensured_columns = []"
  by (simp_all add: ensured_columns_def rps_tables_def opt_col_def int_col_def columns_for_def)

text \<open>Every table of the migrated file, given by those of the old one.\<close>

definition present_table :: "sql_store \<Rightarrow> string \<Rightarrow> sql_table option" where
  "present_table s n = (case map_of s n of Some t \<Rightarrow> Some t | None \<Rightarrow> map_of rps_tables n)"

definition migrated_table :: "sql_store \<Rightarrow> (string \<times> string) list \<Rightarrow> string \<Rightarrow> sql_table option" where
  "migrated_table s ix n =
     (if n = ''clients'' then map_option (\<lambda>t. (upgraded_clients t)\<lparr>tb_indexes := ix\<rparr>) (present_table s n)
      else if is_legacy s \<and> (n = ''clients_new'' \<or> n = ''clients_legacy'') then None
      else map_option (fold add_missing (columns_for n ensured_columns)) (present_table s n))"

lemma old_schemaD:
  "old_schema s \<Longrightarrow> (n, t) \<in> set rps_tables \<Longrightarrow> map_of s n = Some t0 \<Longrightarrow> set (column_names t) \<subseteq> set (column_names t0) \<union> optional_columns n"
  unfolding old_schema_def list_all_iff by fastforce

lemma present_clients:
  assumes "old_schema s"
  obtains t where "present_table s ''clients'' = Some t" "''vkey'' \<in> set (column_names t) \<longleftrightarrow> is_legacy s"
    "if ''vkey'' \<in> set (column_names t) then set (''id'' # copied_columns) \<subseteq> set (column_names t) else distinct (nonnull ''psk'' t)"
    "set (column_names clients_table) \<subseteq> set (column_names t) \<union> {''psk''}"
proof (cases "map_of s ''clients''")
  case None
  then show ?thesis using that [of clients_table] rps_tables_facts
    by (auto simp: present_table_def is_legacy_def has_column_def)
next
  case (Some t)
  have "(''clients'', clients_table) \<in> set rps_tables" using rps_tables_facts(2) by (rule map_of_SomeD)
  then have c: "set (column_names clients_table) \<subseteq> set (column_names t) \<union> {''psk''}"
    using old_schemaD [OF assms _ Some] by (auto simp: optional_columns_def)
  then have "set (''id'' # copied_columns) \<subseteq> set (column_names t)" using rps_tables_facts(6) by blast
  then show ?thesis using that [of t] c assms Some
    by (auto simp: present_table_def is_legacy_def has_column_def old_schema_def)
qed

lemma present_rps: "n \<in> set (keys rps_tables) \<Longrightarrow> present_table s n \<noteq> None"
  using map_of_eq_None_iff [of rps_tables n] by (auto simp: present_table_def split: option.split)

lemma migrate_shape:
  assumes "old_schema s"
  shows "\<exists>s' ix. migrate no_failure s = (Inr (), s') \<and> index_exists idx_name s' \<and> (\<forall>n. map_of s' n = migrated_table s ix n)"
proof -
  have dist: "distinct (keys s)" using assms by (simp add: old_schema_def)
  obtain s1 where s1: "exec (map (\<lambda>(n, t). create_table_if_missing n t) rps_tables) no_failure s = (Inr (), s1)" "distinct (keys s1)"
    "\<forall>n. map_of s1 n = present_table s n"
    using create_phase [OF dist rps_tables_facts(1)] unfolding present_table_def by blast
  obtain t where t: "present_table s ''clients'' = Some t" "''vkey'' \<in> set (column_names t) \<longleftrightarrow> is_legacy s"
    "if ''vkey'' \<in> set (column_names t) then set (''id'' # copied_columns) \<subseteq> set (column_names t) else distinct (nonnull ''psk'' t)"
    by (rule present_clients [OF assms])
  have c1: "map_of s1 ''clients'' = Some t" using s1(3) t(1) by simp
  obtain s2 ix where s2: "exec (psk_stmts s1) no_failure s1 = (Inr (), s2)" "distinct (keys s2)" "index_exists idx_name s2"
    "\<forall>n. map_of s2 n = (if n = ''clients'' then Some ((upgraded_clients t)\<lparr>tb_indexes := ix\<rparr>)
       else if ''vkey'' \<in> set (column_names t) \<and> (n = ''clients_new'' \<or> n = ''clients_legacy'') then None else map_of s1 n)"
    using psk_phase [OF s1(2) c1 t(3)] by blast
  note m2 = s2(4) [unfolded t(2) s1(3) [rule_format]]
  have "map_of s2 n \<noteq> None \<and> (co_not_null c \<longrightarrow> co_default c \<noteq> VNull)" if "(n, c) \<in> set ensured_columns" for n c
  proof -
    have n: "n \<in> set (keys rps_tables)" "co_not_null c \<longrightarrow> co_default c \<noteq> VNull" using that ensured_facts(1) by auto
    then have "n \<noteq> ''clients_new''" "n \<noteq> ''clients_legacy''" using rps_tables_names(2,3) by blast+
    then show ?thesis using present_rps [OF n(1), of s] n(2) m2 by simp
  qed
  then have "\<forall>(n, c) \<in> set ensured_columns. map_of s2 n \<noteq> None \<and> (co_not_null c \<longrightarrow> co_default c \<noteq> VNull)" by blast
  from ensure_phase [OF s2(2) this] obtain s3 where s3:
    "exec (map (\<lambda>(n, c). ensure_column n c) ensured_columns) no_failure s2 = (Inr (), s3)" "distinct (keys s3)"
    "\<forall>n. map_of s3 n = map_option (fold add_missing (columns_for n ensured_columns)) (map_of s2 n)" by blast
  have "migrate no_failure s = (Inr (), s3)" using s1(1) s2(1) s3(1) by (simp add: migrate_def)
  moreover have "map_of s3 n = migrated_table s ix n" for n
    using s3(3) m2 t(1) ensured_facts(2) by (auto simp: migrated_table_def)
  moreover have "index_exists idx_name s3"
  proof -
    obtain n u where "map_of s2 n = Some u" "map_of (tb_indexes u) idx_name \<noteq> None"
      using s2(3) unfolding index_exists_iff [OF s2(2)] by blast
    then have "map_of s3 n = Some (fold add_missing (columns_for n ensured_columns) u)"
      "map_of (tb_indexes (fold add_missing (columns_for n ensured_columns) u)) idx_name \<noteq> None"
      using s3(3) by (simp_all add: indexes_fold)
    then show ?thesis unfolding index_exists_iff [OF s3(2)] by blast
  qed
  ultimately show ?thesis by blast
qed

section \<open>The copied clients\<close>

text \<open>The rows of \<open>Db\<close>'s clients table and of a legacy one, by their columns.\<close>

definition opt_text :: "string option \<Rightarrow> sql_value" where
  "opt_text v = (case v of None \<Rightarrow> VNull | Some s \<Rightarrow> VText s)"

definition opt_num :: "int option \<Rightarrow> sql_value" where
  "opt_num v = (case v of None \<Rightarrow> VNull | Some i \<Rightarrow> VNum (SqlInt i))"

definition client_values :: "client_row \<Rightarrow> sql_row" where
  "client_values r =
     [(''id'', VText (c_id r)), (''psk'', VText (c_psk r)), (''enabled'', VNum (SqlInt (c_enabled r))), (''remark'', opt_text (c_remark r)),
      (''max_connections'', opt_num (c_max_connections r)), (''compress'', VNum (SqlInt (c_compress r))),
      (''encrypt'', VNum (SqlInt (c_encrypt r))), (''created_at'', VNum (SqlInt (c_created_at r))),
      (''updated_at'', VNum (SqlInt (c_updated_at r)))]"

definition legacy_like :: "legacy_client \<Rightarrow> sql_row \<Rightarrow> bool" where
  "legacy_like r v \<longleftrightarrow>
     sql_get ''psk'' v = opt_text (lc_psk r) \<and> sql_get ''vkey'' v = opt_text (lc_vkey r) \<and>
     list_all (\<lambda>c. sql_get c v = sql_get c (client_values (client_row.truncate r))) (''id'' # copied_columns)"

lemma legacy_like_key: "legacy_like r v \<Longrightarrow> coalesced_key v = opt_text (legacy_key r)"
  by (auto simp: legacy_like_def coalesced_key_def legacy_key_def opt_text_def Let_def split: option.split)

lemma legacy_like_copied:
  assumes "legacy_like r v" "legacy_key r = Some k"
  shows "copied_row v = client_values (client_row.truncate (r\<lparr>c_psk := k\<rparr>))"
  using assms legacy_like_key [OF assms(1)]
  by (simp add: copied_row_def legacy_like_def client_values_def copied_columns_def sql_get_def opt_text_def client_row.truncate_def)

lemma insert_client_values:
  assumes "tb_columns t = tb_columns clients_table" "tb_uniques t = tb_uniques clients_table" "tb_indexes t = []" "tb_rows t = map client_values rows"
  shows "tb_rows (insert_or_ignore_row (client_values new) t) = map client_values (insert_or_ignore_client new rows)"
proof -
  have "violates t (client_values new) \<longleftrightarrow> exists_row (\<lambda>r. c_id r = c_id new \<or> c_psk r = c_psk new) rows"
    unfolding violates_def assms clients_table_def
    by (simp add: new_table_def list_ex_iff same_key_def client_values_def sql_get_def opt_col_def req_col_def int_col_def) metis
  then show ?thesis by (auto simp: insert_or_ignore_row_def insert_or_ignore_client_def assms(4))
qed

lemma copy_refines:
  assumes "list_all2 legacy_like rs vs" "tb_columns t = tb_columns clients_table" "tb_uniques t = tb_uniques clients_table"
    "tb_indexes t = []" "tb_rows t = map client_values rows"
  shows "tb_rows (fold insert_or_ignore_row (map copied_row (filter keyed vs)) t) = map client_values (migrate_clients_psk rs rows)"
  using assms
proof (induction rs vs arbitrary: t rows rule: list_all2_induct)
  case (Cons r rs v vs)
  note k = legacy_like_key [OF Cons.hyps(1)]
  show ?case
  proof (cases "keyed v")
    case True
    then obtain key where key: "legacy_key r = Some key" "key \<noteq> []" using k by (auto simp: keyed_def opt_text_def split: option.splits)
    then show ?thesis using True Cons.prems Cons.IH insert_client_values [OF Cons.prems]
      by (simp add: legacy_like_copied [OF Cons.hyps(1) key(1)])
  next
    case False
    then have "legacy_key r = None \<or> legacy_key r = Some []" using k by (auto simp: keyed_def opt_text_def split: option.splits)
    then show ?thesis using False Cons.prems Cons.IH by auto
  qed
qed simp

section \<open>What the migrated file holds\<close>

lemma migrated_columns:
  assumes "old_schema s" "(n, t) \<in> set rps_tables"
  shows "\<exists>t'. migrated_table s ix n = Some t' \<and> set (column_names t) \<subseteq> set (column_names t')"
proof -
  have rt: "map_of rps_tables n = Some t" using assms(2) rps_tables_names(1) by simp
  show ?thesis
  proof (cases "n = ''clients''")
    case True
    then have t: "t = clients_table" using rt rps_tables_facts(2) by simp
    obtain t0 where "present_table s ''clients'' = Some t0" "set (column_names clients_table) \<subseteq> set (column_names t0) \<union> {''psk''}"
      by (rule present_clients [OF assms(1)])
    then show ?thesis using True t
      by (auto simp: migrated_table_def upgraded_clients_def column_names_add_missing opt_col_def column_names_def [of "clients_copied _"]
          column_names_def [of clients_table] clients_copied_facts)
  next
    case False
    have "n \<noteq> ''clients_new''" "n \<noteq> ''clients_legacy''" using assms(2) rps_tables_names(2,3) by force+
    then have m: "migrated_table s ix n = map_option (fold add_missing (columns_for n ensured_columns)) (present_table s n)"
      using False by (simp add: migrated_table_def)
    show ?thesis
    proof (cases "map_of s n")
      case None
      then show ?thesis using m rt by (auto simp: present_table_def column_names_fold)
    next
      case (Some t0)
      then show ?thesis using m old_schemaD [OF assms Some] False
        by (auto simp: present_table_def column_names_fold optional_columns_def)
    qed
  qed
qed

lemma migrated_rows:
  assumes "map_of s n = Some t" "\<not> (is_legacy s \<and> n \<in> {''clients'', ''clients_new'', ''clients_legacy''})"
  shows "\<exists>t'. migrated_table s ix n = Some t' \<and> upgraded t t'"
proof (cases "n = ''clients''")
  case True
  then have "''vkey'' \<notin> set (column_names t)" using assms by (simp add: is_legacy_def has_column_def)
  then show ?thesis using True assms(1) upgraded_add_missing by (simp add: migrated_table_def present_table_def upgraded_clients_def)
next
  case False
  then have "migrated_table s ix n = Some (fold add_missing (columns_for n ensured_columns) t)"
    using assms by (auto simp: migrated_table_def present_table_def)
  then show ?thesis using upgraded_fold by blast
qed

lemma migrated_clients:
  assumes "map_of s ''clients'' = Some t" "is_legacy s" "list_all2 legacy_like rs (tb_rows t)"
  shows "\<exists>t'. migrated_table s ix ''clients'' = Some t' \<and> tb_rows t' = map client_values (migrate_clients_psk rs [])"
proof -
  have "''vkey'' \<in> set (column_names t)" using assms(1,2) by (simp add: is_legacy_def has_column_def)
  moreover have "tb_rows (clients_copied (tb_rows t)) = map client_values (migrate_clients_psk rs [])"
    unfolding clients_copied_def by (rule copy_refines [OF assms(3)]) (simp_all add: clients_table_def new_table_def)
  ultimately show ?thesis using assms(1) by (simp add: migrated_table_def present_table_def upgraded_clients_def)
qed

lemma migrated_settled:
  assumes "old_schema s" "index_exists idx_name s'" "\<forall>n. map_of s' n = migrated_table s ix n"
  shows "settled s'"
proof -
  have cols: "\<exists>t'. map_of s' n = Some t' \<and> set (column_names t) \<subseteq> set (column_names t')" if "(n, t) \<in> set rps_tables" for n t
    using migrated_columns [OF assms(1) that] assms(3) by simp
  obtain t0 where t0: "present_table s ''clients'' = Some t0" by (rule present_clients [OF assms(1)])
  have "''vkey'' \<notin> set (column_names (upgraded_clients t0))"
    by (auto simp: upgraded_clients_def column_names_add_missing opt_col_def column_names_def [of "clients_copied _"] clients_copied_facts
        column_names_def [of clients_table, symmetric] rps_tables_facts(3))
  then have "\<not> has_column ''clients'' ''vkey'' s'" using assms(3) t0 by (simp add: has_column_def migrated_table_def)
  moreover have "has_column ''clients'' ''psk'' s'"
    using cols [OF map_of_SomeD [OF rps_tables_facts(2)]] rps_tables_facts(4) by (auto simp: has_column_def)
  moreover have "has_column n (co_name c) s'" if nc: "(n, c) \<in> set ensured_columns" for n c
  proof -
    have n: "n \<in> set (keys rps_tables)" "n \<noteq> ''clients''" using nc ensured_facts(1) by auto
    then have n': "n \<noteq> ''clients_new''" "n \<noteq> ''clients_legacy''" using rps_tables_names(2,3) by blast+
    obtain t where "present_table s n = Some t" using present_rps [OF n(1)] by blast
    then have "map_of s' n = Some (fold add_missing (columns_for n ensured_columns) t)" using assms(3) n n' by (simp add: migrated_table_def)
    moreover have "c \<in> set (columns_for n ensured_columns)" using nc by (force simp: columns_for_def)
    ultimately show ?thesis by (simp add: has_column_def column_names_fold)
  qed
  moreover have "map_of s' n \<noteq> None" if "(n, t) \<in> set rps_tables" for n t using cols [OF that] by auto
  ultimately show ?thesis using assms(2) unfolding settled_def list_all_iff by blast
qed

section \<open>The files\<close>

text \<open>
  The permission bits of the files and directories that exist. \<open>io\<close> says which calls of the file
  system fail; \<^verbatim>\<open>Path::parent\<close> cuts the last component and the separators before it.
\<close>

type_synonym file_modes = "(string \<times> nat) list"

definition strip_slashes :: "string \<Rightarrow> string" where
  "strip_slashes p = rev (dropWhile (\<lambda>c. c = CHR ''/'') (rev p))"

definition path_parent :: "string \<Rightarrow> string option" where
  "path_parent p =
     (let t = strip_slashes p; d = rev (dropWhile (\<lambda>c. c \<noteq> CHR ''/'') (rev t))
      in if t = [] then None
         else Some (if d = [] then [] else if strip_slashes d = [] then ''/'' else strip_slashes d))"

definition database_parent :: "string \<Rightarrow> string option" where
  "database_parent path = (case path_parent path of None \<Rightarrow> None | Some p \<Rightarrow> if p = [] then None else Some p)"

lemma length_strip_slashes: "length (strip_slashes p) \<le> length p"
  using length_dropWhile_le [of "\<lambda>c. c = CHR ''/''" "rev p"] by (simp add: strip_slashes_def)

lemma path_parent_shorter: "path_parent p = Some q \<Longrightarrow> length q < length p"
proof -
  assume q: "path_parent p = Some q"
  define t where "t = strip_slashes p"
  define d where "d = rev (dropWhile (\<lambda>c. c \<noteq> CHR ''/'') (rev t))"
  have t: "t \<noteq> []" "hd (rev t) \<noteq> CHR ''/''"
    using q hd_dropWhile [of "\<lambda>c. c = CHR ''/''" "rev p"] by (auto simp: path_parent_def t_def strip_slashes_def Let_def split: if_splits)
  then have "length d < length t" unfolding d_def
    by (cases "rev t") (auto simp: less_Suc_eq_le length_dropWhile_le dest: arg_cong [of _ _ length])
  moreover have "length (strip_slashes d) \<le> length d" by (rule length_strip_slashes)
  moreover have "length t \<le> length p" unfolding t_def by (rule length_strip_slashes)
  moreover have "q = (if d = [] then [] else if strip_slashes d = [] then ''/'' else strip_slashes d)"
    using q t(1) unfolding path_parent_def Let_def t_def [symmetric] d_def [symmetric] by (auto split: if_splits)
  ultimately show ?thesis by (cases d) (auto split: if_splits)
qed

function create_dir_all :: "nat \<Rightarrow> string \<Rightarrow> file_modes \<Rightarrow> file_modes" where
  "create_dir_all mode p fs =
     (if map_of fs p \<noteq> None then fs
      else (case path_parent p of
              None \<Rightarrow> fs @ [(p, mode)]
            | Some q \<Rightarrow> (if q = [] then fs else create_dir_all mode q fs) @ [(p, mode)]))"
  by pat_completeness auto
termination by (relation "measure (\<lambda>(mode, p, fs). length p)") (auto dest: path_parent_shorter)

declare create_dir_all.simps [simp del]

definition set_permissions :: "error option \<Rightarrow> string \<Rightarrow> nat \<Rightarrow> file_modes \<Rightarrow> (error + unit) \<times> file_modes" where
  "set_permissions fault p mode fs =
     (case fault of
        Some e \<Rightarrow> (Inl e, fs)
      | None \<Rightarrow>
          if map_of fs p = None then (Inl (Bail ''No such file or directory''), fs)
          else (Inr (), AList.update p mode fs))"

definition secure_database_dir :: "error option \<Rightarrow> string \<Rightarrow> file_modes \<Rightarrow> (error + unit) \<times> file_modes" where
  "secure_database_dir fault p = set_permissions fault p 448"

fun secure_files :: "(nat \<Rightarrow> error option) \<Rightarrow> string list \<Rightarrow> file_modes \<Rightarrow> (error + unit) \<times> file_modes" where
  "secure_files io [] fs = (Inr (), fs)"
| "secure_files io (p # ps) fs =
     (case io 0 of
        Some e \<Rightarrow> (Inl e, fs)
      | None \<Rightarrow>
          if map_of fs p = None then secure_files (\<lambda>i. io (2 + i)) ps fs
          else (case set_permissions (io 1) p 384 fs of
                  (Inl e, fs1) \<Rightarrow> (Inl e, fs1)
                | (Inr _, fs1) \<Rightarrow> secure_files (\<lambda>i. io (2 + i)) ps fs1))"

definition sqlite_sidecar_path :: "string \<Rightarrow> string \<Rightarrow> string" where
  "sqlite_sidecar_path path ext = path @ ext"

definition database_files :: "string \<Rightarrow> string list" where
  "database_files path = [path, sqlite_sidecar_path path ''-wal'', sqlite_sidecar_path path ''-shm'']"

definition secure_database_files :: "(nat \<Rightarrow> error option) \<Rightarrow> string \<Rightarrow> file_modes \<Rightarrow> (error + unit) \<times> file_modes" where
  "secure_database_files io path = secure_files io (database_files path)"

definition database_url :: "string \<Rightarrow> string" where
  "database_url path = ''sqlite://'' @ map (\<lambda>c. if c = CHR 0x5C then CHR ''/'' else c) path"

text \<open>
  \<^verbatim>\<open>Database::open\<close>: \<open>connect\<close> is what connecting to a URL does to the files, \<open>body\<close> what the
  migration and the seeding give and do to them, and \<open>mode\<close> the mode of new directories.
\<close>

definition prepare_dir :: "nat \<Rightarrow> (nat \<Rightarrow> error option) \<Rightarrow> string \<Rightarrow> file_modes \<Rightarrow> (error + unit) \<times> file_modes" where
  "prepare_dir mode io path fs =
     (case database_parent path of
        None \<Rightarrow> (Inr (), fs)
      | Some p \<Rightarrow> (case io 0 of Some e \<Rightarrow> (Inl e, fs) | None \<Rightarrow> secure_database_dir (io 1) p (create_dir_all mode p fs)))"

definition open_database ::
  "nat \<Rightarrow> (string \<Rightarrow> file_modes \<Rightarrow> (error + unit) \<times> file_modes) \<Rightarrow> (file_modes \<Rightarrow> (error + 'd) \<times> file_modes)
     \<Rightarrow> (nat \<Rightarrow> error option) \<Rightarrow> string \<Rightarrow> file_modes \<Rightarrow> (error + 'd) \<times> file_modes" where
  "open_database mode connect body io path fs =
     (case prepare_dir mode io path fs of (Inl e, fs1) \<Rightarrow> (Inl e, fs1) | (Inr _, fs1) \<Rightarrow>
      case connect (database_url path) fs1 of (Inl e, fs2) \<Rightarrow> (Inl e, fs2) | (Inr _, fs2) \<Rightarrow>
      case secure_database_files (\<lambda>i. io (2 + i)) path fs2 of (Inl e, fs3) \<Rightarrow> (Inl e, fs3) | (Inr _, fs3) \<Rightarrow>
      case body fs3 of (Inl e, fs4) \<Rightarrow> (Inl e, fs4) | (Inr d, fs4) \<Rightarrow>
      case secure_database_files (\<lambda>i. io (8 + i)) path fs4 of (Inl e, fs5) \<Rightarrow> (Inl e, fs5) | (Inr _, fs5) \<Rightarrow> (Inr d, fs5))"

lemma secure_files_modes:
  "secure_files io ps fs = (Inr (), fs') \<Longrightarrow>
   map_of fs' p = (if p \<in> set ps \<and> map_of fs p \<noteq> None then Some 384 else map_of fs p)"
proof (induction io ps fs rule: secure_files.induct)
  case (2 io p' ps fs)
  have ok: "io 0 = None" using "2.prems" by (cases "io 0") auto
  show ?case
  proof (cases "map_of fs p'")
    case None
    then show ?thesis using "2.IH"(1) [OF ok None] "2.prems" ok by (auto split: if_splits)
  next
    case (Some m)
    then have "io 1 = None" using "2.prems" ok by (cases "io 1") (auto simp: set_permissions_def)
    then have "set_permissions (io 1) p' 384 fs = (Inr (), AList.update p' 384 fs)" using Some by (simp add: set_permissions_def)
    then have "secure_files (\<lambda>i. io (2 + i)) ps (AList.update p' 384 fs) = (Inr (), fs')"
      and "secure_files (\<lambda>i. io (2 + i)) ps (AList.update p' 384 fs) = (Inr (), fs') \<Longrightarrow>
        map_of fs' p = (if p \<in> set ps \<and> map_of (AList.update p' 384 fs) p \<noteq> None then Some 384 else map_of (AList.update p' 384 fs) p)"
      using "2.prems" "2.IH"(2) [OF ok] ok Some by auto
    then show ?thesis using Some by auto
  qed
qed auto

text \<open>
  An opened database is private: its file and those beside it have mode 600, its directory has mode
  700 as long as SQLite leaves the directory alone.
\<close>

lemma open_database_private:
  assumes "open_database mode connect body io path fs = (Inr d, fs')"
  shows "p \<in> set (database_files path) \<Longrightarrow> map_of fs' p = None \<or> map_of fs' p = Some 384"
    and "database_parent path = Some q \<Longrightarrow> (\<And>url fs1. map_of (snd (connect url fs1)) q = map_of fs1 q) \<Longrightarrow>
      (\<And>fs1. map_of (snd (body fs1)) q = map_of fs1 q) \<Longrightarrow> map_of fs' q = Some 448"
proof -
  obtain fs1 fs2 fs3 fs4 where o: "prepare_dir mode io path fs = (Inr (), fs1)" "connect (database_url path) fs1 = (Inr (), fs2)"
    "secure_database_files (\<lambda>i. io (2 + i)) path fs2 = (Inr (), fs3)" "body fs3 = (Inr d, fs4)"
    "secure_database_files (\<lambda>i. io (8 + i)) path fs4 = (Inr (), fs')"
    using assms by (auto simp: open_database_def split: prod.splits sum.splits)
  note sec = o(3,5) [unfolded secure_database_files_def, THEN secure_files_modes]
  show "map_of fs' p = None \<or> map_of fs' p = Some 384" if "p \<in> set (database_files path)" using sec(2) [of p] that by (simp split: if_splits)
  assume q: "database_parent path = Some q" and keep: "\<And>url fs1. map_of (snd (connect url fs1)) q = map_of fs1 q"
    "\<And>fs1. map_of (snd (body fs1)) q = map_of fs1 q"
  have "length q < length path" using q path_parent_shorter [of path] by (auto simp: database_parent_def split: option.splits if_splits)
  then have "q \<notin> set (database_files path)" by (auto simp: database_files_def sqlite_sidecar_path_def)
  moreover have "map_of fs1 q = Some 448"
    using o(1) q by (auto simp: prepare_dir_def secure_database_dir_def set_permissions_def split: option.splits if_splits)
  ultimately show "map_of fs' q = Some 448"
    using sec(1) [of q] sec(2) [of q] keep(1) [of "database_url path" fs1] keep(2) [of fs3] o(2,4) by simp
qed

section \<open>An interrupted migration\<close>

text \<open>
  The statements of the legacy migration are not one transaction. When the process stops after the
  clients table was renamed, the next start makes a new, empty table, finds no legacy column in
  it and reports success: the clients stay behind in \<^verbatim>\<open>clients_legacy\<close> and cannot connect.
\<close>

lemma interrupted_migration_loses_clients:
  assumes "old_schema s" "map_of s ''clients'' = Some t"
  shows "\<exists>s1 s2 t'. exec legacy_stmts (\<lambda>i. i \<noteq> 3) s = (Inl db_error, s1) \<and> migrate no_failure s1 = (Inr (), s2) \<and>
    map_of s2 ''clients'' = Some t' \<and> tb_rows t' = [] \<and> map_of s2 ''clients_legacy'' = Some t"
proof -
  let ?s0 = "AList.delete ''clients_legacy'' (AList.delete ''clients_new'' s)"
  let ?s1 = "AList.delete ''clients'' ?s0 @ [(''clients_legacy'', t)]"
  have r: "rename_table ''clients'' ''clients_legacy'' ?s0 = Inr ?s1" using assms(2) unfolding rename_table_def by simp
  have e: "exec legacy_stmts (\<lambda>i. i \<noteq> 3) s = (Inl db_error, ?s1)"
    unfolding legacy_stmts_def by (simp add: drop_table_if_exists_def r)
  have m: "map_of ?s1 n = (if n = ''clients'' \<or> n = ''clients_new'' then None else if n = ''clients_legacy'' then Some t else map_of s n)" for n
    by (auto simp: map_add_def split: option.split)
  have "''clients_legacy'' \<notin> set (keys (AList.delete ''clients'' ?s0))" by (simp add: map_of_eq_None_iff [symmetric])
  then have "distinct (keys ?s1)" using assms(1) by (simp add: old_schema_def)
  moreover have "case map_of ?s1 n of None \<Rightarrow> True | Some t0 \<Rightarrow> set (column_names u) \<subseteq> set (column_names t0) \<union> optional_columns n"
    if "(n, u) \<in> set rps_tables" for n u
  proof -
    have "n \<noteq> ''clients_legacy''" using that rps_tables_names(3) by force
    then show ?thesis unfolding m using old_schemaD [OF assms(1) that] by (auto split: option.split)
  qed
  then have "\<forall>(n, u) \<in> set rps_tables. case map_of ?s1 n of None \<Rightarrow> True
      | Some t0 \<Rightarrow> set (column_names u) \<subseteq> set (column_names t0) \<union> optional_columns n" by blast
  moreover have "map_of ?s1 ''clients'' = None" unfolding m by simp
  ultimately have o: "old_schema ?s1" unfolding old_schema_def list_all_iff by (simp only: option.case)
  have nl: "\<not> is_legacy ?s1" using m by (simp add: is_legacy_def has_column_def)
  obtain s2 ix where s2: "migrate no_failure ?s1 = (Inr (), s2)" "\<forall>n. map_of s2 n = migrated_table ?s1 ix n" using migrate_shape [OF o] by blast
  have "map_of s2 ''clients'' = Some ((upgraded_clients clients_table)\<lparr>tb_indexes := ix\<rparr>)"
    using s2(2) m rps_tables_facts(2) by (simp add: migrated_table_def present_table_def)
  moreover have "tb_rows (upgraded_clients clients_table) = []"
    using rps_tables_facts(3) by (simp add: upgraded_clients_def add_missing_def clients_table_def new_table_def)
  moreover have "columns_for ''clients_legacy'' ensured_columns = []" by (simp add: columns_for_def ensured_columns_def)
  then have "map_of s2 ''clients_legacy'' = Some t" using s2(2) m nl by (simp add: migrated_table_def present_table_def)
  ultimately show ?thesis using e s2(1) by auto
qed

section \<open>Properties\<close>

text \<open>
  C22: A database of an earlier version is brought to today's schema. If the statements succeed,
  \<^verbatim>\<open>migrate\<close> succeeds on any file whose tables have at least the columns that were there from
  the start; afterwards every table has every column the code uses; every table that was there
  still has all its rows, in order, with their values; a legacy clients table has become exactly
  the clients that have a key, by the rules of \<open>migrate_clients_psk\<close>; and a second
  migration changes nothing.
\<close>

theorem migration_upgrades:
  assumes "old_schema s"
  shows "\<exists>s'. migrate no_failure s = (Inr (), s') \<and>
    list_all (\<lambda>(n, t). case map_of s' n of None \<Rightarrow> False | Some t' \<Rightarrow> set (column_names t) \<subseteq> set (column_names t')) rps_tables \<and>
    (\<forall>n t. map_of s n = Some t \<longrightarrow> \<not> (is_legacy s \<and> n \<in> {''clients'', ''clients_new'', ''clients_legacy''}) \<longrightarrow>
       (\<exists>t'. map_of s' n = Some t' \<and> upgraded t t')) \<and>
    (\<forall>t rs. map_of s ''clients'' = Some t \<longrightarrow> is_legacy s \<longrightarrow> list_all2 legacy_like rs (tb_rows t) \<longrightarrow>
       (\<exists>t'. map_of s' ''clients'' = Some t' \<and> tb_rows t' = map client_values (migrate_clients_psk rs []))) \<and>
    migrate no_failure s' = (Inr (), s')"
proof -
  obtain s' ix where s': "migrate no_failure s = (Inr (), s')" "index_exists idx_name s'" "\<forall>n. map_of s' n = migrated_table s ix n"
    using migrate_shape [OF assms] by blast
  have "list_all (\<lambda>(n, t). case map_of s' n of None \<Rightarrow> False | Some t' \<Rightarrow> set (column_names t) \<subseteq> set (column_names t')) rps_tables"
    unfolding list_all_iff
  proof (intro ballI, clarify)
    fix n t
    assume "(n, t) \<in> set rps_tables"
    from migrated_columns [OF assms this, of ix]
    show "case map_of s' n of None \<Rightarrow> False | Some t' \<Rightarrow> set (column_names t) \<subseteq> set (column_names t')"
      unfolding s'(3) [rule_format] by (auto split: option.split)
  qed
  moreover have "migrate no_failure s' = (Inr (), s')" by (rule settled_migrate [OF migrated_settled [OF assms s'(2,3)]])
  moreover have "\<exists>t'. map_of s' n = Some t' \<and> upgraded t t'"
    if "map_of s n = Some t" "\<not> (is_legacy s \<and> n \<in> {''clients'', ''clients_new'', ''clients_legacy''})" for n t
    unfolding s'(3) [rule_format] by (rule migrated_rows [OF that])
  moreover have "\<exists>t'. map_of s' ''clients'' = Some t' \<and> tb_rows t' = map client_values (migrate_clients_psk rs [])"
    if "map_of s ''clients'' = Some t" "is_legacy s" "list_all2 legacy_like rs (tb_rows t)" for t rs
    unfolding s'(3) [rule_format] by (rule migrated_clients [OF that])
  ultimately show ?thesis using s'(1) by (intro exI [of _ s'] conjI allI impI)
qed

definition demo_legacy_row :: sql_row where
  "demo_legacy_row = [(''id'', VText ''c1''), (''vkey'', VText ''k1''), (''enabled'', VNum (SqlInt 1)), (''remark'', VNull),
     (''max_connections'', VNull), (''compress'', VNum (SqlInt 0)), (''encrypt'', VNum (SqlInt 0)),
     (''created_at'', VNum (SqlInt 7)), (''updated_at'', VNum (SqlInt 7))]"

definition demo_legacy_store :: sql_store where
  "demo_legacy_store =
     [(''clients'',
       (new_table [opt_col ''id'', req_col ''vkey'', int_col ''enabled'' 1, opt_col ''remark'', opt_col ''max_connections'',
          int_col ''compress'' 0, int_col ''encrypt'' 0, req_col ''created_at'', req_col ''updated_at''] [[''id''], [''vkey'']])
         \<lparr>tb_rows := [demo_legacy_row]\<rparr>)]"

theorem migration_upgrades_witness:
  "\<exists>s' t'. migrate no_failure demo_legacy_store = (Inr (), s') \<and> map_of s' ''clients'' = Some t' \<and>
     map (sql_get ''psk'') (tb_rows t') = [VText ''k1''] \<and> migrate no_failure s' = (Inr (), s')"
proof -
  let ?r = "\<lparr>c_id = ''c1'', c_psk = '''', c_enabled = 1, c_remark = None, c_max_connections = None, c_compress = 0, c_encrypt = 0,
    c_created_at = 7, c_updated_at = 7, lc_psk = None, lc_vkey = Some ''k1''\<rparr>"
  obtain t where t: "map_of demo_legacy_store ''clients'' = Some t" "tb_rows t = [demo_legacy_row]"
    by (simp add: demo_legacy_store_def new_table_def)
  have o: "old_schema demo_legacy_store" by code_simp
  have l: "is_legacy demo_legacy_store" by code_simp
  have "list_all2 legacy_like [?r] (tb_rows t)" unfolding t(2) by code_simp
  moreover have "map (sql_get ''psk'') (map client_values (migrate_clients_psk [?r] [])) = [VText ''k1'']" by code_simp
  ultimately show ?thesis using migration_upgrades [OF o] t(1) l by metis
qed

end
