(* ===== verification/Spec2Isabelle.thy ===== *)
theory Spec2Isabelle
  imports Mux_Session Noise Protocol Db_Traffic Policy Traffic Proxy_Manager Tunnel_Manager Agent_Run Listeners Console_Inv Loadtest Db_Schema
begin

text \<open>
  A verification development of rps, a reverse proxy in Rust. An agent (\<^verbatim>\<open>crates/rps-agent\<close>)
  behind a firewall keeps encrypted connections to a public controller
  (\<^verbatim>\<open>crates/rps-controller\<close>). The controller listens for users on TCP and UDP tunnels, an
  HTTP proxy and a SOCKS5 proxy, asks an agent to connect to a target, and copies bytes. It
  keeps clients, tunnels, proxy accounts and traffic in SQLite, enforces expiry times and
  traffic limits, and is managed over a web console. \<^verbatim>\<open>crates/rps-core\<close> and
  \<^verbatim>\<open>crates/rps-mux\<close> hold what both sides share; \<^verbatim>\<open>crates/rps-loadtest\<close> and
  \<^verbatim>\<open>crates/rps-test-target\<close> are a load generator and its target.

  \<^bold>\<open>The shared library.\<close>
  \<^item> \<open>Prelude\<close>: machine integers as words, errors as values (\<open>error + 'a\<close>, \<open>Inl\<close> the
    error), byte readers, big-endian codecs, saturating arithmetic, association lists as maps;
    the locales \<open>invariant_system\<close> (initial states, a step relation, an invariant) and
    \<open>wire_codec\<close> (a writer and a reader of delimited messages).
  \<^item> \<open>Rust_Str\<close>, \<open>Ip_Text\<close>: the functions of the Rust standard library on strings and the text of
    IP addresses. A string is the list of its UTF-8 bytes as characters.
  \<^item> \<open>Table\<close>: SQL tables as lists of rows, with the statements the code uses.
  \<^item> \<open>Registry\<close>: the locale \<open>session_registry\<close>, the contract of the two session managers.

  \<^bold>\<open>The components\<close>, each with the source file it models:
  \<^item> \<open>Frame\<close>, \<open>Mux_Session\<close> (\<^verbatim>\<open>rps-mux/src/frame.rs\<close>, \<^verbatim>\<open>session.rs\<close>): frames and their codec;
    the reader and the writer task as steps on the record \<open>mux\<close>.
  \<^item> \<open>Protocol\<close>, \<open>Config\<close>, \<open>Noise\<close> (\<^verbatim>\<open>rps-core/src\<close>): messages and their framing; configuration;
    key decoding, handshake and the two transport tasks.
  \<^item> \<open>Net\<close> (\<^verbatim>\<open>rps-core/src/net.rs\<close>): the tuning of sockets.
  \<^item> \<open>Db\<close>, \<open>Db_Inv\<close>, \<open>Db_Traffic\<close>, \<open>Db_Schema\<close> (\<^verbatim>\<open>db.rs\<close>): rows, every method statement by
    statement, the invariant, the accounting, and the opening and migration of the file.
  \<^item> \<open>Policy\<close>, \<open>Traffic\<close>, \<open>Proxy_Manager\<close>, \<open>Tunnel_Manager\<close>, \<open>Controller\<close> (\<^verbatim>\<open>policy.rs\<close>,
    \<^verbatim>\<open>traffic.rs\<close>, \<^verbatim>\<open>proxy_manager.rs\<close>, \<^verbatim>\<open>tunnel_manager.rs\<close>, \<^verbatim>\<open>main.rs\<close>): the enforcer with
    its revoke queue, the batching of samples, the session managers, the shared \<open>app_state\<close>,
    the start of the controller and the policy task.
  \<^item> \<open>Proxy_Tcp\<close>, \<open>Proxy_Udp\<close>, \<open>Http_Proxy\<close>, \<open>Socks5\<close>, \<open>Socks5_Udp\<close> (\<^verbatim>\<open>proxy_tcp.rs\<close>,
    \<^verbatim>\<open>proxy_udp.rs\<close>, \<^verbatim>\<open>proxy_http.rs\<close>, \<^verbatim>\<open>proxy_socks5.rs\<close>): the user-facing side.
  \<^item> \<open>Listeners\<close> (the accept loops of \<^verbatim>\<open>proxy_tcp.rs\<close>, \<^verbatim>\<open>bridge.rs\<close>, \<^verbatim>\<open>proxy_http.rs\<close> and
    \<^verbatim>\<open>proxy_socks5.rs\<close>): which connections are served, and the address UDP clients are told.
  \<^item> \<open>Bridge\<close> (\<^verbatim>\<open>bridge.rs\<close>) and \<open>Agent\<close>, \<open>Agent_Run\<close> (\<^verbatim>\<open>rps-agent/src/main.rs\<close>): the
    two ends of the link between controller and agent; \<open>Agent\<close> has the configuration, the
    handshake, the pool manager and the opening of targets, \<open>Agent_Run\<close> the relays of mux
    streams with the waiting that ends them, and the sessions of the agent.
  \<^item> \<open>Web_Auth\<close>, \<open>Web_Api\<close>, \<open>Console_Inv\<close> (\<^verbatim>\<open>web.rs\<close>): sessions and logins, the handlers, and the
    invariant that ties database, policies and tunnels together.
  \<^item> \<open>Test_Target\<close>, \<open>Loadtest\<close>: the target and the load generator.
  \<^item> This theory: the properties that span components.

  \<^bold>\<open>How the code is modelled.\<close> A struct is a record with prefixed fields, an enum a datatype. A
  method that changes state takes the state and returns it; shared objects (mux sessions, pools,
  watch channels, runtimes) live in lists and are named by their position, so that aliases
  stay visible. A task that loops is a function of one turn (\<open>pipe_turn\<close>, \<open>policy_turn\<close>,
  \<open>udp_socket_turn\<close>, \<open>mux_reader_step\<close>) and a run is a fold over any list of turns, or an
  inductive step relation with its reachable states; so the theorems hold for every interleaving
  of turns. What the surroundings decide is an argument: the clock \<open>now\<close>, generated ids,
  whether the n-th SQL statement succeeds (\<open>q n\<close>), whether a write succeeds, how many bytes a
  read gives, whether a bind succeeds. Third-party code is a parameter: the Noise library
  \<open>lib\<close> (contract \<open>noise_sync\<close>, \<open>noise_handshake\<close>, \<open>noise_psk_auth\<close>), serde_json, Base64,
  HMAC-SHA1; every theorem with such a hypothesis has a witness that instantiates it.

  \<^bold>\<open>What is shown.\<close>
  \<^item> Composition: the path of a user's bytes through controller, encryption and agent refines two
    byte pipes (\<open>tunnel_end_to_end\<close>); reaching a limit cuts a resource off (\<open>limit_cuts_off\<close>);
    database, policies and tunnels agree in every reachable state (\<open>console_agreement\<close>); agent
    and bridge, pool request and answer, load generator and proxy agree.
  \<^item> Admission: exact characterisations of who is admitted by the bridge, the SOCKS5 and the HTTP
    proxy and the console; a session store that refines a set of grants.
  \<^item> Transport: codecs are exact inverses with their errors characterised; mux streams and the
    encrypted transport deliver in order, and under failures a prefix; the handler of a TCP
    target relays a stream so in every interleaving (\<open>tcp_target_relay\<close>).
  \<^item> State: invariants of the mux tables, the session managers, the pool, the UDP tables, the
    client map and the database by rule induction; every enabled limit is enforced exactly and
    every revocation is announced once; accounting is exact and independent of batching.
  \<^item> Endings: pipes complete, a shutdown ends them, transfers of the generator end.

  \<^bold>\<open>Interfaces.\<close> \<open>wire_codec\<close> is interpreted by frames and by Noise messages; \<open>invariant_system\<close>
  by the mux session, the database, both session managers, the pool manager, the agent, the SOCKS5
  relay and the whole controller; \<open>session_registry\<close> by both managers; \<open>revocable\<close> by tunnels and
  accounts, for the policy task; \<open>traffic_column\<close> by the four kinds of counters.

  \<^bold>\<open>Bounds.\<close> No fuel is used: loops recurse over their input or have a termination proof, and the
  one loop that may run forever (\<open>write_chunks\<close> with an empty chunk) is a partial function with
  the proof that it returns. Sizes are those of the code (16 KiB chunks, 65535-byte messages,
  4096 queued revocations, 32 pooled connections); counters keep their width, with the
  wrap-around of \<^verbatim>\<open>fetch_add\<close> and the conversion of SQLite's sums to reals.

  \<^bold>\<open>Not modelled\<close>: the scheduling of tokio, the capacity of queues whose sender waits, logging and
  command lines; routing, body decoding and static files of axum and tower-http, and the web
  interface in the browser; the floating-point rates, percentiles and the text of the load
  generator's reports, which are IEEE arithmetic and formatting of it; how long timers run (the
  order of what they lead to is arbitrary); the spawning of the controller's background tasks
  in \<^verbatim>\<open>main\<close>, each of which is modelled by itself.
\<close>

section \<open>A connection from end to end\<close>

text \<open>A byte pipe: what came out is a prefix of what went in, and all of it once it has ended well.\<close>

definition byte_pipe :: "bytes \<Rightarrow> bytes \<Rightarrow> bool \<Rightarrow> bool" where
  "byte_pipe sent received ended_well \<longleftrightarrow> prefix received sent \<and> (ended_well \<longrightarrow> received = sent)"

lemma byte_pipe_comp: "byte_pipe a b x \<Longrightarrow> byte_pipe b c y \<Longrightarrow> byte_pipe a c (x \<and> y)"
  by (auto simp: byte_pipe_def dest: prefix_order.trans)

lemma byte_pipe_weaken: "byte_pipe a b x \<Longrightarrow> (y \<Longrightarrow> x) \<Longrightarrow> byte_pipe a b y"
  by (auto simp: byte_pipe_def)

lemma copied_pipe: "copied a i b f t \<Longrightarrow> byte_pipe a b (t = TaskOk)"
  by (auto simp: copied_def byte_pipe_def)

text \<open>The encrypted connection: the sending task takes chunks of what was written, the connection may be cut after \<open>k\<close> bytes,
  and the writes to it and to the receiving application may fail.\<close>

definition carried :: "('h, 's) snow \<Rightarrow> 's \<Rightarrow> 's \<Rightarrow> (nat \<Rightarrow> bool) \<Rightarrow> (nat \<Rightarrow> bool) \<Rightarrow> nat \<Rightarrow> bytes list \<Rightarrow> bytes" where
  "carried lib s r io app k chunks = inbound_loop lib r app (take k (outbound_loop lib s io chunks))"

definition chunks_of :: "bytes list \<Rightarrow> bytes \<Rightarrow> bool" where
  "chunks_of chunks written \<longleftrightarrow> prefix (concat chunks) written \<and> list_all (\<lambda>p. p \<noteq> [] \<and> length p \<le> MAX_TRANSPORT_PLAINTEXT_LEN) chunks"

lemma carried_pipe:
  assumes "noise_sync lib R" and "R n s r" and "length chunks \<le> n" and "chunks_of chunks written"
  shows "byte_pipe written (carried lib s r io app k chunks)
           (concat chunks = written \<and> (\<forall>i. io i \<and> app i) \<and> length (outbound_loop lib s io chunks) \<le> k)"
proof -
  have c: "\<forall>p \<in> set chunks. p \<noteq> [] \<and> length p \<le> MAX_TRANSPORT_PLAINTEXT_LEN" using assms(4) by (simp add: chunks_of_def list_all_iff)
  obtain j where j: "carried lib s r io app k chunks = concat (take j chunks)"
    using transport_failing [OF assms(1-3) c, of app k io] unfolding carried_def by blast
  have "prefix (concat (take j chunks)) (concat chunks)"
    by (metis append_take_drop_id concat_append prefix_def)
  then have "prefix (carried lib s r io app k chunks) written" using assms(4) j by (auto simp: chunks_of_def dest: prefix_order.trans)
  moreover have "carried lib s r io app k chunks = written"
    if "concat chunks = written" "\<forall>i. io i \<and> app i" "length (outbound_loop lib s io chunks) \<le> k"
  proof -
    have "io = all_ok" "app = all_ok" using that(2) by auto
    then show ?thesis using transport_whole [OF assms(1-3) c] that(1,3) by (simp add: carried_def)
  qed
  ultimately show ?thesis by (simp add: byte_pipe_def)
qed



text \<open>Four bytes up and two down, over the stand-in for the Noise library.\<close>

definition demo_turns :: "pipe_event list" where
  "demo_turns = [UplinkRead 9 True, DownlinkRead 9 True, DownlinkRead 9 True, UplinkRead 9 True]"

definition demo_sent :: "pipe \<times> app_state" where
  "demo_sent = fold (pipe_turn (Some demo_route)) demo_turns (demo_pipe, recorder_add demo_route 0 1 demo_state)"

definition demo_relay :: pipe where
  "demo_relay = fold relay_turn demo_turns (relay_start [1, 2, 3, 4] [8, 9])"


section \<open>Limits\<close>

text \<open>The sample that reaches the limit queues one event and marks the policy.\<close>

lemma usage_revokes:
  assumes "map_of (policies e) key = Some pol" and "\<not> ps_revoked pol" and "ps_traffic_limit_bytes pol = Some limit"
    and "resource_key_from_route route = Some key" and "0 < unat rx + unat tx" and "unat limit \<le> unat (ps_used_bytes pol) + unat rx + unat tx"
    and "length (revoke_rx e) < REVOKE_QUEUE_CAPACITY"
  shows "revoke_rx (record_route_usage route rx tx e) = revoke_rx e @ [\<lparr>rv_key = key, rv_reason = TrafficExhausted\<rparr>]"
    and "\<exists>pol'. map_of (policies (record_route_usage route rx tx e)) key = Some pol' \<and> ps_revoked pol'"
proof -
  have d: "sat_add rx tx \<noteq> 0" using sat_add_eq_0 [of rx tx] assms(5) by auto
  have l: "limit \<le> sat_add (ps_used_bytes pol) (sat_add rx tx)"
    using usage_below [of "ps_used_bytes pol" rx tx limit] assms(6) unat_u64_less [of limit]
    by (auto simp: word_le_nat_alt unat_sat_add min_def)
  show "revoke_rx (record_route_usage route rx tx e) = revoke_rx e @ [\<lparr>rv_key = key, rv_reason = TrafficExhausted\<rparr>]"
    "\<exists>pol'. map_of (policies (record_route_usage route rx tx e)) key = Some pol' \<and> ps_revoked pol'"
    using assms d l by (simp_all add: record_route_usage_def Let_def revoke_once_def)
qed

definition sessions_of :: "resource_key \<Rightarrow> app_state \<Rightarrow> tunnel_guard set \<times> proxy_guard set" where
  "sessions_of key st =
     ({g. tm_live (app_tunnels st) g \<and> tm_owner (app_tunnels st) g = Some (rk_id key)},
      {g. pm_live (app_proxies st) g \<and> pm_owner (app_proxies st) g = Some (rk_id key)})"

definition resource_off :: "resource_key \<Rightarrow> tunnel_guard set \<times> proxy_guard set \<Rightarrow> app_state \<Rightarrow> bool" where
  "resource_off key sessions st =
     (case rk_kind key of
        RTunnel \<Rightarrow> tunnel_off (fst sessions) (rk_id key) st
      | RProxyAccount \<Rightarrow> account_off (snd sessions) (rk_id key) st)"

text \<open>C2: a traffic limit cuts a resource off. As soon as the bytes recorded for a tunnel or a proxy account reach its limit,
  and the policy task has handled the events that were queued, no row of the database enables the resource, it has no
  running listener respectively no registered session, each of its live sessions has been told to shut down, and
  no new connection is allowed. The queue must have room for one event.\<close>

theorem limit_cuts_off:
  assumes "map_of (policies (app_policy st)) key = Some pol" and "\<not> ps_revoked pol" and "ps_traffic_limit_bytes pol = Some limit"
    and "resource_key_from_route (sr_tunnel_id r) = Some key" and "0 < unat rx + unat tx"
    and "unat limit \<le> unat (ps_used_bytes pol) + unat rx + unat tx"
    and "length (revoke_rx (app_policy st)) < REVOKE_QUEUE_CAPACITY" and "length (revoke_rx (app_policy st)) < n"
    and "tm_inv (app_tunnels st)" and "pm_inv (app_proxies st)" and "q 0"
    and "st' = (policy_turn q now RecvRevoke ^^ n) (recorder_add r rx tx st)"
  shows "resource_off key (sessions_of key st) st' \<and> \<not> fst (allowed now' key (app_policy st'))"
proof -
  let ?st1 = "recorder_add r rx tx st"
  note use = usage_revokes [OF assms(1-7)]
  have p1: "app_policy ?st1 = record_route_usage (sr_tunnel_id r) rx tx (app_policy st)" by (simp add: recorder_add_def)
  have st': "st' = (fold (revoke q now) (revoke_rx (app_policy ?st1)) ?st1)\<lparr>app_policy := (app_policy ?st1)\<lparr>revoke_rx := []\<rparr>\<rparr>"
    unfolding assms(12) by (rule drain_queue) (use assms(8) in \<open>simp add: p1 use(1)\<close>)
  have q1: "key \<in> set (map rv_key (revoke_rx (app_policy ?st1)))" by (simp add: p1 use(1))
  have off: "resource_off key (sessions_of key st) st'"
  proof (cases "rk_kind key")
    case RTunnel
    then have k: "\<lparr>rk_kind = RTunnel, rk_id = rk_id key\<rparr> = key" by (cases key) simp
    have "tunnel_armed (fst (sessions_of key st)) (rk_id key) ?st1"
      using assms(9) by (simp add: tunnel_armed_def sessions_of_def recorder_add_def)
    then have "tunnel_off (fst (sessions_of key st)) (rk_id key) (fold (revoke q now) (revoke_rx (app_policy ?st1)) ?st1)"
      by (rule tunnel_revocable.revoke_fold_off) (use assms(11) q1 k in simp_all)
    then show ?thesis using RTunnel by (simp add: resource_off_def st' tunnel_revocable.off_policy)
  next
    case RProxyAccount
    then have k: "\<lparr>rk_kind = RProxyAccount, rk_id = rk_id key\<rparr> = key" by (cases key) simp
    have "account_armed (snd (sessions_of key st)) (rk_id key) ?st1"
      using assms(10) by (simp add: account_armed_def sessions_of_def recorder_add_def)
    then have "account_off (snd (sessions_of key st)) (rk_id key) (fold (revoke q now) (revoke_rx (app_policy ?st1)) ?st1)"
      by (rule account_revocable.revoke_fold_off) (use assms(11) q1 k in simp_all)
    then show ?thesis using RProxyAccount by (simp add: resource_off_def st' account_revocable.off_policy)
  qed
  moreover have "\<not> fst (allowed now' key (app_policy st'))"
    using use(2) by (auto simp: st' p1 allowed_def)
  ultimately show ?thesis by simp
qed

definition demo_limited :: app_state where
  "demo_limited = demo_state\<lparr>app_tunnels := demo_session,
     app_policy := register_policy (tunnel_key ''t1'') None (Some 10) 4 PolicyEnforcer_channel\<rparr>"

theorem limit_cuts_off_witness:
  "tunnel_off {\<lparr>tg_id = ''s1'', tg_runtime = 0, tg_shutdown = 0\<rparr>} ''t1''
     ((policy_turn (\<lambda>_. True) 7 RecvRevoke ^^ 1) (recorder_add demo_route 2 4 demo_limited))"
proof -
  let ?g = "\<lparr>tg_id = ''s1'', tg_runtime = 0, tg_shutdown = 0\<rparr>"
  have inv: "tm_inv (app_tunnels demo_limited)" "pm_inv (app_proxies demo_limited)"
    using tm_sys.reachable_inv [OF demo_session_reachable]
    by (simp_all add: demo_limited_def demo_state_def AppState_new_def ProxyManager_new_def pm_inv_def)
  have pol: "map_of (policies (app_policy demo_limited)) (tunnel_key ''t1'') =
      Some \<lparr>ps_expires_at = None, ps_traffic_limit_bytes = Some 10, ps_used_bytes = 4, ps_revoked = False\<rparr>"
    "revoke_rx (app_policy demo_limited) = []" "resource_key_from_route (sr_tunnel_id demo_route) = Some (tunnel_key ''t1'')"
    by code_simp+
  have k: "rk_kind (tunnel_key ''t1'') = RTunnel" "rk_id (tunnel_key ''t1'') = ''t1''" by (simp_all add: tunnel_key_def)
  have g: "?g \<in> fst (sessions_of (tunnel_key ''t1'') demo_limited)"
    by (simp add: sessions_of_def k demo_limited_def tm_live_def tm_owner_def demo_tm_defs Let_def)
  show ?thesis
    using limit_cuts_off [OF pol(1) _ _ pol(3), of 10 2 4 1 "\<lambda>_. True" _ 7] inv pol(2) g
    by (auto simp: resource_off_def k tunnel_off_def REVOKE_QUEUE_CAPACITY_def)
qed

end
